(* ===== verification/Prelude.thy ===== *)
theory Prelude
  imports Main "HOL-Library.Word" "HOL-Library.Code_Target_Numeral"
begin

text \<open>
  Shared vocabulary of the development: the machine integers of the Rust sources, the checked
  operations of the Rust integer types that the crate uses (they return \<open>None\<close> instead of
  wrapping), little-endian readings of byte slices, and generic facts on lists and words.
\<close>

unbundle bit_operations_syntax

type_synonym u8 = "8 word"
type_synonym u16 = "16 word"
type_synonym u32 = "32 word"
type_synonym u64 = "64 word"

type_synonym byte_slice = "u8 list"

named_theorems word_nat
  \<open>facts that turn comparisons and checked operations on words into facts on natural numbers\<close>


section \<open>Checked integer operations\<close>

definition checked_add :: "'a::len word \<Rightarrow> 'a word \<Rightarrow> 'a word option" where
  "checked_add a b = (if unat a + unat b < 2 ^ LENGTH('a) then Some (a + b) else None)"

definition checked_sub :: "'a::len word \<Rightarrow> 'a word \<Rightarrow> 'a word option" where
  "checked_sub a b = (if b \<le> a then Some (a - b) else None)"

definition checked_mul :: "'a::len word \<Rightarrow> 'a word \<Rightarrow> 'a word option" where
  "checked_mul a b = (if unat a * unat b < 2 ^ LENGTH('a) then Some (a * b) else None)"

text \<open>\<open>checked_shl\<close> fails on the shift amount only; bits shifted out are lost.\<close>

definition checked_shl :: "'a::len word \<Rightarrow> nat \<Rightarrow> 'a word option" where
  "checked_shl a n = (if n < LENGTH('a) then Some (push_bit n a) else None)"

lemma unat_less_64 [simp]: "unat (w :: u64) < 18446744073709551616"
  using unsigned_less [of w, where 'a = nat] by simp

lemma unat_less_32 [simp]: "unat (w :: u32) < 4294967296"
  using unsigned_less [of w, where 'a = nat] by simp

lemma unat_less_8 [simp]: "unat (w :: u8) < 256"
  using unsigned_less [of w, where 'a = nat] by simp

lemma unat_max_u64 [simp]: "unat (- 1 :: u64) = 18446744073709551615"
  by (simp add: unsigned_minus_1_eq_mask mask_eq_exp_minus_1)

lemma two_power_64: "(2 :: nat) ^ 64 = 18446744073709551616"
  by simp

lemma checked_add_eq_Some [word_nat]:
  "checked_add a b = Some c \<longleftrightarrow> unat a + unat b = unat c"
proof -
  have "unat c < 2 ^ LENGTH('a)" by (rule unsigned_less)
  then show ?thesis
    by (auto simp: checked_add_def unat_word_ariths word_unat_eq_iff)
qed

lemma checked_add_eq_None [word_nat]:
  "checked_add (a :: 'a::len word) b = None \<longleftrightarrow> 2 ^ LENGTH('a) \<le> unat a + unat b"
  by (auto simp: checked_add_def)

lemma checked_sub_eq_Some [word_nat]:
  "checked_sub a b = Some c \<longleftrightarrow> unat a = unat b + unat c"
  by (auto simp: checked_sub_def word_le_nat_alt unat_sub word_unat_eq_iff)

lemma checked_sub_eq_None [word_nat]: "checked_sub a b = None \<longleftrightarrow> unat a < unat b"
  by (auto simp: checked_sub_def word_le_nat_alt)

lemma checked_mul_eq_Some [word_nat]:
  "checked_mul a b = Some c \<longleftrightarrow> unat a * unat b = unat c"
proof -
  have "unat c < 2 ^ LENGTH('a)" by (rule unsigned_less)
  then show ?thesis
    by (auto simp: checked_mul_def unat_word_ariths word_unat_eq_iff)
qed

lemma unat_of_nat_u64 [simp]: "n < 18446744073709551616 \<Longrightarrow> unat (of_nat n :: u64) = n"
  by (simp add: unat_of_nat)

lemma unat_of_nat_le_u64: "unat (of_nat n :: u64) \<le> n"
  by (simp add: unat_of_nat)

lemma unat_pos_iff [word_nat]: "0 < unat w \<longleftrightarrow> w \<noteq> 0"
  by (simp add: unat_gt_0)

declare word_le_nat_alt [word_nat] word_less_nat_alt [word_nat]


section \<open>Little-endian readings\<close>

text \<open>\<open>uN::from_le_bytes\<close>: the first byte of the slice is the least significant one.\<close>

fun le_nat :: "byte_slice \<Rightarrow> nat" where
  "le_nat [] = 0"
| "le_nat (b # bs) = unat b + 256 * le_nat bs"

definition from_le_bytes :: "byte_slice \<Rightarrow> 'a::len word" where
  "from_le_bytes bs = word_of_nat (le_nat bs)"

text \<open>\<open>uN::to_le_bytes\<close> for a value of \<open>n\<close> bytes.\<close>

fun to_le_bytes :: "nat \<Rightarrow> nat \<Rightarrow> byte_slice" where
  "to_le_bytes 0 v = []"
| "to_le_bytes (Suc n) v = of_nat (v mod 256) # to_le_bytes n (v div 256)"

lemma length_to_le_bytes [simp]: "length (to_le_bytes n v) = n"
  by (induction n arbitrary: v) auto

lemma le_nat_bound: "le_nat bs < 256 ^ length bs"
proof (induction bs)
  case (Cons b bs)
  have "unat b + 256 * le_nat bs < 256 + 256 * le_nat bs" by simp
  also have "\<dots> \<le> 256 * 256 ^ length bs" using Cons.IH by (simp add: Suc_le_eq [symmetric])
  finally show ?case by simp
qed simp

lemma le_nat_to_le_bytes: "le_nat (to_le_bytes n v) = v mod 256 ^ n"
proof (induction n arbitrary: v)
  case (Suc n)
  have "v mod (256 * 256 ^ n) = 256 * (v div 256 mod 256 ^ n) + v mod 256"
    by (rule mod_mult2_eq)
  then show ?case by (simp add: Suc.IH unat_of_nat)
qed simp

lemma to_le_bytes_le_nat: "to_le_bytes (length bs) (le_nat bs) = bs"
  by (induction bs) (auto simp: mod_mult_self2 word_unat_eq_iff unat_of_nat)

lemma from_le_bytes_to_le_bytes_u32 [simp]: "from_le_bytes (to_le_bytes 4 (unat (w :: u32))) = w"
  by (simp add: from_le_bytes_def le_nat_to_le_bytes)

lemma to_le_bytes_from_le_bytes_u32: "length bs = 4 \<Longrightarrow> to_le_bytes 4 (unat (from_le_bytes bs :: u32)) = bs"
  using le_nat_bound [of bs] to_le_bytes_le_nat [of bs] by (simp add: from_le_bytes_def unat_of_nat)

lemma from_le_bytes_to_le_bytes_u64 [simp]: "from_le_bytes (to_le_bytes 8 (unat (w :: u64))) = w"
  by (simp add: from_le_bytes_def le_nat_to_le_bytes)


section \<open>Slices\<close>

text \<open>\<open>bytes.get(start..end)\<close>: \<open>None\<close> when the range is reversed or reaches past the end.\<close>

definition slice_get :: "'a list \<Rightarrow> nat \<Rightarrow> nat \<Rightarrow> 'a list option" where
  "slice_get xs i j = (if i \<le> j \<and> j \<le> length xs then Some (take (j - i) (drop i xs)) else None)"

text \<open>\<open>items.get(index)\<close>: \<open>None\<close> out of range.\<close>

definition item_get :: "'a list \<Rightarrow> nat \<Rightarrow> 'a option" where
  "item_get xs i = (if i < length xs then Some (xs ! i) else None)"

lemma slice_get_eq_Some:
  "slice_get xs i j = Some ys \<longleftrightarrow> i \<le> j \<and> j \<le> length xs \<and> ys = take (j - i) (drop i xs)"
  by (auto simp: slice_get_def)

lemma item_get_eq_Some: "item_get xs i = Some x \<longleftrightarrow> i < length xs \<and> x = xs ! i"
  by (auto simp: item_get_def)

lemma item_get_eq_None: "item_get xs i = None \<longleftrightarrow> length xs \<le> i"
  by (auto simp: item_get_def)

text \<open>\<open>bytes.chunks(n)\<close>: consecutive pieces of length \<open>n\<close>, the last one possibly shorter.\<close>

function chunks :: "nat \<Rightarrow> 'a list \<Rightarrow> 'a list list" where
  "chunks n xs = (if xs = [] \<or> n = 0 then [] else take n xs # chunks n (drop n xs))"
  by pat_completeness auto
termination by (relation "measure (\<lambda>(n, xs). length xs)") auto

declare chunks.simps [simp del]

lemma chunks_Nil [simp]: "chunks n [] = []"
  by (simp add: chunks.simps)

lemma concat_chunks: "0 < n \<Longrightarrow> concat (chunks n xs) = xs"
proof (induction n xs rule: chunks.induct)
  case (1 n xs)
  then show ?case by (cases "xs = []") (auto simp: chunks.simps [of n xs])
qed

lemma sum_length_chunks: "0 < n \<Longrightarrow> sum_list (map length (chunks n xs)) = length xs"
  by (metis concat_chunks length_concat)

lemma chunks_bound: "c \<in> set (chunks n xs) \<Longrightarrow> length c \<le> n \<and> length c \<le> length xs"
proof (induction n xs rule: chunks.induct)
  case (1 n xs)
  show ?case
  proof (cases "xs = [] \<or> n = 0")
    case True
    then show ?thesis using 1 by (simp add: chunks.simps [of n xs])
  next
    case False
    then show ?thesis using 1 by (fastforce simp: chunks.simps [of n xs])
  qed
qed

end
