(* ===== verification/Archive_Errors.thy ===== *)
theory Archive_Errors
  imports Prelude
begin

text \<open>
  The typed failures of \<^verbatim>\<open>crates/unpackio/src/error.rs\<close>: the error kinds, the checksum scopes, the
  limit names, the error values with their payloads, the payload-free category of an error and the
  messages that \<open>Display\<close> writes.  \<open>std::io::Error\<close> is modelled by its kind and its message.
\<close>

datatype error_kind =
  KFormat | KChecksum | KUnsupportedMethod | KUnsupportedFeature | KLimitExceeded
| KMissingVolume | KPasswordRequired | KWrongPasswordOrCorrupt | KCancelled | KIo

datatype checksum_scope =
  StartHeader | NextHeader | EncodedHeader | PackedStream | FolderScope | AdditionalStream
| Member | PackageHeader | PackagePayload

datatype limit_kind =
  HeaderBytes | Files | Folders | CodersPerFolder | TotalCoders | StreamsPerFolder | TotalStreams
| StreamFrames | Substreams | HeaderProperties | CoderPropertyBytes | NameBytesPerEntry
| TotalNameBytes | DictionaryBytes | EntryOutputBytes | TotalOutputBytes | Volumes
| TotalInputBytes | KdfPower | RecursionDepth | SfxScanBytes | WorkUnits

datatype io_error_kind = OutOfMemory | UnexpectedEof | InvalidData | Interrupted | OtherIo

datatype error =
  Format string
| StreamFormat string string
| Checksum checksum_scope "u64 option"
| StreamChecksum string u64
| UnsupportedMethod byte_slice
| UnsupportedFeature string
| UnsupportedStreamFeature string string
| LimitExceeded limit_kind u64 u64
| MissingVolume string
| PasswordRequired
| WrongPasswordOrCorrupt
| Cancelled
| Io io_error_kind string

fun kind :: "error \<Rightarrow> error_kind" where
  "kind (Format _) = KFormat"
| "kind (StreamFormat _ _) = KFormat"
| "kind (Checksum _ _) = KChecksum"
| "kind (StreamChecksum _ _) = KChecksum"
| "kind (UnsupportedMethod _) = KUnsupportedMethod"
| "kind (UnsupportedFeature _) = KUnsupportedFeature"
| "kind (UnsupportedStreamFeature _ _) = KUnsupportedFeature"
| "kind (LimitExceeded _ _ _) = KLimitExceeded"
| "kind (MissingVolume _) = KMissingVolume"
| "kind PasswordRequired = KPasswordRequired"
| "kind WrongPasswordOrCorrupt = KWrongPasswordOrCorrupt"
| "kind Cancelled = KCancelled"
| "kind (Io _ _) = KIo"


section \<open>Messages\<close>

fun scope_name :: "checksum_scope \<Rightarrow> string" where
  "scope_name StartHeader = ''start header''"
| "scope_name NextHeader = ''next header''"
| "scope_name EncodedHeader = ''encoded header''"
| "scope_name PackedStream = ''packed stream''"
| "scope_name FolderScope = ''folder''"
| "scope_name AdditionalStream = ''additional stream''"
| "scope_name Member = ''member''"
| "scope_name PackageHeader = ''package header''"
| "scope_name PackagePayload = ''package payload''"

fun limit_name :: "limit_kind \<Rightarrow> string" where
  "limit_name HeaderBytes = ''header bytes''"
| "limit_name Files = ''files''"
| "limit_name Folders = ''folders''"
| "limit_name CodersPerFolder = ''coders per folder''"
| "limit_name TotalCoders = ''total coders''"
| "limit_name StreamsPerFolder = ''streams per folder''"
| "limit_name TotalStreams = ''total streams''"
| "limit_name StreamFrames = ''compressed stream frames''"
| "limit_name Substreams = ''substreams''"
| "limit_name HeaderProperties = ''header properties''"
| "limit_name CoderPropertyBytes = ''coder property bytes''"
| "limit_name NameBytesPerEntry = ''name bytes per entry''"
| "limit_name TotalNameBytes = ''total name bytes''"
| "limit_name DictionaryBytes = ''dictionary bytes''"
| "limit_name EntryOutputBytes = ''entry output bytes''"
| "limit_name TotalOutputBytes = ''total output bytes''"
| "limit_name Volumes = ''volumes''"
| "limit_name TotalInputBytes = ''total input bytes''"
| "limit_name KdfPower = ''KDF power''"
| "limit_name RecursionDepth = ''recursion depth''"
| "limit_name SfxScanBytes = ''SFX scan bytes''"
| "limit_name WorkUnits = ''work units''"

text \<open>The decimal and two-digit hexadecimal renderings of \<open>write!\<close>.\<close>

definition digit :: "nat \<Rightarrow> char" where
  "digit n = (if n < 10 then char_of (48 + n) else char_of (87 + n))"

fun decimal :: "nat \<Rightarrow> string" where
  "decimal n = (if n < 10 then [digit n] else decimal (n div 10) @ [digit (n mod 10)])"

declare decimal.simps [simp del]

definition hex_byte :: "u8 \<Rightarrow> string" where
  "hex_byte b = [digit (unat b div 16), digit (unat b mod 16)]"

fun display :: "error \<Rightarrow> string" where
  "display (Format detail) = ''invalid archive format: '' @ detail"
| "display (StreamFormat format detail) = ''invalid '' @ format @ '' stream: '' @ detail"
| "display (Checksum scope (Some index)) =
     scope_name scope @ '' checksum mismatch at member '' @ decimal (unat index)"
| "display (Checksum scope None) = scope_name scope @ '' checksum mismatch''"
| "display (StreamChecksum format frame_index) =
     format @ '' checksum mismatch at frame '' @ decimal (unat frame_index)"
| "display (UnsupportedMethod method_id) =
     ''unsupported archive method 0x'' @ concat (map hex_byte method_id)"
| "display (UnsupportedFeature feature) = ''unsupported 7z feature: '' @ feature"
| "display (UnsupportedStreamFeature format feature) =
     ''unsupported '' @ format @ '' stream feature: '' @ feature"
| "display (LimitExceeded limit requested maximum) =
     ''limit exceeded for '' @ limit_name limit @ '': requested '' @ decimal (unat requested)
       @ '', maximum '' @ decimal (unat maximum)"
| "display (MissingVolume expected) = ''missing archive volume: '' @ expected"
| "display PasswordRequired = ''archive password required''"
| "display WrongPasswordOrCorrupt = ''wrong password or corrupt encrypted data''"
| "display Cancelled = ''archive operation cancelled''"
| "display (Io _ message) = ''archive I/O error: '' @ message"

text \<open>
  \<open>format_error\<close> of \<^verbatim>\<open>parse_util.rs\<close>.  The congruence rule keeps the simplifier out of the
  message text.
\<close>

definition format_error :: "string \<Rightarrow> error" where
  "format_error detail = Format detail"

lemma format_error_cong [cong]: "format_error detail = format_error detail"
  by (rule refl)

lemma kind_format_error [simp]: "kind (format_error detail) = KFormat"
  by (simp add: format_error_def)

lemma format_error_neq [simp]:
  "format_error d \<noteq> LimitExceeded l r m" "LimitExceeded l r m \<noteq> format_error d"
  "format_error d \<noteq> Cancelled" "Cancelled \<noteq> format_error d"
  "format_error d \<noteq> Io k t" "Io k t \<noteq> format_error d"
  "format_error d \<noteq> Checksum c i" "Checksum c i \<noteq> format_error d"
  "format_error d \<noteq> UnsupportedFeature f" "UnsupportedFeature f \<noteq> format_error d"
  by (simp_all add: format_error_def)

text \<open>
  The failures that depend on the resources granted to the operation and not on its input: the
  cancellation token, the work budget, the allocator and the I/O layer.
\<close>

fun resource_error :: "error \<Rightarrow> bool" where
  "resource_error Cancelled = True"
| "resource_error (Io _ _) = True"
| "resource_error (LimitExceeded limit _ _) = (limit = WorkUnits)"
| "resource_error _ = False"

lemma resource_error_format_error [simp]: "\<not> resource_error (format_error d)"
  by (simp add: format_error_def)

end
