(* ===== verification/Computation.thy ===== *)
theory Computation
  imports Archive_Errors
begin

text \<open>
  Fallible stateful code.  A Rust function that mutates its arguments and returns
  \<open>Result<T>\<close> is a function from the state to the result and the state it leaves, also when it
  fails: a failed parse has spent work, and callers that recover go on from that state.
  \<open>and_then\<close> is the \<open>?\<close> operator, the loops are recursive functions over their range.
  The second half is the calculus the components share: inversion of successful runs and a locale
  for relations between the state before and after a computation.
\<close>

type_synonym ('s, 'a) comp = "'s \<Rightarrow> (error + 'a) \<times> 's"

named_theorems success
  \<open>inversion of successful runs: each equation says when a computation ended in \<open>Inr\<close>\<close>

named_theorems run
  \<open>symbolic execution of computations\<close>

named_theorems evaluate
  \<open>the definitions that symbolic execution on a concrete input unfolds\<close>

definition ok :: "'a \<Rightarrow> ('s, 'a) comp" where
  "ok x = (\<lambda>s. (Inr x, s))"

definition err :: "error \<Rightarrow> ('s, 'a) comp" where
  "err e = (\<lambda>s. (Inl e, s))"

definition and_then :: "('s, 'a) comp \<Rightarrow> ('a \<Rightarrow> ('s, 'b) comp) \<Rightarrow> ('s, 'b) comp" where
  "and_then m f = (\<lambda>s. case m s of (Inl e, t) \<Rightarrow> (Inl e, t) | (Inr x, t) \<Rightarrow> f x t)"

definition gets :: "('s \<Rightarrow> 'a) \<Rightarrow> ('s, 'a) comp" where
  "gets f = (\<lambda>s. (Inr (f s), s))"

definition modify :: "('s \<Rightarrow> 's) \<Rightarrow> ('s, unit) comp" where
  "modify f = (\<lambda>s. (Inr (), f s))"

text \<open>\<open>if condition { return Err(e) }\<close>\<close>

definition err_if :: "bool \<Rightarrow> error \<Rightarrow> ('s, unit) comp" where
  "err_if c e = (if c then err e else ok ())"

text \<open>\<open>value.ok_or_else(|| e)?\<close>\<close>

definition ok_or :: "error \<Rightarrow> 'a option \<Rightarrow> ('s, 'a) comp" where
  "ok_or e v = (case v of None \<Rightarrow> err e | Some x \<Rightarrow> ok x)"

definition from_result :: "error + 'a \<Rightarrow> ('s, 'a) comp" where
  "from_result r = (\<lambda>s. (r, s))"

text \<open>\<open>for _ in 0..n { values.push(m?) }\<close>\<close>

primrec repeat_push :: "nat \<Rightarrow> ('s, 'a) comp \<Rightarrow> ('s, 'a list) comp" where
  "repeat_push 0 m = ok []"
| "repeat_push (Suc n) m =
     and_then m (\<lambda>x. and_then (repeat_push n m) (\<lambda>xs. ok (x # xs)))"

text \<open>\<open>for item in items { values.push(f(item)?) }\<close>\<close>

primrec for_push :: "'b list \<Rightarrow> ('b \<Rightarrow> ('s, 'a) comp) \<Rightarrow> ('s, 'a list) comp" where
  "for_push [] f = ok []"
| "for_push (b # bs) f =
     and_then (f b) (\<lambda>x. and_then (for_push bs f) (\<lambda>xs. ok (x # xs)))"

text \<open>\<open>for item in items { accumulator = f(accumulator, item)? }\<close>\<close>

primrec for_fold :: "'b list \<Rightarrow> 'a \<Rightarrow> ('a \<Rightarrow> 'b \<Rightarrow> ('s, 'a) comp) \<Rightarrow> ('s, 'a) comp" where
  "for_fold [] a f = ok a"
| "for_fold (b # bs) a f = and_then (f a b) (\<lambda>a'. for_fold bs a' f)"

lemma and_then_cong [fundef_cong]:
  assumes "m s = m' s'" and "\<And>x t. m' s' = (Inr x, t) \<Longrightarrow> f x t = f' x t"
  shows "and_then m f s = and_then m' f' s'"
  using assms by (auto simp: and_then_def split: prod.splits sum.splits)

text \<open>The simplifier evaluates a sequence from its head: it does not enter what comes after.\<close>

lemma and_then_weak_cong [cong]: "m = m' \<Longrightarrow> and_then m f = and_then m' f"
  by simp


section \<open>Monad laws\<close>

lemma and_then_ok [simp]: "and_then (ok x) f = f x"
  by (simp add: and_then_def ok_def)

lemma and_then_err [simp]: "and_then (err e) f = err e"
  by (simp add: and_then_def err_def)

lemma and_then_assoc:
  "and_then (and_then m f) g = and_then m (\<lambda>x. and_then (f x) g)"
  by (auto simp: and_then_def fun_eq_iff split: prod.splits sum.splits)

lemma and_then_ok_right [simp]: "and_then m ok = m"
  by (auto simp: and_then_def ok_def fun_eq_iff split: prod.splits sum.splits)

lemma err_if_simps [simp]: "err_if True e = err e" "err_if False e = ok ()"
  by (simp_all add: err_if_def)

lemma ok_or_simps [simp]: "ok_or e None = err e" "ok_or e (Some x) = ok x"
  by (simp_all add: ok_or_def)


section \<open>Symbolic execution\<close>

lemma ok_run [run]: "ok x s = (Inr x, s)"
  by (simp add: ok_def)

lemma err_run [run]: "err e s = (Inl e, s)"
  by (simp add: err_def)

lemma gets_run [run]: "gets f s = (Inr (f s), s)"
  by (simp add: gets_def)

lemma modify_run [run]: "modify f s = (Inr (), f s)"
  by (simp add: modify_def)

lemma from_result_run [run]: "from_result r s = (r, s)"
  by (simp add: from_result_def)

lemma and_then_run_Inr [run]: "m s = (Inr x, t) \<Longrightarrow> and_then m f s = f x t"
  by (simp add: and_then_def)

lemma and_then_run_Inl [run]: "m s = (Inl e, t) \<Longrightarrow> and_then m f s = (Inl e, t)"
  by (simp add: and_then_def)

lemma if_run [run]: "(if c then m else n) s = (if c then m s else n s)"
  by simp

lemma err_if_run [run]: "err_if c e s = (if c then (Inl e, s) else (Inr (), s))"
  by (simp add: err_if_def ok_def err_def)

lemma ok_or_run [run]: "ok_or e v s = (case v of None \<Rightarrow> (Inl e, s) | Some x \<Rightarrow> (Inr x, s))"
  by (simp add: ok_or_def ok_def err_def split: option.splits)


section \<open>Inversion of successful runs\<close>

lemma ok_success [success]: "ok x s = (Inr y, t) \<longleftrightarrow> y = x \<and> t = s"
  by (auto simp: ok_def)

lemma err_success [success]: "err e s = (Inr y, t) \<longleftrightarrow> False"
  by (simp add: err_def)

lemma gets_success [success]: "gets f s = (Inr y, t) \<longleftrightarrow> y = f s \<and> t = s"
  by (auto simp: gets_def)

lemma modify_success [success]: "modify f s = (Inr y, t) \<longleftrightarrow> t = f s"
  by (auto simp: modify_def)

lemma and_then_success [success]:
  "and_then m f s = (Inr y, t) \<longleftrightarrow> (\<exists>x u. m s = (Inr x, u) \<and> f x u = (Inr y, t))"
  by (auto simp: and_then_def split: prod.splits sum.splits)

lemma err_if_success [success]: "err_if c e s = (Inr y, t) \<longleftrightarrow> \<not> c \<and> t = s"
  by (auto simp: err_if_def ok_def err_def)

lemma ok_or_success [success]: "ok_or e v s = (Inr y, t) \<longleftrightarrow> v = Some y \<and> t = s"
  by (auto simp: ok_or_def ok_def err_def split: option.splits)

lemma from_result_success [success]: "from_result r s = (Inr y, t) \<longleftrightarrow> r = Inr y \<and> t = s"
  by (auto simp: from_result_def)

lemma if_success [success]:
  "(if c then m else n) s = (Inr y, t) \<longleftrightarrow>
     (c \<and> m s = (Inr y, t)) \<or> (\<not> c \<and> n s = (Inr y, t))"
  by simp

lemma repeat_push_length: "repeat_push n m s = (Inr xs, t) \<Longrightarrow> length xs = n"
  by (induction n arbitrary: s t xs) (auto simp: success)

lemma for_push_length: "for_push bs f s = (Inr xs, t) \<Longrightarrow> length xs = length bs"
  by (induction bs arbitrary: s t xs) (auto simp: success)

text \<open>A fact that every successful iteration establishes for the value it pushes.\<close>

lemma repeat_push_all:
  assumes "repeat_push n m s = (Inr xs, t)"
    and "\<And>s x t. m s = (Inr x, t) \<Longrightarrow> P x"
  shows "\<forall>x \<in> set xs. P x"
  using assms(1) by (induction n arbitrary: s t xs) (auto simp: success dest: assms(2))

text \<open>The invariant rule of an accumulating loop.\<close>

lemma for_fold_invariant:
  assumes "for_fold bs a f s = (Inr r, t)" and "I [] a s"
    and "\<And>past b rest a s a' s'. bs = past @ b # rest \<Longrightarrow> I past a s \<Longrightarrow>
           f a b s = (Inr a', s') \<Longrightarrow> I (past @ [b]) a' s'"
  shows "I bs r t"
proof -
  have "I (past @ rest) r t"
    if "bs = past @ rest" and "for_fold rest a f s = (Inr r, t)" and "I past a s" for past rest a s
    using that
  proof (induction rest arbitrary: past a s)
    case Nil
    then show ?case by (simp add: success)
  next
    case (Cons b rest)
    from Cons.prems(2) obtain a' s' where step: "f a b s = (Inr a', s')"
      and rec: "for_fold rest a' f s' = (Inr r, t)"
      by (auto simp: success)
    have "I (past @ [b]) a' s'"
      using assms(3) [OF Cons.prems(1,3) step] .
    then have "I ((past @ [b]) @ rest) r t"
      using Cons.IH [of "past @ [b]"] Cons.prems(1) rec by simp
    then show ?case by simp
  qed
  from this [of "[]" bs a s] assms show ?thesis by simp
qed


section \<open>Outcomes\<close>

text \<open>
  \<open>outcome E m s Q\<close>: the run of \<open>m\<close> from \<open>s\<close> ends in a value and a state that satisfy \<open>Q\<close>, or in one
  of the errors \<open>E\<close>.  It covers both branches, so that a parser that fails on good input does not
  satisfy it.  \<open>outcome_rules\<close> decompose a sequence from its head.
\<close>

definition outcome :: "(error \<Rightarrow> bool) \<Rightarrow> ('s, 'a) comp \<Rightarrow> 's \<Rightarrow> ('a \<Rightarrow> 's \<Rightarrow> bool) \<Rightarrow> bool" where
  "outcome E m s Q \<longleftrightarrow> (case m s of (Inl e, t) \<Rightarrow> E e | (Inr x, t) \<Rightarrow> Q x t)"

named_theorems outcome_rules
  \<open>one rule per way to build a computation\<close>

lemma outcomeI:
  "(\<And>e t. m s = (Inl e, t) \<Longrightarrow> E e) \<Longrightarrow> (\<And>x t. m s = (Inr x, t) \<Longrightarrow> Q x t) \<Longrightarrow> outcome E m s Q"
  by (auto simp: outcome_def split: prod.splits sum.splits)

lemma outcome_value: "outcome E m s Q \<Longrightarrow> m s = (Inr x, t) \<Longrightarrow> Q x t"
  by (simp add: outcome_def)

lemma outcome_error: "outcome E m s Q \<Longrightarrow> m s = (Inl e, t) \<Longrightarrow> E e"
  by (simp add: outcome_def)

lemma outcome_cases: "outcome E m s Q \<Longrightarrow> (\<exists>e t. m s = (Inl e, t) \<and> E e) \<or> (\<exists>x t. m s = (Inr x, t) \<and> Q x t)"
  by (auto simp: outcome_def split: prod.splits sum.splits)

lemma outcome_weaken:
  "outcome E m s Q \<Longrightarrow> (\<And>x t. m s = (Inr x, t) \<Longrightarrow> Q x t \<Longrightarrow> Q' x t) \<Longrightarrow> outcome E m s Q'"
  by (auto simp: outcome_def split: prod.splits sum.splits)

lemma outcome_mono:
  "outcome E m s Q \<Longrightarrow> (\<And>e. E e \<Longrightarrow> E' e) \<Longrightarrow>
     (\<And>x t. m s = (Inr x, t) \<Longrightarrow> Q x t \<Longrightarrow> Q' x t) \<Longrightarrow> outcome E' m s Q'"
  by (auto simp: outcome_def split: prod.splits sum.splits)

lemma outcome_and_then [outcome_rules]:
  "outcome E m s (\<lambda>x t. outcome E (f x) t Q) \<Longrightarrow> outcome E (and_then m f) s Q"
  by (auto simp: outcome_def and_then_def split: prod.splits sum.splits)

lemma outcome_bind:
  assumes "outcome E m s P" and "\<And>x t. P x t \<Longrightarrow> outcome E (f x) t Q"
  shows "outcome E (and_then m f) s Q"
  by (rule outcome_and_then, rule outcome_weaken [OF assms(1)], rule assms(2))

lemma outcome_ok [outcome_rules]: "Q x s \<Longrightarrow> outcome E (ok x) s Q"
  by (simp add: outcome_def ok_def)

lemma outcome_err [outcome_rules]: "E e \<Longrightarrow> outcome E (err e) s Q"
  by (simp add: outcome_def err_def)

lemma outcome_gets [outcome_rules]: "Q (f s) s \<Longrightarrow> outcome E (gets f) s Q"
  by (simp add: outcome_def gets_def)

lemma outcome_modify [outcome_rules]: "Q () (f s) \<Longrightarrow> outcome E (modify f) s Q"
  by (simp add: outcome_def modify_def)

lemma outcome_err_if [outcome_rules]:
  "(c \<Longrightarrow> E e) \<Longrightarrow> (\<not> c \<Longrightarrow> Q () s) \<Longrightarrow> outcome E (err_if c e) s Q"
  by (simp add: outcome_def err_if_def err_def ok_def)

lemma outcome_ok_or [outcome_rules]:
  "(v = None \<Longrightarrow> E e) \<Longrightarrow> (\<And>x. v = Some x \<Longrightarrow> Q x s) \<Longrightarrow> outcome E (ok_or e v) s Q"
  by (cases v) (simp_all add: outcome_def err_def ok_def)

lemma outcome_if [outcome_rules]:
  "(c \<Longrightarrow> outcome E m s Q) \<Longrightarrow> (\<not> c \<Longrightarrow> outcome E n s Q) \<Longrightarrow> outcome E (if c then m else n) s Q"
  by simp

lemma outcome_option [outcome_rules]:
  "(v = None \<Longrightarrow> outcome E m s Q) \<Longrightarrow> (\<And>x. v = Some x \<Longrightarrow> outcome E (f x) s Q) \<Longrightarrow>
     outcome E (case v of None \<Rightarrow> m | Some x \<Rightarrow> f x) s Q"
  by (cases v) simp_all

lemma outcome_pair [outcome_rules]:
  "(\<And>x y. p = (x, y) \<Longrightarrow> outcome E (f x y) s Q) \<Longrightarrow> outcome E (case p of (x, y) \<Rightarrow> f x y) s Q"
  by (cases p) simp

lemma outcome_let [outcome_rules]: "outcome E (f x) s Q \<Longrightarrow> outcome E (let y = x in f y) s Q"
  by simp

text \<open>Loops: the invariant relates what is behind the loop to the accumulator and the state.\<close>

lemma outcome_for_fold:
  assumes "I [] a s"
    and "\<And>past b rest a s. bs = past @ b # rest \<Longrightarrow> I past a s \<Longrightarrow>
           outcome E (f a b) s (I (past @ [b]))"
    and "\<And>a t. I bs a t \<Longrightarrow> Q a t"
  shows "outcome E (for_fold bs a f) s Q"
proof -
  have "outcome E (for_fold rest a f) s (I bs)" if "bs = past @ rest" and "I past a s" for past rest a s
    using that
  proof (induction rest arbitrary: past a s)
    case Nil
    then show ?case by (simp add: outcome_ok)
  next
    case (Cons b rest)
    have step: "outcome E (f a b) s (I (past @ [b]))"
      using assms(2) [OF Cons.prems] .
    have rest: "outcome E (for_fold rest x f) t (I bs)" if "I (past @ [b]) x t" for x t
      using Cons.IH [OF _ that] Cons.prems by simp
    show ?case
      unfolding for_fold.simps
      by (rule outcome_and_then, rule outcome_weaken [OF step], rule rest)
  qed
  from this [of "[]" bs a s] assms(1) have "outcome E (for_fold bs a f) s (I bs)" by simp
  then show ?thesis by (rule outcome_weaken) (rule assms(3))
qed

lemma outcome_for_push:
  assumes "I [] [] s"
    and "\<And>past b rest xs s. bs = past @ b # rest \<Longrightarrow> I past xs s \<Longrightarrow>
           outcome E (f b) s (\<lambda>x. I (past @ [b]) (xs @ [x]))"
    and "\<And>xs t. I bs xs t \<Longrightarrow> Q xs t"
  shows "outcome E (for_push bs f) s Q"
proof -
  have "outcome E (for_push rest f) s (\<lambda>xs. I bs (ys @ xs))"
    if "bs = past @ rest" and "I past ys s" for past rest ys s
    using that
  proof (induction rest arbitrary: past ys s)
    case Nil
    then show ?case by (simp add: outcome_ok)
  next
    case (Cons b rest)
    have step: "outcome E (f b) s (\<lambda>x. I (past @ [b]) (ys @ [x]))"
      using assms(2) [OF Cons.prems] .
    have rest: "outcome E (for_push rest f) t (\<lambda>xs. I bs ((ys @ [x]) @ xs))"
      if "I (past @ [b]) (ys @ [x]) t" for x t
      using Cons.IH [OF _ that] Cons.prems by simp
    show ?case
      unfolding for_push.simps
      by (rule outcome_and_then, rule outcome_weaken [OF step], rule outcome_and_then,
          rule outcome_weaken [OF rest]) (auto intro: outcome_ok)
  qed
  from this [of "[]" bs "[]" s] assms(1) have "outcome E (for_push bs f) s (I bs)" by simp
  then show ?thesis by (rule outcome_weaken) (rule assms(3))
qed

section \<open>Relations between the state before and after\<close>

text \<open>
  \<open>preserves failing R m\<close>: the runs of \<open>m\<close> relate their first and last state by \<open>R\<close>; a failed run
  counts when \<open>failing\<close> holds of its error.  The locale collects what every reflexive and transitive
  relation gives for composed code; components extend it by the laws of their own primitives, so
  that a relation which holds of the primitives is inherited by a whole parser.
\<close>

fun observed :: "(error \<Rightarrow> bool) \<Rightarrow> error + 'a \<Rightarrow> bool" where
  "observed failing (Inl e) = failing e"
| "observed failing (Inr x) = True"

abbreviation any_error :: "error \<Rightarrow> bool" where "any_error \<equiv> \<lambda>_. True"
abbreviation no_error :: "error \<Rightarrow> bool" where "no_error \<equiv> \<lambda>_. False"

lemma observed_any [simp]: "observed any_error r"
  by (cases r) simp_all

lemma observed_none [simp]: "observed no_error r = (\<not> isl r)"
  by (cases r) simp_all

definition preserves :: "(error \<Rightarrow> bool) \<Rightarrow> ('s \<Rightarrow> 's \<Rightarrow> bool) \<Rightarrow> ('s, 'a) comp \<Rightarrow> bool" where
  "preserves failing R m \<longleftrightarrow> (\<forall>s r t. m s = (r, t) \<longrightarrow> observed failing r \<longrightarrow> R s t)"

lemma preservesI:
  "(\<And>s r t. m s = (r, t) \<Longrightarrow> observed failing r \<Longrightarrow> R s t) \<Longrightarrow> preserves failing R m"
  by (simp add: preserves_def)

lemma preservesD: "preserves failing R m \<Longrightarrow> m s = (Inr x, t) \<Longrightarrow> R s t"
  by (auto simp: preserves_def)

lemma preserves_allD: "preserves any_error R m \<Longrightarrow> m s = (r, t) \<Longrightarrow> R s t"
  by (auto simp: preserves_def)

lemma preserves_all_snd: "preserves any_error R m \<Longrightarrow> R s (snd (m s))"
  by (rule preserves_allD [of R m s "fst (m s)"]) simp_all

locale state_relation =
  fixes failing :: "error \<Rightarrow> bool" and R :: "'s \<Rightarrow> 's \<Rightarrow> bool"
  assumes rel_refl: "R s s"
    and rel_trans: "R s t \<Longrightarrow> R t u \<Longrightarrow> R s u"
begin

lemma keeps_ok: "preserves failing R (ok x)"
  by (simp add: preserves_def ok_def rel_refl)

lemma keeps_err: "preserves failing R (err e)"
  by (simp add: preserves_def err_def rel_refl)

lemma keeps_gets: "preserves failing R (gets f)"
  by (simp add: preserves_def gets_def rel_refl)

lemma keeps_err_if: "preserves failing R (err_if c e)"
  by (simp add: err_if_def keeps_ok keeps_err)

lemma keeps_ok_or: "preserves failing R (ok_or e v)"
  by (simp add: ok_or_def keeps_ok keeps_err split: option.splits)

lemma keeps_from_result: "preserves failing R (from_result r)"
  by (simp add: preserves_def from_result_def rel_refl)

lemma keeps_and_then:
  assumes "preserves failing R m" and "\<And>x. preserves failing R (f x)"
  shows "preserves failing R (and_then m f)"
proof (rule preservesI)
  fix s r u assume run: "and_then m f s = (r, u)" and r: "observed failing r"
  obtain q t where m: "m s = (q, t)" by force
  show "R s u"
  proof (cases q)
    case (Inl e)
    with run m r assms(1) show ?thesis by (auto simp: preserves_def and_then_def)
  next
    case (Inr x)
    with m assms(1) have "R s t" by (auto simp: preserves_def)
    moreover have "R t u"
      using run m r Inr assms(2) [of x] by (auto simp: preserves_def and_then_def)
    ultimately show ?thesis by (rule rel_trans)
  qed
qed

lemma keeps_if:
  "(c \<Longrightarrow> preserves failing R m) \<Longrightarrow> (\<not> c \<Longrightarrow> preserves failing R n) \<Longrightarrow>
     preserves failing R (if c then m else n)"
  by simp

lemma keeps_option:
  "preserves failing R m \<Longrightarrow> (\<And>x. preserves failing R (f x)) \<Longrightarrow>
     preserves failing R (case v of None \<Rightarrow> m | Some x \<Rightarrow> f x)"
  by (cases v) auto

lemma keeps_pair:
  "(\<And>x y. preserves failing R (f x y)) \<Longrightarrow> preserves failing R (case p of (x, y) \<Rightarrow> f x y)"
  by (cases p) auto

lemma keeps_pair_fun:
  "(\<And>x y. preserves failing R (f x y b)) \<Longrightarrow> preserves failing R ((case p of (x, y) \<Rightarrow> f x y) b)"
  by (cases p) auto

lemma keeps_let: "preserves failing R (f x) \<Longrightarrow> preserves failing R (let y = x in f y)"
  by simp

lemma keeps_repeat_push:
  "preserves failing R m \<Longrightarrow> preserves failing R (repeat_push n m)"
  by (induction n) (auto intro: keeps_ok keeps_and_then)

lemma keeps_for_push:
  "(\<And>b. preserves failing R (f b)) \<Longrightarrow> preserves failing R (for_push bs f)"
  by (induction bs) (auto intro: keeps_ok keeps_and_then)

lemma keeps_for_fold:
  "(\<And>a b. preserves failing R (f a b)) \<Longrightarrow> preserves failing R (for_fold bs a f)"
  by (induction bs arbitrary: a) (auto intro: keeps_ok keeps_and_then)

lemmas keeps =
  keeps_ok keeps_err keeps_gets keeps_err_if keeps_ok_or keeps_from_result
  keeps_and_then keeps_if keeps_option keeps_pair keeps_pair_fun keeps_let
  keeps_repeat_push keeps_for_push keeps_for_fold

end

end
