(* ===== verification/Resource_Limits.thy ===== *)
theory Resource_Limits
  imports Prelude
begin

text \<open>
  \<^verbatim>\<open>crates/unpackio/src/limits.rs\<close>: the resource limits as a record whose selectors are the accessor
  methods, the default set, and the builder with one override per limit.
\<close>

record limits =
  max_header_bytes :: u64
  max_files :: u64
  max_folders :: u64
  max_coders_per_folder :: u64
  max_total_coders :: u64
  max_streams_per_folder :: u64
  max_total_streams :: u64
  max_stream_frames :: u64
  max_substreams :: u64
  max_header_properties :: u64
  max_coder_property_bytes :: u64
  max_name_bytes_per_entry :: u64
  max_total_name_bytes :: u64
  max_dictionary_bytes :: u64
  max_entry_output_bytes :: u64
  max_total_output_bytes :: u64
  max_volumes :: u64
  max_total_input_bytes :: u64
  max_kdf_power :: u8
  max_recursion_depth :: u64
  sfx_scan_limit :: u64

definition default_limits :: limits where
  "default_limits = \<lparr>
     max_header_bytes = 64 * 1024 * 1024,
     max_files = 100000,
     max_folders = 100000,
     max_coders_per_folder = 32,
     max_total_coders = 100000,
     max_streams_per_folder = 1024,
     max_total_streams = 200000,
     max_stream_frames = 100000,
     max_substreams = 100000,
     max_header_properties = 100000,
     max_coder_property_bytes = 1024 * 1024,
     max_name_bytes_per_entry = 1024 * 1024,
     max_total_name_bytes = 64 * 1024 * 1024,
     max_dictionary_bytes = 256 * 1024 * 1024,
     max_entry_output_bytes = 2 * 1024 * 1024 * 1024,
     max_total_output_bytes = 8 * 1024 * 1024 * 1024,
     max_volumes = 1024,
     max_total_input_bytes = 64 * 1024 * 1024 * 1024,
     max_kdf_power = 24,
     max_recursion_depth = 64,
     sfx_scan_limit = 1024 * 1024\<rparr>"

record limits_builder =
  builder_limits :: limits

definition builder :: limits_builder where
  "builder = \<lparr>builder_limits = default_limits\<rparr>"

definition build :: "limits_builder \<Rightarrow> limits" where
  "build b = builder_limits b"

definition with_max_header_bytes :: "u64 \<Rightarrow> limits_builder \<Rightarrow> limits_builder" where
  "with_max_header_bytes value b = b\<lparr>builder_limits := (builder_limits b)\<lparr>max_header_bytes := value\<rparr>\<rparr>"

definition with_max_files :: "u64 \<Rightarrow> limits_builder \<Rightarrow> limits_builder" where
  "with_max_files value b = b\<lparr>builder_limits := (builder_limits b)\<lparr>max_files := value\<rparr>\<rparr>"

definition with_max_folders :: "u64 \<Rightarrow> limits_builder \<Rightarrow> limits_builder" where
  "with_max_folders value b = b\<lparr>builder_limits := (builder_limits b)\<lparr>max_folders := value\<rparr>\<rparr>"

definition with_max_coders_per_folder :: "u64 \<Rightarrow> limits_builder \<Rightarrow> limits_builder" where
  "with_max_coders_per_folder value b = b\<lparr>builder_limits := (builder_limits b)\<lparr>max_coders_per_folder := value\<rparr>\<rparr>"

definition with_max_total_coders :: "u64 \<Rightarrow> limits_builder \<Rightarrow> limits_builder" where
  "with_max_total_coders value b = b\<lparr>builder_limits := (builder_limits b)\<lparr>max_total_coders := value\<rparr>\<rparr>"

definition with_max_streams_per_folder :: "u64 \<Rightarrow> limits_builder \<Rightarrow> limits_builder" where
  "with_max_streams_per_folder value b = b\<lparr>builder_limits := (builder_limits b)\<lparr>max_streams_per_folder := value\<rparr>\<rparr>"

definition with_max_total_streams :: "u64 \<Rightarrow> limits_builder \<Rightarrow> limits_builder" where
  "with_max_total_streams value b = b\<lparr>builder_limits := (builder_limits b)\<lparr>max_total_streams := value\<rparr>\<rparr>"

definition with_max_stream_frames :: "u64 \<Rightarrow> limits_builder \<Rightarrow> limits_builder" where
  "with_max_stream_frames value b = b\<lparr>builder_limits := (builder_limits b)\<lparr>max_stream_frames := value\<rparr>\<rparr>"

definition with_max_substreams :: "u64 \<Rightarrow> limits_builder \<Rightarrow> limits_builder" where
  "with_max_substreams value b = b\<lparr>builder_limits := (builder_limits b)\<lparr>max_substreams := value\<rparr>\<rparr>"

definition with_max_header_properties :: "u64 \<Rightarrow> limits_builder \<Rightarrow> limits_builder" where
  "with_max_header_properties value b = b\<lparr>builder_limits := (builder_limits b)\<lparr>max_header_properties := value\<rparr>\<rparr>"

definition with_max_coder_property_bytes :: "u64 \<Rightarrow> limits_builder \<Rightarrow> limits_builder" where
  "with_max_coder_property_bytes value b = b\<lparr>builder_limits := (builder_limits b)\<lparr>max_coder_property_bytes := value\<rparr>\<rparr>"

definition with_max_name_bytes_per_entry :: "u64 \<Rightarrow> limits_builder \<Rightarrow> limits_builder" where
  "with_max_name_bytes_per_entry value b = b\<lparr>builder_limits := (builder_limits b)\<lparr>max_name_bytes_per_entry := value\<rparr>\<rparr>"

definition with_max_total_name_bytes :: "u64 \<Rightarrow> limits_builder \<Rightarrow> limits_builder" where
  "with_max_total_name_bytes value b = b\<lparr>builder_limits := (builder_limits b)\<lparr>max_total_name_bytes := value\<rparr>\<rparr>"

definition with_max_dictionary_bytes :: "u64 \<Rightarrow> limits_builder \<Rightarrow> limits_builder" where
  "with_max_dictionary_bytes value b = b\<lparr>builder_limits := (builder_limits b)\<lparr>max_dictionary_bytes := value\<rparr>\<rparr>"

definition with_max_entry_output_bytes :: "u64 \<Rightarrow> limits_builder \<Rightarrow> limits_builder" where
  "with_max_entry_output_bytes value b = b\<lparr>builder_limits := (builder_limits b)\<lparr>max_entry_output_bytes := value\<rparr>\<rparr>"

definition with_max_total_output_bytes :: "u64 \<Rightarrow> limits_builder \<Rightarrow> limits_builder" where
  "with_max_total_output_bytes value b = b\<lparr>builder_limits := (builder_limits b)\<lparr>max_total_output_bytes := value\<rparr>\<rparr>"

definition with_max_volumes :: "u64 \<Rightarrow> limits_builder \<Rightarrow> limits_builder" where
  "with_max_volumes value b = b\<lparr>builder_limits := (builder_limits b)\<lparr>max_volumes := value\<rparr>\<rparr>"

definition with_max_total_input_bytes :: "u64 \<Rightarrow> limits_builder \<Rightarrow> limits_builder" where
  "with_max_total_input_bytes value b = b\<lparr>builder_limits := (builder_limits b)\<lparr>max_total_input_bytes := value\<rparr>\<rparr>"

definition with_max_kdf_power :: "u8 \<Rightarrow> limits_builder \<Rightarrow> limits_builder" where
  "with_max_kdf_power value b = b\<lparr>builder_limits := (builder_limits b)\<lparr>max_kdf_power := value\<rparr>\<rparr>"

definition with_max_recursion_depth :: "u64 \<Rightarrow> limits_builder \<Rightarrow> limits_builder" where
  "with_max_recursion_depth value b = b\<lparr>builder_limits := (builder_limits b)\<lparr>max_recursion_depth := value\<rparr>\<rparr>"

definition with_sfx_scan_limit :: "u64 \<Rightarrow> limits_builder \<Rightarrow> limits_builder" where
  "with_sfx_scan_limit value b = b\<lparr>builder_limits := (builder_limits b)\<lparr>sfx_scan_limit := value\<rparr>\<rparr>"

lemmas builder_defs =
  builder_def build_def default_limits_def
  with_max_header_bytes_def
  with_max_files_def
  with_max_folders_def
  with_max_coders_per_folder_def
  with_max_total_coders_def
  with_max_streams_per_folder_def
  with_max_total_streams_def
  with_max_stream_frames_def
  with_max_substreams_def
  with_max_header_properties_def
  with_max_coder_property_bytes_def
  with_max_name_bytes_per_entry_def
  with_max_total_name_bytes_def
  with_max_dictionary_bytes_def
  with_max_entry_output_bytes_def
  with_max_total_output_bytes_def
  with_max_volumes_def
  with_max_total_input_bytes_def
  with_max_kdf_power_def
  with_max_recursion_depth_def
  with_sfx_scan_limit_def

end
