(* ===== verification/Session.thy ===== *)
theory Session
  imports Computation Resource_Limits
begin

text \<open>
  \<^verbatim>\<open>cancel.rs\<close> and \<^verbatim>\<open>parse_util.rs\<close>: cancellation, the work budget, the control block that every
  parser carries, and the checked conversions, ranges and allocations.

  All parsing code runs on one state, \<open>session\<close>: the bounded reader in use, the control block, the
  archive-wide counters of \<^verbatim>\<open>raw.rs\<close> and the machine.  A Rust function gets the parts it may touch
  as arguments; that it touches no others is stated by the relations at the end of the theory.
\<close>


section \<open>State\<close>

record cancellation_token =
  cancelled :: bool

record work_budget =
  remaining :: "u64 option"
  consumed :: u64

text \<open>
  The token is shared with other threads, which may cancel at any time: \<open>token c n\<close> is its value
  at the \<open>n\<close>-th load of the operation and \<open>loads c\<close> counts the loads made so far.
\<close>

record parse_control =
  token :: "nat \<Rightarrow> cancellation_token"
  loads :: nat
  budget :: work_budget

text \<open>\<open>BoundedReader\<close> of \<^verbatim>\<open>bounded.rs\<close> and \<open>ParseState\<close> of \<^verbatim>\<open>raw.rs\<close>.\<close>

record bounded_reader =
  rd_bytes :: byte_slice
  rd_position :: nat

record parse_state =
  total_folders :: u64
  total_coders :: u64
  total_streams :: u64
  total_packed_streams :: u64
  total_substreams :: u64
  total_properties :: u64

text \<open>
  What the language runtime decides: the largest \<open>usize\<close> (the crate is tested on 64-bit and 32-bit
  targets) and the allocator, which may refuse a request depending on the requests before it.
  \<open>requests\<close> lists the element counts asked for, in order.  \<open>try_reserve_exact\<close> may leave a vector
  with more room than was asked for; \<open>surplus\<close> says how much, after these requests.
\<close>

record platform =
  usize_max :: nat
  allocator :: "nat list \<Rightarrow> nat \<Rightarrow> bool"
  requests :: "nat list"
  surplus :: "nat list \<Rightarrow> nat"

record session =
  reader :: bounded_reader
  control :: parse_control
  counters :: parse_state
  machine :: platform

type_synonym 'a op = "(session, 'a) comp"


section \<open>Cancellation and the work budget\<close>

definition token_new :: cancellation_token where
  "token_new = \<lparr>cancelled = False\<rparr>"

definition cancel :: "cancellation_token \<Rightarrow> cancellation_token" where
  "cancel t = t\<lparr>cancelled := True\<rparr>"

definition is_cancelled :: "cancellation_token \<Rightarrow> bool" where
  "is_cancelled t = cancelled t"

definition token_check :: "cancellation_token \<Rightarrow> error + unit" where
  "token_check t = (if is_cancelled t then Inl Cancelled else Inr ())"

definition bounded :: "u64 \<Rightarrow> work_budget" where
  "bounded units = \<lparr>remaining = Some units, consumed = 0\<rparr>"

definition unlimited :: work_budget where
  "unlimited = \<lparr>remaining = None, consumed = 0\<rparr>"

text \<open>\<open>WorkBudget::charge\<close>: both fields are computed before either is written.\<close>

definition charge :: "u64 \<Rightarrow> (work_budget, unit) comp" where
  "charge units =
     and_then (gets remaining) (\<lambda>rem.
     and_then (case rem of
                 Some r \<Rightarrow>
                   and_then (ok_or (LimitExceeded WorkUnits units r) (checked_sub r units))
                     (\<lambda>r'. ok (Some r'))
               | None \<Rightarrow> ok None) (\<lambda>updated_remaining.
     and_then (gets consumed) (\<lambda>spent.
     case checked_add spent units of
       None \<Rightarrow>
         and_then (ok_or (LimitExceeded WorkUnits units 0) (checked_sub (- 1) spent))
           (\<lambda>maximum. err (LimitExceeded WorkUnits units maximum))
     | Some updated_consumed \<Rightarrow>
         modify (\<lambda>b. b\<lparr>remaining := updated_remaining, consumed := updated_consumed\<rparr>))))"


section \<open>The control block\<close>

definition CONTROL_CHUNK_SIZE :: nat where
  "CONTROL_CHUNK_SIZE = 4096"

definition load_token :: "unit op" where
  "load_token = (\<lambda>s. let c = control s in
     (token_check (token c (loads c)), s\<lparr>control := c\<lparr>loads := Suc (loads c)\<rparr>\<rparr>))"

definition spend :: "u64 \<Rightarrow> unit op" where
  "spend units = (\<lambda>s. case charge units (budget (control s)) of
     (r, b) \<Rightarrow> (r, s\<lparr>control := (control s)\<lparr>budget := b\<rparr>\<rparr>))"

definition checkpoint :: "u64 \<Rightarrow> unit op" where
  "checkpoint units = and_then load_token (\<lambda>_. spend units)"

definition usize_to_u64 :: "nat \<Rightarrow> string \<Rightarrow> u64 op" where
  "usize_to_u64 value detail =
     (if value < 2 ^ 64 then ok (of_nat value) else err (format_error detail))"

definition u64_to_usize :: "u64 \<Rightarrow> string \<Rightarrow> nat op" where
  "u64_to_usize value detail =
     and_then (gets (\<lambda>s. usize_max (machine s))) (\<lambda>maximum.
     if unat value \<le> maximum then ok (unat value) else err (format_error detail))"

text \<open>\<open>a.checked_add(b)\<close> on \<open>usize\<close> values, with the error its caller gives.\<close>

definition usize_add :: "nat \<Rightarrow> nat \<Rightarrow> string \<Rightarrow> nat op" where
  "usize_add a b detail =
     and_then (gets (\<lambda>s. usize_max (machine s))) (\<lambda>maximum.
     if a + b \<le> maximum then ok (a + b) else err (format_error detail))"

definition consume_bytes :: "byte_slice \<Rightarrow> unit op" where
  "consume_bytes bytes =
     (if bytes = [] then checkpoint 0
      else for_fold (chunks CONTROL_CHUNK_SIZE bytes) () (\<lambda>_ chunk.
        and_then (usize_to_u64 (length chunk) ''work chunk length is not representable as u64'')
          checkpoint))"

definition checked_range ::
    "byte_slice \<Rightarrow> u64 \<Rightarrow> u64 \<Rightarrow> string \<Rightarrow> string \<Rightarrow> byte_slice op" where
  "checked_range bytes start len overflow_detail truncated_detail =
     and_then (ok_or (format_error overflow_detail) (checked_add start len)) (\<lambda>finish.
     and_then (u64_to_usize start ''byte range start is not representable on this platform'')
       (\<lambda>first.
     and_then (u64_to_usize finish ''byte range end is not representable on this platform'')
       (\<lambda>last.
     ok_or (format_error truncated_detail) (slice_get bytes first last))))"

definition check_limit :: "u64 \<Rightarrow> u64 \<Rightarrow> limit_kind \<Rightarrow> ('s, unit) comp" where
  "check_limit value maximum limit = err_if (maximum < value) (LimitExceeded limit value maximum)"

text \<open>\<open>try_reserve_exact\<close>: the allocator answers, the request is recorded either way.\<close>

definition reserve_exact :: "nat \<Rightarrow> string \<Rightarrow> unit op" where
  "reserve_exact additional message = (\<lambda>s.
     let p = machine s;
         t = s\<lparr>machine := p\<lparr>requests := requests p @ [additional]\<rparr>\<rparr>
     in if allocator p (requests p) additional then (Inr (), t)
        else (Inl (Io OutOfMemory message), t))"

definition try_reserve :: "nat \<Rightarrow> unit op" where
  "try_reserve additional = reserve_exact additional ''archive model allocation failed''"

text \<open>
  \<open>if values.len() == values.capacity() { try_reserve(values, 1)? }\<close> before a push: the new
  capacity, which the caller keeps with the vector.
\<close>

definition make_room :: "nat \<Rightarrow> nat \<Rightarrow> nat op" where
  "make_room len capacity =
     (if len = capacity then
        and_then (try_reserve 1) (\<lambda>_.
        and_then (gets (\<lambda>s. surplus (machine s) (requests (machine s)))) (\<lambda>spare.
        ok (len + 1 + spare)))
      else ok capacity)"

definition copy_bytes :: "byte_slice \<Rightarrow> byte_slice op" where
  "copy_bytes bytes =
     and_then (usize_to_u64 (length bytes) ''copied byte length is not representable as u64'')
       (\<lambda>units.
     and_then (checkpoint units) (\<lambda>_.
     and_then (try_reserve (length bytes)) (\<lambda>_.
     for_fold (chunks CONTROL_CHUNK_SIZE bytes) [] (\<lambda>copy chunk.
       and_then (checkpoint 0) (\<lambda>_. ok (copy @ chunk))))))"

end
