(* ===== verification/Session_Laws.thy ===== *)
theory Session_Laws
  imports Session
begin

text \<open>
  Laws of the control block: what a charge does on both outcomes, and the relations that the
  control operations keep, as interfaces that later components extend with their own primitives.
\<close>


section \<open>Charging work\<close>

text \<open>The units a budget can still pay for: its own bound and the width of its counter.\<close>

definition affordable :: "work_budget \<Rightarrow> nat" where
  "affordable b =
     (let headroom = 2 ^ 64 - 1 - unat (consumed b) in
      case remaining b of None \<Rightarrow> headroom | Some r \<Rightarrow> min (unat r) headroom)"

text \<open>The budget after \<open>n\<close> units.\<close>

definition charged :: "nat \<Rightarrow> work_budget \<Rightarrow> work_budget" where
  "charged n b = b\<lparr>remaining := map_option (\<lambda>r. r - of_nat n) (remaining b),
                   consumed := consumed b + of_nat n\<rparr>"

text \<open>The bound a failed charge reports: its own bound if that is too small, else the headroom.\<close>

definition reported :: "u64 \<Rightarrow> work_budget \<Rightarrow> u64" where
  "reported u b =
     (case remaining b of
        Some r \<Rightarrow> if r < u then r else - 1 - consumed b
      | None \<Rightarrow> - 1 - consumed b)"

lemma unat_headroom: "unat (- 1 - w :: u64) = 2 ^ 64 - 1 - unat w"
proof -
  have "w \<le> - 1" by simp
  then have "unat (- 1 - w) = unat (- 1 :: u64) - unat w" by (rule unat_sub)
  then show ?thesis by (simp add: unat_max_u64)
qed

lemma charge_eq:
  "charge u b =
     (if unat u \<le> affordable b then (Inr (), charged (unat u) b)
      else (Inl (LimitExceeded WorkUnits u (reported u b)), b))"
proof -
  have sub: "checked_sub (- 1) (consumed b) = Some (- 1 - consumed b)"
    by (simp add: checked_sub_def)
  have fits: "unat (consumed b) + unat u < 2 ^ 64 \<longleftrightarrow> unat u \<le> 2 ^ 64 - 1 - unat (consumed b)"
    using unat_less_64 [of "consumed b"] unfolding two_power_64 by linarith
  show ?thesis
  proof (cases "remaining b")
    case None
    with sub fits show ?thesis
      by (auto simp: charge_def charged_def affordable_def reported_def and_then_def run Let_def
          checked_add_def)
  next
    case (Some r)
    show ?thesis
    proof (cases "r < u")
      case True
      with Some show ?thesis
        by (auto simp: charge_def affordable_def reported_def and_then_def run Let_def
            checked_sub_def word_less_nat_alt word_le_nat_alt)
    next
      case False
      with Some sub fits show ?thesis
        by (auto simp: charge_def charged_def affordable_def reported_def and_then_def run Let_def
            checked_add_def checked_sub_def [of r] word_less_nat_alt word_le_nat_alt)
    qed
  qed
qed

lemma reported_bounds:
  "affordable b < unat u \<Longrightarrow> affordable b \<le> unat (reported u b) \<and> unat (reported u b) < unat u"
  by (auto simp: affordable_def reported_def unat_headroom Let_def word_less_nat_alt
      split: option.splits)

lemma unat_consumed_charged:
  "n \<le> affordable b \<Longrightarrow> unat (consumed (charged n b)) = unat (consumed b) + n"
proof -
  assume "n \<le> affordable b"
  then have "n \<le> 2 ^ 64 - 1 - unat (consumed b)"
    by (auto simp: affordable_def Let_def split: option.splits)
  then have "unat (consumed b) + n < 2 ^ 64"
    using unat_less_64 [of "consumed b"] unfolding two_power_64 by linarith
  then show ?thesis
    by (simp add: charged_def unat_word_ariths unat_of_nat)
qed

lemma remaining_charged:
  "n \<le> affordable b \<Longrightarrow> remaining b = Some r \<Longrightarrow>
     \<exists>r'. remaining (charged n b) = Some r' \<and> unat r = unat r' + n"
  by (auto simp: affordable_def charged_def Let_def unat_sub word_le_nat_alt unat_of_nat)

lemma charged_None [simp]: "remaining b = None \<Longrightarrow> remaining (charged n b) = None"
  by (simp add: charged_def)


section \<open>The control operations\<close>

lemma load_token_success [success]:
  "load_token s = (Inr x, t) \<longleftrightarrow>
     \<not> cancelled (token (control s) (loads (control s))) \<and>
     t = s\<lparr>control := (control s)\<lparr>loads := Suc (loads (control s))\<rparr>\<rparr>"
  by (auto simp: load_token_def token_check_def is_cancelled_def Let_def)

lemma spend_success [success]:
  "spend u s = (Inr x, t) \<longleftrightarrow>
     unat u \<le> affordable (budget (control s)) \<and>
     t = s\<lparr>control := (control s)\<lparr>budget := charged (unat u) (budget (control s))\<rparr>\<rparr>"
  by (auto simp: spend_def charge_eq)

lemma check_limit_success [success]:
  "check_limit v m l s = (Inr x, t) \<longleftrightarrow> v \<le> m \<and> t = s"
  by (auto simp: check_limit_def success not_less)

lemma usize_to_u64_success [success]:
  "usize_to_u64 n d s = (Inr x, t) \<longleftrightarrow> n < 2 ^ 64 \<and> x = of_nat n \<and> t = s"
  by (auto simp: usize_to_u64_def success)

lemma u64_to_usize_success [success]:
  "u64_to_usize v d s = (Inr x, t) \<longleftrightarrow> unat v \<le> usize_max (machine s) \<and> x = unat v \<and> t = s"
  by (auto simp: u64_to_usize_def success)

lemma usize_add_success [success]:
  "usize_add a b d s = (Inr x, t) \<longleftrightarrow> a + b \<le> usize_max (machine s) \<and> x = a + b \<and> t = s"
  by (auto simp: usize_add_def success)

lemma checked_range_success [success]:
  "checked_range bs start len d1 d2 s = (Inr ys, t) \<longleftrightarrow>
     unat start + unat len \<le> length bs \<and> unat start + unat len < 2 ^ 64 \<and>
     unat start + unat len \<le> usize_max (machine s) \<and>
     ys = take (unat len) (drop (unat start) bs) \<and> t = s"
  by (auto simp: checked_range_def success checked_add_def slice_get_eq_Some unat_word_ariths)

lemma reserve_exact_success [success]:
  "reserve_exact n msg s = (Inr x, t) \<longleftrightarrow>
     allocator (machine s) (requests (machine s)) n \<and>
     t = s\<lparr>machine := (machine s)\<lparr>requests := requests (machine s) @ [n]\<rparr>\<rparr>"
  by (auto simp: reserve_exact_def Let_def)

lemma try_reserve_success [success]:
  "try_reserve n s = (Inr x, t) \<longleftrightarrow>
     allocator (machine s) (requests (machine s)) n \<and>
     t = s\<lparr>machine := (machine s)\<lparr>requests := requests (machine s) @ [n]\<rparr>\<rparr>"
  by (simp add: try_reserve_def success)

text \<open>A vector that is about to be pushed to gets room for one element.\<close>

lemma make_room_success:
  "make_room n c s = (Inr d, t) \<Longrightarrow> n \<le> c \<Longrightarrow> n < d \<and> machine t = (machine s)\<lparr>requests := requests (machine t)\<rparr>"
  by (auto simp: make_room_def success)


section \<open>Outcomes of the control operations\<close>

text \<open>What accounting leaves alone: the reader, the totals and the size of an address.\<close>

definition still :: "session \<Rightarrow> session \<Rightarrow> bool" where
  "still s t \<longleftrightarrow> reader t = reader s \<and> counters t = counters s \<and>
     usize_max (machine t) = usize_max (machine s)"

lemma still_refl [simp]: "still s s"
  by (simp add: still_def)

lemma still_trans: "still s t \<Longrightarrow> still t u \<Longrightarrow> still s u"
  by (simp add: still_def)

lemma outcome_checkpoint:
  "(\<And>e. resource_error e \<Longrightarrow> E e) \<Longrightarrow> (\<And>t. still s t \<Longrightarrow> Q () t) \<Longrightarrow> outcome E (checkpoint u) s Q"
  by (auto simp: checkpoint_def outcome_def and_then_def load_token_def token_check_def spend_def
      charge_eq still_def Let_def split: prod.splits)

lemma outcome_try_reserve:
  "(\<And>e. resource_error e \<Longrightarrow> E e) \<Longrightarrow> (\<And>t. still s t \<Longrightarrow> Q () t) \<Longrightarrow> outcome E (try_reserve n) s Q"
  by (auto simp: try_reserve_def outcome_def reserve_exact_def still_def Let_def)

lemma outcome_reserve_exact:
  "(\<And>e. resource_error e \<Longrightarrow> E e) \<Longrightarrow> (\<And>t. still s t \<Longrightarrow> Q () t) \<Longrightarrow>
     outcome E (reserve_exact n d) s Q"
  by (auto simp: outcome_def reserve_exact_def still_def Let_def)

lemma outcome_u64_to_usize:
  "(usize_max (machine s) < unat v \<Longrightarrow> E (format_error d)) \<Longrightarrow>
     (unat v \<le> usize_max (machine s) \<Longrightarrow> Q (unat v) s) \<Longrightarrow> outcome E (u64_to_usize v d) s Q"
  by (auto simp: outcome_def u64_to_usize_def run)

lemma outcome_usize_to_u64:
  "(2 ^ 64 \<le> n \<Longrightarrow> E (format_error d)) \<Longrightarrow> (n < 2 ^ 64 \<Longrightarrow> Q (of_nat n) s) \<Longrightarrow>
     outcome E (usize_to_u64 n d) s Q"
  by (auto simp: outcome_def usize_to_u64_def run)

lemma outcome_usize_add:
  "(usize_max (machine s) < a + b \<Longrightarrow> E (format_error d)) \<Longrightarrow>
     (a + b \<le> usize_max (machine s) \<Longrightarrow> Q (a + b) s) \<Longrightarrow> outcome E (usize_add a b d) s Q"
  by (auto simp: outcome_def usize_add_def run)

lemma outcome_check_limit:
  "(m < v \<Longrightarrow> E (LimitExceeded l v m)) \<Longrightarrow> (v \<le> m \<Longrightarrow> Q () s) \<Longrightarrow>
     outcome E (check_limit v m l) s Q"
  by (auto simp: outcome_def check_limit_def run not_less)

lemma outcome_make_room:
  "(\<And>e. resource_error e \<Longrightarrow> E e) \<Longrightarrow> (\<And>t d. still s t \<Longrightarrow> n \<le> c \<longrightarrow> n < d \<Longrightarrow> Q d t) \<Longrightarrow>
     outcome E (make_room n c) s Q"
  unfolding make_room_def by (intro outcome_rules outcome_try_reserve) auto

lemmas control_outcomes =
  outcome_make_room
  outcome_checkpoint outcome_try_reserve outcome_reserve_exact outcome_u64_to_usize
  outcome_usize_to_u64 outcome_usize_add outcome_check_limit


section \<open>Relations kept by the control operations\<close>

text \<open>
  A relation on sessions that holds across a token load, a charge and an allocation holds across
  everything \<^verbatim>\<open>parse_util.rs\<close> builds from them.
\<close>

locale control_relation = state_relation failing R
  for failing :: "error \<Rightarrow> bool" and R :: "session \<Rightarrow> session \<Rightarrow> bool" +
  assumes rel_load: "preserves failing R load_token"
    and rel_spend: "preserves failing R (spend units)"
    and rel_reserve: "preserves failing R (reserve_exact n message)"
begin

lemma keeps_checkpoint: "preserves failing R (checkpoint units)"
  unfolding checkpoint_def by (intro keeps rel_load rel_spend)

lemma keeps_try_reserve: "preserves failing R (try_reserve n)"
  unfolding try_reserve_def by (rule rel_reserve)

lemma keeps_make_room: "preserves failing R (make_room n c)"
  unfolding make_room_def by (intro keeps keeps_try_reserve)

lemma keeps_usize_to_u64: "preserves failing R (usize_to_u64 n d)"
  unfolding usize_to_u64_def by (intro keeps)

lemma keeps_u64_to_usize: "preserves failing R (u64_to_usize v d)"
  unfolding u64_to_usize_def by (intro keeps)

lemma keeps_usize_add: "preserves failing R (usize_add a b d)"
  unfolding usize_add_def by (intro keeps)

lemma keeps_check_limit: "preserves failing R (check_limit v m l)"
  unfolding check_limit_def by (intro keeps)

lemma keeps_checked_range: "preserves failing R (checked_range bs i n d1 d2)"
  unfolding checked_range_def by (intro keeps keeps_u64_to_usize)

lemma keeps_consume_bytes: "preserves failing R (consume_bytes bs)"
  unfolding consume_bytes_def by (intro keeps keeps_checkpoint keeps_usize_to_u64)

lemma keeps_copy_bytes: "preserves failing R (copy_bytes bs)"
  unfolding copy_bytes_def
  by (intro keeps keeps_checkpoint keeps_usize_to_u64 keeps_try_reserve)

lemmas control_keeps =
  keeps keeps_checkpoint keeps_try_reserve keeps_make_room keeps_usize_to_u64 keeps_u64_to_usize keeps_usize_add
  keeps_check_limit keeps_checked_range keeps_consume_bytes keeps_copy_bytes rel_reserve

end

text \<open>The law of the work budget: what leaves the bound enters the counter, and the counter grows.\<close>

definition budget_evolves :: "session \<Rightarrow> session \<Rightarrow> bool" where
  "budget_evolves s t \<longleftrightarrow>
     (let b = budget (control s); c = budget (control t) in
      unat (consumed b) \<le> unat (consumed c) \<and>
      (case remaining b of
         None \<Rightarrow> remaining c = None
       | Some r \<Rightarrow> (\<exists>r'. remaining c = Some r' \<and>
           unat r + unat (consumed b) = unat r' + unat (consumed c))))"

text \<open>What no operation changes, and what only grows.\<close>

definition environment_kept :: "session \<Rightarrow> session \<Rightarrow> bool" where
  "environment_kept s t \<longleftrightarrow>
     token (control t) = token (control s) \<and> loads (control s) \<le> loads (control t) \<and>
     usize_max (machine t) = usize_max (machine s) \<and>
     allocator (machine t) = allocator (machine s) \<and>
     (\<exists>new. requests (machine t) = requests (machine s) @ new)"

text \<open>No load of the token between the two states saw a cancellation.\<close>

definition uncancelled :: "session \<Rightarrow> session \<Rightarrow> bool" where
  "uncancelled s t \<longleftrightarrow>
     token (control t) = token (control s) \<and> loads (control s) \<le> loads (control t) \<and>
     (\<forall>n. loads (control s) \<le> n \<and> n < loads (control t) \<longrightarrow> \<not> cancelled (token (control s) n))"

lemma budget_evolves_refl: "budget_evolves s s"
  by (simp add: budget_evolves_def Let_def split: option.splits)

lemma budget_evolves_trans: "budget_evolves s t \<Longrightarrow> budget_evolves t u \<Longrightarrow> budget_evolves s u"
  by (auto simp: budget_evolves_def Let_def split: option.splits)

lemma budget_evolves_spend: "preserves any_error budget_evolves (spend units)"
proof (rule preservesI)
  fix s r t assume run: "spend units s = (r, t)"
  let ?b = "budget (control s)"
  show "budget_evolves s t"
  proof (cases "unat units \<le> affordable ?b")
    case True
    then show ?thesis
      using run remaining_charged [OF True]
      by (auto simp: spend_def charge_eq budget_evolves_def Let_def unat_consumed_charged
          split: option.splits)
  next
    case False
    with run have "t = s" by (simp add: spend_def charge_eq)
    then show ?thesis by (simp add: budget_evolves_refl)
  qed
qed

interpretation budget_law: control_relation any_error budget_evolves
proof unfold_locales
  show "preserves any_error budget_evolves load_token"
    by (auto simp: preserves_def load_token_def budget_evolves_def Let_def split: option.splits)
  show "preserves any_error budget_evolves (reserve_exact n message)" for n message
    by (auto simp: preserves_def reserve_exact_def budget_evolves_def Let_def
        split: option.splits if_splits)
qed (auto intro: budget_evolves_refl budget_evolves_trans budget_evolves_spend)

interpretation environment: control_relation any_error environment_kept
proof unfold_locales
  show "preserves any_error environment_kept load_token"
    by (auto simp: preserves_def load_token_def environment_kept_def Let_def)
  show "preserves any_error environment_kept (spend units)" for units
    by (auto simp: preserves_def spend_def environment_kept_def split: prod.splits)
  show "preserves any_error environment_kept (reserve_exact n message)" for n message
    by (auto simp: preserves_def reserve_exact_def environment_kept_def Let_def split: if_splits)
  show "environment_kept s s" for s
    by (simp add: environment_kept_def)
  show "environment_kept s t \<Longrightarrow> environment_kept t u \<Longrightarrow> environment_kept s u" for s t u
    by (auto simp: environment_kept_def)
qed

abbreviation uncancelled_error :: "error \<Rightarrow> bool" where
  "uncancelled_error \<equiv> \<lambda>e. e \<noteq> Cancelled"

interpretation cancellation: control_relation uncancelled_error uncancelled
proof unfold_locales
  show "preserves uncancelled_error uncancelled load_token"
  proof (rule preservesI)
    fix s r t assume "load_token s = (r, t)" and "observed uncancelled_error r"
    then have "load_token s = (Inr (), t)"
      by (cases r) (auto simp: load_token_def token_check_def Let_def split: if_splits)
    then show "uncancelled s t"
      by (auto simp: success uncancelled_def less_Suc_eq)
  qed
  show "preserves uncancelled_error uncancelled (spend units)" for units
    by (auto simp: preserves_def spend_def uncancelled_def split: prod.splits)
  show "preserves uncancelled_error uncancelled (reserve_exact n message)" for n message
    by (auto simp: preserves_def reserve_exact_def uncancelled_def Let_def split: if_splits)
  show "uncancelled s s" for s
    by (auto simp: uncancelled_def)
  show "uncancelled s t \<Longrightarrow> uncancelled t u \<Longrightarrow> uncancelled s u" for s t u
    by (auto simp: uncancelled_def) (metis not_less)
qed

text \<open>The value of a copy is the slice copied.\<close>

lemma for_fold_copy:
  assumes "for_fold cs acc (\<lambda>copy chunk. and_then (checkpoint 0) (\<lambda>_. ok (copy @ chunk))) s
             = (Inr r, t)"
  shows "r = acc @ concat cs"
  using assms by (induction cs arbitrary: acc s) (fastforce simp: success)+

lemma copy_bytes_value: "copy_bytes bs s = (Inr r, t) \<Longrightarrow> r = bs"
  by (auto simp: copy_bytes_def success concat_chunks CONTROL_CHUNK_SIZE_def
      dest!: for_fold_copy)


section \<open>A concrete session\<close>

text \<open>
  The state in which the crate starts on a 64-bit machine with memory to spare: no cancellation, no
  bound on the work, empty totals.  It serves to evaluate the model on inputs.
\<close>

definition sample_session :: "byte_slice \<Rightarrow> session" where
  "sample_session bytes = \<lparr>
     reader = \<lparr>rd_bytes = bytes, rd_position = 0\<rparr>,
     control = \<lparr>token = (\<lambda>_. token_new), loads = 0, budget = unlimited\<rparr>,
     counters = \<lparr>total_folders = 0, total_coders = 0, total_streams = 0,
       total_packed_streams = 0, total_substreams = 0, total_properties = 0\<rparr>,
     machine = \<lparr>usize_max = 18446744073709551615, allocator = (\<lambda>_ _. True), requests = [],
       surplus = (\<lambda>_. 0)\<rparr>\<rparr>"

declare
  run [evaluate] sample_session_def [evaluate] token_new_def [evaluate] unlimited_def [evaluate]
  token_check_def [evaluate] is_cancelled_def [evaluate] load_token_def [evaluate]
  Let_def [evaluate] spend_def [evaluate] charge_eq [evaluate] affordable_def [evaluate]
  charged_def [evaluate] checkpoint_def [evaluate] usize_to_u64_def [evaluate]
  u64_to_usize_def [evaluate] usize_add_def [evaluate] slice_get_def [evaluate]
  item_get_def [evaluate] check_limit_def [evaluate] reserve_exact_def [evaluate]
  try_reserve_def [evaluate] consume_bytes_def [evaluate] chunks.simps [evaluate]
  CONTROL_CHUNK_SIZE_def [evaluate] default_limits_def [evaluate] checked_add_def [evaluate]
  checked_sub_def [evaluate] checked_mul_def [evaluate] checked_range_def [evaluate]
  copy_bytes_def [evaluate] make_room_def [evaluate]

lemma run_result: "fst (m s) = Inr x \<Longrightarrow> m s = (Inr x, snd (m s))"
  by (metis prod.collapse)

end
