(* ===== verification/Checksum_Crc.thy ===== *)
theory Checksum_Crc
  imports Session_Laws
begin

text \<open>
  \<^verbatim>\<open>checksum.rs\<close>: the table-driven CRC-32 and its incremental state, and the chunked checksum with
  work accounting that \<^verbatim>\<open>parser.rs\<close> and the payload verifiers run over a slice.  The reference is the
  bit-serial reflected CRC; table, incremental and chunked forms are proved equal to it.
\<close>


section \<open>The code\<close>

definition CRC32_POLYNOMIAL :: u32 where
  "CRC32_POLYNOMIAL = 0xedb88320"

definition crc32_bit :: "u32 \<Rightarrow> u32" where
  "crc32_bit value =
     (if value AND 1 = 0 then drop_bit 1 value else drop_bit 1 value XOR CRC32_POLYNOMIAL)"

definition make_crc32_table :: "u32 list" where
  "make_crc32_table = map (\<lambda>index. (crc32_bit ^^ 8) (of_nat index)) [0..<256]"

record crc32_state =
  crc_state :: u32

definition crc32_new :: crc32_state where
  "crc32_new = \<lparr>crc_state = - 1\<rparr>"

definition crc32_update_byte :: "u8 \<Rightarrow> (crc32_state, unit) comp" where
  "crc32_update_byte byte =
     and_then (gets crc_state) (\<lambda>state.
     let low = ucast state :: u8; table_index = unat (low XOR byte) in
     and_then (ok_or (format_error ''internal CRC-32 table index is invalid'')
                (item_get make_crc32_table table_index)) (\<lambda>table_value.
     modify (\<lambda>c. c\<lparr>crc_state := table_value XOR drop_bit 8 state\<rparr>)))"

definition crc32_update :: "byte_slice \<Rightarrow> (crc32_state, unit) comp" where
  "crc32_update bytes = for_fold bytes () (\<lambda>_. crc32_update_byte)"

definition crc32_finalize :: "crc32_state \<Rightarrow> u32" where
  "crc32_finalize c = NOT (crc_state c)"

text \<open>\<open>crc32_with_control\<close> and its copies: one charge of its length per chunk.\<close>

definition checksum_with_control :: "string \<Rightarrow> byte_slice \<Rightarrow> u32 op" where
  "checksum_with_control detail bytes =
     and_then (for_fold (chunks CONTROL_CHUNK_SIZE bytes) crc32_new (\<lambda>checksum chunk.
       and_then (usize_to_u64 (length chunk) detail) (\<lambda>units.
       and_then (checkpoint units) (\<lambda>_.
       case crc32_update chunk checksum of
         (Inl e, _) \<Rightarrow> err e
       | (Inr _, checksum') \<Rightarrow> ok checksum'))))
     (\<lambda>checksum. ok (crc32_finalize checksum))"

definition crc32_with_control :: "byte_slice \<Rightarrow> u32 op" where
  "crc32_with_control bytes =
     checksum_with_control ''CRC chunk length is not representable as u64'' bytes"


section \<open>The reference\<close>

definition crc32_byte :: "u32 \<Rightarrow> u8 \<Rightarrow> u32" where
  "crc32_byte state byte = (crc32_bit ^^ 8) (state XOR ucast byte)"

definition crc32 :: "byte_slice \<Rightarrow> u32" where
  "crc32 bytes = NOT (foldl crc32_byte (- 1) bytes)"

lemma crc32_bit_alt: "crc32_bit v = drop_bit 1 v XOR (if bit v 0 then CRC32_POLYNOMIAL else 0)"
  by (auto simp: crc32_bit_def and_one_eq bit_0 mod_2_eq_odd)

lemma xor_cancel: "p XOR (p XOR q) = (q :: 'a::len word)"
  by (simp flip: xor.assoc)

lemma crc32_bit_xor: "crc32_bit (a XOR b) = crc32_bit a XOR crc32_bit b"
  by (cases "bit a 0"; cases "bit b 0")
    (simp_all only: crc32_bit_alt bit_xor_iff drop_bit_xor if_True if_False simp_thms
      xor_cancel xor.assoc xor.left_commute xor.commute xor.right_neutral xor.left_neutral)

lemma crc32_bits_xor: "(crc32_bit ^^ n) (a XOR b) = (crc32_bit ^^ n) a XOR (crc32_bit ^^ n) b"
  by (induction n) (simp_all add: crc32_bit_xor)

text \<open>A state whose low byte is clear only shifts.\<close>

lemma crc32_bits_shift:
  "n \<le> 8 \<Longrightarrow> \<forall>i < 8. \<not> bit v i \<Longrightarrow> (crc32_bit ^^ n) v = drop_bit n v"
proof (induction n)
  case (Suc n)
  then have "(crc32_bit ^^ Suc n) v = crc32_bit (drop_bit n v)" by simp
  also have "\<dots> = drop_bit 1 (drop_bit n v)"
    using Suc.prems by (simp add: crc32_bit_alt [of "drop_bit n v"] bit_drop_bit_eq)
  finally show ?case by (simp add: drop_bit_drop_bit)
qed simp

lemma table_lookup:
  "item_get make_crc32_table (unat (b :: u8)) = Some ((crc32_bit ^^ 8) (ucast b))"
proof -
  have "unat b < 256" by simp
  then show ?thesis
    by (simp add: make_crc32_table_def item_get_def del: funpow.simps)
qed

lemma low_byte_split:
  "state XOR ucast byte = ucast ((ucast state :: u8) XOR byte) XOR push_bit 8 (drop_bit 8 (state :: u32))"
  by (rule bit_eqI)
    (auto simp: bit_xor_iff bit_ucast_iff bit_push_bit_iff bit_drop_bit_eq possible_bit_word)

lemma table_step:
  "(crc32_bit ^^ 8) (ucast ((ucast state :: u8) XOR byte)) XOR drop_bit 8 state = crc32_byte state byte"
proof -
  let ?high = "push_bit 8 (drop_bit 8 state)"
  have "(crc32_bit ^^ 8) ?high = drop_bit 8 ?high"
    by (rule crc32_bits_shift) (auto simp: bit_push_bit_iff)
  also have "\<dots> = drop_bit 8 state"
    by (rule bit_eqI) (auto simp: bit_push_bit_iff bit_drop_bit_eq possible_bit_word dest: bit_imp_le_length)
  finally show ?thesis
    by (simp only: crc32_byte_def low_byte_split crc32_bits_xor)
qed

lemma crc32_update_byte_run:
  "crc32_update_byte b c = (Inr (), c\<lparr>crc_state := crc32_byte (crc_state c) b\<rparr>)"
  by (simp add: crc32_update_byte_def and_then_def run table_lookup Let_def table_step
      del: funpow.simps)

lemma crc32_update_run:
  "crc32_update bytes c = (Inr (), c\<lparr>crc_state := foldl crc32_byte (crc_state c) bytes\<rparr>)"
proof (induction bytes arbitrary: c)
  case Nil
  then show ?case by (simp add: crc32_update_def ok_def)
next
  case (Cons b bs)
  then show ?case
    by (simp add: crc32_update_def run crc32_update_byte_run)
qed

lemma checksum_loop_value:
  assumes "for_fold cs c (\<lambda>checksum chunk.
       and_then (usize_to_u64 (length chunk) detail) (\<lambda>units.
       and_then (checkpoint units) (\<lambda>_.
       case crc32_update chunk checksum of
         (Inl e, _) \<Rightarrow> err e
       | (Inr _, checksum') \<Rightarrow> ok checksum'))) s = (Inr r, t)"
  shows "crc_state r = foldl crc32_byte (crc_state c) (concat cs)"
  using assms
  by (induction cs arbitrary: c s) (fastforce simp: success crc32_update_run)+

text \<open>The chunked checksum of a slice is the bit-serial CRC of the whole slice.\<close>

lemma checksum_with_control_value:
  "checksum_with_control detail bytes s = (Inr v, t) \<Longrightarrow> v = crc32 bytes"
  by (auto simp: checksum_with_control_def success crc32_def crc32_new_def crc32_finalize_def
      concat_chunks CONTROL_CHUNK_SIZE_def dest!: checksum_loop_value)

lemma crc32_with_control_value: "crc32_with_control bytes s = (Inr v, t) \<Longrightarrow> v = crc32 bytes"
  unfolding crc32_with_control_def by (rule checksum_with_control_value)

lemma crc32_append:
  "crc32 (xs @ ys) = NOT (foldl crc32_byte (NOT (crc32 xs)) ys)"
  by (simp add: crc32_def)

context control_relation begin

lemma keeps_checksum_with_control: "preserves failing R (checksum_with_control detail bytes)"
  unfolding checksum_with_control_def crc32_update_run prod.case sum.case
  by (intro control_keeps)

lemma keeps_crc32_with_control: "preserves failing R (crc32_with_control bytes)"
  unfolding crc32_with_control_def by (rule keeps_checksum_with_control)

end


section \<open>Evaluation\<close>

lemma crc32_byte_unfold:
  "crc32_byte s b =
     crc32_bit (crc32_bit (crc32_bit (crc32_bit (crc32_bit (crc32_bit (crc32_bit (crc32_bit
       (s XOR ucast b))))))))"
  by (simp add: crc32_byte_def numeral_eq_Suc)

lemmas crc32_eval = crc32_def crc32_byte_unfold crc32_bit_def CRC32_POLYNOMIAL_def

text \<open>The check value of CRC-32/ISO-HDLC, the checksum of the digits 1 to 9 in ASCII.\<close>

lemma crc32_check_value: "crc32 [49, 50, 51, 52, 53, 54, 55, 56, 57] = 0xcbf43926"
  by (simp add: crc32_eval)

end
