(* ===== verification/Bounded_Reader.thy ===== *)
theory Bounded_Reader
  imports Checksum_Crc
begin

text \<open>
  \<^verbatim>\<open>bounded.rs\<close>: the cursor over a byte slice that all header parsing goes through.  Operations work on
  the session's reader; \<open>with_reader\<close> runs a computation on a fresh cursor over other bytes and puts
  the outer one back, which is what a local \<open>BoundedReader::new\<close> does.
\<close>


section \<open>The code\<close>

definition reader_new :: "byte_slice \<Rightarrow> bounded_reader" where
  "reader_new bytes = \<lparr>rd_bytes = bytes, rd_position = 0\<rparr>"

definition with_reader :: "byte_slice \<Rightarrow> 'a op \<Rightarrow> 'a op" where
  "with_reader bytes m =
     (\<lambda>s. case m (s\<lparr>reader := reader_new bytes\<rparr>) of (r, t) \<Rightarrow> (r, t\<lparr>reader := reader s\<rparr>))"

definition set_position :: "nat \<Rightarrow> unit op" where
  "set_position p = modify (\<lambda>s. s\<lparr>reader := (reader s)\<lparr>rd_position := p\<rparr>\<rparr>)"

definition reader_read_bytes :: "u64 \<Rightarrow> byte_slice op" where
  "reader_read_bytes len =
     and_then (u64_to_usize len ''byte range length is not representable on this platform'')
       (\<lambda>requested.
     and_then (gets reader) (\<lambda>r.
     and_then (usize_add (rd_position r) requested ''byte range end overflows this platform'')
       (\<lambda>finish.
     and_then (ok_or (format_error ''truncated bounded byte range'')
                (slice_get (rd_bytes r) (rd_position r) finish)) (\<lambda>bytes.
     and_then (set_position finish) (\<lambda>_.
     ok bytes)))))"

definition reader_read_u8 :: "u8 op" where
  "reader_read_u8 =
     and_then (reader_read_bytes 1) (\<lambda>bytes.
     ok_or (format_error ''truncated byte value'') (item_get bytes 0))"

text \<open>\<open><[u8; N]>::try_from(bytes)\<close> followed by \<open>from_le_bytes\<close>.\<close>

definition le_array :: "nat \<Rightarrow> byte_slice \<Rightarrow> 'a::len word option" where
  "le_array n bytes = (if length bytes = n then Some (from_le_bytes bytes) else None)"

definition reader_read_u32_le :: "u32 op" where
  "reader_read_u32_le =
     and_then (reader_read_bytes 4) (\<lambda>bytes.
     ok_or (format_error ''truncated little-endian u32'') (le_array 4 bytes))"

definition reader_read_u64_le :: "u64 op" where
  "reader_read_u64_le =
     and_then (reader_read_bytes 8) (\<lambda>bytes.
     ok_or (format_error ''truncated little-endian u64'') (le_array 8 bytes))"

text \<open>The loop of \<open>read_7z_uint\<close> over its shift amounts; the early return is the first branch.\<close>

fun read_7z_loop :: "nat list \<Rightarrow> u8 \<Rightarrow> u8 \<Rightarrow> u64 \<Rightarrow> u64 op" where
  "read_7z_loop [] first bitmask value = ok value"
| "read_7z_loop (shift # shifts) first bitmask value =
     (if first AND bitmask = 0 then
        and_then (ok_or (format_error ''7z integer mask underflows'') (checked_sub bitmask 1))
          (\<lambda>low_mask. ok (value OR push_bit shift (ucast (first AND low_mask))))
      else
        and_then reader_read_u8 (\<lambda>byte.
        read_7z_loop shifts first (drop_bit 1 bitmask) (value OR push_bit shift (ucast byte))))"

definition reader_read_7z_uint :: "u64 op" where
  "reader_read_7z_uint =
     and_then reader_read_u8 (\<lambda>first.
     read_7z_loop [0, 8, 16, 24, 32, 40, 48, 56] first 0x80 0)"

definition finish :: "string \<Rightarrow> unit op" where
  "finish unconsumed_detail =
     and_then (gets reader) (\<lambda>r.
     if rd_position r = length (rd_bytes r) then ok () else err (format_error unconsumed_detail))"

definition parse_exact :: "u64 \<Rightarrow> string \<Rightarrow> 'a op \<Rightarrow> 'a op" where
  "parse_exact len unconsumed_detail parse =
     and_then (reader_read_bytes len) (\<lambda>bytes.
     with_reader bytes
       (and_then parse (\<lambda>value.
        and_then (finish unconsumed_detail) (\<lambda>_.
        ok value))))"


section \<open>What a read does\<close>

text \<open>The bytes still to be read, and the session after reading \<open>n\<close> of them.\<close>

definition unread :: "session \<Rightarrow> byte_slice" where
  "unread s = drop (rd_position (reader s)) (rd_bytes (reader s))"

definition advance :: "nat \<Rightarrow> session \<Rightarrow> session" where
  "advance n s = s\<lparr>reader := (reader s)\<lparr>rd_position := rd_position (reader s) + n\<rparr>\<rparr>"

text \<open>A cursor over a slice that fits the address space.\<close>

definition reader_ok :: "session \<Rightarrow> bool" where
  "reader_ok s \<longleftrightarrow>
     rd_position (reader s) \<le> length (rd_bytes (reader s)) \<and>
     length (rd_bytes (reader s)) \<le> usize_max (machine s)"

lemma unread_advance [simp]: "unread (advance n s) = drop n (unread s)"
  by (simp add: unread_def advance_def add.commute)

lemma advance_advance [simp]: "advance n (advance m s) = advance (m + n) s"
  by (simp add: advance_def add.assoc)

lemma advance_frame [simp]:
  "control (advance n s) = control s" "counters (advance n s) = counters s"
  "machine (advance n s) = machine s" "rd_bytes (reader (advance n s)) = rd_bytes (reader s)"
  "rd_position (reader (advance n s)) = rd_position (reader s) + n"
  by (simp_all add: advance_def)

lemma advance_0 [simp]: "advance 0 s = s"
  by (simp add: advance_def)

lemma reader_ok_advance:
  "reader_ok s \<Longrightarrow> n \<le> length (unread s) \<Longrightarrow> reader_ok (advance n s)"
  by (simp add: reader_ok_def unread_def advance_def) linarith

lemma reader_read_bytes_success [success]:
  "reader_read_bytes n s = (Inr bs, t) \<longleftrightarrow>
     rd_position (reader s) + unat n \<le> length (rd_bytes (reader s)) \<and>
     rd_position (reader s) + unat n \<le> usize_max (machine s) \<and>
     bs = take (unat n) (unread s) \<and> t = advance (unat n) s"
  by (auto simp: reader_read_bytes_def success slice_get_eq_Some set_position_def unread_def
      advance_def)

lemma reader_read_bytes_run:
  assumes "reader_ok s"
  shows "unat n \<le> length (unread s) \<Longrightarrow>
           reader_read_bytes n s = (Inr (take (unat n) (unread s)), advance (unat n) s)"
    and "length (unread s) < unat n \<Longrightarrow> \<exists>d. reader_read_bytes n s = (Inl (format_error d), s)"
  using assms
   apply (simp add: reader_read_bytes_success reader_ok_def unread_def, linarith)
  apply (auto simp: reader_read_bytes_def u64_to_usize_def usize_add_def and_then_def run
      slice_get_def unread_def reader_ok_def)
  done

lemma reader_read_u8_success [success]:
  "reader_read_u8 s = (Inr b, t) \<longleftrightarrow>
     rd_position (reader s) < length (rd_bytes (reader s)) \<and>
     rd_position (reader s) < usize_max (machine s) \<and>
     b = rd_bytes (reader s) ! rd_position (reader s) \<and> t = advance 1 s"
  by (auto simp: reader_read_u8_def success item_get_eq_Some unread_def Suc_le_eq)

lemma reader_read_u8_run:
  assumes "reader_ok s"
  shows "unread s = b # bs \<Longrightarrow> reader_read_u8 s = (Inr b, advance 1 s)"
    and "unread s = [] \<Longrightarrow> \<exists>d. reader_read_u8 s = (Inl (format_error d), s)"
  using assms reader_read_bytes_run [OF assms, of 1]
  by (auto simp: reader_read_u8_def and_then_def run item_get_def split: option.splits)

lemma reader_read_u32_le_success [success]:
  "reader_read_u32_le s = (Inr w, t) \<longleftrightarrow>
     rd_position (reader s) + 4 \<le> length (rd_bytes (reader s)) \<and>
     rd_position (reader s) + 4 \<le> usize_max (machine s) \<and>
     w = from_le_bytes (take 4 (unread s)) \<and> t = advance 4 s"
  by (auto simp: reader_read_u32_le_def success le_array_def unread_def)

lemma reader_read_u64_le_success [success]:
  "reader_read_u64_le s = (Inr w, t) \<longleftrightarrow>
     rd_position (reader s) + 8 \<le> length (rd_bytes (reader s)) \<and>
     rd_position (reader s) + 8 \<le> usize_max (machine s) \<and>
     w = from_le_bytes (take 8 (unread s)) \<and> t = advance 8 s"
  by (auto simp: reader_read_u64_le_def success le_array_def unread_def)

lemma finish_success [success]:
  "finish d s = (Inr x, t) \<longleftrightarrow> rd_position (reader s) = length (rd_bytes (reader s)) \<and> t = s"
  by (auto simp: finish_def success)

lemma with_reader_success [success]:
  "with_reader bs m s = (Inr x, t) \<longleftrightarrow>
     (\<exists>u. m (s\<lparr>reader := reader_new bs\<rparr>) = (Inr x, u) \<and> t = u\<lparr>reader := reader s\<rparr>)"
  by (auto simp: with_reader_def split: prod.splits)


section \<open>The 7z integer format\<close>

text \<open>
  Specification: the number \<open>k\<close> of leading one bits of the first byte is the number of extra bytes;
  they are the low bytes of the value, least significant first, and the remaining bits of the first
  byte are its high part.
\<close>

function ones_from :: "nat \<Rightarrow> u8 \<Rightarrow> nat" where
  "ones_from j b = (if j < 8 \<and> bit b (7 - j) then Suc (ones_from (Suc j) b) else 0)"
  by pat_completeness auto
termination by (relation "measure (\<lambda>(j, b). 8 - j)") auto

declare ones_from.simps [simp del]

definition uint7z_spec :: "byte_slice \<Rightarrow> (nat \<times> nat) option" where
  "uint7z_spec bs = (case bs of
     [] \<Rightarrow> None
   | first # extra \<Rightarrow>
       let k = ones_from 0 first in
       if length extra < k then None
       else Some (le_nat (take k extra) + (unat first mod 2 ^ (7 - k)) * 256 ^ k, Suc k))"

lemma ones_from_bound: "j \<le> 8 \<Longrightarrow> j + ones_from j b \<le> 8"
proof (induction j b rule: ones_from.induct)
  case (1 j b)
  then show ?case by (subst ones_from.simps) (auto split: if_splits)
qed

lemma shifted_128: "j < 8 \<Longrightarrow> drop_bit j (128 :: u8) = push_bit (7 - j) 1"
proof -
  assume "j < 8"
  then have "j \<in> {0, 1, 2, 3, 4, 5, 6, 7}" by auto
  then show ?thesis by auto
qed

lemma mask_test: "j < 8 \<Longrightarrow> (first AND drop_bit j (128 :: u8) = 0) = (\<not> bit first (7 - j))"
  by (simp add: shifted_128 and_exp_eq_0_iff_not_bit push_bit_eq_mult)

lemma low_mask: "j < 8 \<Longrightarrow> checked_sub (drop_bit j (128 :: u8)) 1 = Some (mask (7 - j))"
proof -
  assume "j < 8"
  then have "j \<in> {0, 1, 2, 3, 4, 5, 6, 7}" by auto
  then show ?thesis by (auto simp: checked_sub_def mask_eq_exp_minus_1 word_le_nat_alt)
qed

lemma unat_low_bits: "n < 8 \<Longrightarrow> unat ((first :: u8) AND mask n) = unat first mod 2 ^ n"
  by (metis take_bit_eq_mask take_bit_eq_mod unsigned_take_bit_eq)

text \<open>Or-ing a byte above a shorter value adds it.\<close>

lemma or_above:
  assumes a: "a < 256 ^ j" and j: "j \<le> 7"
  shows "(word_of_nat a :: u64) OR push_bit (8 * j) (ucast (b :: u8))
           = word_of_nat (a + unat b * 256 ^ j)"
proof -
  have pow: "(256 :: nat) ^ j = 2 ^ (8 * j)" by (simp add: power_mult)
  have add: "(word_of_nat a :: u64) OR push_bit (8 * j) (ucast b)
          = word_of_nat a + push_bit (8 * j) (ucast b)"
  proof (rule disjunctive_add [symmetric])
    fix n
    show "\<not> bit (word_of_nat a :: u64) n \<or> \<not> bit (push_bit (8 * j) (ucast b) :: u64) n"
    proof (cases "n < 8 * j")
      case True
      then show ?thesis by (simp add: bit_push_bit_iff)
    next
      case False
      have "\<not> bit a n"
        using a pow False
        by (metis bit_take_bit_iff take_bit_nat_eq_self_iff not_less)
      then show ?thesis by (simp add: bit_of_nat_iff)
    qed
  qed
  have "push_bit (8 * j) (ucast b :: u64) = word_of_nat (unat b * 256 ^ j)"
    unfolding pow by (simp add: push_bit_eq_mult)
  then have "(word_of_nat a :: u64) + push_bit (8 * j) (ucast b) = word_of_nat (a + unat b * 256 ^ j)"
    by (simp only: of_nat_add)
  with add show ?thesis by (rule trans)
qed

lemma le_nat_snoc: "le_nat (xs @ [b]) = le_nat xs + unat b * 256 ^ length xs"
  by (induction xs) (auto simp: algebra_simps)

lemma push_low_bits:
  assumes "a < 256 ^ j" and "j < 8"
  shows "(word_of_nat a :: u64) OR push_bit (8 * j) (ucast ((first :: u8) AND mask (7 - j)))
           = word_of_nat (a + (unat first mod 2 ^ (7 - j)) * 256 ^ j)"
  using or_above [OF assms(1), of "first AND mask (7 - j)"] assms(2) by (simp add: unat_low_bits)

text \<open>One more byte of the low part is behind the cursor after each iteration of the loop.\<close>

lemma read_7z_loop_run:
  assumes "reader_ok s" and "j \<le> 8" and "length low = j"
  shows "case (let k = ones_from j first in
               if length (unread s) < k then None else Some k) of
           Some k \<Rightarrow>
             read_7z_loop (map ((*) 8) [j..<8]) first (drop_bit j 128) (word_of_nat (le_nat low)) s
               = (Inr (word_of_nat (le_nat (low @ take k (unread s)) +
                         (unat first mod 2 ^ (7 - (j + k))) * 256 ^ (j + k))), advance k s)
         | None \<Rightarrow> \<exists>d t.
             read_7z_loop (map ((*) 8) [j..<8]) first (drop_bit j 128) (word_of_nat (le_nat low)) s
               = (Inl (format_error d), t)"
  using assms
proof (induction "8 - j" arbitrary: j low s)
  case 0
  then have j: "j = 8" by simp
  then have "ones_from j first = 0" by (simp add: ones_from.simps [of 8])
  with j show ?case by (simp add: run Let_def)
next
  case (Suc n)
  then have j: "j < 8" by simp
  have low: "le_nat low < 256 ^ j" using le_nat_bound [of low] Suc.prems by simp
  have split: "map ((*) 8) [j..<8] = 8 * j # map ((*) 8) [Suc j..<8]"
    using j by (simp add: upt_conv_Cons)
  show ?case
  proof (cases "bit first (7 - j)")
    case False
    then have "ones_from j first = 0" by (simp add: ones_from.simps [of j])
    then show ?thesis
      using False j low by (simp add: split mask_test low_mask run push_low_bits)
  next
    case True
    then have k: "ones_from j first = Suc (ones_from (Suc j) first)"
      using j by (simp add: ones_from.simps [of j])
    show ?thesis
    proof (cases "unread s")
      case Nil
      with reader_read_u8_run(2) [OF Suc.prems(1) Nil] True j k show ?thesis
        by (auto simp: split mask_test and_then_def)
    next
      case (Cons b bs)
      note byte = reader_read_u8_run(1) [OF Suc.prems(1) Cons]
      have adv: "reader_ok (advance 1 s)"
        using Suc.prems(1) Cons by (intro reader_ok_advance) simp_all
      have "le_nat (low @ [b]) = le_nat low + unat b * 256 ^ j"
        using Suc.prems by (simp add: le_nat_snoc)
      then have step: "read_7z_loop (map ((*) 8) [j..<8]) first (drop_bit j 128) (word_of_nat (le_nat low)) s
        = read_7z_loop (map ((*) 8) [Suc j..<8]) first (drop_bit (Suc j) 128)
            (word_of_nat (le_nat (low @ [b]))) (advance 1 s)"
        using True j low
        by (simp add: split mask_test run byte or_above drop_bit_drop_bit del: of_nat_add)
      have n: "n = 8 - Suc j" and len: "length (low @ [b]) = Suc j" and j8: "Suc j \<le> 8"
        using Suc j by simp_all
      from Suc.hyps(1) [OF n adv j8 len] show ?thesis
        unfolding step by (simp add: Cons k Let_def split: option.splits if_splits)
    qed
  qed
qed

text \<open>The reader decodes exactly the specified format, and fails with a format error otherwise.\<close>

lemma reader_read_7z_uint_run:
  assumes "reader_ok s"
  shows "case uint7z_spec (unread s) of
           Some (v, n) \<Rightarrow> reader_read_7z_uint s = (Inr (word_of_nat v), advance n s)
         | None \<Rightarrow> \<exists>d t. reader_read_7z_uint s = (Inl (format_error d), t)"
proof (cases "unread s")
  case Nil
  with reader_read_u8_run(2) [OF assms Nil] show ?thesis
    by (auto simp: uint7z_spec_def reader_read_7z_uint_def and_then_def)
next
  case (Cons b bs)
  note byte = reader_read_u8_run(1) [OF assms Cons]
  have adv: "reader_ok (advance 1 s)"
    using assms Cons by (intro reader_ok_advance) simp_all
  have unfold: "reader_read_7z_uint s = read_7z_loop (map ((*) 8) [0..<8]) b (drop_bit 0 128)
      (word_of_nat (le_nat [])) (advance 1 s)"
    by (simp add: reader_read_7z_uint_def run byte upt_conv_Cons)
  have "0 \<le> (8 :: nat)" and "length ([] :: byte_slice) = 0" by simp_all
  from read_7z_loop_run [OF adv this, of b] show ?thesis
    unfolding unfold by (simp add: uint7z_spec_def Cons Let_def split: option.splits if_splits)
qed


section \<open>Encoding\<close>

text \<open>
  The writer's side of the format: a value below \<open>2 ^ (7 * (k + 1))\<close> needs \<open>k\<close> extra bytes.  The
  shortest encoding is used, as archivers do; the reader also accepts longer ones.
\<close>

definition encode_7z_with :: "nat \<Rightarrow> nat \<Rightarrow> byte_slice" where
  "encode_7z_with k v =
     of_nat (2 ^ 8 - 2 ^ (8 - k) + v div 256 ^ k) # to_le_bytes k (v mod 256 ^ k)"

definition extra_bytes :: "nat \<Rightarrow> nat" where
  "extra_bytes v =
     (if v < 2 ^ 7 then 0 else if v < 2 ^ 14 then 1 else if v < 2 ^ 21 then 2
      else if v < 2 ^ 28 then 3 else if v < 2 ^ 35 then 4 else if v < 2 ^ 42 then 5
      else if v < 2 ^ 49 then 6 else if v < 2 ^ 56 then 7 else 8)"

definition encode_7z_uint :: "u64 \<Rightarrow> byte_slice" where
  "encode_7z_uint v = encode_7z_with (extra_bytes (unat v)) (unat v)"

lemma ones_from_eq:
  "j \<le> k \<Longrightarrow> k \<le> 8 \<Longrightarrow> \<forall>i. j \<le> i \<and> i < k \<longrightarrow> bit b (7 - i) \<Longrightarrow> k = 8 \<or> \<not> bit b (7 - k) \<Longrightarrow>
     ones_from j b = k - j"
proof (induction j b rule: ones_from.induct)
  case (1 j b)
  show ?case
  proof (cases "j = k")
    case True
    then show ?thesis using 1 by (subst ones_from.simps) auto
  next
    case False
    then show ?thesis using 1 by (subst ones_from.simps) (auto simp: Suc_diff_Suc)
  qed
qed

text \<open>The first byte announces its number of extra bytes and holds the high part.\<close>

lemma first_byte_bits:
  assumes "k \<le> 8" and "h < 2 ^ (7 - k)"
  shows "bit (2 ^ 8 - 2 ^ (8 - k) + h :: nat) i \<longleftrightarrow> (8 - k \<le> i \<and> i < 8) \<or> bit h i"
proof -
  let ?ones = "push_bit (8 - k) (mask k) :: nat"
  have small: "i < 7 - k" if "bit h i" for i
    using assms(2) that by (metis bit_take_bit_iff take_bit_nat_eq_self_iff)
  have "2 ^ 8 - 2 ^ (8 - k) = ?ones"
    using assms(1)
    by (simp add: push_bit_eq_mult mask_eq_exp_minus_1 diff_mult_distrib flip: power_add)
  moreover have "?ones + h = ?ones OR h"
  proof (rule disjunctive_add)
    show "\<not> bit ?ones n \<or> \<not> bit h n" for n
      using small [of n] by (auto simp: bit_push_bit_iff)
  qed
  ultimately show ?thesis
    using assms(1) by (auto simp: bit_or_iff bit_push_bit_iff bit_mask_iff)
qed

lemma first_byte:
  assumes "k \<le> 8" and "h < 2 ^ (7 - k)"
  shows "ones_from 0 (of_nat (2 ^ 8 - 2 ^ (8 - k) + h)) = k \<and>
         unat (of_nat (2 ^ 8 - 2 ^ (8 - k) + h) :: u8) mod 2 ^ (7 - k) = h"
proof -
  let ?n = "2 ^ 8 - 2 ^ (8 - k) + h"
  note n = first_byte_bits [OF assms]
  have small: "i < 7 - k" if "bit h i" for i
    using assms(2) that by (metis bit_take_bit_iff take_bit_nat_eq_self_iff)
  have b: "bit (of_nat ?n :: u8) i \<longleftrightarrow> i < 8 \<and> bit ?n i" for i
    by (simp only: bit_of_nat_iff possible_bit_word len_bit0 len_num1) simp
  have "ones_from 0 (of_nat ?n) = k - 0"
  proof (rule ones_from_eq)
    show "\<forall>i. 0 \<le> i \<and> i < k \<longrightarrow> bit (of_nat ?n :: u8) (7 - i)"
      unfolding b n using assms(1) by auto
    show "k = 8 \<or> \<not> bit (of_nat ?n :: u8) (7 - k)"
      unfolding b n using assms(1) small [of "7 - k"] by auto
  qed (use assms in simp_all)
  moreover have "take_bit (7 - k) (take_bit 8 ?n) = h"
  proof (rule bit_eqI)
    show "bit (take_bit (7 - k) (take_bit 8 ?n)) i = bit h i" for i
      unfolding bit_take_bit_iff n using small [of i] assms(1) by auto
  qed
  then have "unat (of_nat ?n :: u8) mod 2 ^ (7 - k) = h"
    by (simp only: unsigned_of_nat of_nat_id take_bit_eq_mod len_bit0 len_num1) simp
  ultimately show ?thesis by simp
qed

lemma uint7z_spec_encode_with:
  assumes "k \<le> 8" and "v < 256 ^ k * 2 ^ (7 - k)"
  shows "uint7z_spec (encode_7z_with k v @ rest) = Some (v, Suc k)"
proof -
  let ?first = "of_nat (2 ^ 8 - 2 ^ (8 - k) + v div 256 ^ k) :: u8"
  have "v div 256 ^ k < 2 ^ (7 - k)"
    using assms(2) by (simp add: div_less_iff_less_mult mult.commute)
  with assms(1) have ones: "ones_from 0 ?first = k"
    and high: "unat ?first mod 2 ^ (7 - k) = v div 256 ^ k"
    using first_byte by blast+
  have "le_nat (to_le_bytes k (v mod 256 ^ k)) + v div 256 ^ k * 256 ^ k = v"
    by (simp only: le_nat_to_le_bytes mod_mod_trivial mod_div_mult_eq)
  then show ?thesis
    by (simp only: uint7z_spec_def encode_7z_with_def append_Cons list.case ones high Let_def)
      simp
qed

lemma extra_bytes_ok: "v < 2 ^ 64 \<Longrightarrow> extra_bytes v \<le> 8 \<and> v < 256 ^ extra_bytes v * 2 ^ (7 - extra_bytes v)"
  by (simp add: extra_bytes_def)

lemma uint7z_spec_encode: "uint7z_spec (encode_7z_uint v @ rest) = Some (unat v, length (encode_7z_uint v))"
proof -
  have "unat v < 2 ^ 64" unfolding two_power_64 by (rule unat_less_64)
  from extra_bytes_ok [OF this] have "uint7z_spec (encode_7z_uint v @ rest) = Some (unat v, Suc (extra_bytes (unat v)))"
    unfolding encode_7z_uint_def by (intro uint7z_spec_encode_with) simp_all
  then show ?thesis by (simp add: encode_7z_uint_def encode_7z_with_def)
qed

text \<open>Reading back an encoded integer.\<close>

lemma reader_read_7z_uint_encoded:
  assumes "reader_ok s" and "unread s = encode_7z_uint v @ rest"
  shows "reader_read_7z_uint s = (Inr v, advance (length (encode_7z_uint v)) s)"
  using reader_read_7z_uint_run [OF assms(1)] by (simp add: assms(2) uint7z_spec_encode)


section \<open>Relations kept by the reader\<close>

locale reader_relation = control_relation failing R
  for failing :: "error \<Rightarrow> bool" and R :: "session \<Rightarrow> session \<Rightarrow> bool" +
  assumes rel_reader_read: "preserves failing R (reader_read_bytes n)"
    and rel_inner_reader:
      "R (s\<lparr>reader := reader_new bytes\<rparr>) t \<Longrightarrow> R s (t\<lparr>reader := reader s\<rparr>)"
begin

lemma keeps_with_reader: "preserves failing R m \<Longrightarrow> preserves failing R (with_reader bytes m)"
  by (auto simp: preserves_def with_reader_def split: prod.splits intro: rel_inner_reader)

lemma keeps_reader_read_u8: "preserves failing R reader_read_u8"
  unfolding reader_read_u8_def by (intro control_keeps rel_reader_read)

lemma keeps_reader_read_u32_le: "preserves failing R reader_read_u32_le"
  unfolding reader_read_u32_le_def by (intro control_keeps rel_reader_read)

lemma keeps_reader_read_u64_le: "preserves failing R reader_read_u64_le"
  unfolding reader_read_u64_le_def by (intro control_keeps rel_reader_read)

lemma keeps_read_7z_loop: "preserves failing R (read_7z_loop shifts first m v)"
  by (induction shifts first m v rule: read_7z_loop.induct)
    (simp_all only: read_7z_loop.simps, (intro control_keeps keeps_reader_read_u8 | assumption)+)

lemma keeps_reader_read_7z_uint: "preserves failing R reader_read_7z_uint"
  unfolding reader_read_7z_uint_def
  by (intro control_keeps keeps_reader_read_u8 keeps_read_7z_loop)

lemma keeps_finish: "preserves failing R (finish d)"
  unfolding finish_def by (intro keeps)

lemma keeps_parse_exact:
  "preserves failing R m \<Longrightarrow> preserves failing R (parse_exact n d m)"
  unfolding parse_exact_def
  by (intro control_keeps rel_reader_read keeps_with_reader keeps_finish)

lemmas reader_keeps =
  control_keeps rel_reader_read keeps_with_reader keeps_reader_read_u8 keeps_reader_read_u32_le
  keeps_reader_read_u64_le keeps_reader_read_7z_uint keeps_finish keeps_parse_exact

end

text \<open>The cursor stays on its slice, only moves forward and never leaves it.\<close>

definition cursor_advances :: "session \<Rightarrow> session \<Rightarrow> bool" where
  "cursor_advances s t \<longleftrightarrow>
     rd_bytes (reader t) = rd_bytes (reader s) \<and>
     rd_position (reader s) \<le> rd_position (reader t) \<and>
     (rd_position (reader s) \<le> length (rd_bytes (reader s)) \<longrightarrow>
        rd_position (reader t) \<le> length (rd_bytes (reader t)))"

lemma reader_read_bytes_cases:
  "reader_read_bytes n s = (r, t) \<Longrightarrow>
     (isl r \<and> t = s) \<or>
     (\<not> isl r \<and> t = advance (unat n) s \<and> rd_position (reader s) + unat n \<le> length (rd_bytes (reader s)))"
proof (cases r)
  case (Inr x)
  assume "reader_read_bytes n s = (r, t)"
  with Inr show ?thesis by (simp add: success)
next
  case (Inl e)
  assume "reader_read_bytes n s = (r, t)"
  with Inl show ?thesis
    by (auto simp: reader_read_bytes_def u64_to_usize_def usize_add_def set_position_def
        and_then_def run split: option.splits if_splits)
qed

interpretation cursor: reader_relation any_error cursor_advances
proof unfold_locales
  show "preserves any_error cursor_advances load_token"
    by (auto simp: preserves_def load_token_def cursor_advances_def Let_def)
  show "preserves any_error cursor_advances (spend units)" for units
    by (auto simp: preserves_def spend_def cursor_advances_def split: prod.splits)
  show "preserves any_error cursor_advances (reserve_exact n message)" for n message
    by (auto simp: preserves_def reserve_exact_def cursor_advances_def Let_def split: if_splits)
  show "preserves any_error cursor_advances (reader_read_bytes n)" for n
    by (rule preservesI) (auto simp: cursor_advances_def dest!: reader_read_bytes_cases)
qed (auto simp: cursor_advances_def)

lemma read_keeps_rest:
  assumes "reader_read_bytes n s = (r, t)"
  shows "control t = control s \<and> counters t = counters s \<and> machine t = machine s"
  using reader_read_bytes_cases [OF assms] by auto

interpretation budget_law: reader_relation any_error budget_evolves
  by unfold_locales
    (auto simp: preserves_def budget_evolves_def Let_def dest!: read_keeps_rest split: option.splits)

interpretation environment: reader_relation any_error environment_kept
  by unfold_locales
    (auto simp: preserves_def environment_kept_def dest!: read_keeps_rest)

interpretation cancellation: reader_relation uncancelled_error uncancelled
  by unfold_locales
    (auto simp: preserves_def uncancelled_def dest!: read_keeps_rest)

lemma with_reader_frame:
  "with_reader bytes m s = (r, t) \<Longrightarrow> reader t = reader s"
  by (auto simp: with_reader_def split: prod.splits)

declare
  reader_new_def [evaluate] with_reader_def [evaluate] set_position_def [evaluate]
  reader_read_bytes_def [evaluate] reader_read_u8_def [evaluate] le_array_def [evaluate]
  from_le_bytes_def [evaluate] reader_read_u32_le_def [evaluate] reader_read_u64_le_def [evaluate]
  reader_read_7z_uint_def [evaluate] finish_def [evaluate] parse_exact_def [evaluate]

end
