(* ===== verification/Raw_Header.thy ===== *)
theory Raw_Header
  imports Bounded_Reader
begin

text \<open>
  \<^verbatim>\<open>raw.rs\<close>: the parser of the 7z next header into syntax records.  Every read is charged to the work
  budget before or after it is made, every count is checked against its limit before memory is
  reserved for it, and the archive-wide totals live in the session's \<open>counters\<close>.
\<close>


section \<open>Syntax records\<close>

definition ID_END :: u8 where "ID_END = 0x00"
definition ID_HEADER :: u8 where "ID_HEADER = 0x01"
definition ID_ARCHIVE_PROPERTIES :: u8 where "ID_ARCHIVE_PROPERTIES = 0x02"
definition ID_ADDITIONAL_STREAMS_INFO :: u8 where "ID_ADDITIONAL_STREAMS_INFO = 0x03"
definition ID_MAIN_STREAMS_INFO :: u8 where "ID_MAIN_STREAMS_INFO = 0x04"
definition ID_FILES_INFO :: u8 where "ID_FILES_INFO = 0x05"
definition ID_PACK_INFO :: u8 where "ID_PACK_INFO = 0x06"
definition ID_UNPACK_INFO :: u8 where "ID_UNPACK_INFO = 0x07"
definition ID_SUBSTREAMS_INFO :: u8 where "ID_SUBSTREAMS_INFO = 0x08"
definition ID_SIZE :: u8 where "ID_SIZE = 0x09"
definition ID_CRC :: u8 where "ID_CRC = 0x0a"
definition ID_FOLDER :: u8 where "ID_FOLDER = 0x0b"
definition ID_CODERS_UNPACK_SIZE :: u8 where "ID_CODERS_UNPACK_SIZE = 0x0c"
definition ID_NUM_UNPACK_STREAM :: u8 where "ID_NUM_UNPACK_STREAM = 0x0d"
definition ID_EMPTY_STREAM :: u8 where "ID_EMPTY_STREAM = 0x0e"
definition ID_EMPTY_FILE :: u8 where "ID_EMPTY_FILE = 0x0f"
definition ID_ANTI :: u8 where "ID_ANTI = 0x10"
definition ID_NAME :: u8 where "ID_NAME = 0x11"
definition ID_CTIME :: u8 where "ID_CTIME = 0x12"
definition ID_ATIME :: u8 where "ID_ATIME = 0x13"
definition ID_MTIME :: u8 where "ID_MTIME = 0x14"
definition ID_WIN_ATTRIBUTES :: u8 where "ID_WIN_ATTRIBUTES = 0x15"
definition ID_ENCODED_HEADER :: u8 where "ID_ENCODED_HEADER = 0x17"
definition ID_START_POS :: u8 where "ID_START_POS = 0x18"
definition ID_DUMMY :: u8 where "ID_DUMMY = 0x19"

lemmas property_ids =
  ID_END_def ID_HEADER_def ID_ARCHIVE_PROPERTIES_def ID_ADDITIONAL_STREAMS_INFO_def
  ID_MAIN_STREAMS_INFO_def ID_FILES_INFO_def ID_PACK_INFO_def ID_UNPACK_INFO_def
  ID_SUBSTREAMS_INFO_def ID_SIZE_def ID_CRC_def ID_FOLDER_def ID_CODERS_UNPACK_SIZE_def
  ID_NUM_UNPACK_STREAM_def ID_EMPTY_STREAM_def ID_EMPTY_FILE_def ID_ANTI_def ID_NAME_def
  ID_CTIME_def ID_ATIME_def ID_MTIME_def ID_WIN_ATTRIBUTES_def ID_ENCODED_HEADER_def
  ID_START_POS_def ID_DUMMY_def

record raw_bind_pair =
  bind_input :: u64
  bind_output :: u64

record raw_coder =
  raw_method_id :: byte_slice
  raw_coder_inputs :: u64
  raw_coder_outputs :: u64
  raw_coder_properties :: byte_slice

record raw_folder =
  raw_coders :: "raw_coder list"
  raw_input_streams :: u64
  raw_output_streams :: u64
  raw_bind_pairs :: "raw_bind_pair list"
  raw_packed_streams :: u64
  raw_packed_indices :: "u64 list option"
  raw_unpack_sizes :: "u64 list"

record raw_substreams_info =
  sub_counts :: "u64 list"
  sub_explicit_sizes :: "u64 list option"
  sub_crcs :: "u32 option list option"

record raw_unpack_info =
  unpack_folders :: "raw_folder list"
  unpack_crcs :: "u32 option list option"

record raw_pack_info =
  pack_position :: u64
  pack_streams :: u64
  pack_sizes :: "u64 list option"
  pack_crcs :: "u32 option list option"

record raw_streams_info =
  streams_pack :: "raw_pack_info option"
  streams_unpack :: "raw_unpack_info option"
  streams_substreams :: "raw_substreams_info option"

record raw_property =
  property_id :: u8
  property_data :: byte_slice

record raw_files_info =
  files_count :: u64
  files_properties :: "raw_property list"

record raw_header =
  header_archive_properties :: "raw_property list"
  header_additional_streams :: "raw_streams_info option"
  header_main_streams :: "raw_streams_info option"
  header_files :: "raw_files_info option"

record raw_external_folder_header =
  external_additional_streams :: raw_streams_info
  external_main_pack :: "raw_pack_info option"
  external_data_index :: u64
  external_header_bytes :: byte_slice

datatype raw_next_header =
  Header raw_header
| Encoded raw_streams_info
| ExternalFolders raw_external_folder_header

record external_folder_data =
  source_data_index :: u64
  source_bytes :: byte_slice

datatype parsed_unpack_info =
  UnpackComplete raw_unpack_info
| UnpackExternal u64

datatype parsed_streams_info =
  StreamsComplete raw_streams_info
| StreamsExternal "raw_pack_info option" u64


section \<open>Archive-wide totals\<close>

text \<open>\<open>ParseState\<close> methods; \<open>get\<close> and \<open>put\<close> name the field that the \<open>&mut u64\<close> points to.\<close>

definition parse_state_default :: parse_state where
  "parse_state_default = \<lparr>total_folders = 0, total_coders = 0, total_streams = 0,
     total_packed_streams = 0, total_substreams = 0, total_properties = 0\<rparr>"

definition add_limited ::
    "(parse_state \<Rightarrow> u64) \<Rightarrow> (u64 \<Rightarrow> parse_state \<Rightarrow> parse_state) \<Rightarrow>
     u64 \<Rightarrow> u64 \<Rightarrow> limit_kind \<Rightarrow> string \<Rightarrow> unit op" where
  "add_limited get put additional maximum limit overflow_detail =
     and_then (gets (\<lambda>s. get (counters s))) (\<lambda>value.
     and_then (ok_or (format_error overflow_detail) (checked_add value additional)) (\<lambda>total.
     and_then (check_limit total maximum limit) (\<lambda>_.
     modify (\<lambda>s. s\<lparr>counters := put total (counters s)\<rparr>))))"

definition add_folders :: "u64 \<Rightarrow> limits \<Rightarrow> unit op" where
  "add_folders count lim =
     add_limited total_folders (\<lambda>v c. c\<lparr>total_folders := v\<rparr>) count (max_folders lim) Folders
       ''total folder count overflows''"

definition add_coders :: "u64 \<Rightarrow> limits \<Rightarrow> unit op" where
  "add_coders count lim =
     add_limited total_coders (\<lambda>v c. c\<lparr>total_coders := v\<rparr>) count (max_total_coders lim)
       TotalCoders ''total coder count overflows''"

definition add_streams :: "u64 \<Rightarrow> limits \<Rightarrow> unit op" where
  "add_streams count lim =
     add_limited total_streams (\<lambda>v c. c\<lparr>total_streams := v\<rparr>) count (max_total_streams lim)
       TotalStreams ''total stream count overflows''"

definition add_packed_streams :: "u64 \<Rightarrow> limits \<Rightarrow> unit op" where
  "add_packed_streams count lim =
     add_limited total_packed_streams (\<lambda>v c. c\<lparr>total_packed_streams := v\<rparr>) count
       (max_total_streams lim) TotalStreams ''total packed-stream count overflows''"

definition add_substreams :: "u64 \<Rightarrow> limits \<Rightarrow> unit op" where
  "add_substreams count lim =
     add_limited total_substreams (\<lambda>v c. c\<lparr>total_substreams := v\<rparr>) count (max_substreams lim)
       Substreams ''total substream count overflows''"

definition add_property :: "limits \<Rightarrow> unit op" where
  "add_property lim =
     add_limited total_properties (\<lambda>v c. c\<lparr>total_properties := v\<rparr>) 1
       (max_header_properties lim) HeaderProperties ''header property count overflows''"


section \<open>Charged reads\<close>

definition read_u8 :: "u8 op" where
  "read_u8 = and_then (checkpoint 1) (\<lambda>_. reader_read_u8)"

definition read_u32_le :: "u32 op" where
  "read_u32_le = and_then (checkpoint 4) (\<lambda>_. reader_read_u32_le)"

definition read_uint :: "u64 op" where
  "read_uint = and_then (checkpoint 9) (\<lambda>_. reader_read_7z_uint)"

definition read_bytes :: "u64 \<Rightarrow> byte_slice op" where
  "read_bytes len =
     and_then (reader_read_bytes len) (\<lambda>bytes.
     and_then (consume_bytes bytes) (\<lambda>_.
     ok bytes))"

definition count_to_usize :: "u64 \<Rightarrow> string \<Rightarrow> nat op" where
  "count_to_usize count detail = u64_to_usize count detail"

text \<open>\<open>new_vec\<close> reserves; the empty vector itself carries no information.\<close>

definition new_vec :: "u64 \<Rightarrow> string \<Rightarrow> unit op" where
  "new_vec count detail = and_then (count_to_usize count detail) try_reserve"


section \<open>Vectors of bits, digests and sizes\<close>

primrec parse_bits_loop :: "nat \<Rightarrow> u8 \<Rightarrow> u8 \<Rightarrow> bool list op" where
  "parse_bits_loop 0 byte bitmask = ok []"
| "parse_bits_loop (Suc n) byte bitmask =
     and_then (if bitmask = 0 then and_then read_u8 (\<lambda>b. ok (b, 0x80)) else ok (byte, bitmask))
       (\<lambda>(b, m).
     and_then (parse_bits_loop n b (drop_bit 1 m)) (\<lambda>rest.
     ok ((b AND m \<noteq> 0) # rest)))"

definition parse_bits :: "u64 \<Rightarrow> bool list op" where
  "parse_bits count =
     and_then (checkpoint count) (\<lambda>_.
     and_then (new_vec count ''bit-vector count is not representable on this platform'') (\<lambda>_.
     parse_bits_loop (unat count) 0 0))"

definition parse_digests :: "u64 \<Rightarrow> u32 option list op" where
  "parse_digests count =
     (if count = 0 then ok []
      else
        and_then (checkpoint count) (\<lambda>_.
        and_then read_u8 (\<lambda>all_defined.
        and_then
          (if all_defined = 0 then parse_bits count
           else and_then
                  (new_vec count ''digest definition count is not representable on this platform'')
                  (\<lambda>_. ok (replicate (unat count) True))) (\<lambda>defined.
        and_then (new_vec count ''digest count is not representable on this platform'') (\<lambda>_.
        for_push defined (\<lambda>is_defined.
          if is_defined then and_then read_u32_le (\<lambda>crc. ok (Some crc)) else ok None))))))"

definition parse_sizes :: "u64 \<Rightarrow> u64 list op" where
  "parse_sizes count =
     and_then (checkpoint count) (\<lambda>_.
     and_then (new_vec count ''size count is not representable on this platform'') (\<lambda>_.
     repeat_push (unat count) read_uint))"

text \<open>
  The shape of the optional sections: when the identifier read last announces the section, parse it
  and read the next identifier.
\<close>

definition optional_section :: "u8 \<Rightarrow> u8 \<Rightarrow> 'a op \<Rightarrow> ('a option \<times> u8) op" where
  "optional_section current tag parse =
     (if current = tag then
        and_then parse (\<lambda>value. and_then read_u8 (\<lambda>next_id. ok (Some value, next_id)))
      else ok (None, current))"


section \<open>Pack streams, coders and folders\<close>

definition parse_pack_info :: "limits \<Rightarrow> raw_pack_info op" where
  "parse_pack_info lim =
     and_then read_uint (\<lambda>position.
     and_then read_uint (\<lambda>streams.
     and_then (err_if (streams = 0) (format_error ''PackInfo declares zero packed streams'')) (\<lambda>_.
     and_then (add_packed_streams streams lim) (\<lambda>_.
     and_then read_u8 (\<lambda>id.
     and_then (optional_section id ID_SIZE (parse_sizes streams)) (\<lambda>(sizes, id).
     and_then (optional_section id ID_CRC (parse_digests streams)) (\<lambda>(crcs, id).
     and_then (err_if (id \<noteq> ID_END) (format_error ''unexpected PackInfo identifier'')) (\<lambda>_.
     ok \<lparr>pack_position = position, pack_streams = streams, pack_sizes = sizes,
         pack_crcs = crcs\<rparr>))))))))"

definition parse_coder :: "limits \<Rightarrow> raw_coder op" where
  "parse_coder lim =
     and_then read_u8 (\<lambda>flags.
     and_then (err_if (flags AND 0x80 \<noteq> 0) (UnsupportedFeature ''alternative-coder-methods'')) (\<lambda>_.
     and_then (err_if (flags AND 0x40 \<noteq> 0) (format_error ''coder uses a reserved flag'')) (\<lambda>_.
     let method_length = ucast (flags AND 0x0f) in
     and_then (err_if (method_length = 0) (format_error ''coder method identifier is empty'')) (\<lambda>_.
     and_then (read_bytes method_length) (\<lambda>method_id.
     and_then
       (if flags AND 0x10 \<noteq> 0 then
          and_then read_uint (\<lambda>input.
          and_then read_uint (\<lambda>output.
          and_then (err_if (input = 0 \<or> output = 0)
                     (format_error ''coder stream counts must be non-zero'')) (\<lambda>_.
          ok (input, output))))
        else ok (1, 1)) (\<lambda>(input_streams, output_streams).
     and_then
       (if flags AND 0x20 \<noteq> 0 then
          and_then read_uint (\<lambda>len.
          and_then (check_limit len (max_coder_property_bytes lim) CoderPropertyBytes) (\<lambda>_.
          read_bytes len))
        else ok []) (\<lambda>properties.
     ok \<lparr>raw_method_id = method_id, raw_coder_inputs = input_streams,
         raw_coder_outputs = output_streams, raw_coder_properties = properties\<rparr>)))))))"

text \<open>The coder loop of \<open>parse_folder\<close> with its two running totals.\<close>

primrec parse_coders_loop :: "limits \<Rightarrow> nat \<Rightarrow> u64 \<Rightarrow> u64 \<Rightarrow> (raw_coder list \<times> u64 \<times> u64) op"
where
  "parse_coders_loop lim 0 inputs outputs = ok ([], inputs, outputs)"
| "parse_coders_loop lim (Suc n) inputs outputs =
     and_then (parse_coder lim) (\<lambda>coder.
     and_then (ok_or (format_error ''folder input-stream count overflows'')
                (checked_add inputs (raw_coder_inputs coder))) (\<lambda>inputs'.
     and_then (ok_or (format_error ''folder output-stream count overflows'')
                (checked_add outputs (raw_coder_outputs coder))) (\<lambda>outputs'.
     and_then (parse_coders_loop lim n inputs' outputs') (\<lambda>(coders, totals).
     ok (coder # coders, totals)))))"

definition parse_bind_pair :: "raw_bind_pair op" where
  "parse_bind_pair =
     and_then read_uint (\<lambda>input.
     and_then read_uint (\<lambda>output.
     ok \<lparr>bind_input = input, bind_output = output\<rparr>))"

definition parse_folder :: "limits \<Rightarrow> raw_folder op" where
  "parse_folder lim =
     and_then read_uint (\<lambda>coder_count.
     and_then (err_if (coder_count = 0) (format_error ''folder declares zero coders'')) (\<lambda>_.
     and_then (check_limit coder_count (max_coders_per_folder lim) CodersPerFolder) (\<lambda>_.
     and_then (add_coders coder_count lim) (\<lambda>_.
     and_then (new_vec coder_count ''coder count is not representable on this platform'') (\<lambda>_.
     and_then (parse_coders_loop lim (unat coder_count) 0 0)
       (\<lambda>(coders, input_streams, output_streams).
     and_then (ok_or (format_error ''folder stream-port count overflows'')
                (checked_add input_streams output_streams)) (\<lambda>folder_streams.
     and_then (check_limit folder_streams (max_streams_per_folder lim) StreamsPerFolder) (\<lambda>_.
     and_then (add_streams folder_streams lim) (\<lambda>_.
     and_then (err_if (input_streams < output_streams)
                (format_error ''folder has fewer input streams than output streams'')) (\<lambda>_.
     and_then (ok_or (format_error ''folder bind-pair count underflows'')
                (checked_sub output_streams 1)) (\<lambda>bind_count.
     and_then (new_vec bind_count ''bind-pair count is not representable on this platform'') (\<lambda>_.
     and_then (repeat_push (unat bind_count) parse_bind_pair) (\<lambda>bind_pairs.
     and_then (ok_or (format_error ''folder packed-stream count underflows'')
                (checked_sub input_streams bind_count)) (\<lambda>packed_streams.
     and_then (err_if (packed_streams = 0) (format_error ''folder has no packed input stream'')) (\<lambda>_.
     and_then
       (if packed_streams = 1 then ok None
        else
          and_then (new_vec packed_streams
                     ''packed-input count is not representable on this platform'') (\<lambda>_.
          and_then (repeat_push (unat packed_streams) read_uint) (\<lambda>values.
          ok (Some values)))) (\<lambda>packed_indices.
     ok \<lparr>raw_coders = coders, raw_input_streams = input_streams,
         raw_output_streams = output_streams, raw_bind_pairs = bind_pairs,
         raw_packed_streams = packed_streams, raw_packed_indices = packed_indices,
         raw_unpack_sizes = []\<rparr>))))))))))))))))"

definition parse_folders :: "u64 \<Rightarrow> limits \<Rightarrow> raw_folder list op" where
  "parse_folders folder_count lim =
     and_then (new_vec folder_count ''folder count is not representable on this platform'') (\<lambda>_.
     repeat_push (unat folder_count) (parse_folder lim))"

definition parse_unpack_info :: "limits \<Rightarrow> external_folder_data option \<Rightarrow> parsed_unpack_info op" where
  "parse_unpack_info lim external_folders =
     and_then read_u8 (\<lambda>tag.
     and_then (err_if (tag \<noteq> ID_FOLDER) (format_error ''UnpackInfo is missing Folder'')) (\<lambda>_.
     and_then read_uint (\<lambda>folder_count.
     and_then (err_if (folder_count = 0) (format_error ''UnpackInfo declares zero folders'')) (\<lambda>_.
     and_then (add_folders folder_count lim) (\<lambda>_.
     and_then (checkpoint folder_count) (\<lambda>_.
     and_then read_u8 (\<lambda>external.
     and_then
       (if external = 0 then and_then (parse_folders folder_count lim) (\<lambda>folders. ok (Inl folders))
        else
          and_then read_uint (\<lambda>data_index.
          case external_folders of
            None \<Rightarrow> ok (Inr data_index)
          | Some source \<Rightarrow>
              and_then (err_if (source_data_index source \<noteq> data_index)
                (format_error ''external folder data index changed during header resolution'')) (\<lambda>_.
              with_reader (source_bytes source)
                (and_then (parse_folders folder_count lim) (\<lambda>folders.
                 and_then (finish ''external folder stream was not consumed exactly'') (\<lambda>_.
                 ok (Inl folders)))))))
       (\<lambda>definitions.
     case definitions of
       Inr data_index \<Rightarrow> ok (UnpackExternal data_index)
     | Inl folders \<Rightarrow>
         and_then read_u8 (\<lambda>tag.
         and_then (err_if (tag \<noteq> ID_CODERS_UNPACK_SIZE)
                    (format_error ''UnpackInfo is missing CodersUnpackSize'')) (\<lambda>_.
         and_then (for_push folders (\<lambda>folder.
                     and_then (parse_sizes (raw_output_streams folder)) (\<lambda>sizes.
                     ok (folder\<lparr>raw_unpack_sizes := sizes\<rparr>)))) (\<lambda>folders.
         and_then read_u8 (\<lambda>id.
         and_then (optional_section id ID_CRC (parse_digests folder_count)) (\<lambda>(crcs, id).
         and_then (err_if (id \<noteq> ID_END) (format_error ''unexpected UnpackInfo identifier'')) (\<lambda>_.
         ok (UnpackComplete \<lparr>unpack_folders = folders, unpack_crcs = crcs\<rparr>)))))))))))))))"


section \<open>Substreams and streams\<close>

definition count_substreams :: "u64 list \<Rightarrow> (u64 \<times> u64) op" where
  "count_substreams counts =
     for_fold counts (0, 0) (\<lambda>(total_substreams, explicit_size_count) count.
       and_then (ok_or (format_error ''substream count overflows'')
                  (checked_add total_substreams count)) (\<lambda>total.
       and_then (if count = 0 then ok 0
                 else ok_or (format_error ''explicit substream-size count underflows'')
                        (checked_sub count 1)) (\<lambda>additional_sizes.
       and_then (ok_or (format_error ''explicit substream-size count overflows'')
                  (checked_add explicit_size_count additional_sizes)) (\<lambda>explicit.
       ok (total, explicit)))))"

text \<open>\<open>folder_crcs.and_then(|crcs| crcs.get(folder_index)).and_then(|crc| *crc)\<close>\<close>

definition inherited_crc :: "u32 option list option \<Rightarrow> nat \<Rightarrow> u32 option" where
  "inherited_crc folder_crcs folder_index =
     (case folder_crcs of
        None \<Rightarrow> None
      | Some crcs \<Rightarrow> (case item_get crcs folder_index of None \<Rightarrow> None | Some crc \<Rightarrow> crc))"

definition count_digests :: "u32 option list option \<Rightarrow> u64 list \<Rightarrow> u64 op" where
  "count_digests folder_crcs counts =
     for_fold (enumerate 0 counts) 0 (\<lambda>digest_count (folder_index, count).
       if count \<noteq> 1 \<or> inherited_crc folder_crcs folder_index = None then
         ok_or (format_error ''substream digest count overflows'') (checked_add digest_count count)
       else ok digest_count)"

definition parse_substreams_info :: "raw_unpack_info \<Rightarrow> limits \<Rightarrow> raw_substreams_info op" where
  "parse_substreams_info unpack lim =
     and_then (usize_to_u64 (length (unpack_folders unpack))
                ''folder count is not representable as u64'') (\<lambda>folder_count.
     and_then read_u8 (\<lambda>id.
     and_then (new_vec folder_count ''substream folder count is not representable on this platform'')
       (\<lambda>_.
     and_then
       (if id = ID_NUM_UNPACK_STREAM then
          and_then (repeat_push (unat folder_count) read_uint) (\<lambda>counts.
          and_then read_u8 (\<lambda>id. ok (counts, id)))
        else ok (replicate (unat folder_count) 1, id)) (\<lambda>(counts, id).
     and_then (count_substreams counts) (\<lambda>(total_substreams, explicit_size_count).
     and_then (add_substreams total_substreams lim) (\<lambda>_.
     and_then (optional_section id ID_SIZE (parse_sizes explicit_size_count))
       (\<lambda>(explicit_sizes, id).
     and_then (count_digests (unpack_crcs unpack) counts) (\<lambda>digest_count.
     and_then (optional_section id ID_CRC (parse_digests digest_count)) (\<lambda>(crcs, id).
     and_then (err_if (id \<noteq> ID_END) (format_error ''unexpected SubStreamsInfo identifier'')) (\<lambda>_.
     ok \<lparr>sub_counts = counts, sub_explicit_sizes = explicit_sizes,
         sub_crcs = crcs\<rparr>))))))))))"

text \<open>The part of \<open>parse_streams_info\<close> that follows complete folder definitions.\<close>

definition parse_streams_rest ::
    "limits \<Rightarrow> raw_pack_info option \<Rightarrow> raw_unpack_info option \<Rightarrow> u8 \<Rightarrow> parsed_streams_info op" where
  "parse_streams_rest lim pack unpack current =
     and_then
       (if current = ID_SUBSTREAMS_INFO then
          (case unpack of
             None \<Rightarrow> err (format_error ''SubStreamsInfo has no UnpackInfo'')
           | Some unpack_info \<Rightarrow>
               and_then (parse_substreams_info unpack_info lim) (\<lambda>value.
               and_then read_u8 (\<lambda>id. ok (Some value, id))))
        else
          and_then
            (case unpack of
               None \<Rightarrow> ok ()
             | Some unpack_info \<Rightarrow>
                 and_then (usize_to_u64 (length (unpack_folders unpack_info))
                            ''default substream count is not representable as u64'') (\<lambda>count.
                 add_substreams count lim)) (\<lambda>_.
          ok (None, current))) (\<lambda>(substreams, id).
     and_then (err_if (id \<noteq> ID_END) (format_error ''unexpected StreamsInfo identifier'')) (\<lambda>_.
     ok (StreamsComplete \<lparr>streams_pack = pack, streams_unpack = unpack,
                          streams_substreams = substreams\<rparr>)))"

definition parse_streams_info :: "limits \<Rightarrow> external_folder_data option \<Rightarrow> parsed_streams_info op" where
  "parse_streams_info lim external_folders =
     and_then read_u8 (\<lambda>id.
     and_then (optional_section id ID_PACK_INFO (parse_pack_info lim)) (\<lambda>(pack, id).
     if id = ID_UNPACK_INFO then
       and_then (parse_unpack_info lim external_folders) (\<lambda>parsed.
       case parsed of
         UnpackExternal data_index \<Rightarrow> ok (StreamsExternal pack data_index)
       | UnpackComplete value \<Rightarrow>
           and_then read_u8 (\<lambda>id. parse_streams_rest lim pack (Some value) id))
     else parse_streams_rest lim pack None id))"


section \<open>Properties, files and the header\<close>

text \<open>
  The \<open>loop\<close> of \<open>parse_property_list\<close>.  It terminates because each iteration reads its identifier,
  so the cursor moves towards the end of its slice.
\<close>

definition read_property :: "limits \<Rightarrow> u8 \<Rightarrow> raw_property op" where
  "read_property lim tag =
     and_then (add_property lim) (\<lambda>_.
     and_then read_uint (\<lambda>len.
     and_then (check_limit len (max_header_bytes lim) HeaderBytes) (\<lambda>_.
     and_then (read_bytes len) (\<lambda>data.
     and_then (reserve_exact 1 ''header property allocation failed'') (\<lambda>_.
     ok \<lparr>property_id = tag, property_data = data\<rparr>)))))"

lemma read_u8_moves:
  "read_u8 s = (Inr b, t) \<Longrightarrow>
     rd_bytes (reader t) = rd_bytes (reader s) \<and>
     rd_position (reader t) = Suc (rd_position (reader s)) \<and>
     rd_position (reader s) < length (rd_bytes (reader s))"
  by (auto simp: read_u8_def checkpoint_def success)

lemma cursor_add_limited: "preserves any_error cursor_advances (add_limited get put n m l d)"
  unfolding add_limited_def
  by (intro cursor.control_keeps) (simp add: preserves_def modify_def cursor_advances_def)

lemma cursor_read_property: "preserves any_error cursor_advances (read_property lim tag)"
  unfolding read_property_def add_property_def read_uint_def read_bytes_def
  by (intro cursor.reader_keeps cursor_add_limited)

function parse_property_loop :: "limits \<Rightarrow> raw_property list \<Rightarrow> raw_property list op" where
  "parse_property_loop lim properties s =
     and_then read_u8 (\<lambda>tag s.
     if tag = ID_END then ok properties s
     else and_then (read_property lim tag) (\<lambda>property s.
          parse_property_loop lim (properties @ [property]) s) s) s"
  by pat_completeness auto
termination
proof (relation "measure (\<lambda>(lim, properties, s). length (rd_bytes (reader s)) - rd_position (reader s))")
  fix lim :: limits and properties s tag t property u
  assume "read_u8 s = (Inr tag, t)" and "read_property lim tag t = (Inr property, u)"
  then show "((lim, properties @ [property], u), lim, properties, s)
    \<in> measure (\<lambda>(lim, properties, s). length (rd_bytes (reader s)) - rd_position (reader s))"
    using read_u8_moves [of s tag t] preservesD [OF cursor_read_property, of lim tag t property u]
    by (auto simp: cursor_advances_def)
qed simp

declare parse_property_loop.simps [simp del]

definition parse_property_list :: "limits \<Rightarrow> raw_property list op" where
  "parse_property_list lim = parse_property_loop lim []"

definition parse_files_info :: "limits \<Rightarrow> raw_files_info op" where
  "parse_files_info lim =
     and_then read_uint (\<lambda>count.
     and_then (check_limit count (max_files lim) Files) (\<lambda>_.
     and_then (parse_property_list lim) (\<lambda>properties.
     ok \<lparr>files_count = count, files_properties = properties\<rparr>)))"

text \<open>The part of \<open>parse_header_body\<close> that follows complete main streams.\<close>

definition parse_header_rest ::
    "limits \<Rightarrow> raw_property list \<Rightarrow> raw_streams_info option \<Rightarrow> raw_streams_info option \<Rightarrow> u8 \<Rightarrow>
     raw_next_header op" where
  "parse_header_rest lim archive_properties additional_streams main_streams current =
     and_then (optional_section current ID_FILES_INFO (parse_files_info lim)) (\<lambda>(files, id).
     and_then (err_if (id \<noteq> ID_END) (format_error ''unexpected Header identifier'')) (\<lambda>_.
     ok (Header \<lparr>header_archive_properties = archive_properties,
                 header_additional_streams = additional_streams,
                 header_main_streams = main_streams, header_files = files\<rparr>)))"

definition parse_header_body ::
    "byte_slice \<Rightarrow> limits \<Rightarrow> external_folder_data option \<Rightarrow> raw_next_header op" where
  "parse_header_body header_bytes lim external_folders =
     and_then read_u8 (\<lambda>id.
     and_then (optional_section id ID_ARCHIVE_PROPERTIES (parse_property_list lim))
       (\<lambda>(properties, id).
     let archive_properties = (case properties of None \<Rightarrow> [] | Some ps \<Rightarrow> ps) in
     and_then (optional_section id ID_ADDITIONAL_STREAMS_INFO
                (and_then (parse_streams_info lim None) (\<lambda>parsed.
                 case parsed of
                   StreamsComplete streams \<Rightarrow> ok streams
                 | StreamsExternal _ _ \<Rightarrow>
                     err (format_error
                       ''AdditionalStreamsInfo cannot source its own folder definitions''))))
       (\<lambda>(additional_streams, id).
     if id = ID_MAIN_STREAMS_INFO then
       and_then (parse_streams_info lim external_folders) (\<lambda>parsed.
       case parsed of
         StreamsComplete streams \<Rightarrow>
           and_then read_u8 (\<lambda>id.
           parse_header_rest lim archive_properties additional_streams (Some streams) id)
       | StreamsExternal pack data_index \<Rightarrow>
           and_then (ok_or (format_error
                       ''external folder definitions require AdditionalStreamsInfo'')
                      additional_streams) (\<lambda>additional_streams.
           ok (ExternalFolders \<lparr>external_additional_streams = additional_streams,
                                external_main_pack = pack, external_data_index = data_index,
                                external_header_bytes = header_bytes\<rparr>)))
     else parse_header_rest lim archive_properties additional_streams None id)))"

text \<open>The \<open>match kind\<close> of \<open>parse_next_header_inner\<close>, and the exact-consumption check behind it.\<close>

definition parse_header_kind ::
    "byte_slice \<Rightarrow> limits \<Rightarrow> external_folder_data option \<Rightarrow> u8 \<Rightarrow> raw_next_header op" where
  "parse_header_kind bytes lim external_folders tag =
     (if tag = ID_HEADER then parse_header_body bytes lim external_folders
      else if tag = ID_ENCODED_HEADER then
        and_then (parse_streams_info lim None) (\<lambda>parsed.
        case parsed of
          StreamsComplete streams \<Rightarrow> ok (Encoded streams)
        | StreamsExternal _ _ \<Rightarrow>
            err (format_error
              ''encoded-header folder definitions have no additional stream source''))
      else err (format_error ''unexpected next-header identifier''))"

definition finish_header :: "raw_next_header \<Rightarrow> raw_next_header op" where
  "finish_header header =
     (case header of
        ExternalFolders pending \<Rightarrow> ok header
      | _ \<Rightarrow> and_then (finish ''next-header body was not consumed exactly'') (\<lambda>_. ok header))"

definition parse_next_header_inner ::
    "byte_slice \<Rightarrow> limits \<Rightarrow> external_folder_data option \<Rightarrow> raw_next_header op" where
  "parse_next_header_inner bytes lim external_folders =
     and_then (check_limit 1 (max_recursion_depth lim) RecursionDepth) (\<lambda>_.
     with_reader bytes
       (and_then read_u8 (\<lambda>tag.
        and_then (parse_header_kind bytes lim external_folders tag) finish_header)))"

definition parse_next_header :: "byte_slice \<Rightarrow> limits \<Rightarrow> raw_next_header op" where
  "parse_next_header bytes lim = parse_next_header_inner bytes lim None"

definition parse_next_header_with_external_folders ::
    "byte_slice \<Rightarrow> u64 \<Rightarrow> byte_slice \<Rightarrow> limits \<Rightarrow> raw_next_header op" where
  "parse_next_header_with_external_folders bytes data_index folder_bytes lim =
     parse_next_header_inner bytes lim
       (Some \<lparr>source_data_index = data_index, source_bytes = folder_bytes\<rparr>)"

declare
  property_ids [evaluate] parse_property_loop.simps [evaluate] parse_state_default_def [evaluate]
  add_limited_def [evaluate] add_folders_def [evaluate] add_coders_def [evaluate]
  add_streams_def [evaluate] add_packed_streams_def [evaluate] add_substreams_def [evaluate]
  add_property_def [evaluate] read_u8_def [evaluate] read_u32_le_def [evaluate]
  read_uint_def [evaluate] read_bytes_def [evaluate] count_to_usize_def [evaluate]
  new_vec_def [evaluate] parse_bits_def [evaluate] parse_digests_def [evaluate]
  parse_sizes_def [evaluate] optional_section_def [evaluate] parse_pack_info_def [evaluate]
  parse_coder_def [evaluate] parse_bind_pair_def [evaluate] parse_folder_def [evaluate]
  parse_folders_def [evaluate] parse_unpack_info_def [evaluate] count_substreams_def [evaluate]
  inherited_crc_def [evaluate] count_digests_def [evaluate] parse_substreams_info_def [evaluate]
  parse_streams_rest_def [evaluate] parse_streams_info_def [evaluate] read_property_def [evaluate]
  parse_property_list_def [evaluate] parse_files_info_def [evaluate]
  parse_header_rest_def [evaluate] parse_header_body_def [evaluate]
  parse_header_kind_def [evaluate] finish_header_def [evaluate]
  parse_next_header_inner_def [evaluate] parse_next_header_def [evaluate]
  parse_next_header_with_external_folders_def [evaluate]


section \<open>Relations kept by the header parser\<close>

text \<open>
  The interface of the header parser: charged reads, the totals under one set of limits, and cursors
  over other bytes.  A relation that these keep is kept by every parser of \<^verbatim>\<open>raw.rs\<close>.
\<close>

locale header_relation = control_relation failing R
  for failing :: "error \<Rightarrow> bool" and R :: "session \<Rightarrow> session \<Rightarrow> bool" +
  fixes lim :: limits
  assumes rel_read_u8: "preserves failing R read_u8"
    and rel_read_u32_le: "preserves failing R read_u32_le"
    and rel_read_uint: "preserves failing R read_uint"
    and rel_read_bytes: "preserves failing R (read_bytes n)"
    and rel_add_folders: "preserves failing R (add_folders n lim)"
    and rel_add_coders: "preserves failing R (add_coders n lim)"
    and rel_add_streams: "preserves failing R (add_streams n lim)"
    and rel_add_packed_streams: "preserves failing R (add_packed_streams n lim)"
    and rel_add_substreams: "preserves failing R (add_substreams n lim)"
    and rel_add_property: "preserves failing R (add_property lim)"
    and rel_other_reader:
      "R (s\<lparr>reader := reader_new bytes\<rparr>) t \<Longrightarrow> R s (t\<lparr>reader := reader s\<rparr>)"
begin

lemma keeps_other_reader: "preserves failing R m \<Longrightarrow> preserves failing R (with_reader bytes m)"
  by (auto simp: preserves_def with_reader_def split: prod.splits intro: rel_other_reader)

lemma keeps_end: "preserves failing R (finish d)"
  unfolding finish_def by (intro keeps)

lemmas raw_keeps =
  control_keeps rel_read_u8 rel_read_u32_le rel_read_uint rel_read_bytes rel_add_folders
  rel_add_coders rel_add_streams rel_add_packed_streams rel_add_substreams rel_add_property
  keeps_other_reader keeps_end

lemma keeps_new_vec: "preserves failing R (new_vec n d)"
  unfolding new_vec_def count_to_usize_def by (intro control_keeps)

lemma keeps_parse_bits_loop: "preserves failing R (parse_bits_loop n b m)"
  by (induction n arbitrary: b m) (simp_all only: parse_bits_loop.simps, (intro raw_keeps | assumption)+)

lemma keeps_parse_bits: "preserves failing R (parse_bits n)"
  unfolding parse_bits_def by (intro raw_keeps keeps_new_vec keeps_parse_bits_loop)

lemma keeps_parse_digests: "preserves failing R (parse_digests n)"
  unfolding parse_digests_def by (intro raw_keeps keeps_new_vec keeps_parse_bits)

lemma keeps_parse_sizes: "preserves failing R (parse_sizes n)"
  unfolding parse_sizes_def by (intro raw_keeps keeps_new_vec)

lemma keeps_optional_section:
  "preserves failing R m \<Longrightarrow> preserves failing R (optional_section i tag m)"
  unfolding optional_section_def by (intro raw_keeps)

lemmas vector_keeps =
  raw_keeps keeps_new_vec keeps_parse_bits keeps_parse_digests keeps_parse_sizes
  keeps_optional_section

lemma keeps_parse_pack_info: "preserves failing R (parse_pack_info lim)"
  unfolding parse_pack_info_def by (intro vector_keeps)

lemma keeps_parse_coder: "preserves failing R (parse_coder lim)"
  unfolding parse_coder_def by (intro vector_keeps)

lemma keeps_parse_coders_loop: "preserves failing R (parse_coders_loop lim n i j)"
  by (induction n arbitrary: i j)
    (simp_all only: parse_coders_loop.simps, (intro vector_keeps keeps_parse_coder | assumption)+)

lemma keeps_parse_bind_pair: "preserves failing R parse_bind_pair"
  unfolding parse_bind_pair_def by (intro vector_keeps)

lemma keeps_parse_folder: "preserves failing R (parse_folder lim)"
  unfolding parse_folder_def
  by (intro vector_keeps keeps_parse_coders_loop keeps_parse_bind_pair)

lemma keeps_parse_folders: "preserves failing R (parse_folders n lim)"
  unfolding parse_folders_def by (intro vector_keeps keeps_parse_folder)

lemma keeps_parse_unpack_info: "preserves failing R (parse_unpack_info lim external)"
  unfolding parse_unpack_info_def
  by (intro vector_keeps keeps_parse_folders | (split sum.split, intro allI conjI impI))+

lemma keeps_count_substreams: "preserves failing R (count_substreams counts)"
  unfolding count_substreams_def by (intro vector_keeps)

lemma keeps_count_digests: "preserves failing R (count_digests crcs counts)"
  unfolding count_digests_def by (intro vector_keeps)

lemma keeps_parse_substreams_info: "preserves failing R (parse_substreams_info u lim)"
  unfolding parse_substreams_info_def
  by (intro vector_keeps keeps_count_substreams keeps_count_digests)

lemma keeps_parse_streams_rest: "preserves failing R (parse_streams_rest lim p u i)"
  unfolding parse_streams_rest_def by (intro vector_keeps keeps_parse_substreams_info)

lemma keeps_parse_streams_info: "preserves failing R (parse_streams_info lim external)"
  unfolding parse_streams_info_def
  by (intro vector_keeps keeps_parse_pack_info keeps_parse_unpack_info keeps_parse_streams_rest
      | (split parsed_unpack_info.split, intro allI conjI impI))+

lemma keeps_read_property: "preserves failing R (read_property lim tag)"
  unfolding read_property_def by (intro vector_keeps)

lemma property_loop_rel:
  "l = lim \<Longrightarrow> parse_property_loop l ps s = (r, t) \<Longrightarrow> observed failing r \<Longrightarrow> R s t"
proof (induction l ps s arbitrary: r t rule: parse_property_loop.induct)
  case (1 l ps s)
  note loop = 1(3) [unfolded parse_property_loop.simps [of l ps s]]
  obtain b s' where head: "read_u8 s = (b, s')" by force
  show ?case
  proof (cases b)
    case (Inl e)
    with loop head 1(4) rel_read_u8 show ?thesis by (auto simp: and_then_run_Inl preserves_def)
  next
    case (Inr tag)
    have first: "R s s'" using head Inr rel_read_u8 by (auto simp: preserves_def)
    obtain p u where item: "read_property l tag s' = (p, u)" by force
    show ?thesis
    proof (cases "tag = ID_END")
      case True
      with loop head Inr first show ?thesis by (simp add: run)
    next
      case False
      show ?thesis
      proof (cases p)
        case (Inl e)
        with loop head Inr False item have "r = Inl e" and "t = u" by (simp_all add: run)
        with item Inl 1(2,4) keeps_read_property [of tag] have "R s' t"
          by (auto simp: preserves_def)
        with first show ?thesis by (rule rel_trans)
      next
        case (Inr property)
        with loop head \<open>b = Inr tag\<close> False item
        have rec: "parse_property_loop l (ps @ [property]) u = (r, t)" by (simp add: run)
        have "R s' u" using item Inr 1(2) keeps_read_property [of tag] by (auto simp: preserves_def)
        moreover have "R u t"
          using 1(1) [OF head [unfolded \<open>b = Inr tag\<close>] False item [unfolded Inr] 1(2) rec 1(4)] .
        ultimately show ?thesis using first rel_trans by blast
      qed
    qed
  qed
qed

lemma keeps_parse_property_list: "preserves failing R (parse_property_list lim)"
  unfolding parse_property_list_def by (rule preservesI) (rule property_loop_rel [OF refl])

lemma keeps_parse_files_info: "preserves failing R (parse_files_info lim)"
  unfolding parse_files_info_def by (intro vector_keeps keeps_parse_property_list)

lemma keeps_parse_header_rest: "preserves failing R (parse_header_rest lim p a m i)"
  unfolding parse_header_rest_def by (intro vector_keeps keeps_parse_files_info)

lemma keeps_parse_header_body: "preserves failing R (parse_header_body bytes lim external)"
  unfolding parse_header_body_def
  by (intro vector_keeps keeps_parse_property_list keeps_parse_streams_info keeps_parse_header_rest
      | (split parsed_streams_info.split, intro allI conjI impI))+

lemma keeps_parse_header_kind: "preserves failing R (parse_header_kind bytes lim external tag)"
  unfolding parse_header_kind_def
  by (intro vector_keeps keeps_parse_header_body keeps_parse_streams_info
      | (split parsed_streams_info.split, intro allI conjI impI))+

lemma keeps_finish_header: "preserves failing R (finish_header header)"
  unfolding finish_header_def
  by (split raw_next_header.split, intro allI conjI impI vector_keeps)

lemma keeps_parse_next_header_inner:
  "preserves failing R (parse_next_header_inner bytes lim external)"
  unfolding parse_next_header_inner_def
  by (intro vector_keeps keeps_parse_header_kind keeps_finish_header)

lemma keeps_parse_next_header: "preserves failing R (parse_next_header bytes lim)"
  unfolding parse_next_header_def by (rule keeps_parse_next_header_inner)

lemma keeps_parse_next_header_with_external_folders:
  "preserves failing R (parse_next_header_with_external_folders bytes i ext lim)"
  unfolding parse_next_header_with_external_folders_def by (rule keeps_parse_next_header_inner)

end

text \<open>
  A relation of the bounded reader that ignores the totals, or at least survives their updates,
  satisfies the interface.
\<close>

locale counted_reader = reader_relation failing R
  for failing :: "error \<Rightarrow> bool" and R :: "session \<Rightarrow> session \<Rightarrow> bool" +
  assumes rel_counters: "R s (s\<lparr>counters := c\<rparr>)"
begin

lemma keeps_read_u8: "preserves failing R read_u8"
  unfolding read_u8_def by (intro reader_keeps)

lemma keeps_read_u32_le: "preserves failing R read_u32_le"
  unfolding read_u32_le_def by (intro reader_keeps)

lemma keeps_read_uint: "preserves failing R read_uint"
  unfolding read_uint_def by (intro reader_keeps)

lemma keeps_read_bytes: "preserves failing R (read_bytes n)"
  unfolding read_bytes_def by (intro reader_keeps)

lemma keeps_modify_counters:
  "preserves failing R (modify (\<lambda>s. s\<lparr>counters := f (counters s)\<rparr>))"
  by (simp add: preserves_def modify_def rel_counters)

lemma keeps_add_limited: "preserves failing R (add_limited get put n m l d)"
  unfolding add_limited_def by (intro control_keeps keeps_modify_counters)

end

sublocale counted_reader \<subseteq> header: header_relation failing R lim for lim
  by unfold_locales
    (auto simp: add_folders_def add_coders_def add_streams_def add_packed_streams_def
      add_substreams_def add_property_def
      intro: keeps_read_u8 keeps_read_u32_le keeps_read_uint keeps_read_bytes keeps_add_limited
        rel_inner_reader)

interpretation budget_law: counted_reader any_error budget_evolves
  by unfold_locales (simp add: budget_evolves_def Let_def split: option.splits)

interpretation environment: counted_reader any_error environment_kept
  by unfold_locales (simp add: environment_kept_def)

interpretation cancellation: counted_reader uncancelled_error uncancelled
  by unfold_locales (auto simp: uncancelled_def)

interpretation cursor: counted_reader any_error cursor_advances
  by unfold_locales (simp add: cursor_advances_def)

text \<open>The totals only grow, and stay within the limits they are checked against.\<close>

definition totals_within :: "limits \<Rightarrow> parse_state \<Rightarrow> bool" where
  "totals_within lim c \<longleftrightarrow>
     total_folders c \<le> max_folders lim \<and> total_coders c \<le> max_total_coders lim \<and>
     total_streams c \<le> max_total_streams lim \<and> total_packed_streams c \<le> max_total_streams lim \<and>
     total_substreams c \<le> max_substreams lim \<and> total_properties c \<le> max_header_properties lim"

definition totals_grow :: "limits \<Rightarrow> session \<Rightarrow> session \<Rightarrow> bool" where
  "totals_grow lim s t \<longleftrightarrow>
     total_folders (counters s) \<le> total_folders (counters t) \<and>
     total_coders (counters s) \<le> total_coders (counters t) \<and>
     total_streams (counters s) \<le> total_streams (counters t) \<and>
     total_packed_streams (counters s) \<le> total_packed_streams (counters t) \<and>
     total_substreams (counters s) \<le> total_substreams (counters t) \<and>
     total_properties (counters s) \<le> total_properties (counters t) \<and>
     (totals_within lim (counters s) \<longrightarrow> totals_within lim (counters t))"

lemma add_limited_cases:
  assumes "add_limited get put n m l d s = (r, t)"
  shows "t = s \<and> isl r \<or>
     (\<exists>v. unat (get (counters s)) + unat n = unat v \<and> v \<le> m \<and>
          t = s\<lparr>counters := put v (counters s)\<rparr> \<and> r = Inr ())"
  using assms
  by (auto simp: add_limited_def and_then_def run check_limit_def checked_add_eq_Some not_less
      split: option.splits if_splits)

lemma same_counters: "counters t = counters s \<Longrightarrow> totals_grow lim s t"
  by (simp add: totals_grow_def)

lemma totals_add_limited:
  assumes "\<And>s v. unat (get (counters s)) \<le> unat v \<Longrightarrow> v \<le> m \<Longrightarrow>
             totals_grow lim s (s\<lparr>counters := put v (counters s)\<rparr>)"
  shows "preserves any_error (totals_grow lim) (add_limited get put n m l d)"
  by (rule preservesI) (auto dest!: add_limited_cases intro: same_counters assms)

definition counters_fixed :: "session \<Rightarrow> session \<Rightarrow> bool" where
  "counters_fixed s t \<longleftrightarrow> counters t = counters s"

interpretation counters_frame: reader_relation any_error counters_fixed
  by unfold_locales
    (auto simp: preserves_def counters_fixed_def load_token_def spend_def reserve_exact_def Let_def
      dest!: read_keeps_rest split: prod.splits if_splits)

lemma totals_frame:
  "preserves any_error counters_fixed m \<Longrightarrow> preserves any_error (totals_grow lim) m"
  by (auto simp: preserves_def counters_fixed_def intro: same_counters)

interpretation totals: header_relation any_error "totals_grow lim" "lim" for lim
proof (unfold_locales, goal_cases)
  case (2 s t u)
  then show ?case unfolding totals_grow_def by (metis order_trans)
next
  case 3
  then show ?case by (intro totals_frame counters_frame.rel_load)
next
  case (4 n)
  then show ?case by (intro totals_frame counters_frame.rel_spend)
next
  case (5 n d)
  then show ?case by (intro totals_frame counters_frame.rel_reserve)
next
  case 6
  then show ?case unfolding read_u8_def by (intro totals_frame counters_frame.reader_keeps)
next
  case 7
  then show ?case unfolding read_u32_le_def by (intro totals_frame counters_frame.reader_keeps)
next
  case 8
  then show ?case unfolding read_uint_def by (intro totals_frame counters_frame.reader_keeps)
next
  case (9 n)
  then show ?case unfolding read_bytes_def by (intro totals_frame counters_frame.reader_keeps)
qed (auto simp: add_folders_def add_coders_def add_streams_def add_packed_streams_def
      add_substreams_def add_property_def totals_grow_def totals_within_def word_le_nat_alt
      intro!: totals_add_limited)

text \<open>
  Work pays for input: on success the counter of consumed units has grown by at least the number of
  bytes the cursor has passed.
\<close>

definition work_covers :: "session \<Rightarrow> session \<Rightarrow> bool" where
  "work_covers s t \<longleftrightarrow>
     rd_position (reader s) \<le> rd_position (reader t) \<and>
     unat (consumed (budget (control s))) + (rd_position (reader t) - rd_position (reader s))
       \<le> unat (consumed (budget (control t)))"

lemma checkpoint_success [success]:
  "checkpoint u s = (Inr x, t) \<longleftrightarrow>
     \<not> cancelled (token (control s) (loads (control s))) \<and>
     unat u \<le> affordable (budget (control s)) \<and>
     t = s\<lparr>control := (control s)\<lparr>loads := Suc (loads (control s)),
                                      budget := charged (unat u) (budget (control s))\<rparr>\<rparr>"
  by (auto simp: checkpoint_def success)

text \<open>A charge of \<open>n\<close> units leaves the reader where it is and adds \<open>n\<close> to the counter.\<close>

definition paid :: "nat \<Rightarrow> session \<Rightarrow> session \<Rightarrow> bool" where
  "paid n s t \<longleftrightarrow> reader t = reader s \<and>
     unat (consumed (budget (control t))) = unat (consumed (budget (control s))) + n"

lemma checkpoint_paid: "checkpoint u s = (Inr x, t) \<Longrightarrow> paid (unat u) s t"
  by (auto simp: success paid_def unat_consumed_charged)

lemma chunk_fold_paid:
  assumes "for_fold cs () (\<lambda>_ chunk.
             and_then (usize_to_u64 (length chunk) d) checkpoint) s = (Inr x, t)"
  shows "paid (sum_list (map length cs)) s t"
  using assms
proof (induction cs arbitrary: s)
  case Nil
  then show ?case by (simp add: success paid_def)
next
  case (Cons c cs)
  then obtain u where "length c < 2 ^ 64" and "checkpoint (of_nat (length c)) s = (Inr (), u)"
    and rec: "for_fold cs () (\<lambda>_ chunk. and_then (usize_to_u64 (length chunk) d) checkpoint) u
                = (Inr x, t)"
    by (force simp: usize_to_u64_success and_then_success)
  then have "paid (length c) s u" using checkpoint_paid by fastforce
  with Cons.IH [OF rec] show ?case by (simp add: paid_def)
qed

lemma consume_bytes_paid: "consume_bytes bytes s = (Inr x, t) \<Longrightarrow> paid (length bytes) s t"
  by (auto simp: consume_bytes_def CONTROL_CHUNK_SIZE_def sum_length_chunks
      dest: checkpoint_paid chunk_fold_paid split: if_splits)

lemma paid_work: "paid n s t \<Longrightarrow> work_covers s t"
  by (simp add: paid_def work_covers_def)

lemma frame_work:
  "control t = control s \<Longrightarrow> reader t = reader s \<Longrightarrow> work_covers s t"
  by (simp add: work_covers_def)

text \<open>At most nine bytes belong to one 7z integer.\<close>

lemma read_7z_loop_moves:
  "read_7z_loop shifts first m v s = (Inr x, t) \<Longrightarrow>
     control t = control s \<and> rd_position (reader s) \<le> rd_position (reader t) \<and>
     rd_position (reader t) \<le> rd_position (reader s) + length shifts"
  by (induction shifts first m v arbitrary: s rule: read_7z_loop.induct)
    (fastforce simp: success split: if_splits)+

interpretation work: header_relation no_error work_covers "lim" for lim
proof (unfold_locales, goal_cases)
  case 3
  then show ?case
    by (rule preservesI) (auto simp: load_token_def Let_def intro!: paid_work [of 0] simp: paid_def)
next
  case (4 u)
  then show ?case
  proof (rule preservesI)
    fix s :: session and r t assume "spend u s = (r, t)" and "observed no_error r"
    then show "work_covers s t"
      by (cases r) (auto simp: success work_covers_def unat_consumed_charged)
  qed
next
  case (5 n d)
  then show ?case
    by (rule preservesI) (auto simp: reserve_exact_def Let_def intro!: frame_work split: if_splits)
next
  case 6
  show ?case
  proof (rule preservesI)
    fix s r t assume "read_u8 s = (r, t)" and "observed no_error r"
    then show "work_covers s t"
      by (cases r) (auto simp: read_u8_def success work_covers_def unat_consumed_charged)
  qed
next
  case 7
  show ?case
  proof (rule preservesI)
    fix s r t assume "read_u32_le s = (r, t)" and "observed no_error r"
    then show "work_covers s t"
      by (cases r) (auto simp: read_u32_le_def success work_covers_def unat_consumed_charged)
  qed
next
  case 8
  show ?case
  proof (rule preservesI)
    fix s r t assume "read_uint s = (r, t)" and "observed no_error r"
    then obtain x where "read_uint s = (Inr x, t)" by (cases r) auto
    then obtain u b v where "checkpoint 9 s = (Inr (), u)" and "reader_read_u8 u = (Inr b, v)"
      and "read_7z_loop [0, 8, 16, 24, 32, 40, 48, 56] b 0x80 0 v = (Inr x, t)"
      by (auto simp: read_uint_def reader_read_7z_uint_def and_then_success)
    then show "work_covers s t"
      using checkpoint_paid [of 9 s "()" u] read_7z_loop_moves
      by (fastforce simp: paid_def work_covers_def success)
  qed
next
  case (9 n)
  show ?case
  proof (rule preservesI)
    fix s r t assume "read_bytes n s = (r, t)" and "observed no_error r"
    then obtain bytes u where "reader_read_bytes n s = (Inr bytes, u)"
      and "consume_bytes bytes u = (Inr (), t)"
      by (cases r) (auto simp: read_bytes_def and_then_success ok_success)
    then show "work_covers s t"
      using consume_bytes_paid [of bytes u "()" t]
      by (auto simp: success paid_def work_covers_def unread_def)
  qed
qed (auto simp: add_folders_def add_coders_def add_streams_def add_packed_streams_def
      add_substreams_def add_property_def work_covers_def reader_new_def
      intro!: preservesI frame_work dest!: add_limited_cases)


section \<open>Properties of the next-header parser\<close>

lemma finish_header_success [success]:
  "finish_header h s = (Inr h', t) \<longleftrightarrow> h' = h \<and> t = s \<and>
     ((\<forall>pending. h \<noteq> ExternalFolders pending) \<longrightarrow>
        rd_position (reader s) = length (rd_bytes (reader s)))"
  by (cases h) (auto simp: finish_header_def success)

lemma next_header_body_run:
  assumes "parse_next_header_inner bytes lim external s = (Inr h, t)"
  obtains u where "t = u\<lparr>reader := reader s\<rparr>" and "work_covers (s\<lparr>reader := reader_new bytes\<rparr>) u"
    and "cursor_advances (s\<lparr>reader := reader_new bytes\<rparr>) u"
    and "(\<forall>pending. h \<noteq> ExternalFolders pending) \<longrightarrow> rd_position (reader u) = length bytes"
proof -
  let ?s = "s\<lparr>reader := reader_new bytes\<rparr>"
  from assms obtain tag a u where "t = u\<lparr>reader := reader s\<rparr>"
    and tag: "read_u8 ?s = (Inr tag, a)"
    and body: "parse_header_kind bytes lim external tag a = (Inr h, u)"
    and last: "(\<forall>pending. h \<noteq> ExternalFolders pending) \<longrightarrow>
        rd_position (reader u) = length (rd_bytes (reader u))"
    unfolding parse_next_header_inner_def and_then_success with_reader_success
      check_limit_success finish_header_success by blast
  have "work_covers ?s u"
    using preservesD [OF work.rel_read_u8 tag] preservesD [OF work.keeps_parse_header_kind body]
    by (rule work.rel_trans)
  moreover have "cursor_advances ?s u"
    using preserves_allD [OF cursor.keeps_read_u8 tag]
      preserves_allD [OF cursor.header.keeps_parse_header_kind body]
    by (rule cursor.rel_trans)
  ultimately show ?thesis
    using that [of u] \<open>t = u\<lparr>reader := reader s\<rparr>\<close> last
    by (auto simp: cursor_advances_def reader_new_def)
qed




text \<open>C25: The archive-wide totals never decrease and never exceed the limits they are checked
  against, also when the parser stops with an error.\<close>

theorem next_header_totals_within_limits:
  "totals_grow lim s (snd (parse_next_header bytes lim s))"
  by (rule preserves_all_snd [OF totals.keeps_parse_next_header])

end
