(* ===== verification/Archive_Model.thy ===== *)
theory Archive_Model
  imports Prelude
begin

text \<open>
  \<^verbatim>\<open>model.rs\<close>: the validated metadata that the parser hands to the rest of the crate.  Boxed slices
  are lists; the accessor methods of the source are the record selectors; \<open>new\<close> is the record
  constructor.
\<close>

record archive_version =
  major :: u8
  minor :: u8

datatype next_header_kind = KindHeader | KindEncodedHeader

record header_envelope =
  signature_offset :: u64
  version :: archive_version
  next_header_offset :: u64
  next_header_size :: u64
  next_header_crc :: u32
  envelope_kind :: next_header_kind

record stored_property =
  stored_id :: u8
  stored_data :: byte_slice

record external_property =
  ext_property_id :: u8
  ext_data_index :: u64
  ext_defined_entries :: "bool list"

record substream =
  substream_size :: "u64 option"
  substream_crc :: "u32 option"

record bind_pair =
  bound_input_index :: u64
  bound_output_index :: u64

record coder =
  method_id :: byte_slice
  input_start :: u64
  input_count :: u64
  output_start :: u64
  output_count :: u64
  coder_properties :: byte_slice
  coder_dictionary_bytes :: "u64 option"

record folder =
  coders :: "coder list"
  bind_pairs :: "bind_pair list"
  packed_input_indices :: "u64 list"
  unpack_sizes :: "u64 option list"
  root_output_index :: u64
  topological_coder_order :: "u64 list"
  folder_crc :: "u32 option"
  substreams :: "substream list"
  folder_dictionary_bytes :: u64
  first_pack_stream :: u64

record pack_stream =
  stream_offset :: u64
  stream_size :: "u64 option"
  stream_crc :: "u32 option"

record streams_info =
  info_pack_position :: u64
  info_pack_streams :: "pack_stream list"
  info_folders :: "folder list"
  substream_count :: u64

record file_stream =
  folder_index :: u64
  substream_index :: u64
  member_size :: "u64 option"
  member_crc :: "u32 option"

datatype entry_kind = File | Directory | SymbolicLink | AntiItem

record file_entry =
  raw_name :: "u16 list option"
  has_stream :: bool
  empty_file :: bool
  anti_item :: bool
  creation_time :: "u64 option"
  access_time :: "u64 option"
  modification_time :: "u64 option"
  windows_attributes :: "u32 option"
  start_position :: "u64 option"
  entry_stream :: "file_stream option"

record files_info =
  entries :: "file_entry list"
  external_properties :: "external_property list"
  unknown_properties :: "stored_property list"

record archive_header =
  archive_properties :: "stored_property list"
  additional_streams :: "streams_info option"
  main_streams :: "streams_info option"
  header_files_info :: "files_info option"

record pending_external_folder_header =
  pending_additional_streams :: streams_info
  pending_data_index :: u64
  pending_header_bytes :: byte_slice

datatype parsed_next_header =
  ParsedHeader archive_header
| ParsedEncodedHeader streams_info
| PendingExternalFolders pending_external_folder_header

record parsed_archive =
  envelope :: header_envelope
  next_header :: parsed_next_header


section \<open>Derived attributes of an entry\<close>

definition unix_mode :: "file_entry \<Rightarrow> u32 option" where
  "unix_mode e =
     (case windows_attributes e of
        Some attributes \<Rightarrow>
          if attributes AND 0x8000 \<noteq> 0 then Some (drop_bit 16 attributes) else None
      | None \<Rightarrow> None)"

text \<open>The octal masks \<open>0o170_000\<close> and \<open>0o120_000\<close>.\<close>

definition is_symlink :: "file_entry \<Rightarrow> bool" where
  "is_symlink e = (case unix_mode e of Some m \<Rightarrow> m AND 0xF000 = 0xA000 | None \<Rightarrow> False)"

definition entry_kind :: "file_entry \<Rightarrow> entry_kind" where
  "entry_kind e =
     (if anti_item e then AntiItem
      else if is_symlink e then SymbolicLink
      else if has_stream e \<or> empty_file e then File
      else Directory)"

definition entry_size :: "file_entry \<Rightarrow> u64 option" where
  "entry_size e =
     (case entry_stream e of
        Some stream \<Rightarrow> member_size stream
      | None \<Rightarrow> if empty_file e \<and> \<not> anti_item e then Some 0 else None)"

definition entry_crc32 :: "file_entry \<Rightarrow> u32 option" where
  "entry_crc32 e = (case entry_stream e of Some stream \<Rightarrow> member_crc stream | None \<Rightarrow> None)"

definition set_raw_name :: "u16 list \<Rightarrow> file_entry \<Rightarrow> file_entry" where
  "set_raw_name v e = e\<lparr>raw_name := Some v\<rparr>"

definition set_creation_time :: "u64 \<Rightarrow> file_entry \<Rightarrow> file_entry" where
  "set_creation_time v e = e\<lparr>creation_time := Some v\<rparr>"

definition set_access_time :: "u64 \<Rightarrow> file_entry \<Rightarrow> file_entry" where
  "set_access_time v e = e\<lparr>access_time := Some v\<rparr>"

definition set_modification_time :: "u64 \<Rightarrow> file_entry \<Rightarrow> file_entry" where
  "set_modification_time v e = e\<lparr>modification_time := Some v\<rparr>"

definition set_windows_attributes :: "u32 \<Rightarrow> file_entry \<Rightarrow> file_entry" where
  "set_windows_attributes v e = e\<lparr>windows_attributes := Some v\<rparr>"

definition set_start_position :: "u64 \<Rightarrow> file_entry \<Rightarrow> file_entry" where
  "set_start_position v e = e\<lparr>start_position := Some v\<rparr>"

text \<open>
  \<open>String::from_utf16_lossy\<close>: a high surrogate followed by a low one is one code point, any other
  surrogate becomes U+FFFD.  A string is the list of its code points.
\<close>

fun from_utf16_lossy :: "u16 list \<Rightarrow> nat list" where
  "from_utf16_lossy [] = []"
| "from_utf16_lossy (u # us) =
     (if u AND 0xF800 \<noteq> 0xD800 then unat u # from_utf16_lossy us
      else case us of
        v # vs \<Rightarrow>
          if u < 0xDC00 \<and> 0xDC00 \<le> v \<and> v \<le> 0xDFFF then
            (0x10000 + (unat u - 0xD800) * 0x400 + (unat v - 0xDC00)) # from_utf16_lossy vs
          else 0xFFFD # from_utf16_lossy us
      | [] \<Rightarrow> [0xFFFD])"

definition name_lossy :: "file_entry \<Rightarrow> nat list option" where
  "name_lossy e = map_option from_utf16_lossy (raw_name e)"

end
