(* ===== verification/Graph.thy ===== *)
theory Graph
  imports Raw_Header Archive_Model
begin

text \<open>
  \<^verbatim>\<open>graph.rs\<close>: validation of a folder's coder graph and the order in which its coders run.  Ports are
  numbered over all coders of the folder; \<open>input_owners\<close> and \<open>output_owners\<close> give the coder of each
  port, so that a bind pair is an edge from the owner of its output to the owner of its input.
\<close>

record validated_graph =
  graph_bind_pairs :: "bind_pair list"
  graph_packed_inputs :: "u64 list"
  graph_root_output :: u64
  graph_order :: "u64 list"


section \<open>The code\<close>

definition false_vector :: "u64 \<Rightarrow> string \<Rightarrow> bool list op" where
  "false_vector count detail =
     and_then (u64_to_usize count detail) (\<lambda>n.
     and_then (try_reserve n) (\<lambda>_.
     ok (replicate n False)))"

definition owner_for_port :: "nat list \<Rightarrow> u64 \<Rightarrow> string \<Rightarrow> nat op" where
  "owner_for_port owners index detail =
     and_then (u64_to_usize index ''stream index is not representable on this platform'') (\<lambda>i.
     ok_or (format_error detail) (item_get owners i))"

text \<open>The two \<open>&mut [bool]\<close> arguments are returned updated.\<close>

definition validate_bind_pair ::
    "raw_bind_pair \<Rightarrow> bool list \<Rightarrow> bool list \<Rightarrow> (bind_pair \<times> bool list \<times> bool list) op" where
  "validate_bind_pair raw input_used output_used =
     and_then (u64_to_usize (bind_input raw)
                ''bind-pair input index is not representable on this platform'') (\<lambda>input_index.
     and_then (u64_to_usize (bind_output raw)
                ''bind-pair output index is not representable on this platform'') (\<lambda>output_index.
     and_then (ok_or (format_error ''bind-pair input index is out of range'')
                (item_get input_used input_index)) (\<lambda>input.
     and_then (err_if input (format_error ''bind-pair input index is duplicated'')) (\<lambda>_.
     and_then (ok_or (format_error ''bind-pair output index is out of range'')
                (item_get output_used output_index)) (\<lambda>output.
     and_then (err_if output (format_error ''bind-pair output index is duplicated'')) (\<lambda>_.
     ok (\<lparr>bound_input_index = bind_input raw, bound_output_index = bind_output raw\<rparr>,
         input_used[input_index := True], output_used[output_index := True])))))))"

text \<open>The loop over the bind pairs that counts the dependencies of each coder.\<close>

definition collect_edge ::
    "nat list \<Rightarrow> nat list \<Rightarrow> u64 list \<times> (nat \<times> nat) list \<Rightarrow> raw_bind_pair \<Rightarrow>
     (u64 list \<times> (nat \<times> nat) list) op" where
  "collect_edge input_owners output_owners acc pair = (case acc of (indegree, edges) \<Rightarrow>
     and_then (owner_for_port output_owners (bind_output pair)
                ''bind-pair output index is out of range'') (\<lambda>source.
     and_then (owner_for_port input_owners (bind_input pair)
                ''bind-pair input index is out of range'') (\<lambda>destination.
     and_then (ok_or (format_error ''coder dependency index is out of range'')
                (item_get indegree destination)) (\<lambda>degree.
     and_then (ok_or (format_error ''coder dependency count overflows'')
                (checked_add degree 1)) (\<lambda>degree'.
     ok (indegree[destination := degree'], edges @ [(source, destination)]))))))"

text \<open>One edge, when \<open>coder\<close> has been scheduled.\<close>

definition release_edge ::
    "nat \<Rightarrow> u64 list \<times> nat list \<Rightarrow> nat \<times> nat \<Rightarrow> (u64 list \<times> nat list) op" where
  "release_edge coder acc edge = (case acc of (indegree, ready) \<Rightarrow>
     and_then (checkpoint 1) (\<lambda>_.
     if fst edge \<noteq> coder then ok (indegree, ready)
     else
       and_then (ok_or (format_error ''coder dependency index is out of range'')
                  (item_get indegree (snd edge))) (\<lambda>degree.
       and_then (ok_or (format_error ''coder dependency count underflows'')
                  (checked_sub degree 1)) (\<lambda>degree'.
       ok (indegree[snd edge := degree'],
           if degree' = 0 then ready @ [snd edge] else ready)))))"

text \<open>
  Measure of the scheduling loop: the coders that wait for a dependency and the part of the queue
  behind the cursor.
\<close>

definition waiting :: "u64 list \<Rightarrow> nat" where
  "waiting indegree = length (filter (\<lambda>d. d \<noteq> 0) indegree)"

lemma waiting_simps [simp]:
  "waiting [] = 0" "waiting (d # ds) = (if d = 0 then waiting ds else Suc (waiting ds))"
  by (simp_all add: waiting_def)

lemma waiting_update:
  "v < length ind \<Longrightarrow> ind ! v \<noteq> 0 \<Longrightarrow>
     Suc (waiting (ind[v := d])) = (if d = 0 then waiting ind else Suc (waiting ind))"
  by (induction ind arbitrary: v) (auto simp: nth_Cons split: nat.splits)

text \<open>No edge of the graph makes the sum of both grow.\<close>

definition queue_bound :: "u64 list \<Rightarrow> nat list \<Rightarrow> u64 list \<times> nat list \<Rightarrow> bool" where
  "queue_bound ind ready acc \<longleftrightarrow>
     waiting (fst acc) + length (snd acc) = waiting ind + length ready"

lemma release_edge_bound:
  assumes "release_edge c acc edge s = (Inr acc', t)" and "queue_bound ind ready acc"
  shows "queue_bound ind ready acc'"
proof -
  obtain i r where acc: "acc = (i, r)" by force
  show ?thesis
  proof (cases "fst edge = c")
    case False
    with assms acc show ?thesis by (auto simp: release_edge_def success)
  next
    case True
    with assms(1) acc obtain d where d: "snd edge < length i" "unat (i ! snd edge) = 1 + unat d"
      and acc': "acc' = (i[snd edge := d], if d = 0 then r @ [snd edge] else r)"
      by (auto simp: release_edge_def success item_get_eq_Some checked_sub_eq_Some)
    from d(2) have "i ! snd edge \<noteq> 0" by auto
    from waiting_update [OF d(1) this, of d] assms(2) show ?thesis
      by (auto simp: acc acc' queue_bound_def)
  qed
qed

lemma release_edges_bound:
  assumes "for_fold edges (ind, ready) (release_edge c) s = (Inr acc, t)"
  shows "queue_bound ind ready acc"
  by (rule for_fold_invariant [OF assms, where I = "\<lambda>_ acc _. queue_bound ind ready acc"])
    (auto simp: queue_bound_def [of ind ready "(ind, ready)"] intro: release_edge_bound)

function topological_loop ::
    "(nat \<times> nat) list \<Rightarrow> u64 list \<Rightarrow> nat list \<Rightarrow> nat \<Rightarrow> u64 list \<Rightarrow> u64 list op" where
  "topological_loop edges indegree ready cursor order s =
     (case item_get ready cursor of
        None \<Rightarrow> ok order s
      | Some coder \<Rightarrow>
          and_then (usize_add cursor 1 ''topological queue index overflows'') (\<lambda>cursor'.
          and_then (checkpoint 1) (\<lambda>_.
          and_then (usize_to_u64 coder ''coder index is not representable as u64'') (\<lambda>index.
          and_then (for_fold edges (indegree, ready) (release_edge coder)) (\<lambda>acc s.
          topological_loop edges (fst acc) (snd acc) cursor' (order @ [index]) s)))) s)"
  by pat_completeness auto
termination
proof (relation "measure (\<lambda>(edges, indegree, ready, cursor, order, s).
    waiting indegree + length ready - cursor)", goal_cases)
  case (2 edges ind ready cursor order s c cursor' s1 u s2 index s3 acc t)
  then have "cursor < length ready" and "cursor' = cursor + 1"
    by (auto simp: item_get_eq_Some success)
  moreover have "queue_bound ind ready acc"
    using 2 by (blast intro: release_edges_bound)
  ultimately show ?case by (auto simp: queue_bound_def)
qed simp

declare topological_loop.simps [simp del]

definition topological_order ::
    "nat \<Rightarrow> nat list \<Rightarrow> nat list \<Rightarrow> raw_bind_pair list \<Rightarrow> u64 list op" where
  "topological_order coder_count input_owners output_owners pairs =
     and_then (try_reserve coder_count) (\<lambda>_.
     and_then (try_reserve (length pairs)) (\<lambda>_.
     and_then (for_fold pairs (replicate coder_count 0, [])
                (collect_edge input_owners output_owners)) (\<lambda>(indegree, edges).
     and_then (try_reserve coder_count) (\<lambda>_.
     let ready = map fst (filter (\<lambda>(index, degree). degree = 0) (enumerate 0 indegree)) in
     and_then (try_reserve coder_count) (\<lambda>_.
     and_then (topological_loop edges indegree ready 0 []) (\<lambda>order.
     and_then (err_if (length order \<noteq> coder_count)
                (format_error ''folder coder graph contains a cycle'')) (\<lambda>_.
     ok order)))))))"

text \<open>The pieces of \<open>validate_folder_graph\<close>, in its order.\<close>

definition collect_owners :: "raw_coder list \<Rightarrow> (nat list \<times> nat list) op" where
  "collect_owners raw =
     for_fold (enumerate 0 raw) ([], []) (\<lambda>(input_owners, output_owners) (coder_index, coder).
       and_then (ok_or (format_error ''coder port count overflows'')
                  (checked_add (raw_coder_inputs coder) (raw_coder_outputs coder))) (\<lambda>port_count.
       and_then (checkpoint port_count) (\<lambda>_.
       ok (input_owners @ replicate (unat (raw_coder_inputs coder)) coder_index,
           output_owners @ replicate (unat (raw_coder_outputs coder)) coder_index))))"

definition bind_all ::
    "raw_bind_pair list \<Rightarrow> bool list \<Rightarrow> bool list \<Rightarrow> (bind_pair list \<times> bool list \<times> bool list) op" where
  "bind_all pairs input_used output_used =
     for_fold pairs ([], input_used, output_used) (\<lambda>(bound, inputs, outputs) pair.
       and_then (validate_bind_pair pair inputs outputs) (\<lambda>(b, inputs', outputs').
       ok (bound @ [b], inputs', outputs')))"

definition find_root_output :: "bool list \<Rightarrow> u64 op" where
  "find_root_output output_used =
     and_then
       (for_fold (enumerate 0 output_used) None (\<lambda>root_output (index, is_bound).
          if \<not> is_bound then
            and_then (err_if (root_output \<noteq> None)
                       (format_error ''folder has multiple root output streams'')) (\<lambda>_.
            and_then (usize_to_u64 index ''root output index is not representable as u64'') (\<lambda>i.
            ok (Some i)))
          else ok root_output)) (\<lambda>root_output.
     ok_or (format_error ''folder has no root output stream'') root_output)"

text \<open>\<open>input_used.iter().position(|bound| !bound)\<close>\<close>

definition position_false :: "bool list \<Rightarrow> nat option" where
  "position_false bs = (let n = length (takeWhile id bs) in if n < length bs then Some n else None)"

definition choose_packed :: "u64 list option \<Rightarrow> bool list \<Rightarrow> u64 list op" where
  "choose_packed explicit input_used =
     (case explicit of
        Some indices \<Rightarrow> ok indices
      | None \<Rightarrow>
          and_then (ok_or (format_error ''folder has no unbound packed input'')
                     (position_false input_used)) (\<lambda>index.
          and_then (usize_to_u64 index ''packed-input index is not representable as u64'') (\<lambda>i.
          ok [i])))"

definition mark_packed :: "u64 list \<Rightarrow> bool list \<Rightarrow> bool list \<Rightarrow> bool list op" where
  "mark_packed packed_indices input_used packed_used =
     for_fold packed_indices packed_used (\<lambda>packed index.
       and_then (u64_to_usize index ''packed-input index is not representable on this platform'')
         (\<lambda>i.
       and_then (ok_or (format_error ''packed-input index is out of range'') (item_get packed i))
         (\<lambda>is_packed.
       and_then (err_if is_packed (format_error ''packed-input index is duplicated'')) (\<lambda>_.
       and_then (ok_or (format_error ''packed-input index is out of range'')
                  (item_get input_used i)) (\<lambda>is_bound.
       and_then (err_if is_bound (format_error ''packed-input index is already bound'')) (\<lambda>_.
       ok (packed[i := True])))))))"

definition check_partition :: "bool list \<Rightarrow> bool list \<Rightarrow> unit op" where
  "check_partition input_used packed_used =
     for_fold (zip input_used packed_used) () (\<lambda>_ (is_bound, is_packed).
       err_if (is_bound = is_packed)
         (format_error ''folder inputs are not partitioned into bound and packed streams''))"

definition port_owners :: "raw_folder \<Rightarrow> (nat list \<times> nat list) op" where
  "port_owners raw =
     and_then (ok_or (format_error ''folder port count overflows'')
                (checked_add (raw_input_streams raw) (raw_output_streams raw))) (\<lambda>port_count.
     and_then (checkpoint port_count) (\<lambda>_.
     and_then (u64_to_usize (raw_input_streams raw)
                ''folder input count is not representable on this platform'') (\<lambda>inputs.
     and_then (u64_to_usize (raw_output_streams raw)
                ''folder output count is not representable on this platform'') (\<lambda>outputs.
     and_then (try_reserve inputs) (\<lambda>_.
     and_then (try_reserve outputs) (\<lambda>_.
     and_then (collect_owners (raw_coders raw)) (\<lambda>(input_owners, output_owners).
     and_then (err_if (length input_owners \<noteq> inputs \<or> length output_owners \<noteq> outputs)
                (format_error ''folder stream-owner totals are inconsistent'')) (\<lambda>_.
     ok (input_owners, output_owners)))))))))"

definition validate_packed_inputs :: "raw_folder \<Rightarrow> bool list \<Rightarrow> u64 list op" where
  "validate_packed_inputs raw input_used =
     and_then (u64_to_usize (raw_packed_streams raw)
                ''packed-input count is not representable on this platform'') (\<lambda>packed_capacity.
     and_then (try_reserve packed_capacity) (\<lambda>_.
     and_then (choose_packed (raw_packed_indices raw) input_used) (\<lambda>packed_indices.
     and_then (err_if (length packed_indices \<noteq> packed_capacity)
                (format_error ''folder packed-input count is inconsistent'')) (\<lambda>_.
     and_then (false_vector (raw_input_streams raw)
                ''folder input count is not representable on this platform'') (\<lambda>packed_used.
     and_then (mark_packed packed_indices input_used packed_used) (\<lambda>packed_used.
     and_then (check_partition input_used packed_used) (\<lambda>_.
     ok packed_indices)))))))"

definition validate_folder_graph :: "raw_folder \<Rightarrow> validated_graph op" where
  "validate_folder_graph raw =
     and_then (port_owners raw) (\<lambda>(input_owners, output_owners).
     and_then (false_vector (raw_input_streams raw)
                ''folder input count is not representable on this platform'') (\<lambda>input_used.
     and_then (false_vector (raw_output_streams raw)
                ''folder output count is not representable on this platform'') (\<lambda>output_used.
     and_then (try_reserve (length (raw_bind_pairs raw))) (\<lambda>_.
     and_then (bind_all (raw_bind_pairs raw) input_used output_used)
       (\<lambda>(bound, input_used, output_used).
     and_then (find_root_output output_used) (\<lambda>root_output.
     and_then (validate_packed_inputs raw input_used) (\<lambda>packed_indices.
     and_then (topological_order (length (raw_coders raw)) input_owners output_owners
                (raw_bind_pairs raw)) (\<lambda>order.
     ok \<lparr>graph_bind_pairs = bound, graph_packed_inputs = packed_indices,
         graph_root_output = root_output, graph_order = order\<rparr>))))))))"

end
