(* ===== verification/Coder_Properties.thy ===== *)
theory Coder_Properties
  imports Bounded_Reader
begin

text \<open>
  \<^verbatim>\<open>coder_properties.rs\<close>: the bounded property record of the PPMd coder.
\<close>

definition PPMD_CANONICAL_PROPERTY_BYTES :: nat where "PPMD_CANONICAL_PROPERTY_BYTES = 5"
definition PPMD_EXTENDED_PROPERTY_BYTES :: nat where "PPMD_EXTENDED_PROPERTY_BYTES = 7"
definition PPMD_MINIMUM_MEMORY_BYTES :: u32 where "PPMD_MINIMUM_MEMORY_BYTES = push_bit 11 1"
definition PPMD_MINIMUM_ORDER :: u8 where "PPMD_MINIMUM_ORDER = 2"
definition PPMD_MAXIMUM_ORDER :: u8 where "PPMD_MAXIMUM_ORDER = 64"

lemmas ppmd_constants =
  PPMD_CANONICAL_PROPERTY_BYTES_def PPMD_EXTENDED_PROPERTY_BYTES_def
  PPMD_MINIMUM_MEMORY_BYTES_def PPMD_MINIMUM_ORDER_def PPMD_MAXIMUM_ORDER_def

record ppmd_properties =
  ppmd_order :: u8
  ppmd_memory_size :: u32

text \<open>\<open>parse_ppmd_properties\<close>; the array conversions of the source are length checks here.\<close>

definition parse_ppmd_properties :: "byte_slice \<Rightarrow> ('s, ppmd_properties) comp" where
  "parse_ppmd_properties properties =
     and_then
       (if length properties = PPMD_CANONICAL_PROPERTY_BYTES then ok properties
        else if length properties = PPMD_EXTENDED_PROPERTY_BYTES then
          and_then (ok_or (format_error ''PPMd reserved properties are truncated'')
            (slice_get properties PPMD_CANONICAL_PROPERTY_BYTES PPMD_EXTENDED_PROPERTY_BYTES))
            (\<lambda>reserved.
          and_then (err_if (reserved \<noteq> [0, 0])
                     (format_error ''PPMd reserved properties must be zero'')) (\<lambda>_.
          ok_or (format_error ''PPMd canonical properties are truncated'')
            (slice_get properties 0 PPMD_CANONICAL_PROPERTY_BYTES)))
        else err (format_error
          ''PPMd properties must contain exactly five bytes, or seven bytes with two zero reserved bytes''))
       (\<lambda>canonical.
     and_then (ok_or (format_error ''PPMd canonical properties have the wrong length'')
                (if length canonical = PPMD_CANONICAL_PROPERTY_BYTES then Some canonical else None))
       (\<lambda>bytes.
     and_then (ok_or (format_error ''PPMd order property is missing'') (item_get bytes 0)) (\<lambda>order.
     and_then (err_if (\<not> (PPMD_MINIMUM_ORDER \<le> order \<and> order \<le> PPMD_MAXIMUM_ORDER))
                (format_error ''PPMd order is outside 2 through 64'')) (\<lambda>_.
     and_then (ok_or (format_error ''PPMd memory property is truncated'')
                (slice_get bytes 1 PPMD_CANONICAL_PROPERTY_BYTES)) (\<lambda>memory.
     and_then (ok_or (format_error ''PPMd memory property has the wrong length'') (le_array 4 memory))
       (\<lambda>memory_size.
     and_then (err_if (memory_size < PPMD_MINIMUM_MEMORY_BYTES)
                (format_error ''PPMd memory size is below the format minimum'')) (\<lambda>_.
     ok \<lparr>ppmd_order = order, ppmd_memory_size = memory_size\<rparr>)))))))"

text \<open>The property records of the format: five bytes, or seven with two zero bytes behind them.\<close>

definition ppmd_encoding :: "ppmd_properties \<Rightarrow> byte_slice" where
  "ppmd_encoding p = ppmd_order p # to_le_bytes 4 (unat (ppmd_memory_size p))"

definition ppmd_valid :: "ppmd_properties \<Rightarrow> bool" where
  "ppmd_valid p \<longleftrightarrow> 2 \<le> ppmd_order p \<and> ppmd_order p \<le> 64 \<and> 2048 \<le> ppmd_memory_size p"

lemma parse_ppmd_properties_canonical:
  "parse_ppmd_properties [b0, b1, b2, b3, b4] s =
     (let p = \<lparr>ppmd_order = b0, ppmd_memory_size = from_le_bytes [b1, b2, b3, b4]\<rparr> in
      if \<not> (2 \<le> b0 \<and> b0 \<le> 64) then (Inl (format_error ''PPMd order is outside 2 through 64''), s)
      else if ppmd_memory_size p < 2048 then
        (Inl (format_error ''PPMd memory size is below the format minimum''), s)
      else (Inr p, s))"
  by (simp add: parse_ppmd_properties_def ppmd_constants run slice_get_def item_get_def le_array_def
      Let_def)

lemma parse_ppmd_properties_extended:
  "parse_ppmd_properties [b0, b1, b2, b3, b4, b5, b6] s =
     (if b5 \<noteq> 0 \<or> b6 \<noteq> 0 then
        (Inl (format_error ''PPMd reserved properties must be zero''), s)
      else parse_ppmd_properties [b0, b1, b2, b3, b4] s)"
  by (simp add: parse_ppmd_properties_def ppmd_constants run slice_get_def item_get_def le_array_def)

lemma parse_ppmd_properties_length:
  "length bs \<noteq> 5 \<Longrightarrow> length bs \<noteq> 7 \<Longrightarrow> \<exists>d. parse_ppmd_properties bs s = (Inl (format_error d), s)"
  by (auto simp: parse_ppmd_properties_def ppmd_constants run)

lemma ppmd_encoding_eq:
  "length r = 4 \<Longrightarrow> b # r = ppmd_encoding p \<longleftrightarrow>
     ppmd_order p = b \<and> ppmd_memory_size p = from_le_bytes r"
  by (auto simp: ppmd_encoding_def to_le_bytes_from_le_bytes_u32)

lemma length_ppmd_encoding [simp]: "length (ppmd_encoding p) = 5"
  by (simp add: ppmd_encoding_def)

lemma ppmd_canonical_success:
  assumes "length bs = 5"
  shows "parse_ppmd_properties bs s = (Inr p, t) \<longleftrightarrow> t = s \<and> ppmd_valid p \<and> bs = ppmd_encoding p"
proof -
  from assms obtain b0 b1 b2 b3 b4 where bs: "bs = [b0, b1, b2, b3, b4]"
    by (auto simp: length_Suc_conv eval_nat_numeral)
  show ?thesis
    unfolding bs ppmd_encoding_eq [of "[b1, b2, b3, b4]", simplified]
    by (cases p) (auto simp: parse_ppmd_properties_canonical Let_def ppmd_valid_def not_less)
qed

lemma ppmd_extended_success:
  assumes "length bs = 7"
  shows "parse_ppmd_properties bs s = (Inr p, t) \<longleftrightarrow>
    t = s \<and> ppmd_valid p \<and> bs = ppmd_encoding p @ [0, 0]"
proof -
  from assms obtain b0 b1 b2 b3 b4 b5 b6 where bs: "bs = [b0, b1, b2, b3, b4] @ [b5, b6]"
    by (auto simp: length_Suc_conv eval_nat_numeral)
  have "bs = ppmd_encoding p @ [0, 0] \<longleftrightarrow> [b0, b1, b2, b3, b4] = ppmd_encoding p \<and> b5 = 0 \<and> b6 = 0"
    unfolding bs by (subst append_eq_append_conv) auto
  then show ?thesis
    using ppmd_canonical_success [of "[b0, b1, b2, b3, b4]" s p t]
    by (auto simp: bs parse_ppmd_properties_extended)
qed

text \<open>C35: A PPMd property record is accepted exactly when it is the five-byte encoding of a valid
  order (2 to 64) and memory size (at least 2048), or that encoding followed by two zero bytes.\<close>

theorem ppmd_properties_characterised:
  "parse_ppmd_properties bs s = (Inr p, t) \<longleftrightarrow>
     t = s \<and> ppmd_valid p \<and> (bs = ppmd_encoding p \<or> bs = ppmd_encoding p @ [0, 0])"
proof -
  consider "length bs = 5" | "length bs = 7" | "length bs \<noteq> 5" "length bs \<noteq> 7" by blast
  then show ?thesis
  proof cases
    case 1
    then show ?thesis by (auto simp: ppmd_canonical_success)
  next
    case 2
    then show ?thesis by (auto simp: ppmd_extended_success)
  next
    case 3
    then show ?thesis using parse_ppmd_properties_length [OF 3, of s] by auto
  qed
qed

end
