(* ===== verification/Validation.thy ===== *)
theory Validation
  imports Graph Coder_Properties
begin

text \<open>
  \<^verbatim>\<open>validate.rs\<close>: from the syntax records of \<^verbatim>\<open>raw.rs\<close> to the validated archive model.  \<open>&mut\<close>
  vectors and cursors are passed in and returned; a local reader is \<open>with_reader\<close>.
\<close>

definition FIXED_HEADER_SIZE :: u64 where "FIXED_HEADER_SIZE = 32"
definition UNKNOWN_SIZE :: u64 where "UNKNOWN_SIZE = - 1"
definition METHOD_LZMA :: byte_slice where "METHOD_LZMA = [0x03, 0x01, 0x01]"
definition METHOD_LZMA2 :: byte_slice where "METHOD_LZMA2 = [0x21]"
definition METHOD_PPMD :: byte_slice where "METHOD_PPMD = [0x03, 0x04, 0x01]"
definition METHOD_DEFLATE64 :: byte_slice where "METHOD_DEFLATE64 = [0x04, 0x01, 0x09]"
definition METHOD_AES :: byte_slice where "METHOD_AES = [0x06, 0xf1, 0x07, 0x01]"
definition DEFLATE64_DICTIONARY_BYTES :: u64 where "DEFLATE64_DICTIONARY_BYTES = 64 * 1024"

lemmas method_constants =
  METHOD_LZMA_def METHOD_LZMA2_def METHOD_PPMD_def METHOD_DEFLATE64_def METHOD_AES_def
  DEFLATE64_DICTIONARY_BYTES_def

record folder_draft =
  draft_coders :: "coder list"
  draft_bind_pairs :: "bind_pair list"
  draft_packed_inputs :: "u64 list"
  draft_unpack_sizes :: "u64 option list"
  draft_root_output :: u64
  draft_root_size :: "u64 option"
  draft_order :: "u64 list"
  draft_crc :: "u32 option"
  draft_dictionary_bytes :: u64
  draft_first_pack_stream :: u64

datatype 'a property_values =
  InlineValues "'a option list"
| ExternalValues u64 "bool list"

type_synonym ranges = "(u64 \<times> u64) list"


section \<open>Helpers\<close>

definition push_repeated :: "u64 \<Rightarrow> 'a \<Rightarrow> string \<Rightarrow> 'a list op" where
  "push_repeated count v detail =
     and_then (u64_to_usize count detail) (\<lambda>n.
     and_then (try_reserve n) (\<lambda>_.
     ok (replicate n v)))"

definition value_at :: "'a list option \<Rightarrow> nat \<Rightarrow> string \<Rightarrow> ('s, 'a option) comp" where
  "value_at values index detail =
     (case values of
        Some items \<Rightarrow> and_then (ok_or (format_error detail) (item_get items index)) (\<lambda>v. ok (Some v))
      | None \<Rightarrow> ok None)"

text \<open>\<open>Option::flatten\<close>\<close>

definition flatten :: "'a option option \<Rightarrow> 'a option" where
  "flatten v = (case v of Some w \<Rightarrow> w | None \<Rightarrow> None)"

definition optional_size :: "u64 \<Rightarrow> u64 option" where
  "optional_size v = (if v \<noteq> UNKNOWN_SIZE then Some v else None)"

definition copy_properties :: "raw_property list \<Rightarrow> stored_property list op" where
  "copy_properties properties =
     and_then (usize_to_u64 (length properties) ''property count is not representable as u64'')
       (\<lambda>count.
     and_then (checkpoint count) (\<lambda>_.
     and_then (try_reserve (length properties)) (\<lambda>_.
     for_push properties (\<lambda>property.
       and_then (copy_bytes (property_data property)) (\<lambda>data.
       ok \<lparr>stored_id = property_id property, stored_data = data\<rparr>)))))"

definition read_u64 :: "u64 op" where
  "read_u64 = and_then (checkpoint 8) (\<lambda>_. reader_read_u64_le)"

text \<open>
  \<open>parse_bits\<close> of this module: it fills a prepared vector, so it reserves through \<open>push_repeated\<close>
  but reads like its namesake in \<^verbatim>\<open>raw.rs\<close>.
\<close>

definition property_bits :: "u64 \<Rightarrow> bool list op" where
  "property_bits count =
     and_then (checkpoint count) (\<lambda>_.
     and_then (push_repeated count False ''bit-vector count is not representable on this platform'')
       (\<lambda>values.
     parse_bits_loop (length values) 0 0))"

definition parse_optional_bits :: "u64 \<Rightarrow> bool list op" where
  "parse_optional_bits count =
     and_then read_u8 (\<lambda>all_defined.
     if all_defined = 0 then property_bits count
     else push_repeated count True ''definition count is not representable on this platform'')"

definition parse_defined_values ::
    "byte_slice \<Rightarrow> u64 \<Rightarrow> 'a op \<Rightarrow> 'a property_values op" where
  "parse_defined_values data count read_value =
     with_reader data
       (and_then (parse_optional_bits count) (\<lambda>defined.
        and_then read_u8 (\<lambda>external.
        if external \<noteq> 0 then
          and_then read_uint (\<lambda>data_index.
          and_then (finish ''external property was not consumed exactly'') (\<lambda>_.
          ok (ExternalValues data_index defined)))
        else
          and_then (try_reserve (length defined)) (\<lambda>_.
          and_then (for_push defined (\<lambda>is_defined.
            and_then (checkpoint 1) (\<lambda>_.
            if is_defined then and_then read_value (\<lambda>v. ok (Some v)) else ok None))) (\<lambda>values.
          and_then (finish ''inline property was not consumed exactly'') (\<lambda>_.
          ok (InlineValues values)))))))"

definition parse_plain_bits :: "raw_property \<Rightarrow> u64 \<Rightarrow> bool list op" where
  "parse_plain_bits property count =
     with_reader (property_data property)
       (and_then (property_bits count) (\<lambda>bits.
        and_then (finish ''bit-vector property was not consumed exactly'') (\<lambda>_.
        ok bits)))"

definition validate_data_index :: "u64 \<Rightarrow> u64 \<Rightarrow> ('s, unit) comp" where
  "validate_data_index data_index additional_count =
     (if data_index < additional_count then ok ()
      else err (format_error ''external property data index is outside additional streams''))"

definition little_endian_u32 :: "byte_slice \<Rightarrow> string \<Rightarrow> ('s, u32) comp" where
  "little_endian_u32 bytes detail = ok_or (format_error detail) (le_array 4 bytes)"


section \<open>Coder properties\<close>

definition lzma_dictionary :: "byte_slice \<Rightarrow> u64 option op" where
  "lzma_dictionary properties =
     and_then (ok_or (format_error ''LZMA properties must contain exactly five bytes'')
                (if length properties = 5 then Some properties else None)) (\<lambda>bytes.
     and_then (ok_or (format_error ''LZMA properties are missing the parameter byte'')
                (item_get bytes 0)) (\<lambda>first.
     let parameter = ucast first :: u64;
         lc = parameter mod 9;
         rest = parameter div 9;
         lp = rest mod 5;
         pb = rest div 5
     in
     and_then (err_if (4 < pb \<or> (case checked_add lc lp of None \<Rightarrow> True | Some bits \<Rightarrow> 4 < bits))
                (format_error ''invalid LZMA lc/lp/pb properties'')) (\<lambda>_.
     and_then (ok_or (format_error ''LZMA dictionary property is truncated'') (slice_get bytes 1 5))
       (\<lambda>tail.
     and_then (little_endian_u32 tail ''LZMA dictionary property is truncated'') (\<lambda>dictionary.
     ok (Some (ucast dictionary)))))))"

definition lzma2_dictionary :: "byte_slice \<Rightarrow> u64 option op" where
  "lzma2_dictionary properties =
     and_then (ok_or (format_error ''LZMA2 properties must contain exactly one byte'')
                (if length properties = 1 then Some properties else None)) (\<lambda>bytes.
     and_then (ok_or (format_error ''LZMA2 properties are missing the dictionary byte'')
                (item_get bytes 0)) (\<lambda>first.
     let property = ucast first :: u32 in
     and_then (err_if (40 < property) (format_error ''invalid LZMA2 dictionary property'')) (\<lambda>_.
     and_then (ok_or (format_error ''LZMA2 dictionary shift overflows'')
                (checked_add (property div 2) 11)) (\<lambda>shift.
     let base = ucast (2 OR (property AND 1) :: u32) :: u64 in
     and_then (ok_or (format_error ''LZMA2 dictionary size overflows'')
                (checked_shl base (unat shift))) (\<lambda>size.
     ok (Some size))))))"

definition validate_aes_properties :: "byte_slice \<Rightarrow> limits \<Rightarrow> unit op" where
  "validate_aes_properties properties lim =
     and_then
       (with_reader properties
         (and_then reader_read_u8 (\<lambda>first.
          and_then reader_read_u8 (\<lambda>second.
          and_then (ok_or (format_error ''AES salt size overflows'')
            (checked_add (ucast (drop_bit 7 first AND 1) :: u64) (ucast (drop_bit 4 second))))
            (\<lambda>salt_size.
          and_then (ok_or (format_error ''AES IV size overflows'')
            (checked_add (ucast (drop_bit 6 first AND 1) :: u64) (ucast (second AND 0x0f))))
            (\<lambda>iv_size.
          and_then (ok_or (format_error ''AES property size overflows'')
                     (checked_add salt_size iv_size)) (\<lambda>variable_size.
          and_then (reader_read_bytes variable_size) (\<lambda>_.
          and_then (finish ''AES properties were not consumed exactly'') (\<lambda>_.
          ok (first AND 0x3f))))))))))
       (\<lambda>kdf_power.
     err_if (kdf_power \<noteq> 0x3f \<and> max_kdf_power lim < kdf_power)
       (LimitExceeded KdfPower (ucast kdf_power) (ucast (max_kdf_power lim))))"

definition validate_coder_properties :: "byte_slice \<Rightarrow> byte_slice \<Rightarrow> limits \<Rightarrow> u64 option op" where
  "validate_coder_properties method properties lim =
     and_then
       (if method = METHOD_LZMA then lzma_dictionary properties
        else if method = METHOD_LZMA2 then lzma2_dictionary properties
        else if method = METHOD_PPMD then
          and_then (parse_ppmd_properties properties) (\<lambda>p. ok (Some (ucast (ppmd_memory_size p))))
        else if method = METHOD_DEFLATE64 then
          and_then (err_if (properties \<noteq> []) (format_error ''Deflate64 properties must be empty''))
            (\<lambda>_. ok (Some DEFLATE64_DICTIONARY_BYTES))
        else ok None) (\<lambda>dictionary.
     and_then (if method = METHOD_AES then validate_aes_properties properties lim else ok ()) (\<lambda>_.
     and_then
       (case dictionary of
          Some bytes \<Rightarrow> check_limit bytes (max_dictionary_bytes lim) DictionaryBytes
        | None \<Rightarrow> ok ()) (\<lambda>_.
     ok dictionary)))"


section \<open>Folders\<close>

record coder_progress =
  prog_coders :: "coder list"
  prog_input_start :: u64
  prog_output_start :: u64
  prog_dictionary_bytes :: u64

definition validate_coder :: "limits \<Rightarrow> coder_progress \<Rightarrow> raw_coder \<Rightarrow> coder_progress op" where
  "validate_coder lim p raw_coder =
     and_then (checkpoint 1) (\<lambda>_.
     and_then (validate_coder_properties (raw_method_id raw_coder) (raw_coder_properties raw_coder) lim)
       (\<lambda>dictionary.
     and_then
       (case dictionary of
          Some bytes \<Rightarrow>
            and_then (ok_or (format_error ''folder dictionary accounting overflows'')
                       (checked_add (prog_dictionary_bytes p) bytes)) (\<lambda>total.
            and_then (check_limit total (max_dictionary_bytes lim) DictionaryBytes) (\<lambda>_.
            ok total))
        | None \<Rightarrow> ok (prog_dictionary_bytes p)) (\<lambda>dictionary_bytes.
     and_then (copy_bytes (raw_method_id raw_coder)) (\<lambda>method.
     and_then (copy_bytes (raw_coder_properties raw_coder)) (\<lambda>properties.
     let coder = \<lparr>method_id = method, input_start = prog_input_start p,
                  input_count = raw_coder_inputs raw_coder, output_start = prog_output_start p,
                  output_count = raw_coder_outputs raw_coder, coder_properties = properties,
                  coder_dictionary_bytes = dictionary\<rparr> in
     and_then (ok_or (format_error ''coder input range overflows'')
                (checked_add (prog_input_start p) (raw_coder_inputs raw_coder))) (\<lambda>next_input.
     and_then (ok_or (format_error ''coder output range overflows'')
                (checked_add (prog_output_start p) (raw_coder_outputs raw_coder))) (\<lambda>next_output.
     ok \<lparr>prog_coders = prog_coders p @ [coder], prog_input_start = next_input,
         prog_output_start = next_output, prog_dictionary_bytes = dictionary_bytes\<rparr>)))))))"

definition validate_folder ::
    "raw_folder \<Rightarrow> u32 option \<Rightarrow> u64 \<Rightarrow> limits \<Rightarrow> folder_draft op" where
  "validate_folder raw crc first_pack lim =
     and_then (usize_to_u64 (length (raw_coders raw)) ''coder count is not representable as u64'')
       (\<lambda>coder_count.
     and_then (checkpoint coder_count) (\<lambda>_.
     and_then (u64_to_usize (raw_output_streams raw)
                ''folder output count is not representable on this platform'') (\<lambda>outputs.
     and_then (try_reserve (length (raw_coders raw))) (\<lambda>_.
     and_then (for_fold (raw_coders raw)
                \<lparr>prog_coders = [], prog_input_start = 0, prog_output_start = 0,
                 prog_dictionary_bytes = 0\<rparr> (validate_coder lim)) (\<lambda>p.
     and_then (err_if (prog_input_start p \<noteq> raw_input_streams raw \<or>
                       prog_output_start p \<noteq> raw_output_streams raw)
                (format_error ''folder stream-port totals are inconsistent'')) (\<lambda>_.
     and_then (validate_folder_graph raw) (\<lambda>graph.
     and_then (err_if (length (raw_unpack_sizes raw) \<noteq> outputs)
                (format_error ''folder unpack-size count is inconsistent'')) (\<lambda>_.
     and_then (try_reserve (length (raw_unpack_sizes raw))) (\<lambda>_.
     let sizes = map optional_size (raw_unpack_sizes raw) in
     and_then (u64_to_usize (graph_root_output graph)
                ''root output index is not representable on this platform'') (\<lambda>root_index.
     and_then (ok_or (format_error ''root output size is missing'') (item_get sizes root_index))
       (\<lambda>root_size.
     ok \<lparr>draft_coders = prog_coders p, draft_bind_pairs = graph_bind_pairs graph,
         draft_packed_inputs = graph_packed_inputs graph, draft_unpack_sizes = sizes,
         draft_root_output = graph_root_output graph, draft_root_size = root_size,
         draft_order = graph_order graph, draft_crc = crc,
         draft_dictionary_bytes = prog_dictionary_bytes p,
         draft_first_pack_stream = first_pack\<rparr>)))))))))))"


section \<open>Substreams and packed ranges\<close>

text \<open>The loop over all but the last substream: sizes, cursor, running total, all known.\<close>

definition explicit_substream ::
    "u64 list option \<Rightarrow> u64 option list \<times> nat \<times> u64 \<times> bool \<Rightarrow> unit \<Rightarrow>
     (u64 option list \<times> nat \<times> u64 \<times> bool) op" where
  "explicit_substream explicit_sizes acc item = (case acc of (sizes, size_cursor, sum_known, known) \<Rightarrow>
     and_then (checkpoint 1) (\<lambda>_.
     case explicit_sizes of
       None \<Rightarrow> ok (sizes @ [None], size_cursor, sum_known, known)
     | Some values \<Rightarrow>
         and_then (ok_or (format_error ''explicit substream-size vector is too short'')
                    (item_get values size_cursor)) (\<lambda>v.
         and_then (usize_add size_cursor 1 ''substream-size index overflows'') (\<lambda>size_cursor'.
         case optional_size v of
           Some known_size \<Rightarrow>
             and_then (ok_or (format_error ''substream-size sum overflows'')
                        (checked_add sum_known known_size)) (\<lambda>sum_known'.
             ok (sizes @ [Some known_size], size_cursor', sum_known', known))
         | None \<Rightarrow> ok (sizes @ [None], size_cursor', sum_known, False)))))"

definition substream_sizes ::
    "u64 option \<Rightarrow> u64 \<Rightarrow> u64 list option \<Rightarrow> nat \<Rightarrow> (u64 option list \<times> nat) op" where
  "substream_sizes root_size count explicit_sizes size_cursor =
     (if count = 1 then ok ([root_size], size_cursor)
      else if 1 < count then
        and_then (for_fold (replicate (unat count - 1) ()) ([], size_cursor, 0, True)
                   (explicit_substream explicit_sizes)) (\<lambda>(sizes, size_cursor', sum_known, known).
        and_then
          (case (root_size, explicit_sizes) of
             (Some folder_size, Some _) \<Rightarrow>
               if known then
                 and_then (ok_or (format_error ''substream sizes exceed folder size'')
                            (checked_sub folder_size sum_known)) (\<lambda>v. ok (Some v))
               else ok None
           | _ \<Rightarrow> ok None) (\<lambda>final_size.
        ok (sizes @ [final_size], size_cursor')))
      else ok ([], size_cursor))"

definition substream_step ::
    "u32 option \<Rightarrow> bool \<Rightarrow> u32 option list option \<Rightarrow> substream list \<times> nat \<Rightarrow> u64 option \<Rightarrow>
     (substream list \<times> nat) op" where
  "substream_step crc inherit explicit_crcs acc sz = (case acc of (streams, crc_cursor) \<Rightarrow>
     and_then (checkpoint 1) (\<lambda>_.
     and_then
       (if inherit then ok (crc, crc_cursor)
        else
          case explicit_crcs of
            Some values \<Rightarrow>
              and_then (ok_or (format_error ''substream CRC vector is too short'')
                         (item_get values crc_cursor)) (\<lambda>v.
              and_then (usize_add crc_cursor 1 ''substream CRC index overflows'') (\<lambda>crc_cursor'.
              ok (v, crc_cursor')))
          | None \<Rightarrow> ok (None, crc_cursor)) (\<lambda>(v, crc_cursor').
     ok (streams @ [\<lparr>substream_size = sz, substream_crc = v\<rparr>], crc_cursor'))))"

definition build_substreams ::
    "folder_draft \<Rightarrow> u64 \<Rightarrow> u64 list option \<Rightarrow> nat \<Rightarrow> u32 option list option \<Rightarrow> nat \<Rightarrow>
     (substream list \<times> nat \<times> nat) op" where
  "build_substreams draft count explicit_sizes size_cursor explicit_crcs crc_cursor =
     and_then (checkpoint count) (\<lambda>_.
     and_then (u64_to_usize count ''folder substream count is not representable on this platform'')
       (\<lambda>capacity.
     and_then (try_reserve capacity) (\<lambda>_.
     and_then (substream_sizes (draft_root_size draft) count explicit_sizes size_cursor)
       (\<lambda>(sizes, size_cursor').
     let inherit_folder_crc = (count = 1 \<and> draft_crc draft \<noteq> None) in
     and_then (try_reserve capacity) (\<lambda>_.
     and_then (for_fold sizes ([], crc_cursor)
                (substream_step (draft_crc draft) inherit_folder_crc explicit_crcs))
       (\<lambda>(streams, crc_cursor').
     ok (streams, size_cursor', crc_cursor')))))))"

text \<open>One packed stream: the running offset is the end of the streams before it.\<close>

definition pack_range ::
    "header_envelope \<Rightarrow> byte_slice \<Rightarrow> u32 option list option \<Rightarrow> pack_stream list \<times> u64 \<Rightarrow> nat \<times> u64 \<Rightarrow>
     (pack_stream list \<times> u64) op" where
  "pack_range env archive_bytes crcs acc item = (case (acc, item) of ((streams, offset), (index, sz)) \<Rightarrow>
     and_then (checkpoint 1) (\<lambda>_.
     and_then (err_if (sz = UNKNOWN_SIZE) (UnsupportedFeature ''unknown-packed-stream-size'')) (\<lambda>_.
     and_then (ok_or (format_error ''packed-stream range overflows'') (checked_add offset sz))
       (\<lambda>range_end.
     and_then (err_if (next_header_offset env < range_end)
                (format_error ''packed stream overlaps the stored next header'')) (\<lambda>_.
     and_then (checked_range archive_bytes offset sz ''packed-stream range overflows''
                ''packed-stream range is outside the supplied archive'') (\<lambda>_.
     and_then (value_at crcs index ''packed-stream CRC count is inconsistent'') (\<lambda>crc.
     ok (streams @ [\<lparr>stream_offset = offset, stream_size = Some sz,
                      stream_crc = flatten crc\<rparr>], range_end))))))))"

definition validate_pack_ranges ::
    "raw_pack_info option \<Rightarrow> header_envelope \<Rightarrow> byte_slice \<Rightarrow> ranges \<Rightarrow>
     ((u64 \<times> pack_stream list) \<times> ranges) op" where
  "validate_pack_ranges pack_info env archive_bytes ranges =
     (case pack_info of
        None \<Rightarrow> ok ((0, []), ranges)
      | Some pack \<Rightarrow>
          and_then (ok_or (format_error ''PackInfo is missing packed-stream sizes'')
                     (pack_sizes pack)) (\<lambda>sizes.
          and_then (u64_to_usize (pack_streams pack)
                     ''packed-stream count is not representable on this platform'') (\<lambda>stream_count.
          and_then (checkpoint (pack_streams pack)) (\<lambda>_.
          and_then (err_if (length sizes \<noteq> stream_count)
                     (format_error ''packed-stream size count is inconsistent'')) (\<lambda>_.
          and_then (err_if (case pack_crcs pack of
                              Some crcs \<Rightarrow> length crcs \<noteq> stream_count | None \<Rightarrow> False)
                     (format_error ''packed-stream CRC count is inconsistent'')) (\<lambda>_.
          and_then (ok_or (format_error ''signature-header end overflows'')
                     (checked_add (signature_offset env) FIXED_HEADER_SIZE)) (\<lambda>fixed_end.
          and_then (ok_or (format_error ''packed-data position overflows'')
                     (checked_add fixed_end (pack_position pack))) (\<lambda>section_start.
          and_then (try_reserve stream_count) (\<lambda>_.
          and_then (for_fold (enumerate 0 sizes) ([], section_start)
                     (pack_range env archive_bytes (pack_crcs pack))) (\<lambda>(streams, offset).
          and_then (if section_start < offset
                    then and_then (try_reserve 1) (\<lambda>_. ok (ranges @ [(section_start, offset)]))
                    else ok ranges) (\<lambda>ranges'.
          ok ((pack_position pack, streams), ranges'))))))))))))"


section \<open>Streams\<close>

definition draft_folder ::
    "u32 option list option \<Rightarrow> limits \<Rightarrow> folder_draft list \<times> u64 \<Rightarrow> nat \<times> raw_folder \<Rightarrow>
     (folder_draft list \<times> u64) op" where
  "draft_folder crcs lim acc item = (case (acc, item) of ((drafts, assigned), (index, raw)) \<Rightarrow>
     and_then (value_at crcs index ''folder CRC count is inconsistent'') (\<lambda>crc.
     and_then (validate_folder raw (flatten crc) assigned lim) (\<lambda>draft.
     and_then (ok_or (format_error ''assigned packed-stream count overflows'')
                (checked_add assigned (raw_packed_streams raw))) (\<lambda>assigned'.
     ok (drafts @ [draft], assigned')))))"

record substream_progress =
  progress_folders :: "folder list"
  progress_sizes :: nat
  progress_crcs :: nat
  progress_total :: u64

definition complete_folder ::
    "u64 list \<Rightarrow> u64 list option \<Rightarrow> u32 option list option \<Rightarrow> limits \<Rightarrow> substream_progress \<Rightarrow>
     nat \<times> folder_draft \<Rightarrow> substream_progress op" where
  "complete_folder counts explicit_sizes explicit_crcs lim p item = (case item of (index, draft) \<Rightarrow>
     and_then
       (if counts = [] then ok 1
        else ok_or (format_error ''substream count vector is too short'') (item_get counts index))
       (\<lambda>count.
     and_then (ok_or (format_error ''total substream count overflows'')
                (checked_add (progress_total p) count)) (\<lambda>total.
     and_then (check_limit total (max_substreams lim) Substreams) (\<lambda>_.
     and_then (build_substreams draft count explicit_sizes (progress_sizes p) explicit_crcs
                (progress_crcs p)) (\<lambda>(streams, size_cursor, crc_cursor).
     ok \<lparr>progress_folders = progress_folders p @
           [\<lparr>coders = draft_coders draft, bind_pairs = draft_bind_pairs draft,
             packed_input_indices = draft_packed_inputs draft,
             unpack_sizes = draft_unpack_sizes draft,
             root_output_index = draft_root_output draft,
             topological_coder_order = draft_order draft, folder_crc = draft_crc draft,
             substreams = streams, folder_dictionary_bytes = draft_dictionary_bytes draft,
             first_pack_stream = draft_first_pack_stream draft\<rparr>],
         progress_sizes = size_cursor, progress_crcs = crc_cursor,
         progress_total = total\<rparr>)))))"

definition draft_folders :: "raw_unpack_info \<Rightarrow> nat \<Rightarrow> limits \<Rightarrow> folder_draft list op" where
  "draft_folders unpack pack_stream_count lim =
     and_then (err_if (case unpack_crcs unpack of
                         Some crcs \<Rightarrow> length crcs \<noteq> length (unpack_folders unpack)
                       | None \<Rightarrow> False)
                (format_error ''folder CRC count is inconsistent'')) (\<lambda>_.
     and_then (usize_to_u64 pack_stream_count ''packed-stream count is not representable as u64'')
       (\<lambda>pack_count.
     and_then (usize_to_u64 (length (unpack_folders unpack)) ''folder count is not representable as u64'')
       (\<lambda>folder_count.
     and_then (checkpoint folder_count) (\<lambda>_.
     and_then (try_reserve (length (unpack_folders unpack))) (\<lambda>_.
     and_then (for_fold (enumerate 0 (unpack_folders unpack)) ([], 0)
                (draft_folder (unpack_crcs unpack) lim)) (\<lambda>(drafts, assigned).
     and_then (err_if (assigned \<noteq> pack_count)
                (format_error ''folder packed-stream total does not match PackInfo'')) (\<lambda>_.
     ok drafts)))))))"

definition complete_folders ::
    "raw_substreams_info option \<Rightarrow> folder_draft list \<Rightarrow> limits \<Rightarrow> (folder list \<times> u64) op" where
  "complete_folders sub drafts lim =
     (let counts = (case sub of Some ss \<Rightarrow> sub_counts ss | None \<Rightarrow> []);
          explicit_sizes = (case sub of Some ss \<Rightarrow> sub_explicit_sizes ss | None \<Rightarrow> None);
          explicit_crcs = (case sub of Some ss \<Rightarrow> sub_crcs ss | None \<Rightarrow> None)
      in
      and_then (err_if (counts \<noteq> [] \<and> length counts \<noteq> length drafts)
                 (format_error ''substream folder-count vector is inconsistent'')) (\<lambda>_.
      and_then (try_reserve (length drafts)) (\<lambda>_.
      and_then (for_fold (enumerate 0 drafts)
                 \<lparr>progress_folders = [], progress_sizes = 0, progress_crcs = 0, progress_total = 0\<rparr>
                 (complete_folder counts explicit_sizes explicit_crcs lim)) (\<lambda>p.
      and_then (err_if (case explicit_sizes of
                          Some sizes \<Rightarrow> progress_sizes p \<noteq> length sizes | None \<Rightarrow> False)
                 (format_error ''substream-size vector has unused values'')) (\<lambda>_.
      and_then (err_if (case explicit_crcs of
                          Some crcs \<Rightarrow> progress_crcs p \<noteq> length crcs | None \<Rightarrow> False)
                 (format_error ''substream CRC vector has unused values'')) (\<lambda>_.
      ok (progress_folders p, progress_total p)))))))"

definition validate_streams ::
    "raw_streams_info \<Rightarrow> header_envelope \<Rightarrow> byte_slice \<Rightarrow> limits \<Rightarrow> ranges \<Rightarrow>
     (streams_info \<times> ranges) op" where
  "validate_streams raw env archive_bytes lim ranges =
     and_then (err_if ((streams_pack raw \<noteq> None) \<noteq> (streams_unpack raw \<noteq> None))
                (format_error ''PackInfo and UnpackInfo must appear together'')) (\<lambda>_.
     if streams_pack raw = None then
       and_then (err_if (streams_substreams raw \<noteq> None)
                  (format_error ''SubStreamsInfo has no streams'')) (\<lambda>_.
       ok (\<lparr>info_pack_position = 0, info_pack_streams = [], info_folders = [],
            substream_count = 0\<rparr>, ranges))
     else
       and_then (validate_pack_ranges (streams_pack raw) env archive_bytes ranges)
         (\<lambda>((position, streams), ranges').
       and_then (ok_or (format_error ''StreamsInfo is missing UnpackInfo'') (streams_unpack raw))
         (\<lambda>unpack.
       and_then (draft_folders unpack (length streams) lim) (\<lambda>drafts.
       and_then (complete_folders (streams_substreams raw) drafts lim) (\<lambda>(folders, total).
       ok (\<lparr>info_pack_position = position, info_pack_streams = streams,
            info_folders = folders, substream_count = total\<rparr>, ranges'))))))"

text \<open>
  \<open>sort_unstable_by_key\<close> leaves the order of equal keys open.  The model uses the stable order;
  the outcome of the check does not depend on it (\<open>overlap_check_order_independent\<close> below).
\<close>

definition check_sorted_ranges :: "ranges \<Rightarrow> ('s, unit) comp" where
  "check_sorted_ranges ranges =
     and_then (for_fold ranges None (\<lambda>previous_end (start, range_end).
       and_then (err_if (case previous_end of Some v \<Rightarrow> start < v | None \<Rightarrow> False)
                  (format_error ''packed-stream ranges overlap'')) (\<lambda>_.
       ok (Some range_end)))) (\<lambda>_. ok ())"

definition check_non_overlapping_ranges :: "ranges \<Rightarrow> ('s, unit) comp" where
  "check_non_overlapping_ranges ranges = check_sorted_ranges (sort_key fst ranges)"


section \<open>File records\<close>

definition collect_stream_mappings :: "streams_info option \<Rightarrow> file_stream list op" where
  "collect_stream_mappings streams =
     (let count = (case streams of Some info \<Rightarrow> substream_count info | None \<Rightarrow> 0) in
      and_then (checkpoint count) (\<lambda>_.
      and_then (u64_to_usize count ''member-stream count is not representable on this platform'')
        (\<lambda>capacity.
      and_then (try_reserve capacity) (\<lambda>_.
      and_then
        (case streams of
           None \<Rightarrow> ok []
         | Some info \<Rightarrow>
             for_fold (enumerate 0 (info_folders info)) [] (\<lambda>mappings (f, folder).
               and_then (usize_to_u64 f ''folder index is not representable as u64'') (\<lambda>fi.
               for_fold (enumerate 0 (substreams folder)) mappings (\<lambda>mappings (i, stream).
                 and_then (checkpoint 1) (\<lambda>_.
                 and_then (usize_to_u64 i ''substream index is not representable as u64'') (\<lambda>si.
                 ok (mappings @ [\<lparr>folder_index = fi, substream_index = si,
                                   member_size = substream_size stream,
                                   member_crc = substream_crc stream\<rparr>])))))))
        (\<lambda>mappings.
      and_then (err_if (length mappings \<noteq> capacity)
                 (format_error ''member-stream count is inconsistent'')) (\<lambda>_.
      ok mappings))))))"

definition known_property_slot ::
    "raw_property option \<Rightarrow> raw_property \<Rightarrow> ('s, raw_property option) comp" where
  "known_property_slot slot property =
     (if slot \<noteq> None then err (format_error ''FilesInfo property is duplicated'')
      else ok (Some property))"

text \<open>The first pass of \<open>parse_names\<close>: \<open>while names_seen < count\<close>.\<close>

definition scan_unit :: "limits \<Rightarrow> u64 \<times> u64 \<times> u64 \<Rightarrow> (u64 \<times> u64 \<times> u64) op" where
  "scan_unit lim acc = (case acc of (names_seen, current_bytes, total_bytes) \<Rightarrow>
     and_then (reader_read_bytes 2) (\<lambda>pair.
     and_then (checkpoint 2) (\<lambda>_.
     and_then (ok_or (format_error ''UTF-16 name code unit is truncated'') (le_array 2 pair))
       (\<lambda>code_unit.
     if (code_unit :: u16) = 0 then
       and_then (check_limit current_bytes (max_name_bytes_per_entry lim) NameBytesPerEntry) (\<lambda>_.
       and_then (ok_or (format_error ''total name bytes overflow'')
                  (checked_add total_bytes current_bytes)) (\<lambda>total'.
       and_then (check_limit total' (max_total_name_bytes lim) TotalNameBytes) (\<lambda>_.
       and_then (ok_or (format_error ''name count overflows'') (checked_add names_seen 1)) (\<lambda>seen'.
       ok (seen', 0, total')))))
     else
       and_then (ok_or (format_error ''name byte count overflows'') (checked_add current_bytes 2))
         (\<lambda>current'.
       and_then (check_limit current' (max_name_bytes_per_entry lim) NameBytesPerEntry) (\<lambda>_.
       ok (names_seen, current', total_bytes)))))))"

lemma check_limit_state: "check_limit v m l s = (Inr x, t) \<Longrightarrow> t = s"
  by (simp add: check_limit_success)

lemma scan_unit_moves:
  "scan_unit lim acc s = (Inr acc', t) \<Longrightarrow>
     rd_bytes (reader t) = rd_bytes (reader s) \<and>
     rd_position (reader t) = rd_position (reader s) + 2 \<and>
     rd_position (reader s) + 2 \<le> length (rd_bytes (reader s))"
  by (cases acc) (auto simp: scan_unit_def success split: if_splits)

function scan_names :: "limits \<Rightarrow> u64 \<Rightarrow> u64 \<times> u64 \<times> u64 \<Rightarrow> unit op" where
  "scan_names lim count acc s =
     (if fst acc < count then and_then (scan_unit lim acc) (\<lambda>acc' s. scan_names lim count acc' s) s
      else ok () s)"
  by pat_completeness auto
termination
  by (relation "measure (\<lambda>(lim, count, acc, s).
        length (rd_bytes (reader s)) - rd_position (reader s))")
    (auto dest!: scan_unit_moves)

declare scan_names.simps [simp del]

text \<open>The second pass: \<open>loop\<close> until the terminator of one name.\<close>

definition read_code_unit :: "u16 op" where
  "read_code_unit =
     and_then (reader_read_bytes 2) (\<lambda>pair.
     and_then (checkpoint 2) (\<lambda>_.
     ok_or (format_error ''UTF-16 name code unit is truncated'') (le_array 2 pair)))"

lemma read_code_unit_moves:
  "read_code_unit s = (Inr u, t) \<Longrightarrow>
     rd_bytes (reader t) = rd_bytes (reader s) \<and>
     rd_position (reader t) = rd_position (reader s) + 2 \<and>
     rd_position (reader s) + 2 \<le> length (rd_bytes (reader s))"
  by (auto simp: read_code_unit_def success)

function read_name :: "u16 list \<Rightarrow> u16 list op" where
  "read_name name s =
     and_then read_code_unit (\<lambda>code_unit s.
     if code_unit = 0 then ok name s
     else and_then (try_reserve 1) (\<lambda>_ s. read_name (name @ [code_unit]) s) s) s"
  by pat_completeness auto
termination
  by (relation "measure (\<lambda>(name, s). length (rd_bytes (reader s)) - rd_position (reader s))")
    (auto simp: success dest!: read_code_unit_moves)

declare read_name.simps [simp del]

definition parse_names :: "byte_slice \<Rightarrow> u64 \<Rightarrow> limits \<Rightarrow> u16 list property_values op" where
  "parse_names data count lim =
     and_then
       (with_reader data
         (and_then read_u8 (\<lambda>external.
          if external \<noteq> 0 then
            and_then read_uint (\<lambda>data_index.
            and_then (finish ''external Name property was not consumed exactly'') (\<lambda>_.
            and_then (push_repeated count True ''file count is not representable on this platform'')
              (\<lambda>defined.
            ok (Some (data_index, defined)))))
          else
            and_then (scan_names lim count (0, 0, 0)) (\<lambda>_.
            and_then (finish ''Name property was not consumed exactly'') (\<lambda>_.
            ok None))))) (\<lambda>scanned.
     case scanned of
       Some (data_index, defined) \<Rightarrow> ok (ExternalValues data_index defined)
     | None \<Rightarrow>
         with_reader data
           (and_then read_u8 (\<lambda>external.
            and_then (err_if (external \<noteq> 0)
                       (format_error ''Name property changed during validation'')) (\<lambda>_.
            and_then (u64_to_usize count ''name count is not representable on this platform'')
              (\<lambda>capacity.
            and_then (try_reserve capacity) (\<lambda>_.
            and_then (repeat_push (unat count) (and_then (read_name []) (\<lambda>name. ok (Some name))))
              (\<lambda>names.
            and_then (finish ''Name property was not consumed exactly'') (\<lambda>_.
            ok (InlineValues names)))))))))"

definition apply_external ::
    "u8 \<Rightarrow> 'a property_values \<Rightarrow> u64 \<Rightarrow> external_property list \<Rightarrow>
     ('a option list option \<times> external_property list) op" where
  "apply_external tag values additional_count external =
     (case values of
        InlineValues vs \<Rightarrow> ok (Some vs, external)
      | ExternalValues data_index defined \<Rightarrow>
          and_then (validate_data_index data_index additional_count) (\<lambda>_.
          and_then (try_reserve 1) (\<lambda>_.
          ok (None, external @ [\<lparr>ext_property_id = tag, ext_data_index = data_index,
                                  ext_defined_entries = defined\<rparr>]))))"

record file_slots =
  slot_empty_stream :: "raw_property option"
  slot_empty_file :: "raw_property option"
  slot_anti :: "raw_property option"
  slot_name :: "raw_property option"
  slot_creation :: "raw_property option"
  slot_access :: "raw_property option"
  slot_modification :: "raw_property option"
  slot_attributes :: "raw_property option"
  slot_start_position :: "raw_property option"
  slot_unknown :: "stored_property list"

definition no_slots :: file_slots where
  "no_slots = \<lparr>slot_empty_stream = None, slot_empty_file = None, slot_anti = None,
     slot_name = None, slot_creation = None, slot_access = None, slot_modification = None,
     slot_attributes = None, slot_start_position = None, slot_unknown = []\<rparr>"

definition assign_slot :: "file_slots \<Rightarrow> raw_property \<Rightarrow> file_slots op" where
  "assign_slot slots p =
     (let tag = property_id p in
      if tag = ID_EMPTY_STREAM then
        and_then (known_property_slot (slot_empty_stream slots) p) (\<lambda>v. ok (slots\<lparr>slot_empty_stream := v\<rparr>))
      else if tag = ID_EMPTY_FILE then
        and_then (known_property_slot (slot_empty_file slots) p) (\<lambda>v. ok (slots\<lparr>slot_empty_file := v\<rparr>))
      else if tag = ID_ANTI then
        and_then (known_property_slot (slot_anti slots) p) (\<lambda>v. ok (slots\<lparr>slot_anti := v\<rparr>))
      else if tag = ID_NAME then
        and_then (known_property_slot (slot_name slots) p) (\<lambda>v. ok (slots\<lparr>slot_name := v\<rparr>))
      else if tag = ID_CTIME then
        and_then (known_property_slot (slot_creation slots) p) (\<lambda>v. ok (slots\<lparr>slot_creation := v\<rparr>))
      else if tag = ID_ATIME then
        and_then (known_property_slot (slot_access slots) p) (\<lambda>v. ok (slots\<lparr>slot_access := v\<rparr>))
      else if tag = ID_MTIME then
        and_then (known_property_slot (slot_modification slots) p)
          (\<lambda>v. ok (slots\<lparr>slot_modification := v\<rparr>))
      else if tag = ID_WIN_ATTRIBUTES then
        and_then (known_property_slot (slot_attributes slots) p) (\<lambda>v. ok (slots\<lparr>slot_attributes := v\<rparr>))
      else if tag = ID_START_POS then
        and_then (known_property_slot (slot_start_position slots) p)
          (\<lambda>v. ok (slots\<lparr>slot_start_position := v\<rparr>))
      else if tag = ID_DUMMY then
        and_then (err_if (list_ex (\<lambda>byte. byte \<noteq> 0) (property_data p))
                   (format_error ''Dummy property contains a non-zero byte'')) (\<lambda>_. ok slots)
      else
        and_then (try_reserve 1) (\<lambda>_.
        and_then (copy_bytes (property_data p)) (\<lambda>data.
        ok (slots\<lparr>slot_unknown := slot_unknown slots @ [\<lparr>stored_id = tag, stored_data = data\<rparr>]\<rparr>))))"

text \<open>The three bit vectors: empty streams over all files, the others over the empty streams.\<close>

definition file_bits :: "file_slots \<Rightarrow> u64 \<Rightarrow> (bool list \<times> bool list \<times> bool list) op" where
  "file_bits slots count =
     and_then
       (case slot_empty_stream slots of
          Some property \<Rightarrow> parse_plain_bits property count
        | None \<Rightarrow> push_repeated count False ''file count is not representable on this platform'')
       (\<lambda>empty_streams.
     and_then (usize_to_u64 (length (filter id empty_streams))
                ''empty-stream count is not representable as u64'') (\<lambda>empty_count.
     and_then
       (case slot_empty_file slots of
          Some property \<Rightarrow> parse_plain_bits property empty_count
        | None \<Rightarrow>
            push_repeated empty_count False ''empty-file count is not representable on this platform'')
       (\<lambda>empty_file_bits.
     and_then
       (case slot_anti slots of
          Some property \<Rightarrow> parse_plain_bits property empty_count
        | None \<Rightarrow>
            push_repeated empty_count False ''anti-item count is not representable on this platform'')
       (\<lambda>anti_bits.
     ok (empty_streams, empty_file_bits, anti_bits)))))"

text \<open>One optional per-file property, stored inline or in an additional stream.\<close>

definition file_property ::
    "u8 \<Rightarrow> raw_property option \<Rightarrow> (byte_slice \<Rightarrow> 'a property_values op) \<Rightarrow> u64 \<Rightarrow>
     external_property list \<Rightarrow> ('a option list option \<times> external_property list) op" where
  "file_property tag slot parse additional_count external =
     (case slot of
        None \<Rightarrow> ok (None, external)
      | Some property \<Rightarrow>
          and_then (parse (property_data property)) (\<lambda>values.
          apply_external tag values additional_count external))"

record file_columns =
  col_names :: "u16 list option list option"
  col_creation :: "u64 option list option"
  col_access :: "u64 option list option"
  col_modification :: "u64 option list option"
  col_attributes :: "u32 option list option"
  col_start_position :: "u64 option list option"

definition file_values ::
    "file_slots \<Rightarrow> u64 \<Rightarrow> u64 \<Rightarrow> limits \<Rightarrow> (file_columns \<times> external_property list) op" where
  "file_values slots count additional_count lim =
     and_then (file_property ID_NAME (slot_name slots) (\<lambda>data. parse_names data count lim)
                additional_count []) (\<lambda>(names, external).
     and_then (file_property ID_CTIME (slot_creation slots)
                (\<lambda>data. parse_defined_values data count read_u64) additional_count external)
       (\<lambda>(creation, external).
     and_then (file_property ID_ATIME (slot_access slots)
                (\<lambda>data. parse_defined_values data count read_u64) additional_count external)
       (\<lambda>(access, external).
     and_then (file_property ID_MTIME (slot_modification slots)
                (\<lambda>data. parse_defined_values data count read_u64) additional_count external)
       (\<lambda>(modification, external).
     and_then (file_property ID_WIN_ATTRIBUTES (slot_attributes slots)
                (\<lambda>data. parse_defined_values data count read_u32_le) additional_count external)
       (\<lambda>(attributes, external).
     and_then (file_property ID_START_POS (slot_start_position slots)
                (\<lambda>data. parse_defined_values data count read_u64) additional_count external)
       (\<lambda>(start, external).
     ok (\<lparr>col_names = names, col_creation = creation, col_access = access,
          col_modification = modification, col_attributes = attributes,
          col_start_position = start\<rparr>, external)))))))"

text \<open>One iteration over the files: the records so far and the two cursors.\<close>

definition build_entry ::
    "bool list \<Rightarrow> bool list \<Rightarrow> bool list \<Rightarrow> file_columns \<Rightarrow> file_stream list \<Rightarrow>
     file_entry list \<times> nat \<times> nat \<Rightarrow> nat \<Rightarrow> (file_entry list \<times> nat \<times> nat) op" where
  "build_entry empty_streams empty_file_bits anti_bits columns mappings acc index =
     (case acc of (files, empty_cursor, stream_cursor) \<Rightarrow>
     and_then (checkpoint 1) (\<lambda>_.
     and_then (ok_or (format_error ''EmptyStream vector is too short'') (item_get empty_streams index))
       (\<lambda>is_empty_stream.
     and_then
       (if is_empty_stream then
          and_then (ok_or (format_error ''EmptyFile vector is too short'')
                     (item_get empty_file_bits empty_cursor)) (\<lambda>empty_value.
          and_then (ok_or (format_error ''Anti vector is too short'')
                     (item_get anti_bits empty_cursor)) (\<lambda>anti_value.
          and_then (usize_add empty_cursor 1 ''empty-file index overflows'') (\<lambda>empty_cursor'.
          ok (empty_value, anti_value, empty_cursor'))))
        else ok (False, False, empty_cursor)) (\<lambda>(is_empty_file, is_anti, empty_cursor').
     and_then
       (if is_empty_stream then ok (None, stream_cursor)
        else
          and_then (ok_or (format_error ''member-stream mapping is too short'')
                     (item_get mappings stream_cursor)) (\<lambda>v.
          and_then (usize_add stream_cursor 1 ''member-stream index overflows'') (\<lambda>stream_cursor'.
          ok (Some v, stream_cursor')))) (\<lambda>(stream, stream_cursor').
     and_then (value_at (col_names columns) index ''Name vector is too short'') (\<lambda>name.
     and_then (value_at (col_creation columns) index ''creation-time vector is too short'')
       (\<lambda>creation.
     and_then (value_at (col_access columns) index ''access-time vector is too short'') (\<lambda>access.
     and_then (value_at (col_modification columns) index ''modification-time vector is too short'')
       (\<lambda>modification.
     and_then (value_at (col_attributes columns) index ''attribute vector is too short'') (\<lambda>attributes.
     and_then (value_at (col_start_position columns) index ''StartPos vector is too short'') (\<lambda>start.
     ok (files @ [\<lparr>raw_name = flatten name, has_stream = \<not> is_empty_stream,
                    empty_file = is_empty_file, anti_item = is_anti,
                    creation_time = flatten creation, access_time = flatten access,
                    modification_time = flatten modification,
                    windows_attributes = flatten attributes, start_position = flatten start,
                    entry_stream = stream\<rparr>], empty_cursor', stream_cursor'))))))))))))"

definition validate_files ::
    "raw_files_info \<Rightarrow> streams_info option \<Rightarrow> streams_info option \<Rightarrow> limits \<Rightarrow> files_info op" where
  "validate_files raw main additional lim =
     and_then (checkpoint (files_count raw)) (\<lambda>_.
     and_then (for_fold (files_properties raw) no_slots assign_slot) (\<lambda>slots.
     and_then (file_bits slots (files_count raw)) (\<lambda>(empty_streams, empty_file_bits, anti_bits).
     and_then
       (case additional of
          Some streams \<Rightarrow>
            usize_to_u64 (length (info_folders streams))
              ''additional-stream folder count is not representable as u64''
        | None \<Rightarrow> ok 0) (\<lambda>additional_count.
     and_then (file_values slots (files_count raw) additional_count lim) (\<lambda>(columns, external).
     and_then (collect_stream_mappings main) (\<lambda>mappings.
     and_then (err_if (length mappings \<noteq> length (filter (\<lambda>e. \<not> e) empty_streams))
                (format_error ''file stream count does not match main-stream substreams'')) (\<lambda>_.
     and_then (u64_to_usize (files_count raw) ''file count is not representable on this platform'')
       (\<lambda>file_capacity.
     and_then (try_reserve file_capacity) (\<lambda>_.
     and_then (for_fold [0..<file_capacity] ([], 0, 0)
                (build_entry empty_streams empty_file_bits anti_bits columns mappings))
       (\<lambda>(files, empty_cursor, stream_cursor).
     and_then (err_if (empty_cursor \<noteq> length empty_file_bits \<or> empty_cursor \<noteq> length anti_bits \<or>
                       stream_cursor \<noteq> length mappings)
                (format_error ''file property vectors have unused values'')) (\<lambda>_.
     ok \<lparr>entries = files, external_properties = external,
         unknown_properties = slot_unknown slots\<rparr>)))))))))))"


section \<open>The header\<close>

definition validate_optional_streams ::
    "raw_streams_info option \<Rightarrow> header_envelope \<Rightarrow> byte_slice \<Rightarrow> limits \<Rightarrow> ranges \<Rightarrow>
     (streams_info option \<times> ranges) op" where
  "validate_optional_streams raw env archive_bytes lim ranges =
     (case raw of
        Some streams \<Rightarrow>
          and_then (validate_streams streams env archive_bytes lim ranges) (\<lambda>(info, ranges').
          ok (Some info, ranges'))
      | None \<Rightarrow> ok (None, ranges))"

definition validate_plain_header ::
    "raw_header \<Rightarrow> header_envelope \<Rightarrow> byte_slice \<Rightarrow> limits \<Rightarrow> archive_header op" where
  "validate_plain_header raw env archive_bytes lim =
     and_then (validate_optional_streams (header_additional_streams raw) env archive_bytes lim [])
       (\<lambda>(additional, ranges).
     and_then (validate_optional_streams (header_main_streams raw) env archive_bytes lim ranges)
       (\<lambda>(main, ranges).
     and_then (check_non_overlapping_ranges ranges) (\<lambda>_.
     and_then
       (case header_files raw of
          Some files \<Rightarrow>
            and_then (validate_files files main additional lim) (\<lambda>info. ok (Some info))
        | None \<Rightarrow> ok None) (\<lambda>files.
     and_then (copy_properties (header_archive_properties raw)) (\<lambda>properties.
     ok \<lparr>archive_properties = properties, additional_streams = additional,
         main_streams = main, header_files_info = files\<rparr>)))))"

definition validate_next_header ::
    "raw_next_header \<Rightarrow> header_envelope \<Rightarrow> byte_slice \<Rightarrow> limits \<Rightarrow> parsed_next_header op" where
  "validate_next_header raw env archive_bytes lim =
     (case raw of
        Header header \<Rightarrow>
          and_then (validate_plain_header header env archive_bytes lim) (\<lambda>h. ok (ParsedHeader h))
      | ExternalFolders pending \<Rightarrow>
          and_then (validate_streams (external_additional_streams pending) env archive_bytes lim [])
            (\<lambda>(additional, ranges).
          and_then (err_if (external_main_pack pending = None)
                     (format_error ''PackInfo and external UnpackInfo must appear together'')) (\<lambda>_.
          and_then (validate_pack_ranges (external_main_pack pending) env archive_bytes ranges)
            (\<lambda>(_, ranges).
          and_then (check_non_overlapping_ranges ranges) (\<lambda>_.
          and_then (usize_to_u64 (length (info_folders additional))
                     ''additional-stream folder count is not representable as u64'') (\<lambda>count.
          and_then (validate_data_index (external_data_index pending) count) (\<lambda>_.
          and_then (copy_bytes (external_header_bytes pending)) (\<lambda>bytes.
          ok (PendingExternalFolders
                \<lparr>pending_additional_streams = additional,
                 pending_data_index = external_data_index pending,
                 pending_header_bytes = bytes\<rparr>))))))))
      | Encoded streams \<Rightarrow>
          and_then (validate_streams streams env archive_bytes lim []) (\<lambda>(info, ranges).
          and_then (check_non_overlapping_ranges ranges) (\<lambda>_.
          ok (ParsedEncodedHeader info))))"

end
