(* ===== verification/Header_Parser.thy ===== *)
theory Header_Parser
  imports Validation
begin

text \<open>
  \<^verbatim>\<open>parser.rs\<close>: the signature header, the candidates of a self-extracting archive, and the entry
  points that parse and validate a stored or decoded next header.
\<close>


section \<open>The signature header\<close>

definition SIGNATURE :: byte_slice where "SIGNATURE = [0x37, 0x7a, 0xbc, 0xaf, 0x27, 0x1c]"
definition START_HEADER_OFFSET :: u64 where "START_HEADER_OFFSET = 12"
definition START_HEADER_SIZE :: u64 where "START_HEADER_SIZE = 20"

record raw_signature_header =
  sig_major :: u8
  sig_minor :: u8
  sig_start_crc :: u32
  sig_next_offset :: u64
  sig_next_size :: u64
  sig_next_crc :: u32

definition signature_fields :: "raw_signature_header op" where
  "signature_fields =
     and_then (reader_read_bytes 6) (\<lambda>signature.
     and_then (err_if (signature \<noteq> SIGNATURE) (format_error ''invalid 7z signature'')) (\<lambda>_.
     and_then reader_read_u8 (\<lambda>maj.
     and_then reader_read_u8 (\<lambda>min.
     and_then reader_read_u32_le (\<lambda>start_crc.
     and_then reader_read_u64_le (\<lambda>next_offset.
     and_then reader_read_u64_le (\<lambda>next_size.
     and_then reader_read_u32_le (\<lambda>next_crc.
     ok \<lparr>sig_major = maj, sig_minor = min, sig_start_crc = start_crc,
         sig_next_offset = next_offset, sig_next_size = next_size,
         sig_next_crc = next_crc\<rparr>))))))))"

definition parse_raw_signature_header :: "byte_slice \<Rightarrow> raw_signature_header op" where
  "parse_raw_signature_header bytes =
     with_reader bytes
       (parse_exact FIXED_HEADER_SIZE ''fixed 7z header was not consumed exactly'' signature_fields)"

text \<open>The fixed header at an offset and the checksum of its start-header fields.\<close>

definition read_fixed_header :: "byte_slice \<Rightarrow> u64 \<Rightarrow> (raw_signature_header \<times> u32) op" where
  "read_fixed_header bytes sig_offset =
     and_then (checked_range bytes sig_offset FIXED_HEADER_SIZE ''fixed-header range overflows''
                ''truncated fixed 7z header'') (\<lambda>candidate_bytes.
     and_then (parse_raw_signature_header candidate_bytes) (\<lambda>raw.
     and_then (checked_range candidate_bytes START_HEADER_OFFSET START_HEADER_SIZE
                ''start-header range overflows'' ''truncated start-header fields'') (\<lambda>start_fields.
     and_then (crc32_with_control start_fields) (\<lambda>crc.
     ok (raw, crc)))))"

definition next_header_kind_of :: "byte_slice \<Rightarrow> ('s, next_header_kind) comp" where
  "next_header_kind_of bytes =
     (case item_get bytes 0 of
        Some tag \<Rightarrow>
          if tag = ID_HEADER then ok KindHeader
          else if tag = ID_ENCODED_HEADER then ok KindEncodedHeader
          else err (format_error ''unexpected next-header identifier'')
      | None \<Rightarrow> err (format_error ''next header is empty''))"

definition parse_candidate :: "byte_slice \<Rightarrow> u64 \<Rightarrow> limits \<Rightarrow> header_envelope op" where
  "parse_candidate bytes sig_offset lim =
     and_then (checkpoint FIXED_HEADER_SIZE) (\<lambda>_.
     and_then (read_fixed_header bytes sig_offset) (\<lambda>(raw, crc).
     and_then (err_if (crc \<noteq> sig_start_crc raw) (Checksum StartHeader None)) (\<lambda>_.
     and_then (err_if (sig_major raw \<noteq> 0) (UnsupportedFeature ''7z-major-version'')) (\<lambda>_.
     and_then (err_if (max_header_bytes lim < sig_next_size raw)
                (LimitExceeded HeaderBytes (sig_next_size raw) (max_header_bytes lim))) (\<lambda>_.
     and_then (ok_or (format_error ''fixed-header end overflows'')
                (checked_add sig_offset FIXED_HEADER_SIZE)) (\<lambda>after_fixed.
     and_then (ok_or (format_error ''next-header offset overflows'')
                (checked_add after_fixed (sig_next_offset raw))) (\<lambda>offset.
     and_then (checked_range bytes offset (sig_next_size raw) ''next-header end overflows''
                ''truncated next-header range'') (\<lambda>header_bytes.
     and_then (crc32_with_control header_bytes) (\<lambda>next_crc.
     and_then (err_if (next_crc \<noteq> sig_next_crc raw) (Checksum NextHeader None)) (\<lambda>_.
     and_then (next_header_kind_of header_bytes) (\<lambda>kind.
     ok \<lparr>signature_offset = sig_offset,
         version = \<lparr>major = sig_major raw, minor = sig_minor raw\<rparr>,
         next_header_offset = offset, next_header_size = sig_next_size raw,
         next_header_crc = sig_next_crc raw, envelope_kind = kind\<rparr>)))))))))))"

fun candidate_error_is_fatal :: "error \<Rightarrow> bool" where
  "candidate_error_is_fatal Cancelled = True"
| "candidate_error_is_fatal (Io _ _) = True"
| "candidate_error_is_fatal (LimitExceeded limit _ _) = (limit = WorkUnits \<or> limit = TotalInputBytes)"
| "candidate_error_is_fatal _ = False"


section \<open>Scanning for a signature\<close>

text \<open>\<open>match f(...)\<close> on the result: a failed attempt leaves the state it ended in.\<close>

definition attempt :: "('s, 'a) comp \<Rightarrow> ('s, error + 'a) comp" where
  "attempt m = (\<lambda>s. case m s of (r, t) \<Rightarrow> (Inr r, t))"

text \<open>\<open>bytes.windows(n).enumerate()\<close>\<close>

definition windows :: "nat \<Rightarrow> 'a list \<Rightarrow> (nat \<times> 'a list) list" where
  "windows n xs = map (\<lambda>i. (i, take n (drop i xs))) [0..<Suc (length xs) - n]"

text \<open>The scanned prefix, or \<open>None\<close> for an input shorter than a signature.\<close>

definition sfx_scan_bytes :: "byte_slice \<Rightarrow> limits \<Rightarrow> u64 \<Rightarrow> byte_slice option op" where
  "sfx_scan_bytes bytes lim input_length =
     and_then (usize_to_u64 (length SIGNATURE) ''7z signature length is not representable as u64'')
       (\<lambda>signature_length.
     case checked_sub input_length signature_length of
       None \<Rightarrow> ok None
     | Some last_possible_offset \<Rightarrow>
         and_then (ok_or (format_error ''SFX scan range overflows'')
           (checked_add (min last_possible_offset (sfx_scan_limit lim)) signature_length))
           (\<lambda>scan_length.
         and_then (checked_range bytes 0 scan_length ''SFX scan range overflows''
                    ''truncated SFX scan range'') (\<lambda>scanned.
         ok (Some scanned))))"

fun scan_candidates ::
    "(u64 \<Rightarrow> 'a op) \<Rightarrow> (nat \<times> byte_slice) list \<Rightarrow> error option \<Rightarrow> 'a op" where
  "scan_candidates candidate [] first_error =
     (case first_error of
        Some e \<Rightarrow> err e
      | None \<Rightarrow> err (format_error ''7z signature was not found''))"
| "scan_candidates candidate ((offset, window) # rest) first_error =
     and_then (checkpoint 1) (\<lambda>_.
     if window \<noteq> SIGNATURE then scan_candidates candidate rest first_error
     else
       and_then (usize_to_u64 offset ''SFX signature offset is not representable as u64'') (\<lambda>o64.
       and_then (attempt (candidate o64)) (\<lambda>r.
       case r of
         Inr v \<Rightarrow> ok v
       | Inl e \<Rightarrow>
           if candidate_error_is_fatal e then err e
           else scan_candidates candidate rest
                  (if first_error = None then Some e else first_error))))"

text \<open>
  The body that \<open>parse_archive_header\<close> and \<open>parse_archive\<close> share: a signature at the front is the
  only candidate, otherwise the scanned prefix is searched.
\<close>

definition first_candidate :: "byte_slice \<Rightarrow> limits \<Rightarrow> (u64 \<Rightarrow> 'a op) \<Rightarrow> 'a op" where
  "first_candidate bytes lim candidate =
     and_then (usize_to_u64 (length bytes) ''archive input length is not representable as u64'')
       (\<lambda>input_length.
     and_then (err_if (max_total_input_bytes lim < input_length)
                (LimitExceeded TotalInputBytes input_length (max_total_input_bytes lim))) (\<lambda>_.
     if take (length SIGNATURE) bytes = SIGNATURE then candidate 0
     else
       and_then (sfx_scan_bytes bytes lim input_length) (\<lambda>scanned.
       case scanned of
         None \<Rightarrow> err (format_error ''7z signature was not found'')
       | Some scan_bytes \<Rightarrow>
           scan_candidates candidate (windows (length SIGNATURE) scan_bytes) None)))"

definition parse_archive_header :: "byte_slice \<Rightarrow> limits \<Rightarrow> header_envelope op" where
  "parse_archive_header bytes lim =
     first_candidate bytes lim (\<lambda>offset. parse_candidate bytes offset lim)"


section \<open>Incomplete input\<close>

definition candidate_declares_more_bytes :: "byte_slice \<Rightarrow> u64 \<Rightarrow> limits \<Rightarrow> bool option op" where
  "candidate_declares_more_bytes bytes sig_offset lim =
     and_then (usize_to_u64 (length bytes) ''archive input length is not representable as u64'')
       (\<lambda>input_length.
     and_then (ok_or (format_error ''fixed-header end overflows'')
                (checked_add sig_offset FIXED_HEADER_SIZE)) (\<lambda>fixed_end.
     if input_length < fixed_end then ok (Some True)
     else
       and_then (read_fixed_header bytes sig_offset) (\<lambda>(raw, crc).
       if crc \<noteq> sig_start_crc raw then ok None
       else
         and_then (err_if (max_header_bytes lim < sig_next_size raw)
           (LimitExceeded HeaderBytes (sig_next_size raw) (max_header_bytes lim))) (\<lambda>_.
         and_then (ok_or (format_error ''declared archive end overflows'')
           (case checked_add fixed_end (sig_next_offset raw) of
              None \<Rightarrow> None
            | Some offset \<Rightarrow> checked_add offset (sig_next_size raw))) (\<lambda>required.
         ok (Some (input_length < required)))))))"

fun scan_declarations :: "byte_slice \<Rightarrow> limits \<Rightarrow> (nat \<times> byte_slice) list \<Rightarrow> bool op" where
  "scan_declarations bytes lim [] = ok False"
| "scan_declarations bytes lim ((offset, window) # rest) =
     and_then (checkpoint 1) (\<lambda>_.
     if window \<noteq> SIGNATURE then scan_declarations bytes lim rest
     else
       and_then (usize_to_u64 offset ''SFX signature offset is not representable as u64'') (\<lambda>o64.
       and_then (candidate_declares_more_bytes bytes o64 lim) (\<lambda>declared.
       case declared of
         Some requires_more \<Rightarrow> ok requires_more
       | None \<Rightarrow> scan_declarations bytes lim rest)))"

definition archive_declares_more_bytes :: "byte_slice \<Rightarrow> limits \<Rightarrow> bool op" where
  "archive_declares_more_bytes bytes lim =
     and_then (usize_to_u64 (length bytes) ''archive input length is not representable as u64'')
       (\<lambda>input_length.
     and_then (check_limit input_length (max_total_input_bytes lim) TotalInputBytes) (\<lambda>_.
     if take (length SIGNATURE) bytes = SIGNATURE then
       and_then (candidate_declares_more_bytes bytes 0 lim) (\<lambda>declared.
       ok (case declared of Some b \<Rightarrow> b | None \<Rightarrow> False))
     else
       and_then (sfx_scan_bytes bytes lim input_length) (\<lambda>scanned.
       case scanned of
         None \<Rightarrow> ok False
       | Some scan_bytes \<Rightarrow>
           scan_declarations bytes lim (windows (length SIGNATURE) scan_bytes))))"


section \<open>Complete archives and decoded headers\<close>

text \<open>A local \<open>ParseState::default()\<close>.\<close>

definition with_counters :: "'a op \<Rightarrow> 'a op" where
  "with_counters m =
     (\<lambda>s. case m (s\<lparr>counters := parse_state_default\<rparr>) of (r, t) \<Rightarrow> (r, t\<lparr>counters := counters s\<rparr>))"

definition validated_candidate :: "byte_slice \<Rightarrow> limits \<Rightarrow> u64 \<Rightarrow> parsed_archive op" where
  "validated_candidate bytes lim sig_offset =
     and_then (parse_candidate bytes sig_offset lim) (\<lambda>env.
     and_then (checked_range bytes (next_header_offset env) (next_header_size env)
                ''next-header end overflows during body parsing''
                ''next-header range was truncated during body parsing'') (\<lambda>header_bytes.
     and_then (with_counters (parse_next_header header_bytes lim)) (\<lambda>raw.
     and_then (validate_next_header raw env bytes lim) (\<lambda>validated.
     ok \<lparr>envelope = env, next_header = validated\<rparr>))))"

definition parse_archive :: "byte_slice \<Rightarrow> limits \<Rightarrow> parsed_archive op" where
  "parse_archive bytes lim = first_candidate bytes lim (validated_candidate bytes lim)"

definition parse_decoded_next_header ::
    "byte_slice \<Rightarrow> header_envelope \<Rightarrow> byte_slice \<Rightarrow> limits \<Rightarrow> parsed_next_header op" where
  "parse_decoded_next_header decoded env archive_bytes lim =
     and_then (usize_to_u64 (length decoded) ''decoded header size is not representable as u64'')
       (\<lambda>decoded_size.
     and_then (err_if (max_header_bytes lim < decoded_size)
                (LimitExceeded HeaderBytes decoded_size (max_header_bytes lim))) (\<lambda>_.
     and_then (with_counters (parse_next_header decoded lim)) (\<lambda>raw.
     validate_next_header raw env archive_bytes lim)))"

definition parse_next_header_from_external_folders ::
    "byte_slice \<Rightarrow> u64 \<Rightarrow> byte_slice \<Rightarrow> header_envelope \<Rightarrow> byte_slice \<Rightarrow> limits \<Rightarrow>
     parsed_next_header op" where
  "parse_next_header_from_external_folders header_bytes data_index folder_bytes env archive_bytes lim =
     and_then (usize_to_u64 (length header_bytes)
                ''external-folder header size is not representable as u64'') (\<lambda>header_size.
     and_then (check_limit header_size (max_header_bytes lim) HeaderBytes) (\<lambda>_.
     and_then (with_counters
       (parse_next_header_with_external_folders header_bytes data_index folder_bytes lim)) (\<lambda>raw.
     validate_next_header raw env archive_bytes lim)))"

end
