(* ===== verification/Graph_Laws.thy ===== *)
theory Graph_Laws
  imports Graph
begin

text \<open>
  What \<^verbatim>\<open>graph.rs\<close> guarantees: the scheduling loop computes a topological order of the coder graph
  whenever there is one, and a folder graph is accepted exactly when it is well-formed.
\<close>


section \<open>Topological scheduling\<close>

text \<open>An order of all coders in which the source of each edge comes before its destination.\<close>

definition schedules :: "nat \<Rightarrow> (nat \<times> nat) list \<Rightarrow> nat list \<Rightarrow> bool" where
  "schedules n edges order \<longleftrightarrow>
     distinct order \<and> set order = {..<n} \<and>
     (\<forall>(a, b) \<in> set edges. \<exists>j < length order. \<exists>i < j. order ! i = a \<and> order ! j = b)"

text \<open>The edges into \<open>v\<close> from coders that are not in \<open>P\<close>.\<close>

definition pending :: "(nat \<times> nat) list \<Rightarrow> nat set \<Rightarrow> nat \<Rightarrow> nat" where
  "pending edges P v = length (filter (\<lambda>(a, b). b = v \<and> a \<notin> P) edges)"

lemma pending_simps [simp]:
  "pending [] P v = 0"
  "pending ((a, b) # es) P v = (if b = v \<and> a \<notin> P then Suc (pending es P v) else pending es P v)"
  "pending (xs @ ys) P v = pending xs P v + pending ys P v"
  by (simp_all add: pending_def)

lemma pending_0_iff: "pending es P v = 0 \<longleftrightarrow> (\<forall>(a, b) \<in> set es. b = v \<longrightarrow> a \<in> P)"
  by (auto simp: pending_def filter_empty_conv)

lemma pending_insert_le: "pending es (insert c P) v \<le> pending es P v"
  by (induction es) auto

definition queue_inv :: "nat \<Rightarrow> (nat \<times> nat) list \<Rightarrow> u64 list \<Rightarrow> nat list \<Rightarrow> nat \<Rightarrow> bool" where
  "queue_inv n edges ind ready cursor \<longleftrightarrow>
     length ind = n \<and> distinct ready \<and> set ready = {v. v < n \<and> ind ! v = 0} \<and>
     cursor \<le> length ready \<and>
     (\<forall>v < n. unat (ind ! v) = pending edges (set (take cursor ready)) v) \<and>
     (\<forall>j < length ready. pending edges (set (take (min cursor j) ready)) (ready ! j) = 0)"

text \<open>Invariant of the pass over the edges when \<open>c\<close> is scheduled after \<open>P\<close>.\<close>

definition release_inv ::
    "nat \<Rightarrow> (nat \<times> nat) list \<Rightarrow> nat list \<Rightarrow> nat \<Rightarrow> nat set \<Rightarrow> (nat \<times> nat) list \<Rightarrow> u64 list \<times> nat list \<Rightarrow> bool" where
  "release_inv n edges ready c P past acc \<longleftrightarrow> (case acc of (i, r) \<Rightarrow>
     length i = n \<and> distinct r \<and> set r = {v. v < n \<and> i ! v = 0} \<and>
     (\<forall>v < n. unat (i ! v)
        = pending past (insert c P) v + pending (drop (length past) edges) P v) \<and>
     (\<exists>new. r = ready @ new \<and> (\<forall>v \<in> set new. pending edges (insert c P) v = 0)))"

lemma release_edge_inv:
  assumes edges: "edges = past @ edge # rest" and nodes: "set edges \<subseteq> {..<n} \<times> {..<n}"
    and inv: "release_inv n edges ready c P past acc" and c: "c \<notin> P"
  shows "outcome resource_error (release_edge c acc edge) s
           (\<lambda>acc' t. release_inv n edges ready c P (past @ [edge]) acc' \<and> still s t)"
proof -
  obtain a b where edge: "edge = (a, b)" by force
  obtain i r where acc: "acc = (i, r)" by force
  have b: "b < n" using edges nodes edge by auto
  have drop: "drop (length past) edges = edge # rest" "drop (length (past @ [edge])) edges = rest"
      "drop (Suc (length past)) edges = rest"
    using edges by simp_all
  note inv = inv [unfolded release_inv_def acc prod.case drop]
  show ?thesis
  proof (cases "a = c")
    case False
    have "release_inv n edges ready c P (past @ [edge]) (i, r)"
      using inv False by (auto simp: release_inv_def drop edge)
    then show ?thesis
      unfolding release_edge_def acc prod.case edge fst_conv snd_conv
      using False by (intro outcome_rules control_outcomes) auto
  next
    case True
    have deg: "unat (i ! b) = pending past (insert c P) b + Suc (pending rest P b)"
      using inv b True c by (auto simp: edge)
    obtain d where d: "checked_sub (i ! b) 1 = Some d"
      using deg by (cases "checked_sub (i ! b) 1") (auto simp: word_nat)
    then have ud: "unat (i ! b) = 1 + unat d" by (simp add: word_nat)
    let ?i = "i[b := d]" and ?r = "if d = 0 then r @ [b] else r"
    have counts: "unat (?i ! v) = pending (past @ [edge]) (insert c P) v + pending rest P v" if "v < n" for v
      using inv that deg ud True b by (auto simp: edge nth_list_update)
    have nz: "i ! b \<noteq> 0" using ud by auto
    have "pending edges (insert c P) b = 0" if "d = 0"
    proof -
      have "unat (?i ! b) = 0" using that inv b by simp
      then have "pending (past @ [edge]) (insert c P) b + pending rest P b = 0"
        using counts [OF b] by simp
      then show ?thesis
        using pending_insert_le [of rest c P b] True by (simp add: edges edge)
    qed
    moreover have "set ?r = {v. v < n \<and> ?i ! v = 0}"
      using inv b nz by (auto simp: nth_list_update)
    moreover have "distinct ?r" using inv nz by auto
    moreover have "\<exists>new. ?r = ready @ new \<and> (\<forall>v \<in> set new. pending edges (insert c P) v = 0)"
      using inv calculation(1) by auto
    ultimately have "release_inv n edges ready c P (past @ [edge]) (?i, ?r)"
      using inv counts unfolding release_inv_def prod.case drop by simp
    then show ?thesis
      unfolding release_edge_def acc prod.case edge fst_conv snd_conv
      using True d b inv
      by (intro outcome_rules control_outcomes) (auto simp: item_get_def edge)
  qed
qed

lemma release_edges_inv:
  assumes nodes: "set edges \<subseteq> {..<n} \<times> {..<n}" and inv: "queue_inv n edges ind ready cursor"
    and c: "cursor < length ready" "c = ready ! cursor"
  shows "outcome resource_error (for_fold edges (ind, ready) (release_edge c)) s
    (\<lambda>acc t. queue_inv n edges (fst acc) (snd acc) (Suc cursor) \<and>
       take (Suc cursor) (snd acc) = take (Suc cursor) ready \<and> still s t)"
proof (rule outcome_for_fold [where I = "\<lambda>past acc t.
    release_inv n edges ready c (set (take cursor ready)) past acc \<and> still s t"], goal_cases)
  case 1
  then show ?case using inv by (simp add: release_inv_def queue_inv_def)
next
  case (2 past edge rest acc u)
  have "c \<notin> set (take cursor ready)"
    using inv c by (auto simp: queue_inv_def in_set_conv_nth nth_eq_iff_index_eq)
  from release_edge_inv [OF 2(1) nodes conjunct1 [OF 2(2)] this, of u] show ?case
    by (rule outcome_weaken) (use 2(2) still_trans in blast)
next
  case (3 acc t)
  obtain i r where acc: "acc = (i, r)" by force
  let ?P = "insert c (set (take cursor ready))"
  from 3 acc obtain new where i: "length i = n" "distinct r" "set r = {v. v < n \<and> i ! v = 0}"
    and counts: "\<forall>v < n. unat (i ! v) = pending edges ?P v" and r: "r = ready @ new"
    and new: "\<forall>v \<in> set new. pending edges ?P v = 0"
    by (auto simp: release_inv_def)
  have take: "take (Suc cursor) r = take (Suc cursor) ready"
    and P: "set (take (Suc cursor) r) = ?P"
    using c r by (auto simp: take_Suc_conv_app_nth)
  have "pending edges (set (take (min (Suc cursor) j) r)) (r ! j) = 0" if "j < length r" for j
  proof (cases "j < length ready")
    case True
    then have old: "pending edges (set (take (min cursor j) ready)) (ready ! j) = 0"
      using inv by (simp add: queue_inv_def)
    have "set (take (min cursor j) ready) \<subseteq> set (take (min (Suc cursor) j) r)"
      using r True by (auto simp: take_append intro: set_take_subset_set_take [THEN subsetD, rotated])
    with old True r show ?thesis by (fastforce simp: pending_0_iff nth_append)
  next
    case False
    then have "r ! j \<in> set new" and "min (Suc cursor) j = Suc cursor"
      using that r c by (auto simp: nth_append)
    with new P show ?thesis by simp
  qed
  then show ?case using 3 i counts take P c r by (simp add: queue_inv_def acc)
qed

lemma topological_loop_outcome:
  assumes "set edges \<subseteq> {..<n} \<times> {..<n}" and "queue_inv n edges ind ready cursor"
    and "order = map of_nat (take cursor ready)" and "n \<le> usize_max (machine s)" and "n < 2 ^ 64"
  shows "outcome resource_error (topological_loop edges ind ready cursor order) s
    (\<lambda>res t. \<exists>ind' ready'. res = map of_nat ready' \<and>
       queue_inv n edges ind' ready' (length ready') \<and> still s t)"
  using assms
proof (induction "waiting ind + length ready - cursor" arbitrary: ind ready cursor order s
    rule: less_induct)
  case less
  show ?case
  proof (cases "cursor < length ready")
    case False
    then have "cursor = length ready" using less.prems by (simp add: queue_inv_def)
    then have "topological_loop edges ind ready cursor order s = ok order s"
      by (simp add: topological_loop.simps item_get_def)
    with less.prems \<open>cursor = length ready\<close> show ?thesis
      by (auto simp: outcome_def ok_def)
  next
    case True
    let ?c = "ready ! cursor"
    have c: "?c < n" and len: "length ready \<le> n"
    proof -
      have "set ready \<subseteq> {..<n}" "distinct ready" using less.prems(2) by (auto simp: queue_inv_def)
      then show "length ready \<le> n"
        using distinct_card card_mono [of "{..<n}" "set ready"] by fastforce
      show "?c < n" using \<open>set ready \<subseteq> {..<n}\<close> True nth_mem by blast
    qed
    have unfold: "topological_loop edges ind ready cursor order s =
      and_then (usize_add cursor 1 ''topological queue index overflows'') (\<lambda>cursor'.
          and_then (checkpoint 1) (\<lambda>_.
          and_then (usize_to_u64 ?c ''coder index is not representable as u64'') (\<lambda>index.
          and_then (for_fold edges (ind, ready) (release_edge ?c)) (\<lambda>acc.
          topological_loop edges (fst acc) (snd acc) cursor' (order @ [index]))))) s"
      using True by (simp add: topological_loop.simps [of edges ind ready cursor order s] item_get_def)
    have body: "outcome resource_error (topological_loop edges (fst acc) (snd acc) (Suc cursor) (order @ [of_nat ?c])) u
        (\<lambda>res t. \<exists>ind' ready'. res = map of_nat ready' \<and>
           queue_inv n edges ind' ready' (length ready') \<and> still s t)"
      if run: "for_fold edges (ind, ready) (release_edge ?c) v = (Inr acc, u)"
        and inv: "queue_inv n edges (fst acc) (snd acc) (Suc cursor)"
        and take: "take (Suc cursor) (snd acc) = take (Suc cursor) ready" and "still s u" for acc u v
    proof -
      have "queue_bound ind ready acc" by (rule release_edges_bound [OF run])
      then have "waiting (fst acc) + length (snd acc) - Suc cursor < waiting ind + length ready - cursor"
        using True by (simp add: queue_bound_def)
      then have "outcome resource_error (topological_loop edges (fst acc) (snd acc) (Suc cursor) (order @ [of_nat ?c])) u
        (\<lambda>res t. \<exists>ind' ready'. res = map of_nat ready' \<and>
           queue_inv n edges ind' ready' (length ready') \<and> still u t)"
        using less.prems True inv take \<open>still s u\<close>
        by (intro less.hyps) (auto simp: take_Suc_conv_app_nth still_def)
      then show ?thesis
        by (rule outcome_weaken) (use \<open>still s u\<close> still_trans in blast)
    qed
    have step: "outcome resource_error (for_fold edges (ind, ready) (release_edge ?c)) v
        (\<lambda>acc u. outcome resource_error
           (topological_loop edges (fst acc) (snd acc) (Suc cursor) (order @ [of_nat ?c])) u
           (\<lambda>res t. \<exists>ind' ready'. res = map of_nat ready' \<and>
             queue_inv n edges ind' ready' (length ready') \<and> still s t))"
      if "still s v" for v
      by (rule outcome_weaken [OF release_edges_inv [OF less.prems(1,2) True refl]])
        (use body that still_trans in blast)
    have "outcome resource_error
      (and_then (usize_add cursor 1 ''topological queue index overflows'') (\<lambda>cursor'.
          and_then (checkpoint 1) (\<lambda>_.
          and_then (usize_to_u64 ?c ''coder index is not representable as u64'') (\<lambda>index.
          and_then (for_fold edges (ind, ready) (release_edge ?c)) (\<lambda>acc.
          topological_loop edges (fst acc) (snd acc) cursor' (order @ [index])))))) s
      (\<lambda>res t. \<exists>ind' ready'. res = map of_nat ready' \<and>
             queue_inv n edges ind' ready' (length ready') \<and> still s t)"
      using less.prems(4,5) True len c
      by (intro outcome_rules control_outcomes) (auto intro: step)
    then show ?thesis by (simp add: outcome_def unfold)
  qed
qed


section \<open>The scheduler\<close>

definition edges_of :: "nat list \<Rightarrow> nat list \<Rightarrow> raw_bind_pair list \<Rightarrow> (nat \<times> nat) list" where
  "edges_of input_owners output_owners pairs =
     map (\<lambda>p. (output_owners ! unat (bind_output p), input_owners ! unat (bind_input p))) pairs"

text \<open>Every port that a bind pair names exists, and every port belongs to a coder.\<close>

definition ports_ok :: "nat \<Rightarrow> nat list \<Rightarrow> nat list \<Rightarrow> raw_bind_pair list \<Rightarrow> bool" where
  "ports_ok n input_owners output_owners pairs \<longleftrightarrow>
     (\<forall>p \<in> set pairs. unat (bind_input p) < length input_owners \<and>
        unat (bind_output p) < length output_owners) \<and>
     set input_owners \<subseteq> {..<n} \<and> set output_owners \<subseteq> {..<n}"

lemma edges_of_nodes:
  "ports_ok n io oo pairs \<Longrightarrow> set (edges_of io oo pairs) \<subseteq> {..<n} \<times> {..<n}"
  by (auto simp: ports_ok_def edges_of_def dest!: nth_mem)

lemma pending_full: "pending es P v \<le> length es"
  by (simp add: pending_def)

lemma collect_edges_outcome:
  assumes ports: "ports_ok n io oo pairs" and room: "length io \<le> usize_max (machine s)"
    "length oo \<le> usize_max (machine s)" and few: "length pairs < 2 ^ 64"
  shows "outcome resource_error (for_fold pairs (replicate n 0, []) (collect_edge io oo)) s
    (\<lambda>acc t. length (fst acc) = n \<and> snd acc = edges_of io oo pairs \<and>
       (\<forall>v < n. unat (fst acc ! v) = pending (edges_of io oo pairs) {} v) \<and> still s t)"
proof (rule outcome_for_fold [where I = "\<lambda>past acc t. length (fst acc) = n \<and>
    snd acc = edges_of io oo past \<and>
    (\<forall>v < n. unat (fst acc ! v) = pending (edges_of io oo past) {} v) \<and> still s t"], goal_cases)
  case 1
  then show ?case by (simp add: edges_of_def)
next
  case (2 past pair rest acc u)
  obtain ind es where acc: "acc = (ind, es)" by force
  have p: "unat (bind_input pair) < length io" "unat (bind_output pair) < length oo"
    using ports 2(1) by (auto simp: ports_ok_def)
  then have d: "io ! unat (bind_input pair) < n"
    using ports nth_mem by (fastforce simp: ports_ok_def)
  let ?d = "io ! unat (bind_input pair)"
  have "unat (ind ! ?d) \<le> length past"
    using 2(2) acc d pending_full [of "edges_of io oo past" "{}" ?d] by (simp add: edges_of_def)
  then have fits: "unat (ind ! ?d) + 1 < 2 ^ 64"
    using few 2(1) by simp
  have room': "length io \<le> usize_max (machine u)" "length oo \<le> usize_max (machine u)"
    using 2(2) room by (simp_all add: still_def)
  have next_edge: "edges_of io oo (past @ [pair]) = edges_of io oo past @ [(oo ! unat (bind_output pair), ?d)]"
    by (simp add: edges_of_def)
  have sum: "unat (ind ! ?d + 1) = unat (ind ! ?d) + 1"
    using fits by (simp add: unat_word_ariths)
  show ?case
    unfolding collect_edge_def acc prod.case owner_for_port_def
    using p d room' fits 2(2) acc next_edge sum
    by (intro outcome_rules control_outcomes)
      (auto simp: item_get_def checked_add_def nth_list_update)
next
  case (3 acc t)
  then show ?case by simp
qed

text \<open>The queue at the start: the coders without a dependency.\<close>

lemma initial_ready:
  "map fst (filter (\<lambda>(i, d). d = 0) (enumerate k ind)) = filter (\<lambda>i. ind ! (i - k) = 0) [k..<k + length ind]"
proof (induction ind arbitrary: k)
  case (Cons d ds)
  have "filter (\<lambda>i. ds ! (i - Suc k) = 0) [Suc k..<Suc k + length ds]
      = filter (\<lambda>i. (d # ds) ! (i - k) = 0) [Suc k..<Suc k + length ds]"
    by (rule filter_cong) (auto simp: nth_Cons')
  moreover have "[k..<k + length (d # ds)] = k # [Suc k..<Suc k + length ds]"
    by (simp add: upt_conv_Cons del: upt_Suc)
  ultimately show ?case by (simp add: Cons.IH del: upt_Suc)
qed simp

lemma queue_inv_initial:
  assumes "length ind = n" and "\<forall>v < n. unat (ind ! v) = pending edges {} v"
  shows "queue_inv n edges ind (map fst (filter (\<lambda>(i, d). d = 0) (enumerate 0 ind))) 0"
proof -
  let ?ready = "filter (\<lambda>i. ind ! i = 0) [0..<n]"
  have "pending edges {} (?ready ! j) = 0" if "j < length ?ready" for j
  proof -
    have "?ready ! j \<in> set ?ready" using that by (rule nth_mem)
    with assms show ?thesis by auto
  qed
  then show ?thesis
    unfolding initial_ready using assms by (auto simp: queue_inv_def)
qed

text \<open>What the state of the loop says about the graph when the queue is exhausted.\<close>

lemma queue_inv_order:
  assumes inv: "queue_inv n edges ind ready (length ready)" and nodes: "set edges \<subseteq> {..<n} \<times> {..<n}"
  shows "length ready = n \<Longrightarrow> schedules n edges ready"
    and "length ready \<noteq> n \<Longrightarrow> \<not> acyclic (set edges)"
proof -
  have dist: "distinct ready" and sub: "set ready \<subseteq> {..<n}"
    using inv by (auto simp: queue_inv_def)
  show "schedules n edges ready" if "length ready = n"
  proof -
    have all: "set ready = {..<n}"
      using dist sub that by (metis card_lessThan card_subset_eq distinct_card finite_lessThan)
    have "\<exists>j < length ready. \<exists>i < j. ready ! i = a \<and> ready ! j = b" if "(a, b) \<in> set edges" for a b
    proof -
      have "b \<in> set ready" using that nodes all by auto
      then obtain j where j: "j < length ready" "ready ! j = b" by (auto simp: in_set_conv_nth)
      then have "a \<in> set (take j ready)"
        using inv that by (auto simp: queue_inv_def pending_0_iff min_def)
      then obtain i where "i < j" "ready ! i = a" using j by (auto simp: in_set_conv_nth)
      with j show ?thesis by blast
    qed
    with dist all show ?thesis by (auto simp: schedules_def)
  qed
  show "\<not> acyclic (set edges)" if "length ready \<noteq> n"
  proof
    assume "acyclic (set edges)"
    then have wf: "wf (set edges)" by (simp add: finite_acyclic_wf)
    have "set ready \<noteq> {..<n}" using that dist by (metis card_lessThan distinct_card)
    then have "\<not> {..<n} \<subseteq> set ready" using subset_antisym [OF sub] by argo
    then obtain v where v: "v \<in> {..<n} - set ready" by (meson DiffI subsetI)
    from wfE_min [OF wf v] obtain z where z: "z \<in> {..<n} - set ready"
      and least: "\<And>y. (y, z) \<in> set edges \<Longrightarrow> y \<notin> {..<n} - set ready" by blast
    have "ind ! z \<noteq> 0" using z inv by (auto simp: queue_inv_def)
    then have "unat (ind ! z) \<noteq> 0" by (simp add: unat_eq_0)
    moreover have "unat (ind ! z) = pending edges (set ready) z"
      using z inv by (simp add: queue_inv_def)
    ultimately have "pending edges (set ready) z \<noteq> 0" by simp
    then obtain a where "(a, z) \<in> set edges" "a \<notin> set ready" by (auto simp: pending_0_iff)
    with least nodes show False by auto
  qed
qed

lemma schedules_acyclic:
  assumes "schedules n edges order"
  shows "acyclic (set edges)"
proof -
  define pos where "pos v = (THE i. i < length order \<and> order ! i = v)" for v
  have pos: "pos (order ! i) = i" if "i < length order" for i
    unfolding pos_def using that assms
    by (intro the_equality) (auto simp: schedules_def nth_eq_iff_index_eq)
  have "set edges \<subseteq> measure pos"
    using assms pos by (fastforce simp: schedules_def)
  then show ?thesis using wf_acyclic wf_measure acyclic_subset by blast
qed

lemma topological_order_outcome:
  assumes ports: "ports_ok n io oo pairs" and room: "length io \<le> usize_max (machine s)"
    "length oo \<le> usize_max (machine s)" "n \<le> usize_max (machine s)"
    and few: "length pairs < 2 ^ 64" "n < 2 ^ 64"
  shows "outcome (\<lambda>e. resource_error e \<or> \<not> acyclic (set (edges_of io oo pairs)))
    (topological_order n io oo pairs) s
    (\<lambda>order t. (\<exists>ready. order = map of_nat ready \<and> schedules n (edges_of io oo pairs) ready) \<and> still s t)"
proof -
  let ?E = "edges_of io oo pairs"
  have nodes: "set ?E \<subseteq> {..<n} \<times> {..<n}" by (rule edges_of_nodes [OF ports])
  have loop: "outcome (\<lambda>e. resource_error e \<or> \<not> acyclic (set ?E))
      (and_then (topological_loop ?E ind (map fst (filter (\<lambda>(i, d). d = 0) (enumerate 0 ind))) 0 [])
        (\<lambda>order. and_then (err_if (length order \<noteq> n)
            (format_error ''folder coder graph contains a cycle'')) (\<lambda>_. ok order))) u
      (\<lambda>order t. (\<exists>ready. order = map of_nat ready \<and> schedules n ?E ready) \<and> still s t)"
    if "length ind = n" and "\<forall>v < n. unat (ind ! v) = pending ?E {} v" and "still s u" for ind u
  proof (rule outcome_and_then, rule outcome_mono)
    show "outcome resource_error (topological_loop ?E ind
        (map fst (filter (\<lambda>(i, d). d = 0) (enumerate 0 ind))) 0 []) u
        (\<lambda>res t. \<exists>ind' ready'. res = map of_nat ready' \<and>
       queue_inv n ?E ind' ready' (length ready') \<and> still u t)"
      using nodes queue_inv_initial [OF that(1,2)] room few that(3)
      by (intro topological_loop_outcome) (auto simp: still_def)
    show "outcome (\<lambda>e. resource_error e \<or> \<not> acyclic (set ?E))
        (and_then (err_if (length order \<noteq> n)
            (format_error ''folder coder graph contains a cycle'')) (\<lambda>_. ok order)) v
        (\<lambda>order t. (\<exists>ready. order = map of_nat ready \<and> schedules n ?E ready) \<and> still s t)"
      if "\<exists>ind' ready'. order = map of_nat ready' \<and>
        queue_inv n ?E ind' ready' (length ready') \<and> still u v" for order v
      using that queue_inv_order [OF _ nodes] still_trans [OF \<open>still s u\<close>]
      by (intro outcome_rules) auto
  qed simp
  have collect: "outcome (\<lambda>e. resource_error e \<or> \<not> acyclic (set ?E))
      (for_fold pairs (replicate n 0, []) (collect_edge io oo)) u
      (\<lambda>acc t. length (fst acc) = n \<and> snd acc = ?E \<and>
         (\<forall>v < n. unat (fst acc ! v) = pending ?E {} v) \<and> still s t)" if "still s u" for u
    by (rule outcome_mono [OF collect_edges_outcome [OF ports]])
      (use that room few still_trans [OF that] in \<open>auto simp: still_def\<close>)
  have scheduling: "outcome (\<lambda>e. resource_error e \<or> \<not> acyclic (set ?E))
      (case acc of (indegree, edges) \<Rightarrow>
        and_then (try_reserve n) (\<lambda>_.
        let ready = map fst (filter (\<lambda>(index, degree). degree = 0) (enumerate 0 indegree)) in
        and_then (try_reserve n) (\<lambda>_.
        and_then (topological_loop edges indegree ready 0 []) (\<lambda>order.
        and_then (err_if (length order \<noteq> n)
          (format_error ''folder coder graph contains a cycle'')) (\<lambda>_.
        ok order))))) u
      (\<lambda>order t. (\<exists>ready. order = map of_nat ready \<and> schedules n ?E ready) \<and> still s t)"
    if "length (fst acc) = n \<and> snd acc = ?E \<and>
      (\<forall>v < n. unat (fst acc ! v) = pending ?E {} v) \<and> still s u" for acc u
  proof -
    have "acc = (fst acc, ?E)" using that by (metis prod.collapse)
    then obtain ind where acc: "acc = (ind, ?E)" ..
    show ?thesis
      unfolding acc prod.case Let_def
      by (rule outcome_and_then, rule outcome_try_reserve, blast, rule outcome_and_then,
          rule outcome_try_reserve, blast, rule loop) (use that acc still_trans in auto)
  qed
  show ?thesis
    unfolding topological_order_def
    by (rule outcome_and_then, rule outcome_try_reserve, blast, rule outcome_and_then,
        rule outcome_try_reserve, blast, rule outcome_and_then, rule outcome_weaken [OF collect])
      (blast intro: still_trans, rule scheduling)
qed


section \<open>Well-formed folder graphs\<close>

text \<open>The owner of each port: the coders' ports are numbered consecutively.\<close>

definition owners :: "(raw_coder \<Rightarrow> u64) \<Rightarrow> raw_coder list \<Rightarrow> nat list" where
  "owners ports cs = concat (map (\<lambda>(i, c). replicate (unat (ports c)) i) (enumerate 0 cs))"

definition folder_edges :: "raw_folder \<Rightarrow> (nat \<times> nat) list" where
  "folder_edges raw =
     edges_of (owners raw_coder_inputs (raw_coders raw)) (owners raw_coder_outputs (raw_coders raw))
       (raw_bind_pairs raw)"

text \<open>
  A folder is well-formed when its port totals agree with its coders, the bind pairs connect
  distinct existing inputs to distinct existing outputs, exactly one output is left over, the inputs
  that are left over are exactly the packed ones, and the coders can be scheduled.
\<close>

definition graph_spec :: "raw_folder \<Rightarrow> validated_graph \<Rightarrow> bool" where
  "graph_spec raw g \<longleftrightarrow>
     (let bound_in = map (\<lambda>p. unat (bind_input p)) (raw_bind_pairs raw);
          bound_out = map (\<lambda>p. unat (bind_output p)) (raw_bind_pairs raw);
          ins = unat (raw_input_streams raw);
          outs = unat (raw_output_streams raw);
          packed = map unat (graph_packed_inputs g)
      in ins + outs < 2 ^ 64 \<and>
         length (owners raw_coder_inputs (raw_coders raw)) = ins \<and>
         length (owners raw_coder_outputs (raw_coders raw)) = outs \<and>
         graph_bind_pairs g = map (\<lambda>p. \<lparr>bound_input_index = bind_input p,
                                         bound_output_index = bind_output p\<rparr>) (raw_bind_pairs raw) \<and>
         distinct bound_in \<and> set bound_in \<subseteq> {..<ins} \<and>
         distinct bound_out \<and> set bound_out \<subseteq> {..<outs} \<and>
         {..<outs} - set bound_out = {unat (graph_root_output g)} \<and>
         (case raw_packed_indices raw of
            None \<Rightarrow> length packed = 1
          | Some indices \<Rightarrow> graph_packed_inputs g = indices) \<and>
         length packed = unat (raw_packed_streams raw) \<and>
         distinct packed \<and> set packed = {..<ins} - set bound_in \<and>
         schedules (length (raw_coders raw)) (folder_edges raw) (map unat (graph_order g)))"

lemma owners_range: "set (owners ports cs) \<subseteq> {..<length cs}"
  by (auto simp: owners_def in_set_enumerate_eq)

lemma length_owners: "length (owners ports cs) = sum_list (map (\<lambda>c. unat (ports c)) cs)"
proof -
  have "sum_list (map (\<lambda>(i, c). unat (ports c)) (enumerate k cs)) = sum_list (map (\<lambda>c. unat (ports c)) cs)" for k
    by (induction cs arbitrary: k) auto
  then show ?thesis
    by (simp add: owners_def length_concat comp_def case_prod_unfold)
qed

lemma collect_owners_outcome:
  "outcome (\<lambda>e. resource_error e \<or>
       (\<exists>c \<in> set cs. 2 ^ 64 \<le> unat (raw_coder_inputs c) + unat (raw_coder_outputs c)))
     (collect_owners cs) s
     (\<lambda>acc t. acc = (owners raw_coder_inputs cs, owners raw_coder_outputs cs) \<and> still s t)"
  unfolding collect_owners_def
proof (rule outcome_for_fold [where I = "\<lambda>past acc t. acc =
    (concat (map (\<lambda>(i, c). replicate (unat (raw_coder_inputs c)) i) past),
     concat (map (\<lambda>(i, c). replicate (unat (raw_coder_outputs c)) i) past)) \<and> still s t"], goal_cases)
  case (2 past item rest acc u)
  obtain i c where item: "item = (i, c)" by force
  have "c \<in> set cs"
    using 2(1) item by (metis in_set_conv_decomp in_set_enumerate_eq nth_mem snd_conv add.right_neutral
        add_0 le0 diff_zero)
  show ?case
    unfolding item prod.case using 2 \<open>c \<in> set cs\<close>
    by (auto intro!: outcome_rules control_outcomes intro: still_trans
        simp: checked_add_eq_None split: prod.splits)
qed (auto simp: owners_def)

text \<open>Flags: the vector of \<open>n\<close> booleans that are true on a set.\<close>

definition flags :: "nat \<Rightarrow> nat set \<Rightarrow> bool list" where
  "flags n A = map (\<lambda>i. i \<in> A) [0..<n]"

lemma flags_simps [simp]:
  "length (flags n A) = n" "i < n \<Longrightarrow> flags n A ! i = (i \<in> A)"
  "i < n \<Longrightarrow> (flags n A)[i := True] = flags n (insert i A)"
  "flags n {} = replicate n False"
  by (auto simp: flags_def nth_list_update intro!: nth_equalityI split: if_splits)

lemma item_get_flags: "item_get (flags n A) i = (if i < n then Some (i \<in> A) else None)"
  by (simp add: item_get_def)

definition bound_ports :: "(raw_bind_pair \<Rightarrow> u64) \<Rightarrow> raw_bind_pair list \<Rightarrow> nat list" where
  "bound_ports port pairs = map (\<lambda>p. unat (port p)) pairs"

definition ports_distinct :: "(raw_bind_pair \<Rightarrow> u64) \<Rightarrow> nat \<Rightarrow> raw_bind_pair list \<Rightarrow> bool" where
  "ports_distinct port n pairs \<longleftrightarrow>
     distinct (bound_ports port pairs) \<and> set (bound_ports port pairs) \<subseteq> {..<n}"

lemma bound_ports_append [simp]:
  "bound_ports port (xs @ ys) = bound_ports port xs @ bound_ports port ys"
  "bound_ports port (p # ps) = unat (port p) # bound_ports port ps" "bound_ports port [] = []"
  by (simp_all add: bound_ports_def)

lemma bind_all_outcome:
  assumes room: "ins \<le> usize_max (machine s)" "outs \<le> usize_max (machine s)"
  shows "outcome (\<lambda>e. resource_error e \<or>
       \<not> (ports_distinct bind_input ins pairs \<and> ports_distinct bind_output outs pairs))
     (bind_all pairs (replicate ins False) (replicate outs False)) s
     (\<lambda>acc t. acc = (map (\<lambda>p. \<lparr>bound_input_index = bind_input p, bound_output_index = bind_output p\<rparr>) pairs,
          flags ins (set (bound_ports bind_input pairs)), flags outs (set (bound_ports bind_output pairs))) \<and>
        ports_distinct bind_input ins pairs \<and> ports_distinct bind_output outs pairs \<and> still s t)"
  unfolding bind_all_def
proof (rule outcome_for_fold [where I = "\<lambda>past acc t.
    acc = (map (\<lambda>p. \<lparr>bound_input_index = bind_input p, bound_output_index = bind_output p\<rparr>) past,
          flags ins (set (bound_ports bind_input past)), flags outs (set (bound_ports bind_output past))) \<and>
    ports_distinct bind_input ins past \<and> ports_distinct bind_output outs past \<and> still s t"], goal_cases)
  case 1
  then show ?case by (simp add: ports_distinct_def)
next
  case (2 past pair rest acc u)
  have room': "ins \<le> usize_max (machine u)" "outs \<le> usize_max (machine u)"
    using 2(2) room by (simp_all add: still_def)
  show ?case
    unfolding 2(1) conjunct1 [OF 2(2)] prod.case validate_bind_pair_def
    by (intro outcome_rules outcome_u64_to_usize)
      (use 2(2) room' in \<open>auto simp: item_get_flags ports_distinct_def split: if_splits\<close>)
qed simp

lemma still_usize: "still s t \<Longrightarrow> usize_max (machine t) = usize_max (machine s)"
  by (simp add: still_def)

text \<open>The indices of a flag vector that are false.\<close>

definition unset :: "(nat \<times> bool) list \<Rightarrow> nat list" where
  "unset bs = map fst (filter (\<lambda>(i, b). \<not> b) bs)"

lemma unset_simps [simp]:
  "unset [] = []" "unset (xs @ ys) = unset xs @ unset ys"
  "unset ((i, b) # bs) = (if b then unset bs else i # unset bs)"
  by (simp_all add: unset_def)

lemma set_unset_flags: "set (unset (enumerate 0 (flags n A))) = {..<n} - A"
  by (force simp: unset_def in_set_enumerate_eq)

lemma distinct_unset: "distinct (unset (enumerate 0 bs))"
  unfolding unset_def by (rule distinct_map_filter) simp

lemma find_root_outcome:
  assumes "n < 2 ^ 64"
  shows "outcome (\<lambda>e. \<nexists>r. {..<n} - A = {r}) (find_root_output (flags n A)) s
     (\<lambda>root t. {..<n} - A = {unat root} \<and> t = s)"
proof -
  let ?bs = "enumerate 0 (flags n A)"
  have one: "{..<n} - A = {r} \<Longrightarrow> unset ?bs = [r]" for r
    using distinct_unset [of "flags n A"] set_unset_flags [of n A]
    by (metis distinct_length_2_or_more distinct_singleton length_0_conv list.exhaust
        list.set_intros(1) list.set_intros(2) empty_iff empty_set insert_iff singletonD)
  show ?thesis
    unfolding find_root_output_def
  proof (rule outcome_and_then, rule outcome_for_fold [where I = "\<lambda>past root t. t = s \<and>
      unset past = (case root of None \<Rightarrow> [] | Some r \<Rightarrow> [unat r])"], goal_cases)
    case (2 past item rest root t)
    obtain i b where item: "item = (i, b)" by force
    have "i < n" using 2(1) item in_set_enumerate_eq [of item 0 "flags n A"] by auto
    show ?case
      unfolding item prod.case
      using 2 item \<open>i < n\<close> assms one
      by (intro outcome_rules control_outcomes) (auto split: option.splits)
  next
    case (3 root t)
    then show ?case
      using one set_unset_flags [of n A]
      by (intro outcome_rules) (auto split: option.splits)
  qed simp
qed

lemma position_false_flags:
  "position_false (flags n A) = Some i \<Longrightarrow> i < n \<and> i \<notin> A"
  "position_false (flags n A) = None \<Longrightarrow> {..<n} \<subseteq> A"
proof -
  let ?k = "length (takeWhile id (flags n A))"
  show "i < n \<and> i \<notin> A" if "position_false (flags n A) = Some i"
    using that nth_length_takeWhile [of id "flags n A"]
    by (auto simp: position_false_def Let_def split: if_splits)
  show "{..<n} \<subseteq> A" if "position_false (flags n A) = None"
  proof -
    have "length (flags n A) \<le> ?k"
      using that by (simp add: position_false_def Let_def split: if_splits)
    then have "takeWhile id (flags n A) = flags n A"
      by (metis takeWhile_eq_take take_all)
    then have "\<forall>x \<in> set (flags n A). x" by (metis id_apply takeWhile_eq_all_conv)
    then show ?thesis by (auto simp: flags_def)
  qed
qed

lemma mark_packed_outcome:
  assumes room: "n \<le> usize_max (machine s)"
  shows "outcome (\<lambda>e. \<not> (distinct (map unat xs) \<and> set (map unat xs) \<subseteq> {..<n} - A))
     (mark_packed xs (flags n A) (replicate n False)) s
     (\<lambda>packed t. packed = flags n (set (map unat xs)) \<and> distinct (map unat xs) \<and>
        set (map unat xs) \<subseteq> {..<n} - A \<and> t = s)"
  unfolding mark_packed_def
proof (rule outcome_for_fold [where I = "\<lambda>past packed t. packed = flags n (set (map unat past)) \<and>
    distinct (map unat past) \<and> set (map unat past) \<subseteq> {..<n} - A \<and> t = s"], goal_cases)
  case (2 past x rest packed t)
  then show ?case
    using room
    by (intro outcome_rules outcome_u64_to_usize) (auto simp: item_get_flags split: if_splits)
qed simp_all

lemma check_partition_outcome:
  "outcome (\<lambda>e. \<exists>i < n. (i \<in> A) = (i \<in> B)) (check_partition (flags n A) (flags n B)) s
     (\<lambda>_ t. (\<forall>i < n. (i \<in> A) \<noteq> (i \<in> B)) \<and> t = s)"
proof -
  have zip: "zip (flags n A) (flags n B) = map (\<lambda>i. (i \<in> A, i \<in> B)) [0..<n]"
    by (rule nth_equalityI) simp_all
  show ?thesis
    unfolding check_partition_def
  proof (rule outcome_for_fold [where I = "\<lambda>past _ t. (\<forall>(a, b) \<in> set past. a \<noteq> b) \<and> t = s"],
      goal_cases)
    case (2 past item rest u t)
    obtain a b where item: "item = (a, b)" by force
    have "item \<in> set (zip (flags n A) (flags n B))" using 2(1) by simp
    then have "\<exists>i < n. item = (i \<in> A, i \<in> B)" unfolding zip by auto
    then show ?case
      unfolding item prod.case using 2 item by (intro outcome_rules) auto
  next
    case (3 u t)
    then show ?case unfolding zip by auto
  qed simp
qed

lemma outcome_false_vector:
  "(\<And>e. resource_error e \<Longrightarrow> E e) \<Longrightarrow> (usize_max (machine s) < unat n \<Longrightarrow> E (format_error d)) \<Longrightarrow>
     (\<And>t. still s t \<Longrightarrow> unat n \<le> usize_max (machine s) \<Longrightarrow> Q (replicate (unat n) False) t) \<Longrightarrow>
     outcome E (false_vector n d) s Q"
  unfolding false_vector_def by (intro outcome_rules control_outcomes) auto

definition packed_choice :: "nat \<Rightarrow> nat set \<Rightarrow> u64 list option \<Rightarrow> u64 list \<Rightarrow> bool" where
  "packed_choice n A explicit packed \<longleftrightarrow>
     (case explicit of
        None \<Rightarrow> \<exists>i. i < n \<and> i \<notin> A \<and> map unat packed = [i]
      | Some xs \<Rightarrow> packed = xs)"

lemma choose_packed_outcome:
  assumes "n < 2 ^ 64"
  shows "outcome (\<lambda>e. explicit = None \<and> {..<n} \<subseteq> A) (choose_packed explicit (flags n A)) s
    (\<lambda>packed t. packed_choice n A explicit packed \<and> t = s)"
  unfolding choose_packed_def packed_choice_def using assms position_false_flags [of n A]
  by (intro outcome_rules control_outcomes) (force split: option.splits)+

lemma graph_spec_facts:
  assumes "graph_spec raw g"
  defines "ins \<equiv> unat (raw_input_streams raw)" and "outs \<equiv> unat (raw_output_streams raw)"
  shows "ins + outs < 2 ^ 64"
    and "length (owners raw_coder_inputs (raw_coders raw)) = ins"
    and "length (owners raw_coder_outputs (raw_coders raw)) = outs"
    and "ports_distinct bind_input ins (raw_bind_pairs raw)"
    and "ports_distinct bind_output outs (raw_bind_pairs raw)"
    and "{..<outs} - set (bound_ports bind_output (raw_bind_pairs raw)) = {unat (graph_root_output g)}"
    and "length (graph_packed_inputs g) = unat (raw_packed_streams raw)"
    and "distinct (map unat (graph_packed_inputs g))"
    and "set (map unat (graph_packed_inputs g)) = {..<ins} - set (bound_ports bind_input (raw_bind_pairs raw))"
    and "case raw_packed_indices raw of None \<Rightarrow> length (graph_packed_inputs g) = 1
          | Some indices \<Rightarrow> graph_packed_inputs g = indices"
    and "acyclic (set (folder_edges raw))"
  using assms(1) schedules_acyclic
  by (auto simp: graph_spec_def Let_def ins_def outs_def ports_distinct_def bound_ports_def
      split: option.splits)

lemma packed_few:
  assumes "graph_spec raw g"
  shows "unat (raw_packed_streams raw) \<le> unat (raw_input_streams raw)"
proof -
  have "unat (raw_packed_streams raw) = card (set (map unat (graph_packed_inputs g)))"
    using graph_spec_facts [OF assms] by (metis distinct_card length_map)
  also have "\<dots> \<le> card {..<unat (raw_input_streams raw)}"
    unfolding graph_spec_facts(9) [OF assms] by (intro card_mono) auto
  finally show ?thesis by simp
qed

lemma coder_ports_fit:
  assumes g: "graph_spec raw g" and c: "c \<in> set (raw_coders raw)"
  shows "unat (raw_coder_inputs c) + unat (raw_coder_outputs c) < 2 ^ 64"
proof -
  have "unat (raw_coder_inputs c) \<le> unat (raw_input_streams raw)"
    and "unat (raw_coder_outputs c) \<le> unat (raw_output_streams raw)"
    using graph_spec_facts(2,3) [OF g] c
      member_le_sum_list [of "unat (raw_coder_inputs c)" "map (\<lambda>c. unat (raw_coder_inputs c)) (raw_coders raw)"]
      member_le_sum_list [of "unat (raw_coder_outputs c)" "map (\<lambda>c. unat (raw_coder_outputs c)) (raw_coders raw)"]
    by (auto simp: length_owners)
  with graph_spec_facts(1) [OF g] show ?thesis by simp
qed

lemma few_pairs:
  "ports_distinct port n pairs \<Longrightarrow> length pairs \<le> n"
  by (metis bound_ports_def card_lessThan card_mono distinct_card finite_lessThan length_map ports_distinct_def)


lemma port_owners_outcome:
  assumes room: "unat (raw_input_streams raw) \<le> usize_max (machine s)"
    "unat (raw_output_streams raw) \<le> usize_max (machine s)"
  shows "outcome (\<lambda>e. resource_error e \<or> (\<nexists>g. graph_spec raw g)) (port_owners raw) s
    (\<lambda>acc t. acc = (owners raw_coder_inputs (raw_coders raw), owners raw_coder_outputs (raw_coders raw)) \<and>
       length (fst acc) = unat (raw_input_streams raw) \<and>
       length (snd acc) = unat (raw_output_streams raw) \<and>
       unat (raw_input_streams raw) + unat (raw_output_streams raw) < 2 ^ 64 \<and> still s t)"
  unfolding port_owners_def
  apply (rule outcome_and_then, rule outcome_ok_or)
   apply (force simp: checked_add_eq_None dest: graph_spec_facts(1))
  apply (rule outcome_and_then, rule outcome_checkpoint, blast)
  apply (rule outcome_and_then, rule outcome_u64_to_usize)
   apply (use room in \<open>simp add: still_usize\<close>)
  apply (rule outcome_and_then, rule outcome_u64_to_usize)
   apply (use room in \<open>simp add: still_usize\<close>)
  apply (rule outcome_and_then, rule outcome_try_reserve, blast)
  apply (rule outcome_and_then, rule outcome_try_reserve, blast)
  apply (rule outcome_and_then, rule outcome_mono [OF collect_owners_outcome])
  using coder_ports_fit apply (metis not_less)
  apply (elim conjE, simp only: prod.case)
  apply (rule outcome_and_then, rule outcome_err_if)
  using graph_spec_facts(2,3) apply blast
  apply (rule outcome_ok)
  apply (auto simp: checked_add_def intro: still_trans split: if_splits)
  done

lemma validate_packed_inputs_outcome:
  assumes room: "unat (raw_input_streams raw) \<le> usize_max (machine s)"
    and A: "A = set (bound_ports bind_input (raw_bind_pairs raw))"
  shows "outcome (\<lambda>e. resource_error e \<or> (\<nexists>g. graph_spec raw g))
    (validate_packed_inputs raw (flags (unat (raw_input_streams raw)) A)) s
    (\<lambda>packed t. (case raw_packed_indices raw of None \<Rightarrow> length packed = 1 | Some xs \<Rightarrow> packed = xs) \<and>
       length packed = unat (raw_packed_streams raw) \<and> distinct (map unat packed) \<and>
       set (map unat packed) = {..<unat (raw_input_streams raw)} - A \<and> still s t)"
proof -
  let ?n = "unat (raw_input_streams raw)"
  have n: "?n < 2 ^ 64" unfolding two_power_64 by simp
  have fixed: "raw_packed_indices raw \<noteq> None \<Longrightarrow> packed = graph_packed_inputs g"
    if "graph_spec raw g" and "packed_choice ?n A (raw_packed_indices raw) packed" for g packed
    using that graph_spec_facts(10) [OF that(1)] by (auto simp: packed_choice_def split: option.splits)
  have free: "distinct (map unat packed) \<and> set (map unat packed) \<subseteq> {..<?n} - A"
    if "graph_spec raw g" and "packed_choice ?n A (raw_packed_indices raw) packed" for g packed
    using fixed [OF that] that graph_spec_facts(8,9) [OF that(1)]
    by (cases "raw_packed_indices raw") (auto simp: packed_choice_def A)
  have whole: "set (map unat packed) = {..<?n} - A"
    if "graph_spec raw g" and "distinct (map unat packed)" "set (map unat packed) \<subseteq> {..<?n} - A"
      and "length packed = unat (raw_packed_streams raw)" for g packed
  proof (rule card_subset_eq [OF _ that(3)])
    have "card (set (map unat packed)) = length packed"
      using that(2) by (metis distinct_card length_map)
    also have "\<dots> = card (set (map unat (graph_packed_inputs g)))"
      using graph_spec_facts(7,8) [OF that(1)] that(4) by (metis distinct_card length_map)
    finally show "card (set (map unat packed)) = card ({..<?n} - A)"
      unfolding graph_spec_facts(9) [OF that(1)] A .
  qed simp
  have choice_length: "packed_choice ?n A (raw_packed_indices raw) packed \<Longrightarrow>
      graph_spec raw g \<Longrightarrow> length packed = unat (raw_packed_streams raw)" for g packed
    using graph_spec_facts(7,10)
    by (cases "raw_packed_indices raw") (fastforce simp: packed_choice_def)+
  have nonempty: "\<not> {..<?n} \<subseteq> A" if "graph_spec raw g" and "raw_packed_indices raw = None" for g
    using graph_spec_facts(9,10) [OF that(1)] that(2) by (auto simp: A length_Suc_conv)
  have choice_one: "packed_choice ?n A (raw_packed_indices raw) packed \<Longrightarrow>
      (case raw_packed_indices raw of None \<Rightarrow> length packed = 1 | Some xs \<Rightarrow> packed = xs)" for packed
    by (auto simp: packed_choice_def split: option.splits)
  show ?thesis
    unfolding validate_packed_inputs_def
    apply (rule outcome_and_then, rule outcome_u64_to_usize)
    subgoal using room packed_few by (meson leD le_trans)
    apply (rule outcome_and_then, rule outcome_try_reserve, blast)
    apply (rule outcome_and_then, rule outcome_mono [OF choose_packed_outcome [OF n]])
    subgoal using nonempty by blast
    apply (elim conjE)
    apply (rule outcome_and_then, rule outcome_err_if)
    subgoal using choice_length by blast
    apply (rule outcome_and_then, rule outcome_false_vector, blast)
    subgoal using room by (simp add: still_usize)
    apply (rule outcome_and_then, rule outcome_mono [OF mark_packed_outcome])
    subgoal using room by (simp add: still_usize)
    subgoal using free by blast
    apply (elim conjE, hypsubst)
    apply (rule outcome_and_then, rule outcome_mono [OF check_partition_outcome])
    subgoal using whole by fastforce
    apply (elim conjE, hypsubst)
    apply (rule outcome_ok)
    apply (use choice_one still_trans in fastforce)
    done
qed

lemma unat_schedule:
  "schedules n es ready \<Longrightarrow> n < 2 ^ 64 \<Longrightarrow> map unat (map of_nat ready :: u64 list) = ready"
  by (auto simp: schedules_def unat_of_nat intro!: map_idI)

lemma validate_folder_graph_outcome:
  assumes room: "unat (raw_input_streams raw) \<le> usize_max (machine s)"
    "unat (raw_output_streams raw) \<le> usize_max (machine s)"
    "length (raw_coders raw) \<le> usize_max (machine s)" "length (raw_coders raw) < 2 ^ 64"
  shows "outcome (\<lambda>e. resource_error e \<or> (\<nexists>g. graph_spec raw g)) (validate_folder_graph raw) s
    (\<lambda>g t. graph_spec raw g \<and> still s t)"
proof -
  let ?io = "owners raw_coder_inputs (raw_coders raw)"
  let ?oo = "owners raw_coder_outputs (raw_coders raw)"
  let ?ps = "raw_bind_pairs raw"
  have outs: "unat (raw_output_streams raw) < 2 ^ 64" unfolding two_power_64 by simp
  have order: "outcome (\<lambda>e. resource_error e \<or> (\<nexists>g. graph_spec raw g))
      (topological_order (length (raw_coders raw)) ?io ?oo ?ps) u
      (\<lambda>order t. schedules (length (raw_coders raw)) (folder_edges raw) (map unat order) \<and> still s t)"
    if "still s u" and "ports_distinct bind_input (length ?io) ?ps"
      and "ports_distinct bind_output (length ?oo) ?ps"
      and "length ?io = unat (raw_input_streams raw)" "length ?oo = unat (raw_output_streams raw)" for u
  proof (rule outcome_mono [OF topological_order_outcome], goal_cases)
    case 1
    then show ?case
      using that(2,3) owners_range by (auto simp: ports_ok_def ports_distinct_def bound_ports_def)
  next
    case 5
    then show ?case using few_pairs [OF that(3)] that(5) outs by (metis le_less_trans)
  next
    case (7 e)
    then show ?case using graph_spec_facts(11) by (auto simp: folder_edges_def)
  next
    case (8 xs t)
    then obtain ready where xs: "xs = map of_nat ready" and
      ready: "schedules (length (raw_coders raw)) (folder_edges raw) ready"
      by (auto simp: folder_edges_def)
    then have "map unat xs = ready"
      using room(4) unat_schedule by blast
    with ready 8 that(1) still_trans show ?case by blast
  qed (use room that in \<open>simp_all add: still_usize\<close>)
  show ?thesis
    unfolding validate_folder_graph_def
    apply (rule outcome_and_then, rule outcome_mono [OF port_owners_outcome [OF room(1,2)]], blast)
    apply (elim conjE, simp only: prod.case fst_conv snd_conv)
    apply (rule outcome_and_then, rule outcome_false_vector, blast)
    apply (use room in \<open>simp add: still_usize\<close>)
    apply (rule outcome_and_then, rule outcome_false_vector, blast)
    apply (use room in \<open>simp add: still_usize\<close>)
    apply (rule outcome_and_then, rule outcome_try_reserve, blast)
    apply (rule outcome_and_then, rule outcome_mono [OF bind_all_outcome])
    apply (use room in \<open>simp add: still_usize\<close>)
    apply (use room in \<open>simp add: still_usize\<close>)
    using graph_spec_facts(4,5) apply blast
    apply (elim conjE, simp only: prod.case)
    apply (rule outcome_and_then, rule outcome_mono [OF find_root_outcome [OF outs]])
    using graph_spec_facts(6) apply blast
    apply (elim conjE, hypsubst)
    apply (rule outcome_and_then, rule outcome_mono [OF validate_packed_inputs_outcome [OF _ refl]])
    apply (use room in \<open>simp add: still_usize\<close>)
    apply blast
    apply (elim conjE)
    apply (rule outcome_and_then, rule outcome_mono [OF order])
    apply (metis still_trans)
    apply simp
    apply simp
    apply simp
    apply simp
    apply assumption
    apply (elim conjE)
    apply (rule outcome_ok)
    apply (rule conjI)
    apply (simp add: graph_spec_def Let_def bound_ports_def ports_distinct_def split: option.splits)
    apply (metis still_trans)
    done
qed


section \<open>Properties of the graph validation\<close>

text \<open>C26: The scheduler of a coder graph with existing ports returns every coder exactly once, each
  after all coders it depends on; it fails only for want of resources or when the graph has a cycle.\<close>

theorem scheduler_correct:
  assumes "ports_ok n io oo pairs" and "length io \<le> usize_max (machine s)"
    and "length oo \<le> usize_max (machine s)" and "n \<le> usize_max (machine s)"
    and "length pairs < 2 ^ 64" and "n < 2 ^ 64"
  shows "case topological_order n io oo pairs s of
           (Inr order, t) \<Rightarrow> schedules n (edges_of io oo pairs) (map unat order)
         | (Inl e, t) \<Rightarrow> resource_error e \<or> \<not> acyclic (set (edges_of io oo pairs))"
  using topological_order_outcome [OF assms] unat_schedule [OF _ assms(6)]
  by (auto simp: outcome_def simp del: map_map split: prod.splits sum.splits)

lemma scheduler_correct_witness:
  "case topological_order 2 [0, 1] [0, 1] [\<lparr>bind_input = 0, bind_output = 1\<rparr>] (sample_session []) of
     (Inr order, t) \<Rightarrow>
       schedules 2 (edges_of [0, 1] [0, 1] [\<lparr>bind_input = 0, bind_output = 1\<rparr>]) (map unat order)
   | (Inl e, t) \<Rightarrow> resource_error e \<or>
       \<not> acyclic (set (edges_of [0, 1] [0, 1] [\<lparr>bind_input = 0, bind_output = 1\<rparr>]))"
  by (rule scheduler_correct) (simp_all add: ports_ok_def sample_session_def)

text \<open>C1: A folder graph is accepted exactly when it is well-formed, up to failures of resources: the
  result satisfies the specification (bindings one to one, a unique root output, the packed inputs are
  exactly the unbound ones, a valid schedule), and a refusal means that no result satisfies it.\<close>

theorem folder_graph_characterised:
  assumes "unat (raw_input_streams raw) \<le> usize_max (machine s)"
    and "unat (raw_output_streams raw) \<le> usize_max (machine s)"
    and "length (raw_coders raw) \<le> usize_max (machine s)" and "length (raw_coders raw) < 2 ^ 64"
  shows "case validate_folder_graph raw s of
           (Inr g, t) \<Rightarrow> graph_spec raw g
         | (Inl e, t) \<Rightarrow> resource_error e \<or> (\<nexists>g. graph_spec raw g)"
  using validate_folder_graph_outcome [OF assms]
  by (auto simp: outcome_def split: prod.splits sum.splits)

text \<open>A filter coder that reads the output of a compressor.\<close>

definition sample_folder :: raw_folder where
  "sample_folder = \<lparr>
     raw_coders = [
       \<lparr>raw_method_id = [3], raw_coder_inputs = 1, raw_coder_outputs = 1, raw_coder_properties = [0]\<rparr>,
       \<lparr>raw_method_id = [0x21], raw_coder_inputs = 1, raw_coder_outputs = 1,
        raw_coder_properties = [24]\<rparr>],
     raw_input_streams = 2, raw_output_streams = 2,
     raw_bind_pairs = [\<lparr>bind_input = 0, bind_output = 1\<rparr>],
     raw_packed_streams = 1, raw_packed_indices = None, raw_unpack_sizes = [10, 10]\<rparr>"

lemma folder_graph_characterised_witness:
  "case validate_folder_graph sample_folder (sample_session []) of
     (Inr g, t) \<Rightarrow> graph_spec sample_folder g
   | (Inl e, t) \<Rightarrow> resource_error e \<or> (\<nexists>g. graph_spec sample_folder g)"
  by (rule folder_graph_characterised) (simp_all add: sample_folder_def sample_session_def)

end
