(* ===== verification/Pipeline_Laws.thy ===== *)
theory Pipeline_Laws
  imports Header_Parser Graph_Laws
begin

text \<open>
  The relations of the bounded reader hold across graph validation, header validation and the entry
  points of \<^verbatim>\<open>parser.rs\<close>: the budget is conserved, the environment is left alone, a run that succeeds
  saw no cancellation, and the cursor stays in its slice.
\<close>


section \<open>Inheritance\<close>

lemma preserves_sum_cases:
  "(\<And>e. preserves failing R (f e)) \<Longrightarrow> (\<And>x. preserves failing R (g x)) \<Longrightarrow>
     preserves failing R (case v of Inl e \<Rightarrow> f e | Inr x \<Rightarrow> g x)"
  by (cases v) auto

context counted_reader begin

lemmas session_keeps =
  reader_keeps keeps_read_u8 keeps_read_u32_le keeps_read_uint keeps_read_bytes
  header.keeps_parse_bits_loop header.keeps_new_vec keeps_crc32_with_control

lemma keeps_false_vector: "preserves failing R (false_vector n d)"
  unfolding false_vector_def by (intro session_keeps)

lemma keeps_owner_for_port: "preserves failing R (owner_for_port os i d)"
  unfolding owner_for_port_def by (intro session_keeps)

lemma keeps_validate_bind_pair: "preserves failing R (validate_bind_pair p iu ou)"
  unfolding validate_bind_pair_def by (intro session_keeps)

lemma keeps_collect_edge: "preserves failing R (collect_edge io oo acc p)"
  unfolding collect_edge_def by (intro session_keeps keeps_owner_for_port)

lemma keeps_release_edge: "preserves failing R (release_edge c acc e)"
  unfolding release_edge_def by (intro session_keeps)

lemma topological_loop_rel:
  "topological_loop edges ind ready cursor order s = (r, t) \<Longrightarrow> observed failing r \<Longrightarrow> R s t"
proof (induction "waiting ind + length ready - cursor" arbitrary: ind ready cursor order s
    rule: less_induct)
  case less
  show ?case
  proof (cases "item_get ready cursor")
    case None
    with less.prems show ?thesis
      by (simp add: topological_loop.simps [of edges ind ready] ok_def rel_refl)
  next
    case (Some c)
    let ?head = "and_then (usize_add cursor 1 ''topological queue index overflows'') (\<lambda>cursor'.
          and_then (checkpoint 1) (\<lambda>_.
          and_then (usize_to_u64 c ''coder index is not representable as u64'') (\<lambda>index.
          and_then (for_fold edges (ind, ready) (release_edge c)) (\<lambda>acc.
          ok (acc, cursor', order @ [index])))))"
    have keeps: "preserves failing R ?head"
      by (intro session_keeps keeps_release_edge)
    have split: "topological_loop edges ind ready cursor order s
        = and_then ?head (\<lambda>(acc, cursor', order'). topological_loop edges (fst acc) (snd acc) cursor' order') s"
      using Some
      by (simp add: topological_loop.simps [of edges ind ready] and_then_assoc
          cong del: and_then_weak_cong)
    obtain h u where head: "?head s = (h, u)" by force
    show ?thesis
    proof (cases h)
      case (Inl e)
      with split head less.prems keeps show ?thesis
        by (auto simp: and_then_run_Inl preserves_def)
    next
      case (Inr v)
      obtain acc cursor' order' where v: "v = (acc, cursor', order')" by (cases v) auto
      have "R s u" using head Inr keeps by (auto simp: preserves_def)
      have rest: "topological_loop edges (fst acc) (snd acc) cursor' order' u = (r, t)"
        using split head Inr v less.prems(1) by (simp add: and_then_run_Inr)
      from head Inr v obtain w x where "for_fold edges (ind, ready) (release_edge c) w = (Inr acc, x)"
        and c': "cursor' = cursor + 1"
        by (auto simp: and_then_success ok_success usize_add_success)
      then have "queue_bound ind ready acc" by (blast intro: release_edges_bound)
      with Some c' have "waiting (fst acc) + length (snd acc) - cursor' < waiting ind + length ready - cursor"
        by (auto simp: queue_bound_def item_get_eq_Some)
      from less.hyps [OF this rest less.prems(2)] \<open>R s u\<close> show ?thesis by (blast intro: rel_trans)
    qed
  qed
qed

lemma keeps_topological_order: "preserves failing R (topological_order n io oo ps)"
  unfolding topological_order_def
  by (intro session_keeps keeps_collect_edge preservesI [of "topological_loop _ _ _ _ _"])
    (rule topological_loop_rel)

lemma keeps_validate_folder_graph: "preserves failing R (validate_folder_graph raw)"
  unfolding validate_folder_graph_def port_owners_def collect_owners_def bind_all_def
    find_root_output_def validate_packed_inputs_def choose_packed_def mark_packed_def
    check_partition_def
  by (intro session_keeps keeps_false_vector keeps_validate_bind_pair keeps_topological_order)

lemma keeps_push_repeated: "preserves failing R (push_repeated n v d)"
  unfolding push_repeated_def by (intro session_keeps)

lemma keeps_value_at: "preserves failing R (value_at vs i d)"
  unfolding value_at_def by (intro session_keeps)

lemma keeps_copy_properties: "preserves failing R (copy_properties ps)"
  unfolding copy_properties_def by (intro session_keeps)

lemma keeps_read_u64: "preserves failing R read_u64"
  unfolding read_u64_def by (intro session_keeps)

lemma keeps_property_bits: "preserves failing R (property_bits n)"
  unfolding property_bits_def by (intro session_keeps keeps_push_repeated)

lemma keeps_parse_optional_bits: "preserves failing R (parse_optional_bits n)"
  unfolding parse_optional_bits_def by (intro session_keeps keeps_property_bits keeps_push_repeated)

lemma keeps_parse_defined_values:
  "preserves failing R m \<Longrightarrow> preserves failing R (parse_defined_values data n m)"
  unfolding parse_defined_values_def by (intro session_keeps keeps_parse_optional_bits)

lemma keeps_parse_plain_bits: "preserves failing R (parse_plain_bits p n)"
  unfolding parse_plain_bits_def by (intro session_keeps keeps_property_bits)

lemma keeps_validate_data_index: "preserves failing R (validate_data_index i n)"
  unfolding validate_data_index_def by (intro session_keeps)

lemmas value_keeps =
  session_keeps keeps_push_repeated keeps_value_at keeps_copy_properties keeps_read_u64
  keeps_property_bits keeps_parse_optional_bits keeps_parse_defined_values keeps_parse_plain_bits
  keeps_validate_data_index

lemma keeps_validate_coder_properties: "preserves failing R (validate_coder_properties m p lim)"
  unfolding validate_coder_properties_def lzma_dictionary_def lzma2_dictionary_def
    validate_aes_properties_def little_endian_u32_def parse_ppmd_properties_def
  by (intro value_keeps)

lemma keeps_validate_coder: "preserves failing R (validate_coder lim p c)"
  unfolding validate_coder_def by (intro value_keeps keeps_validate_coder_properties)

lemma keeps_validate_folder: "preserves failing R (validate_folder raw crc first lim)"
  unfolding validate_folder_def
  by (intro value_keeps keeps_validate_coder keeps_validate_folder_graph)

lemma keeps_substream_sizes: "preserves failing R (substream_sizes root n sizes c)"
  unfolding substream_sizes_def explicit_substream_def by (intro value_keeps)

lemma keeps_build_substreams: "preserves failing R (build_substreams draft n sizes c crcs d)"
  unfolding build_substreams_def substream_step_def
  by (intro value_keeps keeps_substream_sizes)

lemma keeps_validate_pack_ranges: "preserves failing R (validate_pack_ranges p env bytes rs)"
  unfolding validate_pack_ranges_def pack_range_def by (intro value_keeps)

lemma keeps_draft_folders: "preserves failing R (draft_folders u n lim)"
  unfolding draft_folders_def draft_folder_def by (intro value_keeps keeps_validate_folder)

lemma keeps_complete_folders: "preserves failing R (complete_folders sub drafts lim)"
  unfolding complete_folders_def complete_folder_def by (intro value_keeps keeps_build_substreams)

lemma keeps_validate_streams: "preserves failing R (validate_streams raw env bytes lim rs)"
  unfolding validate_streams_def
  by (intro value_keeps keeps_validate_pack_ranges keeps_draft_folders keeps_complete_folders)

lemma keeps_check_non_overlapping_ranges: "preserves failing R (check_non_overlapping_ranges rs)"
  unfolding check_non_overlapping_ranges_def check_sorted_ranges_def by (intro value_keeps)

lemma keeps_collect_stream_mappings: "preserves failing R (collect_stream_mappings info)"
  unfolding collect_stream_mappings_def by (intro value_keeps)


subsection \<open>The two loops over name bytes\<close>

lemma keeps_scan_unit: "preserves failing R (scan_unit lim acc)"
  unfolding scan_unit_def by (intro value_keeps)

lemma keeps_read_code_unit: "preserves failing R read_code_unit"
  unfolding read_code_unit_def by (intro value_keeps)

lemma scan_names_rel:
  "scan_names lim n acc s = (r, t) \<Longrightarrow> observed failing r \<Longrightarrow> R s t"
proof (induction lim n acc s arbitrary: r t rule: scan_names.induct)
  case (1 lim n acc s)
  show ?case
  proof (cases "fst acc < n")
    case False
    with 1(2) show ?thesis by (simp add: scan_names.simps [of lim n acc] run rel_refl)
  next
    case True
    obtain h u where head: "scan_unit lim acc s = (h, u)" by force
    show ?thesis
    proof (cases h)
      case (Inl e)
      with True head 1(2,3) keeps_scan_unit [of lim acc] show ?thesis
        by (auto simp: scan_names.simps [of lim n acc] and_then_run_Inl preserves_def)
    next
      case (Inr v)
      with True head 1(2) have rest: "scan_names lim n v u = (r, t)"
        by (simp add: scan_names.simps [of lim n acc] and_then_run_Inr)
      have "R s u" using head Inr keeps_scan_unit [of lim acc] by (auto simp: preserves_def)
      moreover have "R u t" using 1(1) [OF True _ rest 1(3)] head Inr by simp
      ultimately show ?thesis by (rule rel_trans)
    qed
  qed
qed

lemma read_name_rel: "read_name name s = (r, t) \<Longrightarrow> observed failing r \<Longrightarrow> R s t"
proof (induction name s arbitrary: r t rule: read_name.induct)
  case (1 name s)
  note loop = 1(2) [unfolded read_name.simps [of name s]]
  obtain h u where head: "read_code_unit s = (h, u)" by force
  have first: "observed failing h \<Longrightarrow> R s u"
    using head keeps_read_code_unit by (auto simp: preserves_def)
  show ?case
  proof (cases h)
    case (Inl e)
    with loop head first 1(3) show ?thesis by (auto simp: and_then_run_Inl)
  next
    case (Inr c)
    then have "R s u" using first by simp
    show ?thesis
    proof (cases "c = 0")
      case True
      with loop head Inr \<open>R s u\<close> show ?thesis by (simp add: run)
    next
      case False
      obtain q v where item: "try_reserve 1 u = (q, v)" by force
      have second: "observed failing q \<Longrightarrow> R u v"
        using item keeps_try_reserve [of 1] by (auto simp: preserves_def)
      show ?thesis
      proof (cases q)
        case (Inl e)
        with loop head \<open>h = Inr c\<close> False item have "r = Inl e" and "t = v" by (simp_all add: run)
        with second Inl 1(3) \<open>R s u\<close> show ?thesis using rel_trans by auto
      next
        case (Inr w)
        with loop head \<open>h = Inr c\<close> False item have rec: "read_name (name @ [c]) v = (r, t)"
          by (simp add: run)
        have "read_code_unit s = (Inr c, u)" using head \<open>h = Inr c\<close> by simp
        moreover have "try_reserve 1 u = (Inr w, v)" using item Inr by simp
        ultimately have "R v t" using 1(1) False rec 1(3) by blast
        moreover have "R u v" using second Inr by simp
        ultimately show ?thesis using \<open>R s u\<close> rel_trans by blast
      qed
    qed
  qed
qed

lemma keeps_parse_names: "preserves failing R (parse_names data n lim)"
proof -
  have "preserves failing R (scan_names lim n acc)" for acc
    by (rule preservesI) (rule scan_names_rel)
  moreover have "preserves failing R (read_name name)" for name
    by (rule preservesI) (rule read_name_rel)
  ultimately show ?thesis
    unfolding parse_names_def by (intro value_keeps)
qed


subsection \<open>Files and the header\<close>

lemma keeps_apply_external: "preserves failing R (apply_external tag vs n ext)"
  unfolding apply_external_def
  by (cases vs) (simp_all only: property_values.case, (intro value_keeps)+)

lemma keeps_file_property:
  "(\<And>data. preserves failing R (m data)) \<Longrightarrow> preserves failing R (file_property tag slot m n ext)"
  unfolding file_property_def by (intro value_keeps keeps_apply_external)

lemma keeps_assign_slot: "preserves failing R (assign_slot slots p)"
  unfolding assign_slot_def known_property_slot_def by (intro value_keeps)

lemma keeps_file_bits: "preserves failing R (file_bits slots n)"
  unfolding file_bits_def by (intro value_keeps)

lemma keeps_file_values: "preserves failing R (file_values slots n m lim)"
  unfolding file_values_def by (intro value_keeps keeps_file_property keeps_parse_names)

lemma keeps_build_entry: "preserves failing R (build_entry es efs anti cols ms acc i)"
  unfolding build_entry_def by (intro value_keeps)

lemma keeps_validate_files: "preserves failing R (validate_files raw main additional lim)"
  unfolding validate_files_def
  by (intro value_keeps keeps_assign_slot keeps_file_bits keeps_file_values
      keeps_collect_stream_mappings keeps_build_entry)

lemma keeps_validate_plain_header: "preserves failing R (validate_plain_header raw env bytes lim)"
  unfolding validate_plain_header_def validate_optional_streams_def
  by (intro value_keeps keeps_validate_streams keeps_check_non_overlapping_ranges
      keeps_validate_files)

lemma keeps_validate_next_header: "preserves failing R (validate_next_header raw env bytes lim)"
  unfolding validate_next_header_def
  by (cases raw) (simp_all only: raw_next_header.case, (intro value_keeps keeps_validate_plain_header
      keeps_validate_streams keeps_validate_pack_ranges keeps_check_non_overlapping_ranges)+)


subsection \<open>Candidates and the entry points\<close>

lemma keeps_parse_candidate: "preserves failing R (parse_candidate bytes i lim)"
  unfolding parse_candidate_def read_fixed_header_def parse_raw_signature_header_def
    signature_fields_def next_header_kind_of_def
  by (intro value_keeps)

lemma keeps_sfx_scan_bytes: "preserves failing R (sfx_scan_bytes bytes lim n)"
  unfolding sfx_scan_bytes_def by (intro value_keeps)

lemma keeps_candidate_declares_more_bytes:
  "preserves failing R (candidate_declares_more_bytes bytes i lim)"
  unfolding candidate_declares_more_bytes_def read_fixed_header_def
    parse_raw_signature_header_def signature_fields_def
  by (intro value_keeps)

lemma keeps_scan_declarations: "preserves failing R (scan_declarations bytes lim ws)"
  by (induction bytes lim ws rule: scan_declarations.induct)
    (simp_all only: scan_declarations.simps,
      (intro value_keeps keeps_candidate_declares_more_bytes | assumption)+)

lemma keeps_archive_declares_more_bytes:
  "preserves failing R (archive_declares_more_bytes bytes lim)"
  unfolding archive_declares_more_bytes_def
  by (intro value_keeps keeps_candidate_declares_more_bytes keeps_sfx_scan_bytes
      keeps_scan_declarations)

end

text \<open>
  A scan goes on after a failed candidate, so a relation must count the failures that the scan
  survives; the entry points moreover run on counters of their own.
\<close>

locale archive_relation = counted_reader failing R
  for failing :: "error \<Rightarrow> bool" and R :: "session \<Rightarrow> session \<Rightarrow> bool" +
  assumes survived: "\<not> candidate_error_is_fatal e \<Longrightarrow> failing e"
    and rel_own_counters:
      "R (s\<lparr>counters := parse_state_default\<rparr>) t \<Longrightarrow> R s (t\<lparr>counters := counters s\<rparr>)"
begin

lemma keeps_with_counters: "preserves failing R m \<Longrightarrow> preserves failing R (with_counters m)"
  by (auto simp: preserves_def with_counters_def split: prod.splits intro: rel_own_counters)

lemma keeps_recover:
  assumes m: "preserves failing R m" and rest: "\<And>e. \<not> candidate_error_is_fatal e \<Longrightarrow> preserves failing R (f e)"
  shows "preserves failing R (and_then (attempt m) (\<lambda>r. case r of
           Inl e \<Rightarrow> if candidate_error_is_fatal e then err e else f e | Inr v \<Rightarrow> ok v))"
proof (rule preservesI)
  fix s r u
  assume run: "and_then (attempt m) (\<lambda>r. case r of
      Inl e \<Rightarrow> if candidate_error_is_fatal e then err e else f e | Inr v \<Rightarrow> ok v) s = (r, u)"
    and r: "observed failing r"
  obtain q t where q: "m s = (q, t)" by force
  show "R s u"
  proof (cases q)
    case (Inr v)
    with run q m show ?thesis by (auto simp: attempt_def and_then_def ok_def preserves_def)
  next
    case (Inl e)
    show ?thesis
    proof (cases "candidate_error_is_fatal e")
      case True
      with run q Inl r m show ?thesis by (auto simp: attempt_def and_then_def err_def preserves_def)
    next
      case False
      with run q Inl have "f e t = (r, u)" by (simp add: attempt_def and_then_def)
      with rest [OF False] r have "R t u" by (auto simp: preserves_def)
      moreover have "R s t" using q Inl m survived [OF False] by (auto simp: preserves_def)
      ultimately show ?thesis by (rule rel_trans [rotated])
    qed
  qed
qed

lemma keeps_scan_candidates:
  "(\<And>i. preserves failing R (candidate i)) \<Longrightarrow>
     preserves failing R (scan_candidates candidate ws first_error)"
proof (induction candidate ws first_error rule: scan_candidates.induct)
  case (1 candidate first_error)
  show ?case unfolding scan_candidates.simps by (intro value_keeps)
next
  case (2 candidate i window rest first_error)
  have found: "preserves failing R (and_then (usize_to_u64 i d) (\<lambda>o64.
      and_then (attempt (candidate o64)) (\<lambda>r. case r of
        Inl e \<Rightarrow> if candidate_error_is_fatal e then err e
                 else scan_candidates candidate rest (if first_error = None then Some e else first_error)
      | Inr v \<Rightarrow> ok v)))" if "window = SIGNATURE" for d
  proof (rule keeps_and_then [OF keeps_usize_to_u64], rule keeps_recover [OF 2(3)])
    fix e assume "\<not> candidate_error_is_fatal e"
    then show "preserves failing R (scan_candidates candidate rest
        (if first_error = None then Some e else first_error))"
      using that 2(2,3) by blast
  qed
  show ?case
    unfolding scan_candidates.simps
    by (rule keeps_and_then [OF keeps_checkpoint], rule keeps_if) (use 2(1,3) found in blast)+
qed

lemma keeps_first_candidate:
  "(\<And>i. preserves failing R (candidate i)) \<Longrightarrow>
     preserves failing R (first_candidate bytes lim candidate)"
  unfolding first_candidate_def
  by (intro value_keeps keeps_sfx_scan_bytes keeps_scan_candidates)

lemma keeps_parse_archive_header: "preserves failing R (parse_archive_header bytes lim)"
  unfolding parse_archive_header_def by (intro keeps_first_candidate keeps_parse_candidate)

lemma keeps_parse_archive: "preserves failing R (parse_archive bytes lim)"
  unfolding parse_archive_def validated_candidate_def
  by (intro keeps_first_candidate value_keeps keeps_parse_candidate keeps_with_counters
      header.keeps_parse_next_header keeps_validate_next_header)

lemma keeps_parse_decoded_next_header:
  "preserves failing R (parse_decoded_next_header bytes env archive lim)"
  unfolding parse_decoded_next_header_def
  by (intro value_keeps keeps_with_counters header.keeps_parse_next_header
      keeps_validate_next_header)

lemma keeps_parse_next_header_from_external_folders:
  "preserves failing R (parse_next_header_from_external_folders bytes i folders env archive lim)"
  unfolding parse_next_header_from_external_folders_def
  by (intro value_keeps keeps_with_counters header.keeps_parse_next_header_with_external_folders
      keeps_validate_next_header)

end

interpretation budget_law: archive_relation any_error budget_evolves
  by unfold_locales (simp_all add: budget_evolves_def)

interpretation environment: archive_relation any_error environment_kept
  by unfold_locales (simp_all add: environment_kept_def)

interpretation cancellation: archive_relation uncancelled_error uncancelled
  by unfold_locales (auto simp: uncancelled_def)

interpretation cursor: archive_relation any_error cursor_advances
  by unfold_locales (auto simp: cursor_advances_def)


section \<open>Properties of a whole parse\<close>

text \<open>C4: Parsing an archive conserves the work budget on every outcome, also when candidates failed
  on the way: what leaves the bound enters the counter, and the counter never goes down.\<close>

theorem archive_budget_conserved: "budget_evolves s (snd (parse_archive bytes lim s))"
  by (rule preserves_all_snd [OF budget_law.keeps_parse_archive])

text \<open>C3: Cancellation is never swallowed: a parse that ends in a value, or in any error other than
  cancellation, has not loaded a cancelled token, also when the scan survived failed candidates.\<close>

theorem archive_cancellation_reported:
  "case parse_archive bytes lim s of (r, t) \<Rightarrow> r = Inl Cancelled \<or> uncancelled s t"
proof (cases "parse_archive bytes lim s")
  case (Pair r t)
  then show ?thesis
    using cancellation.keeps_parse_archive [of bytes lim]
    by (cases r) (fastforce simp: preserves_def)+
qed

end
