(* ===== verification/Safe_Path.thy ===== *)
theory Safe_Path
  imports Prelude
begin

text \<open>
  \<^verbatim>\<open>path.rs\<close>: the path policy for archive names, once for UTF-8 strings (their bytes) and once for
  raw UTF-16 code units.
\<close>

datatype unsafe_path_reason = Empty | Nul | Absolute | Unc | Drive | Traversal

fun reason_message :: "unsafe_path_reason \<Rightarrow> string" where
  "reason_message Empty = ''archive path is empty''"
| "reason_message Nul = ''archive path contains NUL''"
| "reason_message Absolute = ''archive path is absolute''"
| "reason_message Unc = ''archive path has a UNC or device prefix''"
| "reason_message Drive = ''archive path has a drive prefix''"
| "reason_message Traversal = ''archive path contains a parent component''"

definition is_byte_separator :: "u8 \<Rightarrow> bool" where
  "is_byte_separator byte \<longleftrightarrow> byte = 0x2F \<or> byte = 0x5C"

definition is_u16_separator :: "u16 \<Rightarrow> bool" where
  "is_u16_separator unit \<longleftrightarrow> unit = 0x2F \<or> unit = 0x5C"

text \<open>\<open>slice.split(p)\<close>: the components between the separators, empty ones included.\<close>

fun split_on :: "('a \<Rightarrow> bool) \<Rightarrow> 'a list \<Rightarrow> 'a list list" where
  "split_on p [] = [[]]"
| "split_on p (x # xs) =
     (if p x then [] # split_on p xs
      else (case split_on p xs of c # cs \<Rightarrow> (x # c) # cs | [] \<Rightarrow> [[x]]))"

text \<open>\<open>path\<close> is the UTF-8 encoding of the \<open>str\<close>.\<close>

definition validate_safe_path :: "byte_slice \<Rightarrow> unsafe_path_reason + unit" where
  "validate_safe_path path =
     (case path of
        [] \<Rightarrow> Inl Empty
      | first # rest \<Rightarrow>
          if list_ex (\<lambda>byte. byte = 0) path then Inl Nul
          else
            let second = (case rest of [] \<Rightarrow> None | b # _ \<Rightarrow> Some b) in
            if is_byte_separator first then
              (if (case second of Some b \<Rightarrow> is_byte_separator b | None \<Rightarrow> False) then Inl Unc
               else Inl Absolute)
            else if ((0x41 \<le> first \<and> first \<le> 0x5A) \<or> (0x61 \<le> first \<and> first \<le> 0x7A)) \<and> second = Some 0x3A
            then Inl Drive
            else if list_ex (\<lambda>c. c = [0x2E, 0x2E]) (split_on is_byte_separator path) then Inl Traversal
            else Inr ())"

definition validate_safe_utf16_path :: "u16 list \<Rightarrow> unsafe_path_reason + unit" where
  "validate_safe_utf16_path path =
     (case path of
        [] \<Rightarrow> Inl Empty
      | first # rest \<Rightarrow>
          if 0 \<in> set path then Inl Nul
          else
            let second = (case rest of [] \<Rightarrow> None | b # _ \<Rightarrow> Some b) in
            if is_u16_separator first then
              (if (case second of Some b \<Rightarrow> is_u16_separator b | None \<Rightarrow> False) then Inl Unc
               else Inl Absolute)
            else
              let is_ascii_letter =
                (0x61 \<le> first \<and> first \<le> 0x7A) \<or> (0x41 \<le> first \<and> first \<le> 0x5A) in
              if is_ascii_letter \<and> second = Some 0x3A then Inl Drive
              else if list_ex (\<lambda>c. c = [0x2E, 0x2E]) (split_on is_u16_separator path) then Inl Traversal
              else Inr ())"


section \<open>What a safe path is\<close>

lemma split_on_Nil [simp]: "split_on p xs \<noteq> []"
  by (cases xs) (auto split: list.splits)

lemma first_component: "hd (split_on p xs) = takeWhile (\<lambda>x. \<not> p x) xs"
  by (induction xs) (auto split: list.splits)

lemma takeWhile_component:
  "c = takeWhile (\<lambda>x. \<not> p x) xs \<longleftrightarrow>
     (\<exists>after. xs = c @ after \<and> (\<forall>x \<in> set c. \<not> p x) \<and> (after = [] \<or> p (hd after)))"
proof
  assume c: "c = takeWhile (\<lambda>x. \<not> p x) xs"
  have "xs = c @ dropWhile (\<lambda>x. \<not> p x) xs" by (simp add: c)
  moreover have "dropWhile (\<lambda>x. \<not> p x) xs = [] \<or> p (hd (dropWhile (\<lambda>x. \<not> p x) xs))"
    using hd_dropWhile [of "\<lambda>x. \<not> p x" xs] by blast
  ultimately show "\<exists>after. xs = c @ after \<and> (\<forall>x \<in> set c. \<not> p x) \<and> (after = [] \<or> p (hd after))"
    using c set_takeWhileD [of _ "\<lambda>x. \<not> p x" xs] by (intro exI [of _ "dropWhile (\<lambda>x. \<not> p x) xs"]) blast
next
  assume "\<exists>after. xs = c @ after \<and> (\<forall>x \<in> set c. \<not> p x) \<and> (after = [] \<or> p (hd after))"
  then obtain after where "xs = c @ after" "\<forall>x \<in> set c. \<not> p x" "after = [] \<or> p (hd after)" by blast
  then show "c = takeWhile (\<lambda>x. \<not> p x) xs"
    by (cases after) (auto simp: takeWhile_append takeWhile_eq_all_conv [THEN iffD2, symmetric])
qed

lemma split_Cons:
  "(\<exists>b s r. x # xs = b @ s # r \<and> Q s r) \<longleftrightarrow> Q x xs \<or> (\<exists>b s r. xs = b @ s # r \<and> Q s r)"
  by (metis append_Cons append_Nil list.exhaust list.inject)

lemma later_component:
  "c \<in> set (tl (split_on p xs)) \<longleftrightarrow>
     (\<exists>before s rest. xs = before @ s # rest \<and> p s \<and> c = takeWhile (\<lambda>x. \<not> p x) rest)"
proof (induction xs)
  case (Cons x xs)
  obtain d ds where split: "split_on p xs = d # ds" by (cases "split_on p xs") auto
  have d: "d = takeWhile (\<lambda>x. \<not> p x) xs" using first_component [of p xs] split by simp
  show ?case
  proof (cases "p x")
    case True
    with Cons split d show ?thesis unfolding split_Cons by simp
  next
    case False
    with Cons split show ?thesis unfolding split_Cons by simp
  qed
qed simp

text \<open>The components are the maximal runs without a separator.\<close>

lemma component_iff:
  "c \<in> set (split_on p xs) \<longleftrightarrow>
     (\<exists>before after. xs = before @ c @ after \<and> (\<forall>x \<in> set c. \<not> p x) \<and>
        (before = [] \<or> p (last before)) \<and> (after = [] \<or> p (hd after)))"
proof -
  have "c \<in> set (split_on p xs) \<longleftrightarrow> c = hd (split_on p xs) \<or> c \<in> set (tl (split_on p xs))"
    by (cases "split_on p xs") auto
  also have "\<dots> \<longleftrightarrow> (\<exists>before after. xs = before @ c @ after \<and> (\<forall>x \<in> set c. \<not> p x) \<and>
        (before = [] \<or> p (last before)) \<and> (after = [] \<or> p (hd after)))" (is "?l \<longleftrightarrow> ?r")
  proof
    assume ?l
    then show ?r
      unfolding first_component later_component takeWhile_component
      by (metis append.assoc append_Cons append_Nil last_snoc)
  next
    assume ?r
    then obtain before after where eq: "xs = before @ c @ after" and c: "\<forall>x \<in> set c. \<not> p x"
      and before: "before = [] \<or> p (last before)" and after: "after = [] \<or> p (hd after)" by blast
    then have run: "c = takeWhile (\<lambda>x. \<not> p x) (c @ after)"
      unfolding takeWhile_component by blast
    show ?l
    proof (cases "before = []")
      case True
      with run eq show ?thesis by (simp add: first_component)
    next
      case False
      then have "xs = butlast before @ last before # c @ after" using eq by simp
      with False before run show ?thesis unfolding later_component by blast
    qed
  qed
  finally show ?thesis .
qed

text \<open>The verdict, in the order of the tests, and the policy on code points.\<close>

definition verdict :: "bool \<Rightarrow> bool \<Rightarrow> bool \<Rightarrow> bool \<Rightarrow> bool \<Rightarrow> bool \<Rightarrow> unsafe_path_reason + unit" where
  "verdict emp nul root double drive dots =
     (if emp then Inl Empty else if nul then Inl Nul else if double then Inl Unc
      else if root then Inl Absolute else if drive then Inl Drive
      else if dots then Inl Traversal else Inr ())"

definition separator :: "nat \<Rightarrow> bool" where
  "separator c \<longleftrightarrow> c = 0x2F \<or> c = 0x5C"

definition letter :: "nat \<Rightarrow> bool" where
  "letter c \<longleftrightarrow> (0x41 \<le> c \<and> c \<le> 0x5A) \<or> (0x61 \<le> c \<and> c \<le> 0x7A)"

text \<open>The path starts with a unit of the first kind, and with one of the second kind behind it.\<close>

definition starts :: "('a \<Rightarrow> bool) \<Rightarrow> 'a list \<Rightarrow> bool" where
  "starts p xs \<longleftrightarrow> (case xs of x # _ \<Rightarrow> p x | [] \<Rightarrow> False)"

definition starts2 :: "('a \<Rightarrow> bool) \<Rightarrow> ('a \<Rightarrow> bool) \<Rightarrow> 'a list \<Rightarrow> bool" where
  "starts2 p q xs \<longleftrightarrow> (case xs of x # y # _ \<Rightarrow> p x \<and> q y | _ \<Rightarrow> False)"

definition path_policy :: "nat list \<Rightarrow> unsafe_path_reason + unit" where
  "path_policy path =
     verdict (path = []) (0 \<in> set path) (starts separator path) (starts2 separator separator path)
       (starts2 letter (\<lambda>c. c = 0x3A) path) ([0x2E, 0x2E] \<in> set (split_on separator path))"

lemma starts_map: "starts p (map f xs) = starts (\<lambda>x. p (f x)) xs"
  "starts2 p q (map f xs) = starts2 (\<lambda>x. p (f x)) (\<lambda>x. q (f x)) xs"
  by (auto simp: starts_def starts2_def split: list.splits)

lemma split_on_map: "split_on p (map f xs) = map (map f) (split_on (\<lambda>x. p (f x)) xs)"
  by (induction xs) (auto split: list.splits)

lemma dots_map:
  assumes "inj f" and "f d = d'"
  shows "[d', d'] \<in> set (map (map f) cs) \<longleftrightarrow> [d, d] \<in> set cs"
  using assms by (force simp: image_iff inj_eq dest: injD)

lemma unat_eqs:
  "unat (w :: u8) = 47 \<longleftrightarrow> w = 47" "unat w = 92 \<longleftrightarrow> w = 92" "unat w = 58 \<longleftrightarrow> w = 58"
  "unat w = 46 \<longleftrightarrow> w = 46"
  "unat (v :: u16) = 47 \<longleftrightarrow> v = 47" "unat v = 92 \<longleftrightarrow> v = 92" "unat v = 58 \<longleftrightarrow> v = 58"
  "unat v = 46 \<longleftrightarrow> v = 46"
  by (simp_all add: word_unat_eq_iff)

lemma zero_unat: "0 \<in> set (map unat path) \<longleftrightarrow> 0 \<in> set path"
  by (auto simp: unat_eq_0 image_iff)

lemma validate_safe_path_policy: "validate_safe_path path = path_policy (map unat path)"
proof -
  let ?letter = "\<lambda>b :: u8. (0x41 \<le> b \<and> b \<le> 0x5A) \<or> (0x61 \<le> b \<and> b \<le> 0x7A)"
  have sep: "(\<lambda>b :: u8. separator (unat b)) = is_byte_separator"
    by (auto simp: separator_def is_byte_separator_def unat_eqs fun_eq_iff)
  have alpha: "(\<lambda>b :: u8. letter (unat b)) = ?letter" and colon: "(\<lambda>b :: u8. unat b = 0x3A) = (\<lambda>b. b = 0x3A)"
    by (auto simp: letter_def word_le_nat_alt unat_eqs fun_eq_iff)
  have dots: "[0x2E, 0x2E] \<in> set (split_on separator (map unat path)) \<longleftrightarrow>
      [0x2E, 0x2E] \<in> set (split_on is_byte_separator path)"
    unfolding split_on_map sep
    using dots_map [where f = unat and d = "0x2E :: u8" and cs = "split_on is_byte_separator path"]
    by (simp add: inj_def word_unat_eq_iff)
  have "path_policy (map unat path) =
     verdict (path = []) (0 \<in> set path) (starts is_byte_separator path)
       (starts2 is_byte_separator is_byte_separator path) (starts2 ?letter (\<lambda>b. b = 0x3A) path)
       ([0x2E, 0x2E] \<in> set (split_on is_byte_separator path))"
    by (simp only: path_policy_def zero_unat starts_map sep alpha colon dots map_is_Nil_conv)
  also have "\<dots> = validate_safe_path path"
    by (auto simp: validate_safe_path_def verdict_def starts_def starts2_def Let_def list_ex_iff
        simp del: split_on.simps split: list.split)
  finally show ?thesis by simp
qed

lemma validate_safe_utf16_path_policy: "validate_safe_utf16_path path = path_policy (map unat path)"
proof -
  let ?letter = "\<lambda>b :: u16. (0x61 \<le> b \<and> b \<le> 0x7A) \<or> (0x41 \<le> b \<and> b \<le> 0x5A)"
  have sep: "(\<lambda>b :: u16. separator (unat b)) = is_u16_separator"
    by (auto simp: separator_def is_u16_separator_def unat_eqs fun_eq_iff)
  have alpha: "(\<lambda>b :: u16. letter (unat b)) = ?letter" and colon: "(\<lambda>b :: u16. unat b = 0x3A) = (\<lambda>b. b = 0x3A)"
    by (auto simp: letter_def word_le_nat_alt unat_eqs fun_eq_iff)
  have dots: "[0x2E, 0x2E] \<in> set (split_on separator (map unat path)) \<longleftrightarrow>
      [0x2E, 0x2E] \<in> set (split_on is_u16_separator path)"
    unfolding split_on_map sep
    using dots_map [where f = unat and d = "0x2E :: u16" and cs = "split_on is_u16_separator path"]
    by (simp add: inj_def word_unat_eq_iff)
  have "path_policy (map unat path) =
     verdict (path = []) (0 \<in> set path) (starts is_u16_separator path)
       (starts2 is_u16_separator is_u16_separator path) (starts2 ?letter (\<lambda>b. b = 0x3A) path)
       ([0x2E, 0x2E] \<in> set (split_on is_u16_separator path))"
    by (simp only: path_policy_def zero_unat starts_map sep alpha colon dots map_is_Nil_conv)
  also have "\<dots> = validate_safe_utf16_path path"
    by (auto simp: validate_safe_utf16_path_def verdict_def starts_def starts2_def Let_def list_ex_iff
        simp del: split_on.simps split: list.split)
  finally show ?thesis by simp
qed


section \<open>Encodings\<close>

text \<open>
  An encoding of code points that keeps ASCII as it is and encodes everything else without ASCII
  units.  The policy sees through it.
\<close>

locale ascii_transparent =
  fixes enc :: "nat \<Rightarrow> nat list"
  assumes enc_ascii: "c < 0x80 \<Longrightarrow> enc c = [c]"
    and enc_other: "0x80 \<le> c \<Longrightarrow> enc c \<noteq> []"
    and enc_other_units: "0x80 \<le> c \<Longrightarrow> u \<in> set (enc c) \<Longrightarrow> 0x80 \<le> u"
begin

definition encode :: "nat list \<Rightarrow> nat list" where
  "encode cs = concat (map enc cs)"

lemma encode_simps [simp]: "encode [] = []" "encode (c # cs) = enc c @ encode cs"
  by (simp_all add: encode_def)

lemma enc_cases:
  obtains "c < 0x80" "enc c = [c]"
  | u us where "0x80 \<le> c" "enc c = u # us" "\<forall>v \<in> set (u # us). 0x80 \<le> v"
  using enc_ascii enc_other enc_other_units by (metis leI list.exhaust)

lemma encode_eq_Nil: "encode cs = [] \<longleftrightarrow> cs = []"
proof (cases cs)
  case (Cons c ds)
  then show ?thesis by (cases rule: enc_cases [of c]) auto
qed simp

lemma starts_encode:
  assumes "\<And>u. p u \<Longrightarrow> u < 0x80"
  shows "starts p (encode cs) = starts p cs"
proof (cases cs)
  case (Cons c ds)
  then show ?thesis
    using assms by (cases rule: enc_cases [of c]) (force simp: starts_def)+
qed (simp add: starts_def)

lemma starts2_encode:
  assumes p: "\<And>u. p u \<Longrightarrow> u < 0x80" and q: "\<And>u. q u \<Longrightarrow> u < 0x80"
  shows "starts2 p q (encode cs) = starts2 p q cs"
proof (cases cs)
  case (Cons c ds)
  have unfold: "starts2 p q (x # xs) \<longleftrightarrow> p x \<and> starts q xs" for x xs
    by (cases xs) (simp_all add: starts2_def starts_def)
  show ?thesis
  proof (cases rule: enc_cases [of c])
    case 1
    then show ?thesis using starts_encode [of q ds] q by (simp add: Cons unfold)
  next
    case (2 u us)
    then have "\<not> p u" "\<not> p c" using p by force+
    then show ?thesis by (simp add: Cons unfold 2)
  qed
qed (simp add: starts2_def)

lemma zero_encode: "0 \<in> set (encode cs) \<longleftrightarrow> 0 \<in> set cs"
proof (induction cs)
  case (Cons c cs)
  then show ?case by (cases rule: enc_cases [of c]) auto
qed simp

lemma split_skip:
  "\<forall>u \<in> set us. \<not> separator u \<Longrightarrow> split_on separator (us @ xs)
     = (us @ hd (split_on separator xs)) # tl (split_on separator xs)"
  by (induction us) (auto split: list.splits simp: hd_Cons_tl)

lemma split_encode: "split_on separator (encode cs) = map encode (split_on separator cs)"
proof (induction cs)
  case (Cons c cs)
  obtain d ds where split: "split_on separator cs = d # ds" by (cases "split_on separator cs") auto
  show ?case
  proof (cases rule: enc_cases [of c])
    case 1
    with Cons split show ?thesis by (auto split: list.splits)
  next
    case (2 u us)
    then have "\<not> separator c" "\<forall>v \<in> set (u # us). \<not> separator v" by (auto simp: separator_def)
    with split_skip [of "u # us" "encode cs"] Cons split 2 show ?thesis by simp
  qed
qed simp

lemma encode_dot: "k < 0x80 \<Longrightarrow> encode cs = k # r \<longleftrightarrow> (\<exists>ds. cs = k # ds \<and> encode ds = r)"
proof (cases cs)
  case (Cons c ds)
  assume "k < 0x80"
  then show ?thesis by (cases rule: enc_cases [of c]) (auto simp: Cons)
qed simp

lemma encode_dots: "encode cs = [0x2E, 0x2E] \<longleftrightarrow> cs = [0x2E, 0x2E]"
  by (auto simp: encode_dot encode_eq_Nil simp del: encode_simps)

lemma policy_encode: "path_policy (encode cs) = path_policy cs"
proof -
  have dots: "[0x2E, 0x2E] \<in> set (map encode xs) \<longleftrightarrow> [0x2E, 0x2E] \<in> set xs" for xs
  proof -
    have "[0x2E, 0x2E] = encode x \<longleftrightarrow> x = [0x2E, 0x2E]" for x
      by (subst eq_commute) (rule encode_dots)
    then show ?thesis by (simp only: list.set_map image_iff) blast
  qed
  have "starts separator (encode cs) = starts separator cs"
    by (rule starts_encode) (auto simp: separator_def)
  moreover have "starts2 separator separator (encode cs) = starts2 separator separator cs"
    by (rule starts2_encode) (auto simp: separator_def)
  moreover have "starts2 letter (\<lambda>c. c = 0x3A) (encode cs) = starts2 letter (\<lambda>c. c = 0x3A) cs"
    by (rule starts2_encode) (auto simp: letter_def)
  ultimately show ?thesis
    by (simp only: path_policy_def split_encode dots zero_encode encode_eq_Nil)
qed

end

text \<open>The two encodings of a Unicode scalar value.\<close>

definition utf8 :: "nat \<Rightarrow> nat list" where
  "utf8 c =
     (if c < 0x80 then [c]
      else if c < 0x800 then [0xC0 + c div 64, 0x80 + c mod 64]
      else if c < 0x10000 then [0xE0 + c div 4096, 0x80 + c div 64 mod 64, 0x80 + c mod 64]
      else [0xF0 + c div 262144, 0x80 + c div 4096 mod 64, 0x80 + c div 64 mod 64, 0x80 + c mod 64])"

definition utf16 :: "nat \<Rightarrow> nat list" where
  "utf16 c =
     (if c < 0x10000 then [c]
      else [0xD800 + (c - 0x10000) div 0x400, 0xDC00 + (c - 0x10000) mod 0x400])"

interpretation utf8: ascii_transparent utf8
  by unfold_locales (auto simp: utf8_def split: if_splits)

interpretation utf16: ascii_transparent utf16
  by unfold_locales (auto simp: utf16_def split: if_splits)

definition utf8_bytes :: "nat list \<Rightarrow> u8 list" where
  "utf8_bytes cs = map of_nat (concat (map utf8 cs))"

definition utf16_units :: "nat list \<Rightarrow> u16 list" where
  "utf16_units cs = map of_nat (concat (map utf16 cs))"

lemma unat_utf8_bytes:
  "\<forall>c \<in> set cs. c < 0x110000 \<Longrightarrow> map unat (utf8_bytes cs) = concat (map utf8 cs)"
proof -
  have "u < 256" if "c < 0x110000" "u \<in> set (utf8 c)" for c u
    using that by (auto simp: utf8_def split: if_splits)
  then show "\<forall>c \<in> set cs. c < 0x110000 \<Longrightarrow> ?thesis"
    unfolding utf8_bytes_def map_map by (intro map_idI) (fastforce simp: unat_of_nat)
qed

lemma unat_utf16_units:
  "\<forall>c \<in> set cs. c < 0x110000 \<Longrightarrow> map unat (utf16_units cs) = concat (map utf16 cs)"
proof -
  have "u < 65536" if "c < 0x110000" "u \<in> set (utf16 c)" for c u
    using that by (auto simp: utf16_def split: if_splits)
  then show "\<forall>c \<in> set cs. c < 0x110000 \<Longrightarrow> ?thesis"
    unfolding utf16_units_def map_map by (intro map_idI) (fastforce simp: unat_of_nat)
qed


section \<open>Properties of the path policy\<close>


text \<open>C34: The check of a name's UTF-8 bytes and the check of its UTF-16 code units agree, with the
  same reason, on every sequence of Unicode code points.\<close>

theorem path_checks_agree:
  assumes "\<forall>c \<in> set cs. c < 0x110000"
  shows "validate_safe_path (utf8_bytes cs) = validate_safe_utf16_path (utf16_units cs)"
  using utf8.policy_encode [of cs] utf16.policy_encode [of cs]
  by (simp add: validate_safe_path_policy validate_safe_utf16_path_policy unat_utf8_bytes [OF assms]
      unat_utf16_units [OF assms] utf8.encode_def utf16.encode_def)

lemma path_checks_agree_witness:
  "validate_safe_path (utf8_bytes [0x61, 0x2F, 0x1F600, 0x2F, 0x2E, 0x2E])
     = validate_safe_utf16_path (utf16_units [0x61, 0x2F, 0x1F600, 0x2F, 0x2E, 0x2E])"
  by (rule path_checks_agree) simp

end
