(* ===== verification/Header_Encoding.thy ===== *)
theory Header_Encoding
  imports Raw_Header
begin

text \<open>
  The writer's side of the next header, for the proof that the parser of \<^verbatim>\<open>raw.rs\<close> accepts every
  well-formed header and returns it unchanged.  \<open>reads m bs x\<close>: wherever the cursor stands before the
  bytes \<open>bs\<close>, the parser \<open>m\<close> consumes exactly these and returns \<open>x\<close>, unless it meets a limit or runs
  out of resources.  The rules follow the shape of the parsers, so the proofs read like the format.
\<close>


section \<open>Parsers that read an encoding\<close>

text \<open>
  The errors a well-formed header may meet: want of resources, a limit, or archive-wide totals that
  do not fit their 64-bit counters.
\<close>

definition total_overflows :: "string list" where
  "total_overflows = [''total folder count overflows'', ''total coder count overflows'',
     ''total stream count overflows'', ''total packed-stream count overflows'',
     ''total substream count overflows'', ''header property count overflows'']"

definition tolerated :: "error \<Rightarrow> bool" where
  "tolerated e \<longleftrightarrow> resource_error e \<or> kind e = KLimitExceeded \<or> e \<in> format_error ` set total_overflows"

text \<open>A cursor inside its slice on a 64-bit machine.\<close>

definition ready :: "session \<Rightarrow> bool" where
  "ready s \<longleftrightarrow> reader_ok s \<and> 2 ^ 64 - 1 \<le> usize_max (machine s)"

definition reads :: "'a op \<Rightarrow> byte_slice \<Rightarrow> 'a \<Rightarrow> bool" where
  "reads m bs x \<longleftrightarrow>
     (\<forall>s rest. ready s \<longrightarrow> unread s = bs @ rest \<longrightarrow>
        outcome tolerated m s (\<lambda>y t. y = x \<and> ready t \<and> unread t = rest))"

lemma readsI:
  "(\<And>s rest. ready s \<Longrightarrow> unread s = bs @ rest \<Longrightarrow>
      outcome tolerated m s (\<lambda>y t. y = x \<and> ready t \<and> unread t = rest)) \<Longrightarrow> reads m bs x"
  by (simp add: reads_def)

lemma readsD:
  "reads m bs x \<Longrightarrow> ready s \<Longrightarrow> unread s = bs @ rest \<Longrightarrow>
     outcome tolerated m s (\<lambda>y t. y = x \<and> ready t \<and> unread t = rest)"
  by (simp add: reads_def)

lemma tolerated_resource [simp]: "resource_error e \<Longrightarrow> tolerated e"
  by (simp add: tolerated_def)

lemma tolerated_limit [simp]: "tolerated (LimitExceeded l v m)"
  by (simp add: tolerated_def)

named_theorems reads_rules
  \<open>one rule per way to build a parser\<close>

lemma ready_still: "still s t \<Longrightarrow> ready s \<Longrightarrow> ready t \<and> unread t = unread s"
  by (simp add: still_def ready_def reader_ok_def unread_def)

lemma reads_still:
  "(\<And>s. ready s \<Longrightarrow> outcome tolerated m s (\<lambda>y t. y = x \<and> still s t)) \<Longrightarrow> reads m [] x"
proof (rule readsI)
  fix s rest assume *: "\<And>s. ready s \<Longrightarrow> outcome tolerated m s (\<lambda>y t. y = x \<and> still s t)"
    and s: "ready s" "unread s = [] @ rest"
  show "outcome tolerated m s (\<lambda>y t. y = x \<and> ready t \<and> unread t = rest)"
    by (rule outcome_weaken [OF * [OF s(1)]]) (use s in \<open>auto dest: ready_still\<close>)
qed

lemma reads_bind:
  assumes "reads m bs x" and "reads (f x) cs y"
  shows "reads (and_then m f) (bs @ cs) y"
proof (rule readsI)
  fix s rest assume s: "ready s" "unread s = (bs @ cs) @ rest"
  then have "outcome tolerated m s (\<lambda>z t. z = x \<and> ready t \<and> unread t = cs @ rest)"
    by (intro readsD [OF assms(1)]) simp_all
  then show "outcome tolerated (and_then m f) s (\<lambda>z t. z = y \<and> ready t \<and> unread t = rest)"
    by (intro outcome_and_then, elim outcome_weaken) (auto intro: readsD [OF assms(2)])
qed

text \<open>A step that reads nothing, in front of one that does.\<close>

lemma reads_skip: "reads m [] x \<Longrightarrow> reads (f x) bs y \<Longrightarrow> reads (and_then m f) bs y"
  using reads_bind [of m "[]" x f bs y] by simp

text \<open>A last step that reads nothing.\<close>

lemma reads_last: "reads m bs x \<Longrightarrow> reads (f x) [] y \<Longrightarrow> reads (and_then m f) bs y"
  using reads_bind [of m bs x f "[]" y] by simp

lemma reads_ok [reads_rules]: "x = y \<Longrightarrow> reads (ok x) [] y"
  by (rule reads_still) (simp add: outcome_ok)

lemma reads_err_if [reads_rules]: "\<not> c \<Longrightarrow> reads (err_if c e) [] ()"
  by (rule reads_still) (simp add: outcome_ok)

lemma reads_ok_or [reads_rules]: "v = Some x \<Longrightarrow> reads (ok_or e v) [] x"
  by (rule reads_still) (simp add: outcome_ok)

lemma reads_checkpoint [reads_rules]: "reads (checkpoint u) [] ()"
  by (rule reads_still) (simp add: outcome_checkpoint)

lemma reads_reserve_exact [reads_rules]: "reads (reserve_exact n d) [] ()"
  by (rule reads_still) (simp add: outcome_reserve_exact)

lemma reads_try_reserve [reads_rules]: "reads (try_reserve n) [] ()"
  by (rule reads_still) (simp add: outcome_try_reserve)

lemma reads_check_limit [reads_rules]: "reads (check_limit v m l) [] ()"
  by (rule reads_still) (simp add: outcome_check_limit)

lemma reads_u64_to_usize [reads_rules]: "reads (u64_to_usize v d) [] (unat v)"
proof (rule reads_still)
  fix s assume "ready s"
  moreover have "unat v \<le> 2 ^ 64 - 1" using unat_less_64 [of v] unfolding two_power_64 by linarith
  ultimately show "outcome tolerated (u64_to_usize v d) s (\<lambda>y t. y = unat v \<and> still s t)"
    by (auto intro!: outcome_u64_to_usize simp: ready_def)
qed

lemma reads_usize_to_u64 [reads_rules]: "n < 2 ^ 64 \<Longrightarrow> reads (usize_to_u64 n d) [] (of_nat n)"
  by (rule reads_still) (auto intro: outcome_usize_to_u64)

lemma reads_new_vec [reads_rules]: "reads (new_vec n d) [] ()"
  unfolding new_vec_def count_to_usize_def
  by (rule reads_skip [OF reads_u64_to_usize]) (rule reads_try_reserve)

lemma reads_add_limited [reads_rules]:
  assumes "d \<in> set total_overflows"
  shows "reads (add_limited get put n m l d) [] ()"
proof (rule readsI)
  fix s rest assume "ready s" and "unread s = [] @ rest"
  moreover from assms have "tolerated (format_error d)" by (auto simp: tolerated_def)
  ultimately show "outcome tolerated (add_limited get put n m l d) s
      (\<lambda>y t. y = () \<and> ready t \<and> unread t = rest)"
    unfolding add_limited_def
    by (intro outcome_rules outcome_check_limit)
      (simp_all add: ready_def reader_ok_def unread_def)
qed

lemma reads_adds [reads_rules]:
  "reads (add_folders n lim) [] ()" "reads (add_coders n lim) [] ()"
  "reads (add_streams n lim) [] ()" "reads (add_packed_streams n lim) [] ()"
  "reads (add_substreams n lim) [] ()" "reads (add_property lim) [] ()"
  by (simp_all add: add_folders_def add_coders_def add_streams_def add_packed_streams_def
      add_substreams_def add_property_def reads_add_limited total_overflows_def)


section \<open>Primitive values\<close>

lemma ready_advance:
  "ready s \<Longrightarrow> unread s = bs @ rest \<Longrightarrow> ready (advance (length bs) s) \<and> unread (advance (length bs) s) = rest"
  by (simp add: ready_def reader_ok_advance)

lemma reads_reader_bytes:
  assumes "unat n = length bs"
  shows "reads (reader_read_bytes n) bs bs"
proof (rule readsI)
  fix s rest assume s: "ready s" "unread s = bs @ rest"
  then have "reader_read_bytes n s = (Inr bs, advance (length bs) s)"
    using reader_read_bytes_run(1) [of s n] assms by (simp add: ready_def)
  with ready_advance [OF s] show "outcome tolerated (reader_read_bytes n) s
      (\<lambda>y t. y = bs \<and> ready t \<and> unread t = rest)"
    by (simp add: outcome_def)
qed

lemma reads_reader_u8: "reads reader_read_u8 [b] b"
  unfolding reader_read_u8_def
  by (rule reads_last [OF reads_reader_bytes]) (simp_all add: item_get_def reads_rules)

lemma reads_reader_u32: "reads reader_read_u32_le (to_le_bytes 4 (unat w)) w"
  unfolding reader_read_u32_le_def
  by (rule reads_last [OF reads_reader_bytes])
    (simp_all add: le_array_def reads_ok)

lemma reads_reader_uint: "reads reader_read_7z_uint (encode_7z_uint v) v"
proof (rule readsI)
  fix s rest assume s: "ready s" "unread s = encode_7z_uint v @ rest"
  then have "reader_read_7z_uint s = (Inr v, advance (length (encode_7z_uint v)) s)"
    by (intro reader_read_7z_uint_encoded) (simp_all add: ready_def)
  with ready_advance [OF s] show "outcome tolerated reader_read_7z_uint s
      (\<lambda>y t. y = v \<and> ready t \<and> unread t = rest)"
    by (simp add: outcome_def)
qed

lemma reads_u8 [reads_rules]: "reads read_u8 [b] b"
  unfolding read_u8_def by (rule reads_skip [OF reads_checkpoint reads_reader_u8])

lemma reads_u32 [reads_rules]: "reads read_u32_le (to_le_bytes 4 (unat w)) w"
  unfolding read_u32_le_def by (rule reads_skip [OF reads_checkpoint reads_reader_u32])

lemma reads_uint [reads_rules]: "reads read_uint (encode_7z_uint v) v"
  unfolding read_uint_def by (rule reads_skip [OF reads_checkpoint reads_reader_uint])

lemma reads_for_fold_unit:
  "(\<And>c. c \<in> set cs \<Longrightarrow> reads (f () c) [] ()) \<Longrightarrow> reads (for_fold cs () f) [] ()"
  by (induction cs) (auto intro: reads_ok reads_skip)

lemma reads_consume_bytes: "reads (consume_bytes bytes) [] ()"
proof (cases "bytes = []")
  case False
  have "reads (and_then (usize_to_u64 (length c) d) checkpoint) [] ()"
    if "c \<in> set (chunks CONTROL_CHUNK_SIZE bytes)" for c d
    by (rule reads_skip [OF reads_usize_to_u64 reads_checkpoint])
      (use chunks_bound [OF that] in \<open>simp add: CONTROL_CHUNK_SIZE_def\<close>)
  with False show ?thesis by (simp add: consume_bytes_def reads_for_fold_unit)
qed (simp add: consume_bytes_def reads_checkpoint)

lemma reads_bytes [reads_rules]: "unat n = length bs \<Longrightarrow> reads (read_bytes n) bs bs"
  unfolding read_bytes_def
  by (rule reads_last [OF reads_reader_bytes])
    (auto intro!: reads_skip [OF reads_consume_bytes] reads_ok)

lemma reads_repeat_push:
  assumes "\<And>x. x \<in> set xs \<Longrightarrow> reads m (enc x) x" and "n = length xs"
  shows "reads (repeat_push n m) (concat (map enc xs)) xs"
  using assms
proof (induction xs arbitrary: n)
  case (Cons x xs)
  then have "reads (repeat_push (length xs) m) (concat (map enc xs)) xs" by simp
  with Cons.prems show ?case
    by (auto intro!: reads_bind [of m] reads_last [of "repeat_push _ _"] reads_ok)
qed (simp add: reads_ok)

lemma reads_for_push:
  assumes "\<And>x. x \<in> set xs \<Longrightarrow> reads (f (g x)) (enc x) x"
  shows "reads (for_push (map g xs) f) (concat (map enc xs)) xs"
  using assms
  by (induction xs) (auto intro!: reads_bind [of "f _"] reads_last [of "for_push _ _"] reads_ok)


section \<open>Vectors of bits, digests and sizes\<close>

text \<open>Eight flags to a byte, the first one in the most significant bit.\<close>

definition bits_byte :: "bool list \<Rightarrow> u8" where
  "bits_byte bs = horner_sum of_bool 2 (rev (take 8 (bs @ replicate 8 False)))"

fun encode_bits :: "bool list \<Rightarrow> byte_slice" where
  "encode_bits [] = []"
| "encode_bits (b # bs) = bits_byte (b # bs) # encode_bits (drop 7 bs)"

lemma bit_bits_byte: "k < 8 \<Longrightarrow> k < length bs \<Longrightarrow> bit (bits_byte bs) (7 - k) = bs ! k"
proof -
  assume k: "k < 8" "k < length bs"
  define ys where "ys = take 8 (bs @ replicate 8 False)"
  have "length ys = 8" and "ys ! k = bs ! k" using k by (simp_all add: ys_def nth_append)
  with k have "rev ys ! (7 - k) = bs ! k" by (simp add: rev_nth)
  with k \<open>length ys = 8\<close> show ?thesis
    by (simp add: bits_byte_def bit_horner_sum_bit_word_iff ys_def [symmetric]
        less_imp_diff_less del: take_append rev_append)
qed

lemma mask_bit: "k < 8 \<Longrightarrow> (b AND drop_bit k (128 :: u8) \<noteq> 0) = bit b (7 - k)"
  by (simp add: mask_test)

lemma parse_bits_loop_reads:
  assumes "j \<le> 8" and "\<And>k. j + k < 8 \<Longrightarrow> k < length bs \<Longrightarrow> bit b (7 - (j + k)) = bs ! k"
  shows "reads (parse_bits_loop (length bs) b (drop_bit j 128)) (encode_bits (drop (8 - j) bs)) bs"
  using assms
proof (induction bs arbitrary: j b)
  case Nil
  then show ?case by (simp add: reads_ok)
next
  case (Cons x xs)
  show ?case
  proof (cases "j = 8")
    case True
    let ?b = "bits_byte (x # xs)"
    have bit: "bit ?b (7 - k) = (x # xs) ! k" if "k < 8" "k < length (x # xs)" for k
      using that by (rule bit_bits_byte)
    have "reads (parse_bits_loop (length xs) ?b (drop_bit 1 128)) (encode_bits (drop 7 xs)) xs"
      using Cons.IH [of 1 ?b] bit [of "Suc k" for k] by simp
    with bit [of 0] have rest: "reads (and_then (parse_bits_loop (length xs) ?b (drop_bit 1 0x80))
        (\<lambda>rest. ok ((?b AND 0x80 \<noteq> 0) # rest))) (encode_bits (drop 7 xs)) (x # xs)"
      using mask_bit [of 0 ?b] by (intro reads_last [OF _ reads_ok]) simp_all
    have "reads (and_then (and_then read_u8 (\<lambda>b. ok (b, 0x80))) (\<lambda>(b, m).
        and_then (parse_bits_loop (length xs) b (drop_bit 1 m)) (\<lambda>rest. ok ((b AND m \<noteq> 0) # rest))))
        ([?b] @ encode_bits (drop 7 xs)) (x # xs)"
      by (rule reads_bind [OF reads_last [OF reads_u8 reads_ok [OF refl]]]) (simp only: prod.case, rule rest)
    moreover have "drop_bit 8 (128 :: u8) = 0" by simp
    ultimately show ?thesis using True by simp
  next
    case False
    with Cons.prems have j: "j < 8" by simp
    have "reads (parse_bits_loop (length xs) b (drop_bit (Suc j) 128)) (encode_bits (drop (8 - Suc j) xs)) xs"
      using Cons.prems(2) [of "Suc k" for k] j by (intro Cons.IH) auto
    moreover have "(b AND drop_bit j 128 \<noteq> 0) = x"
      using mask_bit [OF j, of b] Cons.prems(2) [of 0] j by simp
    moreover have "drop_bit j (128 :: u8) \<noteq> 0" using shifted_128 [OF j] j
      by (simp add: push_bit_eq_mult)
    ultimately show ?thesis
      using j by (auto simp: drop_bit_drop_bit Suc_diff_Suc [symmetric] intro!: reads_last [OF _ reads_ok])
  qed
qed

lemma reads_bits: "unat n = length bs \<Longrightarrow> reads (parse_bits n) (encode_bits bs) bs"
  unfolding parse_bits_def
  using parse_bits_loop_reads [of 8 bs 0]
  by (auto intro!: reads_skip [OF reads_checkpoint] reads_skip [OF reads_new_vec])

text \<open>A vector of optional digests: the flag that all are present, or the bits, then the values.\<close>

definition encode_digests :: "u32 option list \<Rightarrow> byte_slice" where
  "encode_digests cs =
     (if cs = [] then []
      else (if list_all (\<lambda>c. c \<noteq> None) cs then [1] else 0 # encode_bits (map (\<lambda>c. c \<noteq> None) cs)) @
        concat (map (\<lambda>c. case c of None \<Rightarrow> [] | Some w \<Rightarrow> to_le_bytes 4 (unat w)) cs))"

lemma reads_digests:
  assumes "unat n = length cs"
  shows "reads (parse_digests n) (encode_digests cs) cs"
proof (cases "cs = []")
  case True
  with assms have "n = 0" by (metis list.size(3) unat_eq_zero)
  with True show ?thesis by (simp add: parse_digests_def encode_digests_def reads_ok)
next
  case False
  with assms have n: "n \<noteq> 0" by auto
  let ?flags = "map (\<lambda>c. c \<noteq> None) cs"
  let ?crcs = "concat (map (\<lambda>c. case c of None \<Rightarrow> [] | Some w \<Rightarrow> to_le_bytes 4 (unat w)) cs)"
  have digests: "reads (for_push ?flags (\<lambda>is_defined.
      if is_defined then and_then read_u32_le (\<lambda>crc. ok (Some crc)) else ok None)) ?crcs cs"
    by (rule reads_for_push) (auto split: option.split intro: reads_ok reads_last [OF reads_u32])
  have read: "reads (parse_digests n) ([a] @ bits @ ?crcs) cs"
    if "reads (if a = 0 then parse_bits n else and_then
          (new_vec n ''digest definition count is not representable on this platform'')
          (\<lambda>_. ok (replicate (unat n) True))) bits ?flags" for a bits
    unfolding parse_digests_def if_not_P [OF n]
    by (rule reads_skip [OF reads_checkpoint], rule reads_bind [OF reads_u8],
        rule reads_bind [OF that], rule reads_skip [OF reads_new_vec], rule digests)
  show ?thesis
  proof (cases "list_all (\<lambda>c. c \<noteq> None) cs")
    case True
    then have "?flags = replicate (unat n) True"
      using assms by (auto simp: list_all_iff intro: replicate_eqI)
    then have "reads (and_then (new_vec n d) (\<lambda>_. ok (replicate (unat n) True))) [] ?flags" for d
      by (intro reads_skip [OF reads_new_vec] reads_ok) simp
    with read [of 1 "[]"] True False show ?thesis by (simp add: encode_digests_def)
  next
    case some: False
    have "reads (parse_bits n) (encode_bits ?flags) ?flags"
      using assms by (intro reads_bits) simp
    with read [of 0 "encode_bits ?flags"] some False show ?thesis by (simp add: encode_digests_def)
  qed
qed

definition encode_sizes :: "u64 list \<Rightarrow> byte_slice" where
  "encode_sizes xs = concat (map encode_7z_uint xs)"

lemma reads_uints: "n = length xs \<Longrightarrow> reads (repeat_push n read_uint) (encode_sizes xs) xs"
  unfolding encode_sizes_def by (rule reads_repeat_push) (rule reads_uint)

lemma reads_sizes: "unat n = length xs \<Longrightarrow> reads (parse_sizes n) (encode_sizes xs) xs"
  unfolding parse_sizes_def
  by (intro reads_skip [OF reads_checkpoint] reads_skip [OF reads_new_vec] reads_uints)



section \<open>Optional sections\<close>

text \<open>
  Sections are announced by identifiers, and the parser has read the identifier of the next section
  when it decides about the present one.  \<open>from_tag\<close> is the parser with that byte still unread.
\<close>

definition from_tag :: "(u8 \<Rightarrow> 'a op) \<Rightarrow> byte_slice \<Rightarrow> 'a \<Rightarrow> bool" where
  "from_tag m bs x \<longleftrightarrow> bs \<noteq> [] \<and> reads (m (hd bs)) (tl bs) x"

definition encode_section :: "u8 \<Rightarrow> ('a \<Rightarrow> byte_slice) \<Rightarrow> 'a option \<Rightarrow> byte_slice" where
  "encode_section tag enc section = (case section of None \<Rightarrow> [] | Some x \<Rightarrow> tag # enc x)"

lemma encode_section_simps [simp]:
  "encode_section tag enc None = []" "encode_section tag enc (Some x) = tag # enc x"
  by (simp_all add: encode_section_def)

lemma hd_section [simp]:
  "hd (encode_section tag enc v @ rest) = (if v = None then hd rest else tag)"
  by (cases v) simp_all

lemma from_tag_read: "from_tag m bs x \<Longrightarrow> reads (and_then read_u8 m) bs x"
  using reads_bind [OF reads_u8 [of "hd bs"], of m "tl bs" x] by (simp add: from_tag_def)

lemma from_tag_end: "reads (m tag) [] x \<Longrightarrow> from_tag m [tag] x"
  by (simp add: from_tag_def)

lemma from_tag_section:
  assumes "\<And>x. v = Some x \<Longrightarrow> reads p (enc x) x" and "from_tag (\<lambda>id. f (v, id)) rest y"
    and "v = None \<Longrightarrow> hd rest \<noteq> tag"
  shows "from_tag (\<lambda>id. and_then (optional_section id tag p) f) (encode_section tag enc v @ rest) y"
proof (cases v)
  case None
  with assms(2,3) show ?thesis by (simp add: from_tag_def optional_section_def)
next
  case (Some x)
  obtain r rs where rest: "rest = r # rs" and tail: "reads (f (v, r)) rs y"
    using assms(2) by (cases rest) (auto simp: from_tag_def)
  have "reads (optional_section tag tag p) (enc x @ [r]) (v, r)"
    unfolding optional_section_def if_P [OF refl]
    by (rule reads_bind [OF assms(1) [OF Some]], rule reads_last [OF reads_u8])
      (simp add: Some reads_ok)
  from reads_bind [OF this, where f = f, OF tail] show ?thesis
    by (simp add: from_tag_def Some rest)
qed

lemma from_tag_skip:
  "reads m [] x \<Longrightarrow> from_tag (f x) bs y \<Longrightarrow> from_tag (\<lambda>id. and_then m (\<lambda>x. f x id)) bs y"
  by (simp add: from_tag_def reads_skip)

text \<open>The identifiers of a block of sections are distinct numbers.\<close>

lemmas tags_differ = property_ids


section \<open>Packed streams\<close>

definition pack_ok :: "raw_pack_info \<Rightarrow> bool" where
  "pack_ok p \<longleftrightarrow> pack_streams p \<noteq> 0 \<and>
     (case pack_sizes p of None \<Rightarrow> True | Some xs \<Rightarrow> length xs = unat (pack_streams p)) \<and>
     (case pack_crcs p of None \<Rightarrow> True | Some cs \<Rightarrow> length cs = unat (pack_streams p))"

definition encode_pack_info :: "raw_pack_info \<Rightarrow> byte_slice" where
  "encode_pack_info p =
     encode_7z_uint (pack_position p) @ encode_7z_uint (pack_streams p) @
     encode_section ID_SIZE encode_sizes (pack_sizes p) @
     encode_section ID_CRC encode_digests (pack_crcs p) @ [ID_END]"

lemma reads_pack_info: "pack_ok p \<Longrightarrow> reads (parse_pack_info lim) (encode_pack_info p) p"
  unfolding parse_pack_info_def encode_pack_info_def pack_ok_def
  apply (rule reads_bind [OF reads_uint], rule reads_bind [OF reads_uint])
  apply (rule reads_skip [OF reads_err_if], simp)
  apply (rule reads_skip [OF reads_adds(4)], rule from_tag_read)
  apply (rule from_tag_section, simp add: reads_sizes, simp only: prod.case)
   apply (rule from_tag_section, simp add: reads_digests, simp only: prod.case)
    apply (rule from_tag_end, rule reads_skip [OF reads_err_if], simp, rule reads_ok)
  by (simp_all add: tags_differ)


section \<open>Coders and folders\<close>

text \<open>
  The flag byte of a coder: the length of its method identifier, whether it has port counts of its
  own, whether it has properties.
\<close>

definition coder_flags :: "nat \<Rightarrow> bool \<Rightarrow> bool \<Rightarrow> u8" where
  "coder_flags n ports properties =
     of_nat n + (if ports then 0x10 else 0) + (if properties then 0x20 else 0)"

definition coder_ok :: "raw_coder \<Rightarrow> bool" where
  "coder_ok c \<longleftrightarrow> raw_method_id c \<noteq> [] \<and> length (raw_method_id c) < 16 \<and>
     raw_coder_inputs c \<noteq> 0 \<and> raw_coder_outputs c \<noteq> 0 \<and>
     length (raw_coder_properties c) < 2 ^ 64"

definition encode_coder :: "raw_coder \<Rightarrow> byte_slice" where
  "encode_coder c =
     (let ports = (raw_coder_inputs c, raw_coder_outputs c) \<noteq> (1, 1);
          properties = raw_coder_properties c \<noteq> []
      in [coder_flags (length (raw_method_id c)) ports properties] @ raw_method_id c @
         (if ports then encode_7z_uint (raw_coder_inputs c) @ encode_7z_uint (raw_coder_outputs c)
          else []) @
         (if properties then
            encode_7z_uint (of_nat (length (raw_coder_properties c))) @ raw_coder_properties c
          else []))"

lemma coder_flags_tests:
  assumes "n < 16"
  shows "coder_flags n a b AND 0x80 = 0" "coder_flags n a b AND 0x40 = 0"
    "coder_flags n a b AND 0x0f = of_nat n" "(coder_flags n a b AND 0x10 \<noteq> 0) = a"
    "(coder_flags n a b AND 0x20 \<noteq> 0) = b"
proof -
  from assms have "n \<in> {0, 1, 2, 3, 4, 5, 6, 7, 8, 9, 10, 11, 12, 13, 14, 15}"
    unfolding insert_iff empty_iff by presburger
  then show "coder_flags n a b AND 0x80 = 0" "coder_flags n a b AND 0x40 = 0"
    "coder_flags n a b AND 0x0f = of_nat n" "(coder_flags n a b AND 0x10 \<noteq> 0) = a"
    "(coder_flags n a b AND 0x20 \<noteq> 0) = b"
    by (cases a; cases b; auto simp: coder_flags_def)+
qed

lemma reads_coder:
  assumes "coder_ok c"
  shows "reads (parse_coder lim) (encode_coder c) c"
proof -
  let ?ports = "(raw_coder_inputs c, raw_coder_outputs c) \<noteq> (1, 1)"
  let ?props = "raw_coder_properties c \<noteq> []"
  let ?flags = "coder_flags (length (raw_method_id c)) ?ports ?props"
  have n: "length (raw_method_id c) < 16" "length (raw_method_id c) \<noteq> 0"
    using assms by (auto simp: coder_ok_def)
  note flags = coder_flags_tests [OF n(1), of ?ports ?props]
  have len: "unat (ucast (of_nat (length (raw_method_id c)) :: u8) :: u64) = length (raw_method_id c)"
    using n by (simp add: unsigned_ucast_eq unat_of_nat take_bit_nat_eq_self)
  have ports: "reads (if ?flags AND 0x10 \<noteq> 0 then
          and_then read_uint (\<lambda>input.
          and_then read_uint (\<lambda>output.
          and_then (err_if (input = 0 \<or> output = 0)
                     (format_error ''coder stream counts must be non-zero'')) (\<lambda>_.
          ok (input, output))))
        else ok (1, 1))
      (if ?ports then encode_7z_uint (raw_coder_inputs c) @ encode_7z_uint (raw_coder_outputs c) else [])
      (raw_coder_inputs c, raw_coder_outputs c)"
  proof (cases ?ports)
    case True
    then show ?thesis
      unfolding flags if_P [OF True]
      by (intro reads_bind [OF reads_uint] reads_last [OF reads_uint] reads_skip [OF reads_err_if] reads_ok)
        (use assms in \<open>auto simp: coder_ok_def\<close>)
  next
    case False
    then show ?thesis unfolding flags by (simp add: reads_ok)
  qed
  have small: "unat (of_nat (length (raw_coder_properties c)) :: u64) = length (raw_coder_properties c)"
    using assms by (simp add: coder_ok_def)
  have props: "reads (if ?flags AND 0x20 \<noteq> 0 then
          and_then read_uint (\<lambda>len.
          and_then (check_limit len (max_coder_property_bytes lim) CoderPropertyBytes) (\<lambda>_.
          read_bytes len))
        else ok [])
      (if ?props then encode_7z_uint (of_nat (length (raw_coder_properties c))) @ raw_coder_properties c
       else []) (raw_coder_properties c)"
  proof (cases ?props)
    case True
    then show ?thesis
      unfolding flags if_P [OF True]
      by (intro reads_bind [OF reads_uint] reads_skip [OF reads_check_limit] reads_bytes small)
  next
    case False
    then show ?thesis unfolding flags by (simp add: reads_ok)
  qed
  show ?thesis
    unfolding parse_coder_def encode_coder_def Let_def
    apply (rule reads_bind [OF reads_u8], rule reads_skip [OF reads_err_if])
    subgoal unfolding flags(1) by simp
    apply (rule reads_skip [OF reads_err_if])
    subgoal unfolding flags(2) by simp
    apply (rule reads_skip [OF reads_err_if])
    subgoal using len n unfolding flags(3) by (metis unat_0)
    apply (rule reads_bind [OF reads_bytes])
    subgoal using len unfolding flags(3) .
    apply (rule reads_bind [OF ports], simp only: prod.case)
    apply (rule reads_last [OF props], rule reads_ok)
    by simp
qed

text \<open>The totals of a folder's ports.\<close>

definition port_sum :: "(raw_coder \<Rightarrow> u64) \<Rightarrow> raw_coder list \<Rightarrow> nat" where
  "port_sum ports cs = sum_list (map (\<lambda>c. unat (ports c)) cs)"

lemma port_sum_simps [simp]:
  "port_sum ports [] = 0" "port_sum ports (c # cs) = unat (ports c) + port_sum ports cs"
  by (simp_all add: port_sum_def)

lemma reads_coders:
  assumes "\<forall>c \<in> set cs. coder_ok c"
    and "unat i + port_sum raw_coder_inputs cs = unat i'"
    and "unat j + port_sum raw_coder_outputs cs = unat j'"
  shows "reads (parse_coders_loop lim (length cs) i j) (concat (map encode_coder cs)) (cs, i', j')"
  using assms
proof (induction cs arbitrary: i j)
  case Nil
  then show ?case by (simp add: reads_ok word_unat_eq_iff)
next
  case (Cons c cs)
  have fits: "\<exists>k. unat a + unat b = unat (k :: u64)" if "unat a + unat b + n = unat (l :: u64)" for a b l :: u64 and n
  proof -
    have "unat a + unat b < 18446744073709551616" using that unat_less_64 [of l] by linarith
    then have "unat (of_nat (unat a + unat b) :: u64) = unat a + unat b" by (rule unat_of_nat_u64)
    then show ?thesis by metis
  qed
  obtain k where k: "unat i + unat (raw_coder_inputs c) = unat (k :: u64)"
    using fits [of i "raw_coder_inputs c"] Cons.prems(2) by (auto simp: add.assoc)
  obtain l where l: "unat j + unat (raw_coder_outputs c) = unat (l :: u64)"
    using fits [of j "raw_coder_outputs c"] Cons.prems(3) by (auto simp: add.assoc)
  have "reads (parse_coders_loop lim (length cs) k l) (concat (map encode_coder cs)) (cs, i', j')"
    using Cons.prems k l by (intro Cons.IH) (simp_all add: add.assoc)
  with Cons.prems k l show ?case
    by (auto intro!: reads_bind [of "parse_coder lim"] reads_coder reads_skip [OF reads_ok_or]
        reads_last [of "parse_coders_loop _ _ _ _"] reads_ok simp: checked_add_eq_Some)
qed

definition folder_ok :: "raw_folder \<Rightarrow> bool" where
  "folder_ok f \<longleftrightarrow>
     raw_coders f \<noteq> [] \<and> length (raw_coders f) < 2 ^ 64 \<and> (\<forall>c \<in> set (raw_coders f). coder_ok c) \<and>
     unat (raw_input_streams f) = port_sum raw_coder_inputs (raw_coders f) \<and>
     unat (raw_output_streams f) = port_sum raw_coder_outputs (raw_coders f) \<and>
     unat (raw_input_streams f) + unat (raw_output_streams f) < 2 ^ 64 \<and>
     raw_output_streams f \<le> raw_input_streams f \<and>
     unat (raw_output_streams f) = Suc (length (raw_bind_pairs f)) \<and>
     unat (raw_packed_streams f) + length (raw_bind_pairs f) = unat (raw_input_streams f) \<and>
     (case raw_packed_indices f of
        None \<Rightarrow> raw_packed_streams f = 1
      | Some xs \<Rightarrow> raw_packed_streams f \<noteq> 1 \<and> length xs = unat (raw_packed_streams f)) \<and>
     length (raw_unpack_sizes f) = unat (raw_output_streams f)"

definition encode_bind_pair :: "raw_bind_pair \<Rightarrow> byte_slice" where
  "encode_bind_pair p = encode_7z_uint (bind_input p) @ encode_7z_uint (bind_output p)"

definition encode_folder :: "raw_folder \<Rightarrow> byte_slice" where
  "encode_folder f =
     encode_7z_uint (of_nat (length (raw_coders f))) @ concat (map encode_coder (raw_coders f)) @
     concat (map encode_bind_pair (raw_bind_pairs f)) @
     (case raw_packed_indices f of None \<Rightarrow> [] | Some xs \<Rightarrow> encode_sizes xs)"

text \<open>A folder before its sizes are known.\<close>

definition unsized :: "raw_folder \<Rightarrow> raw_folder" where
  "unsized f = f\<lparr>raw_unpack_sizes := []\<rparr>"

lemma reads_bind_pair: "reads parse_bind_pair (encode_bind_pair p) p"
  unfolding parse_bind_pair_def encode_bind_pair_def
  by (rule reads_bind [OF reads_uint], rule reads_last [OF reads_uint], rule reads_ok) simp

lemma reads_folder:
  assumes ok: "folder_ok f"
  shows "reads (parse_folder lim) (encode_folder f) (unsized f)"
proof -
  have n: "unat (of_nat (length (raw_coders f)) :: u64) = length (raw_coders f)"
    using ok by (simp add: folder_ok_def)
  then have n0: "(of_nat (length (raw_coders f)) :: u64) \<noteq> 0"
    using ok by (metis folder_ok_def length_0_conv unat_0)
  define bound :: u64 where "bound = raw_output_streams f - 1"
  have outs: "raw_output_streams f \<noteq> 0" using ok by (auto simp: folder_ok_def)
  have bound: "checked_sub (raw_output_streams f) 1 = Some bound" "unat bound = length (raw_bind_pairs f)"
    using ok outs unat_minus_one [OF outs]
    by (auto simp: folder_ok_def bound_def checked_sub_def word_le_nat_alt Suc_le_eq unat_gt_0)
  have packed: "checked_sub (raw_input_streams f) bound = Some (raw_packed_streams f)"
    using ok bound by (simp add: folder_ok_def checked_sub_eq_Some)
  have packed0: "raw_packed_streams f \<noteq> 0"
    using ok by (auto simp: folder_ok_def word_le_nat_alt)
  have ports: "checked_add (raw_input_streams f) (raw_output_streams f)
      = Some (raw_input_streams f + raw_output_streams f)"
    using ok by (simp add: folder_ok_def checked_add_def)
  have coders: "reads (parse_coders_loop lim (length (raw_coders f)) 0 0)
      (concat (map encode_coder (raw_coders f)))
      (raw_coders f, raw_input_streams f, raw_output_streams f)"
    using ok by (intro reads_coders) (simp_all add: folder_ok_def)
  have pairs: "reads (repeat_push (unat bound) parse_bind_pair)
      (concat (map encode_bind_pair (raw_bind_pairs f))) (raw_bind_pairs f)"
    by (rule reads_repeat_push [OF reads_bind_pair bound(2)])
  have indices: "reads (if raw_packed_streams f = 1 then ok None
        else and_then (new_vec (raw_packed_streams f) d) (\<lambda>_.
          and_then (repeat_push (unat (raw_packed_streams f)) read_uint) (\<lambda>values. ok (Some values))))
      (case raw_packed_indices f of None \<Rightarrow> [] | Some xs \<Rightarrow> encode_sizes xs) (raw_packed_indices f)" for d
    using ok
    by (cases "raw_packed_indices f")
      (auto simp: folder_ok_def intro!: reads_ok reads_skip [OF reads_new_vec] reads_last [OF reads_uints])
  show ?thesis
    unfolding parse_folder_def encode_folder_def
    apply (rule reads_bind [OF reads_uint], rule reads_skip [OF reads_err_if [OF n0]])
    apply (rule reads_skip [OF reads_check_limit], rule reads_skip [OF reads_adds(2)])
    apply (rule reads_skip [OF reads_new_vec], unfold n, rule reads_bind [OF coders], simp only: prod.case)
    apply (rule reads_skip [OF reads_ok_or [OF ports]], rule reads_skip [OF reads_check_limit])
    apply (rule reads_skip [OF reads_adds(3)], rule reads_skip [OF reads_err_if])
    subgoal using ok by (simp add: folder_ok_def not_less)
    apply (rule reads_skip [OF reads_ok_or [OF bound(1)]], rule reads_skip [OF reads_new_vec])
    apply (rule reads_bind [OF pairs], rule reads_skip [OF reads_ok_or [OF packed]])
    apply (rule reads_skip [OF reads_err_if [OF packed0]])
    apply (rule reads_last [OF indices], rule reads_ok)
    by (simp add: unsized_def)
qed

end
