(* ===== verification/Header_Roundtrip.thy ===== *)
theory Header_Roundtrip
  imports Header_Encoding
begin

text \<open>
  Unpack information, substreams, properties and whole headers: the encodings of the larger records
  and the proof that the parser returns every well-formed header unchanged.
\<close>


section \<open>Unpack information\<close>

definition unpack_ok :: "raw_unpack_info \<Rightarrow> bool" where
  "unpack_ok u \<longleftrightarrow> unpack_folders u \<noteq> [] \<and> length (unpack_folders u) < 2 ^ 64 \<and>
     (\<forall>f \<in> set (unpack_folders u). folder_ok f) \<and>
     (case unpack_crcs u of None \<Rightarrow> True | Some cs \<Rightarrow> length cs = length (unpack_folders u))"

definition encode_unpack_info :: "raw_unpack_info \<Rightarrow> byte_slice" where
  "encode_unpack_info u =
     [ID_FOLDER] @ encode_7z_uint (of_nat (length (unpack_folders u))) @ [0] @
     concat (map encode_folder (unpack_folders u)) @ [ID_CODERS_UNPACK_SIZE] @
     concat (map (\<lambda>f. encode_sizes (raw_unpack_sizes f)) (unpack_folders u)) @
     encode_section ID_CRC encode_digests (unpack_crcs u) @ [ID_END]"

lemma encode_unsized [simp]: "encode_folder (unsized f) = encode_folder f"
  by (simp add: encode_folder_def unsized_def)

lemma reads_folders:
  assumes "\<forall>f \<in> set fs. folder_ok f" and "unat n = length fs"
  shows "reads (parse_folders n lim) (concat (map encode_folder fs)) (map unsized fs)"
proof -
  have "reads (repeat_push (unat n) (parse_folder lim))
      (concat (map encode_folder (map unsized fs))) (map unsized fs)"
    by (rule reads_repeat_push) (use assms reads_folder in auto)
  then have "reads (repeat_push (unat n) (parse_folder lim)) (concat (map encode_folder fs)) (map unsized fs)"
    by (simp add: comp_def)
  then show ?thesis
    unfolding parse_folders_def by (rule reads_skip [OF reads_new_vec])
qed

lemma reads_folder_sizes:
  assumes "\<forall>f \<in> set fs. folder_ok f"
  shows "reads (for_push (map unsized fs) (\<lambda>folder.
      and_then (parse_sizes (raw_output_streams folder)) (\<lambda>sizes.
      ok (folder\<lparr>raw_unpack_sizes := sizes\<rparr>))))
    (concat (map (\<lambda>f. encode_sizes (raw_unpack_sizes f)) fs)) fs"
proof (rule reads_for_push)
  fix f assume "f \<in> set fs"
  with assms have "unat (raw_output_streams f) = length (raw_unpack_sizes f)"
    by (simp add: folder_ok_def)
  then show "reads (and_then (parse_sizes (raw_output_streams (unsized f))) (\<lambda>sizes.
      ok ((unsized f)\<lparr>raw_unpack_sizes := sizes\<rparr>))) (encode_sizes (raw_unpack_sizes f)) f"
    by (intro reads_last [OF reads_sizes] reads_ok) (simp_all add: unsized_def)
qed

lemma reads_unpack_info:
  assumes ok: "unpack_ok u"
  shows "reads (parse_unpack_info lim external) (encode_unpack_info u) (UnpackComplete u)"
proof -
  let ?n = "of_nat (length (unpack_folders u)) :: u64"
  have n: "unat ?n = length (unpack_folders u)" using ok by (simp add: unpack_ok_def)
  have n0: "?n \<noteq> 0" using ok n by (metis length_0_conv unat_0 unpack_ok_def)
  have folders: "\<forall>f \<in> set (unpack_folders u). folder_ok f" using ok by (simp add: unpack_ok_def)
  note inline = reads_last [OF reads_folders [OF folders n], of "\<lambda>folders. ok (Inl folders)", OF reads_ok [OF refl]]
  have crcs: "unpack_crcs u = Some cs \<Longrightarrow> unat ?n = length cs" for cs
    using ok n by (simp add: unpack_ok_def)
  show ?thesis
    unfolding parse_unpack_info_def encode_unpack_info_def
    apply (rule reads_bind [OF reads_u8], rule reads_skip [OF reads_err_if], simp)
    apply (rule reads_bind [OF reads_uint], rule reads_skip [OF reads_err_if [OF n0]])
    apply (rule reads_skip [OF reads_adds(1)], rule reads_skip [OF reads_checkpoint])
    apply (rule reads_bind [OF reads_u8], simp only: refl if_True, rule reads_bind [OF inline])
    apply (simp only: sum.case, rule reads_bind [OF reads_u8], rule reads_skip [OF reads_err_if], simp)
    apply (rule reads_bind [OF reads_folder_sizes [OF folders]])
    apply (rule from_tag_read, rule from_tag_section, simp add: reads_digests crcs)
     apply (simp only: prod.case, rule from_tag_end, rule reads_skip [OF reads_err_if], simp, rule reads_ok)
    by (simp_all add: tags_differ)
qed


section \<open>Substreams\<close>

text \<open>The totals over the counts: all substreams, and those with a size of their own.\<close>

definition sub_total :: "u64 list \<Rightarrow> nat" where
  "sub_total counts = sum_list (map unat counts)"

definition sub_explicit :: "u64 list \<Rightarrow> nat" where
  "sub_explicit counts = sum_list (map (\<lambda>c. unat c - 1) counts)"

lemma sub_sums [simp]:
  "sub_total [] = 0" "sub_total (c # cs) = unat c + sub_total cs"
  "sub_explicit [] = 0" "sub_explicit (c # cs) = unat c - 1 + sub_explicit cs"
  by (simp_all add: sub_total_def sub_explicit_def)

text \<open>A digest is stored for every substream but the only one of a folder that has a digest.\<close>

definition own_digests :: "u32 option list option \<Rightarrow> nat \<Rightarrow> u64 \<Rightarrow> nat" where
  "own_digests crcs i c = (if c \<noteq> 1 \<or> inherited_crc crcs i = None then unat c else 0)"

definition digest_total :: "u32 option list option \<Rightarrow> nat \<Rightarrow> u64 list \<Rightarrow> nat" where
  "digest_total crcs start counts = sum_list (map (\<lambda>(i, c). own_digests crcs i c) (enumerate start counts))"

lemma digest_total_simps [simp]:
  "digest_total crcs i [] = 0"
  "digest_total crcs i (c # cs) = own_digests crcs i c + digest_total crcs (Suc i) cs"
  by (simp_all add: digest_total_def)

lemma digest_total_le: "digest_total crcs i counts \<le> sub_total counts"
  by (induction counts arbitrary: i) (auto simp: own_digests_def add_mono trans_le_add2)

lemma checked_add_of_nat:
  "m + n < 2 ^ 64 \<Longrightarrow> checked_add (of_nat m :: u64) (of_nat n) = Some (of_nat (m + n))"
  by (simp add: checked_add_def)

lemma checked_add_unat:
  "m + unat c < 2 ^ 64 \<Longrightarrow> checked_add (of_nat m :: u64) c = Some (of_nat (m + unat c))"
  using checked_add_of_nat [of m "unat c"] by simp

lemma explicit_step:
  "(if c = 0 then ok 0 else ok_or e (checked_sub c 1)) = ok (of_nat (unat c - 1) :: u64)"
proof (cases "c = 0")
  case False
  then have "unat (c - 1) = unat c - 1" by (rule unat_minus_one)
  then have "(of_nat (unat c - 1) :: u64) = of_nat (unat (c - 1))" by (simp only:)
  also have "\<dots> = c - 1" by simp
  finally have "(of_nat (unat c - 1) :: u64) = c - 1" .
  with False show ?thesis
    by (simp add: checked_sub_def word_le_nat_alt Suc_le_eq unat_gt_0)
qed simp

lemma initial_sum: "for_fold xs b f = ok r \<Longrightarrow> a = b \<Longrightarrow> r = r' \<Longrightarrow> for_fold xs a f = ok r'"
  by simp

lemma sum_run:
  assumes "\<And>a b c. a + unat c < 2 ^ 64 \<Longrightarrow> b + (unat c - 1) < 2 ^ 64 \<Longrightarrow>
      f (of_nat a :: u64, of_nat b :: u64) c = ok (of_nat (a + unat c), of_nat (b + (unat c - 1)))"
    and "a + sub_total counts < 2 ^ 64" and "b + sub_explicit counts < 2 ^ 64"
  shows "for_fold counts (of_nat a, of_nat b) f
    = ok (of_nat (a + sub_total counts), of_nat (b + sub_explicit counts))"
  using assms(2,3)
proof (induction counts arbitrary: a b)
  case (Cons c cs)
  then have fits: "a + unat c < 2 ^ 64" "b + (unat c - 1) < 2 ^ 64" by simp_all
  have tail: "a + unat c + sub_total cs < 2 ^ 64" "b + (unat c - 1) + sub_explicit cs < 2 ^ 64"
    using Cons.prems by simp_all
  show ?case
    unfolding for_fold.simps assms(1) [OF fits] and_then_ok Cons.IH [OF tail] sub_sums
    by (simp only: add.assoc)
qed simp

lemma count_substreams_run:
  assumes "sub_total counts < 2 ^ 64" and "sub_explicit counts < 2 ^ 64"
  shows "count_substreams counts = ok (of_nat (sub_total counts), of_nat (sub_explicit counts))"
  unfolding count_substreams_def
proof (rule sum_run [where a = 0 and b = 0, THEN initial_sum])
  show "(0 :: u64, 0 :: u64) = (of_nat 0, of_nat 0)" by simp
  show "(of_nat (0 + sub_total counts) :: u64, of_nat (0 + sub_explicit counts) :: u64)
      = (of_nat (sub_total counts), of_nat (sub_explicit counts))" by simp
qed (simp_all only: prod.case explicit_step checked_add_unat checked_add_of_nat ok_or_simps
      and_then_ok add_0 assms)

lemma reads_count_substreams:
  "sub_total counts < 2 ^ 64 \<Longrightarrow> sub_explicit counts < 2 ^ 64 \<Longrightarrow>
     reads (count_substreams counts) [] (of_nat (sub_total counts), of_nat (sub_explicit counts))"
  by (simp only: count_substreams_run reads_ok)

lemma digest_run:
  assumes "\<And>a i c. a + own_digests crcs i c < 2 ^ 64 \<Longrightarrow>
      f (of_nat a :: u64) (i, c) = ok (of_nat (a + own_digests crcs i c))"
    and "a + digest_total crcs i counts < 2 ^ 64"
  shows "for_fold (enumerate i counts) (of_nat a) f = ok (of_nat (a + digest_total crcs i counts))"
  using assms(2)
proof (induction counts arbitrary: a i)
  case (Cons c cs)
  then have fits: "a + own_digests crcs i c < 2 ^ 64"
    and tail: "a + own_digests crcs i c + digest_total crcs (Suc i) cs < 2 ^ 64"
    by simp_all
  show ?case
    unfolding enumerate_simps for_fold.simps assms(1) [OF fits] and_then_ok Cons.IH [OF tail]
      digest_total_simps
    by (simp only: add.assoc)
qed simp

lemma count_digests_run:
  assumes "digest_total crcs 0 counts < 2 ^ 64"
  shows "count_digests crcs counts = ok (of_nat (digest_total crcs 0 counts))"
  unfolding count_digests_def
proof (rule digest_run [where a = 0 and i = 0 and counts = counts and crcs = crcs, THEN initial_sum], goal_cases)
  case (1 a i c)
  then show ?case
    by (cases "c \<noteq> 1 \<or> inherited_crc crcs i = None")
      (auto simp: own_digests_def checked_add_unat simp del: of_nat_add)
qed (use assms in simp_all)

lemma reads_count_digests:
  "digest_total crcs 0 counts < 2 ^ 64 \<Longrightarrow>
     reads (count_digests crcs counts) [] (of_nat (digest_total crcs 0 counts))"
  by (simp only: count_digests_run reads_ok)

definition substreams_ok :: "raw_unpack_info \<Rightarrow> raw_substreams_info \<Rightarrow> bool" where
  "substreams_ok u ss \<longleftrightarrow>
     length (sub_counts ss) = length (unpack_folders u) \<and> sub_total (sub_counts ss) < 2 ^ 64 \<and>
     (case sub_explicit_sizes ss of None \<Rightarrow> True | Some xs \<Rightarrow> length xs = sub_explicit (sub_counts ss)) \<and>
     (case sub_crcs ss of
        None \<Rightarrow> True | Some cs \<Rightarrow> length cs = digest_total (unpack_crcs u) 0 (sub_counts ss))"

definition encode_substreams_info :: "raw_substreams_info \<Rightarrow> byte_slice" where
  "encode_substreams_info ss =
     [ID_NUM_UNPACK_STREAM] @ encode_sizes (sub_counts ss) @
     encode_section ID_SIZE encode_sizes (sub_explicit_sizes ss) @
     encode_section ID_CRC encode_digests (sub_crcs ss) @ [ID_END]"

lemma sub_explicit_le: "sub_explicit counts \<le> sub_total counts"
  by (induction counts) auto

lemma reads_substreams_info:
  assumes ok: "substreams_ok u ss" and few: "length (unpack_folders u) < 2 ^ 64"
  shows "reads (parse_substreams_info u lim) (encode_substreams_info ss) ss"
proof -
  let ?n = "of_nat (length (unpack_folders u)) :: u64"
  have n: "unat ?n = length (sub_counts ss)" using ok few by (simp add: substreams_ok_def)
  have total: "sub_total (sub_counts ss) < 2 ^ 64" using ok by (simp add: substreams_ok_def)
  have explicit: "sub_explicit (sub_counts ss) < 2 ^ 64"
    using sub_explicit_le total by (rule le_less_trans)
  have digests: "digest_total (unpack_crcs u) 0 (sub_counts ss) < 2 ^ 64"
    using digest_total_le total by (rule le_less_trans)
  have sizes: "sub_explicit_sizes ss = Some xs \<Longrightarrow>
      unat (of_nat (sub_explicit (sub_counts ss)) :: u64) = length xs" for xs
    using ok explicit by (simp add: substreams_ok_def)
  have crcs: "sub_crcs ss = Some cs \<Longrightarrow>
      unat (of_nat (digest_total (unpack_crcs u) 0 (sub_counts ss)) :: u64) = length cs" for cs
    using ok digests by (simp add: substreams_ok_def)
  obtain r rs where rest: "encode_section ID_SIZE encode_sizes (sub_explicit_sizes ss) @
      encode_section ID_CRC encode_digests (sub_crcs ss) @ [ID_END] = [r] @ rs"
    by (cases "encode_section ID_SIZE encode_sizes (sub_explicit_sizes ss) @
      encode_section ID_CRC encode_digests (sub_crcs ss) @ [ID_END]") simp_all
  have counts: "reads (if ID_NUM_UNPACK_STREAM = ID_NUM_UNPACK_STREAM then
      and_then (repeat_push (unat ?n) read_uint) (\<lambda>counts. and_then read_u8 (\<lambda>id. ok (counts, id)))
      else ok (replicate (unat ?n) 1, ID_NUM_UNPACK_STREAM))
    (encode_sizes (sub_counts ss) @ [r]) (sub_counts ss, r)"
    unfolding if_P [OF refl]
    by (rule reads_bind [OF reads_uints [OF n]], rule reads_last [OF reads_u8], rule reads_ok) simp
  have tail: "from_tag (\<lambda>id. and_then (count_substreams (sub_counts ss)) (\<lambda>(total_substreams, explicit_size_count).
      and_then (add_substreams total_substreams lim) (\<lambda>_.
      and_then (optional_section id ID_SIZE (parse_sizes explicit_size_count)) (\<lambda>(explicit_sizes, id).
      and_then (count_digests (unpack_crcs u) (sub_counts ss)) (\<lambda>digest_count.
      and_then (optional_section id ID_CRC (parse_digests digest_count)) (\<lambda>(crcs, id).
      and_then (err_if (id \<noteq> ID_END) (format_error ''unexpected SubStreamsInfo identifier'')) (\<lambda>_.
      ok \<lparr>sub_counts = sub_counts ss, sub_explicit_sizes = explicit_sizes, sub_crcs = crcs\<rparr>)))))))
    ([r] @ rs) ss"
    unfolding rest [symmetric]
    apply (rule from_tag_skip [OF reads_count_substreams [OF total explicit]], simp only: prod.case)
    apply (rule from_tag_skip [OF reads_adds(5)], rule from_tag_section, simp add: reads_sizes sizes)
     apply (simp only: prod.case, rule from_tag_skip [OF reads_count_digests [OF digests]])
     apply (rule from_tag_section, simp add: reads_digests crcs, simp only: prod.case)
      apply (rule from_tag_end, rule reads_skip [OF reads_err_if], simp, rule reads_ok)
    by (simp_all add: tags_differ)
  show ?thesis
    unfolding parse_substreams_info_def encode_substreams_info_def rest
    apply (rule reads_skip [OF reads_usize_to_u64 [OF few]])
    apply (rule reads_bind [OF reads_u8], rule reads_skip [OF reads_new_vec])
    apply (subst append_assoc [symmetric])
    apply (rule reads_bind [OF counts])
    using tail unfolding from_tag_def append_Cons append_Nil list.sel prod.case by (rule conjunct2)
qed

section \<open>Streams\<close>

definition streams_ok :: "raw_streams_info \<Rightarrow> bool" where
  "streams_ok si \<longleftrightarrow>
     (case streams_pack si of None \<Rightarrow> True | Some p \<Rightarrow> pack_ok p) \<and>
     (case streams_unpack si of None \<Rightarrow> True | Some u \<Rightarrow> unpack_ok u) \<and>
     (case streams_substreams si of
        None \<Rightarrow> True
      | Some ss \<Rightarrow> (case streams_unpack si of None \<Rightarrow> False | Some u \<Rightarrow> substreams_ok u ss))"

definition encode_streams_info :: "raw_streams_info \<Rightarrow> byte_slice" where
  "encode_streams_info si =
     encode_section ID_PACK_INFO encode_pack_info (streams_pack si) @
     encode_section ID_UNPACK_INFO encode_unpack_info (streams_unpack si) @
     encode_section ID_SUBSTREAMS_INFO encode_substreams_info (streams_substreams si) @ [ID_END]"

text \<open>The branch on an identifier that is not the shape of \<open>optional_section\<close>.\<close>

lemma from_tag_if:
  assumes "\<And>x. v = Some x \<Longrightarrow> reads m (enc x @ rest) y"
    and "v = None \<Longrightarrow> from_tag f rest y \<and> hd rest \<noteq> tag"
  shows "from_tag (\<lambda>id. if id = tag then m else f id) (encode_section tag enc v @ rest) y"
  using assms by (cases v) (auto simp: from_tag_def)

lemma reads_streams_rest:
  assumes "streams_ok si"
  shows "from_tag (parse_streams_rest lim (streams_pack si) (streams_unpack si))
    (encode_section ID_SUBSTREAMS_INFO encode_substreams_info (streams_substreams si) @ [ID_END])
    (StreamsComplete si)"
proof (cases "streams_substreams si")
  case None
  have "reads (case streams_unpack si of
      None \<Rightarrow> ok ()
    | Some u \<Rightarrow> and_then (usize_to_u64 (length (unpack_folders u)) d) (\<lambda>count. add_substreams count lim)) [] ()" for d
    using assms
    by (auto simp: streams_ok_def unpack_ok_def split: option.splits
        intro!: reads_ok reads_skip [OF reads_usize_to_u64] reads_adds)
  with None show ?thesis
    unfolding from_tag_def parse_streams_rest_def
    by (auto simp: tags_differ intro!: reads_ok reads_skip [OF reads_skip [OF _ reads_ok [OF refl]]])
next
  case (Some ss)
  with assms obtain u where u: "streams_unpack si = Some u" "unpack_ok u" "substreams_ok u ss"
    by (auto simp: streams_ok_def split: option.splits)
  then have "reads (parse_substreams_info u lim) (encode_substreams_info ss) ss"
    by (intro reads_substreams_info) (simp_all add: unpack_ok_def)
  then have sub: "reads (and_then (parse_substreams_info u lim) (\<lambda>v. and_then read_u8 (\<lambda>id. ok (Some v, id))))
      (encode_substreams_info ss @ [ID_END]) (Some ss, ID_END)"
    by (rule reads_bind) (rule reads_last [OF reads_u8], rule reads_ok, rule refl)
  show ?thesis
    unfolding from_tag_def parse_streams_rest_def Some u(1) encode_section_simps append_Cons list.sel
      if_P [OF refl] option.case
    by (intro conjI list.distinct(2) reads_last [OF sub])
      (simp add: reads_ok Some [symmetric] u(1) [symmetric])
qed

lemma reads_streams_info:
  assumes ok: "streams_ok si"
  shows "reads (parse_streams_info lim external) (encode_streams_info si) (StreamsComplete si)"
proof -
  note rest = reads_streams_rest [OF ok, of lim]
  have unpack: "from_tag (\<lambda>id. if id = ID_UNPACK_INFO then
        and_then (parse_unpack_info lim external) (\<lambda>parsed.
        case parsed of
          UnpackExternal data_index \<Rightarrow> ok (StreamsExternal (streams_pack si) data_index)
        | UnpackComplete value \<Rightarrow>
            and_then read_u8 (\<lambda>id. parse_streams_rest lim (streams_pack si) (Some value) id))
      else parse_streams_rest lim (streams_pack si) None id)
    (encode_section ID_UNPACK_INFO encode_unpack_info (streams_unpack si) @
     encode_section ID_SUBSTREAMS_INFO encode_substreams_info (streams_substreams si) @ [ID_END])
    (StreamsComplete si)"
  proof (rule from_tag_if)
    fix u assume u: "streams_unpack si = Some u"
    with ok have "unpack_ok u" by (simp add: streams_ok_def)
    with rest u show "reads (and_then (parse_unpack_info lim external) (\<lambda>parsed.
        case parsed of
          UnpackExternal data_index \<Rightarrow> ok (StreamsExternal (streams_pack si) data_index)
        | UnpackComplete value \<Rightarrow>
            and_then read_u8 (\<lambda>id. parse_streams_rest lim (streams_pack si) (Some value) id)))
      (encode_unpack_info u @
       encode_section ID_SUBSTREAMS_INFO encode_substreams_info (streams_substreams si) @ [ID_END])
      (StreamsComplete si)"
      by (intro reads_bind [OF reads_unpack_info]) (simp_all add: from_tag_read)
  next
    assume "streams_unpack si = None"
    with rest show "from_tag (parse_streams_rest lim (streams_pack si) None)
        (encode_section ID_SUBSTREAMS_INFO encode_substreams_info (streams_substreams si) @ [ID_END])
        (StreamsComplete si) \<and>
      hd (encode_section ID_SUBSTREAMS_INFO encode_substreams_info (streams_substreams si) @ [ID_END])
        \<noteq> ID_UNPACK_INFO"
      by (simp add: tags_differ)
  qed
  show ?thesis
    unfolding parse_streams_info_def encode_streams_info_def
    apply (rule from_tag_read, rule from_tag_section)
    subgoal using ok by (intro reads_pack_info) (simp add: streams_ok_def)
    subgoal using unpack by (simp only: prod.case)
    by (simp add: tags_differ)
qed


section \<open>Properties and files\<close>

definition property_ok :: "raw_property \<Rightarrow> bool" where
  "property_ok p \<longleftrightarrow> property_id p \<noteq> ID_END \<and> length (property_data p) < 2 ^ 64"

definition encode_property :: "raw_property \<Rightarrow> byte_slice" where
  "encode_property p =
     [property_id p] @ encode_7z_uint (of_nat (length (property_data p))) @ property_data p"

definition encode_properties :: "raw_property list \<Rightarrow> byte_slice" where
  "encode_properties ps = concat (map encode_property ps) @ [ID_END]"

lemma reads_property:
  assumes "property_ok p"
  shows "reads (read_property lim (property_id p))
    (encode_7z_uint (of_nat (length (property_data p))) @ property_data p) p"
  unfolding read_property_def
  by (rule reads_skip [OF reads_adds(6)], rule reads_bind [OF reads_uint],
      rule reads_skip [OF reads_check_limit], rule reads_last [OF reads_bytes],
      use assms in \<open>simp add: property_ok_def\<close>, rule reads_skip [OF reads_reserve_exact],
      rule reads_ok) simp

lemma property_loop_unfold:
  "parse_property_loop lim ps = and_then read_u8 (\<lambda>tag.
     if tag = ID_END then ok ps
     else and_then (read_property lim tag) (\<lambda>p. parse_property_loop lim (ps @ [p])))"
proof
  fix s
  show "parse_property_loop lim ps s = and_then read_u8 (\<lambda>tag.
     if tag = ID_END then ok ps
     else and_then (read_property lim tag) (\<lambda>p. parse_property_loop lim (ps @ [p]))) s"
    by (subst parse_property_loop.simps) (auto simp: and_then_def split: prod.split sum.split)
qed

lemma reads_property_loop:
  assumes "\<forall>p \<in> set ps. property_ok p"
  shows "reads (parse_property_loop lim done_ps) (encode_properties ps) (done_ps @ ps)"
  using assms
proof (induction ps arbitrary: done_ps)
  case Nil
  show ?case
    unfolding encode_properties_def
    by (subst property_loop_unfold) (auto intro!: reads_last [OF reads_u8] reads_ok)
next
  case (Cons p ps)
  then have "reads (parse_property_loop lim (done_ps @ [p])) (encode_properties ps) (done_ps @ p # ps)"
    using Cons.IH [of "done_ps @ [p]"] by simp
  with Cons.prems have "reads (and_then (read_property lim (property_id p))
      (\<lambda>p. parse_property_loop lim (done_ps @ [p])))
    ((encode_7z_uint (of_nat (length (property_data p))) @ property_data p) @ encode_properties ps)
    (done_ps @ p # ps)"
    by (intro reads_bind [OF reads_property]) simp_all
  moreover have "property_id p \<noteq> ID_END" using Cons.prems by (simp add: property_ok_def)
  ultimately show ?case
    unfolding encode_properties_def encode_property_def list.map concat.simps append_assoc
    by (subst property_loop_unfold, intro reads_bind [OF reads_u8]) (simp add: encode_property_def)
qed

lemma reads_properties:
  "\<forall>p \<in> set ps. property_ok p \<Longrightarrow> reads (parse_property_list lim) (encode_properties ps) ps"
  unfolding parse_property_list_def using reads_property_loop [of ps lim "[]"] by simp

definition files_ok :: "raw_files_info \<Rightarrow> bool" where
  "files_ok fi \<longleftrightarrow> (\<forall>p \<in> set (files_properties fi). property_ok p)"

definition encode_files_info :: "raw_files_info \<Rightarrow> byte_slice" where
  "encode_files_info fi = encode_7z_uint (files_count fi) @ encode_properties (files_properties fi)"

lemma reads_files_info: "files_ok fi \<Longrightarrow> reads (parse_files_info lim) (encode_files_info fi) fi"
  unfolding parse_files_info_def encode_files_info_def files_ok_def
  by (rule reads_bind [OF reads_uint], rule reads_skip [OF reads_check_limit],
      rule reads_last [OF reads_properties], assumption, rule reads_ok) simp


section \<open>The next header\<close>

fun next_header_ok :: "raw_next_header \<Rightarrow> bool" where
  "next_header_ok (Header h) =
     ((\<forall>p \<in> set (header_archive_properties h). property_ok p) \<and>
      (case header_additional_streams h of None \<Rightarrow> True | Some si \<Rightarrow> streams_ok si) \<and>
      (case header_main_streams h of None \<Rightarrow> True | Some si \<Rightarrow> streams_ok si) \<and>
      (case header_files h of None \<Rightarrow> True | Some fi \<Rightarrow> files_ok fi))"
| "next_header_ok (Encoded si) = streams_ok si"
| "next_header_ok (ExternalFolders pending) = False"

definition present :: "'a list \<Rightarrow> 'a list option" where
  "present xs = (if xs = [] then None else Some xs)"

fun encode_next_header :: "raw_next_header \<Rightarrow> byte_slice" where
  "encode_next_header (Header h) =
     [ID_HEADER] @
     encode_section ID_ARCHIVE_PROPERTIES encode_properties (present (header_archive_properties h)) @
     encode_section ID_ADDITIONAL_STREAMS_INFO encode_streams_info (header_additional_streams h) @
     encode_section ID_MAIN_STREAMS_INFO encode_streams_info (header_main_streams h) @
     encode_section ID_FILES_INFO encode_files_info (header_files h) @ [ID_END]"
| "encode_next_header (Encoded si) = [ID_ENCODED_HEADER] @ encode_streams_info si"
| "encode_next_header (ExternalFolders pending) = []"

lemma reads_header_rest:
  assumes "next_header_ok (Header h)"
  shows "from_tag (parse_header_rest lim (header_archive_properties h) (header_additional_streams h)
      (header_main_streams h))
    (encode_section ID_FILES_INFO encode_files_info (header_files h) @ [ID_END]) (Header h)"
  unfolding parse_header_rest_def
  apply (rule from_tag_section)
  subgoal using assms by (intro reads_files_info) simp
   apply (simp only: prod.case, rule from_tag_end, rule reads_skip [OF reads_err_if], simp, rule reads_ok)
  by (simp_all add: tags_differ)

lemma reads_header_body:
  assumes ok: "next_header_ok (Header h)"
  shows "reads (parse_header_body bytes lim external) (tl (encode_next_header (Header h))) (Header h)"
proof -
  note rest = reads_header_rest [OF ok, of lim]
  have archive: "(case present (header_archive_properties h) of None \<Rightarrow> [] | Some ps \<Rightarrow> ps)
      = header_archive_properties h"
    by (simp add: present_def)
  have main: "from_tag (\<lambda>id. if id = ID_MAIN_STREAMS_INFO then
        and_then (parse_streams_info lim external) (\<lambda>parsed.
        case parsed of
          StreamsComplete streams \<Rightarrow>
            and_then read_u8 (\<lambda>id.
            parse_header_rest lim (header_archive_properties h) (header_additional_streams h) (Some streams) id)
        | StreamsExternal pack data_index \<Rightarrow>
            and_then (ok_or (format_error
                        ''external folder definitions require AdditionalStreamsInfo'')
                       (header_additional_streams h)) (\<lambda>additional_streams.
            ok (ExternalFolders \<lparr>external_additional_streams = additional_streams,
                                 external_main_pack = pack, external_data_index = data_index,
                                 external_header_bytes = bytes\<rparr>)))
      else parse_header_rest lim (header_archive_properties h) (header_additional_streams h) None id)
    (encode_section ID_MAIN_STREAMS_INFO encode_streams_info (header_main_streams h) @
     encode_section ID_FILES_INFO encode_files_info (header_files h) @ [ID_END]) (Header h)"
  proof (rule from_tag_if, goal_cases)
    case (1 si)
    with ok have "streams_ok si" by simp
    with 1 rest show ?case
      by (intro reads_bind [OF reads_streams_info]) (simp_all add: from_tag_read)
  next
    case 2
    with rest show ?case by (simp add: tags_differ)
  qed
  show ?thesis
    unfolding parse_header_body_def encode_next_header.simps append_Cons append_Nil list.sel
    apply (rule from_tag_read, rule from_tag_section)
    subgoal using ok by (intro reads_properties) (auto simp: present_def split: if_splits)
    subgoal
      unfolding prod.case archive Let_def
      apply (rule from_tag_section)
      subgoal using ok by (intro reads_last [OF reads_streams_info]) (simp_all add: reads_ok)
      subgoal using main by (simp only: prod.case)
      by (simp add: tags_differ)
    by (simp add: tags_differ)
qed

lemma reads_next_header:
  assumes "next_header_ok h"
  shows "reads (and_then read_u8 (\<lambda>tag. parse_header_kind bytes lim external tag)) (encode_next_header h) h"
proof (cases h)
  case (Header r)
  have "reads (and_then read_u8 (\<lambda>tag. parse_header_kind bytes lim external tag))
      ([ID_HEADER] @ tl (encode_next_header (Header r))) (Header r)"
    by (rule reads_bind [OF reads_u8])
      (use assms Header reads_header_body in \<open>simp add: parse_header_kind_def del: encode_next_header.simps\<close>)
  with Header show ?thesis by simp
next
  case (Encoded si)
  have "reads (and_then read_u8 (\<lambda>tag. parse_header_kind bytes lim external tag))
      ([ID_ENCODED_HEADER] @ encode_streams_info si) (Encoded si)"
    by (rule reads_bind [OF reads_u8], use assms Encoded in \<open>simp add: parse_header_kind_def tags_differ\<close>)
      (rule reads_last [OF reads_streams_info], simp_all add: reads_ok)
  with Encoded show ?thesis by simp
qed (use assms in simp)



section \<open>The round trip\<close>

text \<open>C2: Every well-formed next header survives the trip through its encoding: the parser returns
  exactly the header that was written, or stops for want of resources or at a limit; it never
  reports the encoding as malformed.\<close>

theorem next_header_round_trip:
  assumes "next_header_ok h" and "length (encode_next_header h) \<le> usize_max (machine s)"
    and "2 ^ 64 - 1 \<le> usize_max (machine s)"
  shows "case parse_next_header (encode_next_header h) lim s of
           (Inr h', t) \<Rightarrow> h' = h
         | (Inl e, t) \<Rightarrow> tolerated e"
proof -
  let ?s = "s\<lparr>reader := reader_new (encode_next_header h)\<rparr>"
  have s: "ready ?s" "unread ?s = encode_next_header h @ []"
    using assms by (simp_all add: ready_def reader_ok_def unread_def reader_new_def)
  have "outcome tolerated (and_then (and_then read_u8 (\<lambda>tag.
      parse_header_kind (encode_next_header h) lim None tag)) finish_header) ?s (\<lambda>h' t. h' = h)"
  proof (rule outcome_and_then, rule outcome_mono [OF readsD [OF reads_next_header [OF assms(1)] s]])
    fix h' t assume t: "h' = h \<and> ready t \<and> unread t = []"
    then have "rd_position (reader t) = length (rd_bytes (reader t))"
      by (auto simp: unread_def ready_def reader_ok_def)
    with t show "outcome tolerated (finish_header h') t (\<lambda>h' t. h' = h)"
      by (auto simp: outcome_def finish_header_def finish_def and_then_def run
          split: raw_next_header.split)
  qed
  then have "outcome tolerated (parse_next_header (encode_next_header h) lim) s (\<lambda>h' t. h' = h)"
    unfolding parse_next_header_def parse_next_header_inner_def and_then_assoc
    by (intro outcome_and_then outcome_check_limit) (auto simp: outcome_def with_reader_def split: prod.splits)
  then show ?thesis
    by (auto simp: outcome_def split: prod.splits sum.splits)
qed

text \<open>An archive of one file, stored by a single LZMA2 coder.\<close>

definition sample_header :: raw_next_header where
  "sample_header = Header \<lparr>
     header_archive_properties = [\<lparr>property_id = 0x30, property_data = [1, 2]\<rparr>],
     header_additional_streams = None,
     header_main_streams = Some \<lparr>
       streams_pack = Some \<lparr>pack_position = 0, pack_streams = 1, pack_sizes = Some [300],
         pack_crcs = Some [None]\<rparr>,
       streams_unpack = Some \<lparr>
         unpack_folders = [\<lparr>
           raw_coders = [\<lparr>raw_method_id = [0x21], raw_coder_inputs = 1, raw_coder_outputs = 1,
                          raw_coder_properties = [24]\<rparr>],
           raw_input_streams = 1, raw_output_streams = 1, raw_bind_pairs = [],
           raw_packed_streams = 1, raw_packed_indices = None, raw_unpack_sizes = [1000]\<rparr>],
         unpack_crcs = None\<rparr>,
       streams_substreams = Some \<lparr>sub_counts = [1], sub_explicit_sizes = None,
         sub_crcs = Some [Some 0xcbf43926]\<rparr>\<rparr>,
     header_files = Some \<lparr>files_count = 1,
       files_properties = [\<lparr>property_id = ID_NAME, property_data = [0, 97, 0, 0, 0]\<rparr>]\<rparr>\<rparr>"

lemma next_header_round_trip_witness:
  "case parse_next_header (encode_next_header sample_header) default_limits (sample_session []) of
     (Inr h', t) \<Rightarrow> h' = sample_header
   | (Inl e, t) \<Rightarrow> tolerated e"
proof (rule next_header_round_trip)
  show "next_header_ok sample_header"
    by (simp add: sample_header_def property_ok_def streams_ok_def pack_ok_def unpack_ok_def
        folder_ok_def coder_ok_def substreams_ok_def own_digests_def inherited_crc_def files_ok_def
        property_ids)
  show "length (encode_next_header sample_header) \<le> usize_max (machine (sample_session []))"
    by (simp add: sample_header_def sample_session_def present_def encode_properties_def
        encode_property_def encode_streams_info_def encode_pack_info_def encode_sizes_def
        encode_digests_def encode_unpack_info_def encode_folder_def encode_coder_def
        encode_substreams_info_def encode_files_info_def encode_7z_uint_def encode_7z_with_def
        extra_bytes_def encode_bits.simps)
  show "2 ^ 64 - 1 \<le> usize_max (machine (sample_session []))"
    by (simp add: sample_session_def)
qed

end
