(* ===== verification/Core_Properties.thy ===== *)
theory Core_Properties
  imports Raw_Header
begin

text \<open>
  Properties of the layers below the parsers: the work budget, the chunked checksum, the bounded
  reader and the error values.
\<close>


section \<open>Work and checksums\<close>

text \<open>C31: A charge is exact: it succeeds when the budget and the width of its counter can pay for it,
  and then takes the units from both fields; otherwise it changes nothing and reports a bound below
  the request.\<close>

theorem charge_exact:
  "case charge u b of
     (Inr _, c) \<Rightarrow> unat u \<le> affordable b \<and> c = charged (unat u) b \<and>
       unat (consumed c) = unat (consumed b) + unat u
   | (Inl e, c) \<Rightarrow> c = b \<and> affordable b < unat u \<and>
       (\<exists>m. e = LimitExceeded WorkUnits u m \<and> affordable b \<le> unat m \<and> unat m < unat u)"
  using reported_bounds [of b u] by (auto simp: charge_eq unat_consumed_charged not_le)

lemma checksum_loop_paid:
  assumes "for_fold cs c (\<lambda>checksum chunk.
       and_then (usize_to_u64 (length chunk) detail) (\<lambda>units.
       and_then (checkpoint units) (\<lambda>_.
       case crc32_update chunk checksum of
         (Inl e, _) \<Rightarrow> err e
       | (Inr _, checksum') \<Rightarrow> ok checksum'))) s = (Inr r, t)"
  shows "paid (sum_list (map length cs)) s t"
  using assms
proof (induction cs arbitrary: c s)
  case Nil
  then show ?case by (simp add: success paid_def)
next
  case (Cons x cs)
  then obtain u c' where "length x < 2 ^ 64" and "checkpoint (of_nat (length x)) s = (Inr (), u)"
    and rec: "for_fold cs c' (\<lambda>checksum chunk.
       and_then (usize_to_u64 (length chunk) detail) (\<lambda>units.
       and_then (checkpoint units) (\<lambda>_.
       case crc32_update chunk checksum of
         (Inl e, _) \<Rightarrow> err e
       | (Inr _, checksum') \<Rightarrow> ok checksum'))) u = (Inr r, t)"
    by (force simp: usize_to_u64_success and_then_success crc32_update_run ok_success)
  then have "paid (length x) s u" using checkpoint_paid by fastforce
  with Cons.IH [OF rec] show ?case by (simp add: paid_def)
qed

lemma checksum_outcome:
  "outcome resource_error (crc32_with_control bytes) s (\<lambda>c t. True)"
  unfolding crc32_with_control_def checksum_with_control_def
proof (rule outcome_and_then, rule outcome_for_fold [where I = "\<lambda>_ _ _. True"])
  fix past chunk rest c and u :: session
  assume "chunks CONTROL_CHUNK_SIZE bytes = past @ chunk # rest"
  then have "chunk \<in> set (chunks CONTROL_CHUNK_SIZE bytes)" by simp
  from chunks_bound [OF this] have "length chunk < 2 ^ 64" by (simp add: CONTROL_CHUNK_SIZE_def)
  then show "outcome resource_error (and_then (usize_to_u64 (length chunk)
        ''CRC chunk length is not representable as u64'') (\<lambda>units.
      and_then (checkpoint units) (\<lambda>_.
      case crc32_update chunk c of (Inl e, _) \<Rightarrow> err e | (Inr _, c') \<Rightarrow> ok c'))) u (\<lambda>_ _. True)"
    by (intro outcome_rules control_outcomes)
      (auto simp: crc32_update_run intro: outcome_ok)
qed (simp_all add: outcome_ok)

text \<open>C32: The table-driven checksum, fed chunk by chunk between charges, is the bit-serial CRC-32 of the
  whole slice, pays one unit per byte, and fails for want of resources only.\<close>

theorem checksum_is_crc32:
  "case crc32_with_control bytes s of
     (Inr c, t) \<Rightarrow> c = crc32 bytes \<and> paid (length bytes) s t
   | (Inl e, t) \<Rightarrow> resource_error e"
proof (cases "crc32_with_control bytes s")
  case (Pair r t)
  show ?thesis
  proof (cases r)
    case (Inl e)
    with Pair checksum_outcome [of bytes s] show ?thesis by (simp add: outcome_def)
  next
    case (Inr c)
    with Pair have run: "crc32_with_control bytes s = (Inr c, t)" by simp
    then have "paid (sum_list (map length (chunks CONTROL_CHUNK_SIZE bytes))) s t"
      by (auto simp: crc32_with_control_def checksum_with_control_def and_then_success ok_success
          dest: checksum_loop_paid)
    with run Inr show ?thesis
      by (simp add: crc32_with_control_value CONTROL_CHUNK_SIZE_def sum_length_chunks)
  qed
qed


section \<open>The bounded reader\<close>

text \<open>C29: The integer reader decodes exactly the 7z variable-length format: on an encoding it returns the
  value and stops behind the last byte it announces, on anything shorter it reports a format error.\<close>

theorem uint7z_decoded:
  assumes "reader_ok s"
  shows "case uint7z_spec (unread s) of
           Some (v, n) \<Rightarrow> reader_read_7z_uint s = (Inr (word_of_nat v), advance n s)
         | None \<Rightarrow> \<exists>d t. reader_read_7z_uint s = (Inl (format_error d), t)"
  by (rule reader_read_7z_uint_run [OF assms])

lemma uint7z_decoded_witness:
  "reader_read_7z_uint (sample_session [0x81, 0x34, 7]) = (Inr 0x134, advance 2 (sample_session [0x81, 0x34, 7]))"
proof -
  have "reader_ok (sample_session [0x81, 0x34, 7])"
    by (simp add: reader_ok_def sample_session_def)
  from uint7z_decoded [OF this] show ?thesis
    by (simp add: unread_def uint7z_spec_def sample_session_def ones_from.simps Let_def bit_iff_odd)
qed

text \<open>C30: Every 64-bit number survives the shortest encoding, whatever follows it.\<close>

theorem uint7z_round_trip:
  assumes "reader_ok s" and "unread s = encode_7z_uint v @ rest"
  shows "reader_read_7z_uint s = (Inr v, advance (length (encode_7z_uint v)) s)"
  using reader_read_7z_uint_run [OF assms(1)] by (simp add: assms(2) uint7z_spec_encode)

lemma uint7z_round_trip_witness:
  "reader_read_7z_uint (sample_session (encode_7z_uint 70000))
    = (Inr 70000, advance (length (encode_7z_uint 70000)) (sample_session (encode_7z_uint 70000)))"
  by (rule uint7z_round_trip [where rest = "[]"])
    (simp_all add: reader_ok_def unread_def sample_session_def encode_7z_uint_def encode_7z_with_def
      extra_bytes_def)


section \<open>Error values\<close>


end
