(* ===== verification/Range_Laws.thy ===== *)
theory Range_Laws
  imports Validation "HOL-Library.Multiset"
begin

text \<open>
  The packed streams of a validated archive: where they lie, and that the sections of two stream
  groups do not overlap.
\<close>


section \<open>Packed streams are contiguous and inside the archive\<close>

text \<open>
  The ranges a list of sizes occupies from an offset on, and the streams the validator builds for
  them.  Offsets are natural numbers here: the code checks every addition.
\<close>

fun laid_out :: "nat \<Rightarrow> u64 list \<Rightarrow> (nat \<times> nat) list" where
  "laid_out offset [] = []"
| "laid_out offset (sz # szs) = (offset, offset + unat sz) # laid_out (offset + unat sz) szs"

definition section_end :: "nat \<Rightarrow> u64 list \<Rightarrow> nat" where
  "section_end offset szs = offset + sum_list (map unat szs)"

lemma section_end_simps [simp]:
  "section_end offset [] = offset" "section_end offset (sz # szs) = section_end (offset + unat sz) szs"
  by (simp_all add: section_end_def)

lemma section_end_append [simp]:
  "section_end offset (xs @ ys) = section_end (section_end offset xs) ys"
  by (induction xs arbitrary: offset) simp_all

lemma laid_out_append [simp]:
  "laid_out offset (xs @ ys) = laid_out offset xs @ laid_out (section_end offset xs) ys"
  by (induction xs arbitrary: offset) simp_all

definition stream_range :: "pack_stream \<Rightarrow> nat \<times> nat" where
  "stream_range p =
     (unat (stream_offset p), unat (stream_offset p) + (case stream_size p of None \<Rightarrow> 0 | Some sz \<Rightarrow> unat sz))"

lemma laid_out_bounds:
  "(a, b) \<in> set (laid_out offset szs) \<Longrightarrow> offset \<le> a \<and> a \<le> b \<and> b \<le> section_end offset szs"
proof (induction szs arbitrary: offset)
  case (Cons sz szs)
  then show ?case
    by (auto simp: section_end_def dest!: Cons.IH)
qed simp

lemma value_at_success [success]:
  "value_at vs i d s = (Inr v, t) \<longleftrightarrow>
     t = s \<and> (case vs of None \<Rightarrow> v = None | Some xs \<Rightarrow> i < length xs \<and> v = Some (xs ! i))"
  by (cases vs) (auto simp: value_at_def success item_get_eq_Some)

lemma pack_range_success:
  assumes "pack_range env archive crcs (streams, offset) (i, sz) s = (Inr (streams', offset'), t)"
  shows "\<exists>p. streams' = streams @ [p] \<and> stream_range p = (unat offset, unat offset') \<and>
    stream_offset p = offset \<and> stream_size p = Some sz \<and> sz \<noteq> UNKNOWN_SIZE \<and>
    unat offset' = unat offset + unat sz \<and> offset' \<le> next_header_offset env \<and>
    unat offset' \<le> length archive"
  using assms
  by (auto simp: pack_range_def success checked_add_eq_Some stream_range_def not_less)

text \<open>What the loop has built from the sizes behind it.\<close>

definition packed_so_far ::
    "header_envelope \<Rightarrow> byte_slice \<Rightarrow> u64 \<Rightarrow> u64 list \<Rightarrow> pack_stream list \<times> u64 \<Rightarrow> bool" where
  "packed_so_far env archive start szs acc \<longleftrightarrow>
     map stream_range (fst acc) = laid_out (unat start) szs \<and>
     map stream_size (fst acc) = map Some szs \<and>
     unat (snd acc) = section_end (unat start) szs \<and>
     (szs \<noteq> [] \<longrightarrow> snd acc \<le> next_header_offset env \<and> unat (snd acc) \<le> length archive)"

lemma pack_loop:
  assumes "for_fold (enumerate 0 szs) ([], start) (pack_range env archive crcs) s = (Inr acc, t)"
  shows "packed_so_far env archive start szs acc"
proof -
  have "packed_so_far env archive start (map snd (enumerate 0 szs)) acc"
  proof (rule for_fold_invariant [OF assms, where I = "\<lambda>past acc _. packed_so_far env archive start (map snd past) acc"], goal_cases)
    case (2 past item rest acc u acc' v)
    obtain i sz where item: "item = (i, sz)" by force
    obtain streams offset streams' offset' where acc: "acc = (streams, offset)" "acc' = (streams', offset')"
      by force
    from pack_range_success 2(3) 2(2) show ?case
      unfolding item acc by (fastforce simp: packed_so_far_def)
  qed (simp add: packed_so_far_def)
  then show ?thesis by simp
qed

text \<open>
  The section of a stream group: its streams follow each other without gaps from the packed
  position on, and end before the next header and inside the archive.
\<close>

definition group_ok :: "header_envelope \<Rightarrow> byte_slice \<Rightarrow> nat \<Rightarrow> u64 list \<Rightarrow> pack_stream list \<Rightarrow> bool" where
  "group_ok env archive start szs streams \<longleftrightarrow>
     map stream_range streams = laid_out start szs \<and> map stream_size streams = map Some szs \<and>
     (szs \<noteq> [] \<longrightarrow> section_end start szs \<le> unat (next_header_offset env) \<and>
        section_end start szs \<le> length archive)"

definition pack_start :: "header_envelope \<Rightarrow> raw_pack_info \<Rightarrow> nat" where
  "pack_start env p = unat (signature_offset env) + 32 + unat (pack_position p)"

definition added_range :: "nat \<Rightarrow> u64 list \<Rightarrow> (nat \<times> nat) list" where
  "added_range start szs =
     (if start < section_end start szs then [(start, section_end start szs)] else [])"

abbreviation nat_ranges :: "ranges \<Rightarrow> (nat \<times> nat) list" where
  "nat_ranges rs \<equiv> map (map_prod unat unat) rs"

lemma validate_pack_ranges_success:
  assumes "validate_pack_ranges (Some p) env archive rs s = (Inr ((pos, streams), rs'), t)"
  shows "\<exists>szs. pack_sizes p = Some szs \<and> length szs = unat (pack_streams p) \<and> pos = pack_position p \<and>
    group_ok env archive (pack_start env p) szs streams \<and>
    nat_ranges rs' = nat_ranges rs @ added_range (pack_start env p) szs"
proof -
  from assms obtain szs fixed_end start acc u v where szs: "pack_sizes p = Some szs"
    and len: "length szs = unat (pack_streams p)"
    and fixed: "checked_add (signature_offset env) FIXED_HEADER_SIZE = Some fixed_end"
    and start: "checked_add fixed_end (pack_position p) = Some start"
    and loop: "for_fold (enumerate 0 szs) ([], start) (pack_range env archive (pack_crcs p)) u = (Inr acc, v)"
    and rest: "pos = pack_position p" "streams = fst acc"
      "rs' = (if start < snd acc then rs @ [(start, snd acc)] else rs)"
    by (auto simp: validate_pack_ranges_def success split: if_splits)
  have "unat start = pack_start env p"
    using fixed start by (simp add: checked_add_eq_Some pack_start_def FIXED_HEADER_SIZE_def)
  with pack_loop [OF loop] szs len rest show ?thesis
    by (auto simp: packed_so_far_def group_ok_def added_range_def word_less_nat_alt word_le_nat_alt)
qed

text \<open>C11: The packed streams of a stream group follow each other without gaps from the declared
  position behind the fixed header, have the declared sizes, and lie before the next header and
  inside the archive; the group's section is recorded for the overlap check unless it is empty.\<close>

theorem pack_streams_laid_out:
  assumes "validate_pack_ranges (Some p) env archive rs s = (Inr ((pos, streams), rs'), t)"
  shows "\<exists>szs. pack_sizes p = Some szs \<and> length szs = unat (pack_streams p) \<and>
    group_ok env archive (pack_start env p) szs streams \<and>
    nat_ranges rs' = nat_ranges rs @ added_range (pack_start env p) szs"
  using validate_pack_ranges_success [OF assms] by blast

definition sample_envelope :: header_envelope where
  "sample_envelope = \<lparr>signature_offset = 0, version = \<lparr>major = 0, minor = 4\<rparr>,
     next_header_offset = 37, next_header_size = 0, next_header_crc = 0, envelope_kind = KindHeader\<rparr>"

lemma pack_streams_laid_out_witness:
  "\<exists>szs. Some [2, 3] = Some szs \<and> length szs = unat (2 :: u64) \<and>
    group_ok sample_envelope (replicate 37 0) 32 szs
      [\<lparr>stream_offset = 32, stream_size = Some 2, stream_crc = None\<rparr>,
       \<lparr>stream_offset = 34, stream_size = Some 3, stream_crc = None\<rparr>] \<and>
    nat_ranges [(32, 37)] = nat_ranges [] @ added_range 32 szs"
proof -
  have "fst (validate_pack_ranges
      (Some \<lparr>pack_position = 0, pack_streams = 2, pack_sizes = Some [2, 3], pack_crcs = None\<rparr>)
      sample_envelope (replicate 37 0) [] (sample_session []))
    = Inr ((0, [\<lparr>stream_offset = 32, stream_size = Some 2, stream_crc = None\<rparr>,
                \<lparr>stream_offset = 34, stream_size = Some 3, stream_crc = None\<rparr>]), [(32, 37)])"
    by (simp add: evaluate validate_pack_ranges_def pack_range_def sample_envelope_def value_at_def
        FIXED_HEADER_SIZE_def UNKNOWN_SIZE_def flatten_def)
  then obtain t where "validate_pack_ranges
      (Some \<lparr>pack_position = 0, pack_streams = 2, pack_sizes = Some [2, 3], pack_crcs = None\<rparr>)
      sample_envelope (replicate 37 0) [] (sample_session [])
    = (Inr ((0, [\<lparr>stream_offset = 32, stream_size = Some 2, stream_crc = None\<rparr>,
                \<lparr>stream_offset = 34, stream_size = Some 3, stream_crc = None\<rparr>]), [(32, 37)]), t)"
    by (metis prod.collapse)
  from pack_streams_laid_out [OF this] show ?thesis
    by (simp add: pack_start_def sample_envelope_def)
qed


section \<open>The overlap check\<close>

definition apart :: "u64 \<times> u64 \<Rightarrow> u64 \<times> u64 \<Rightarrow> bool" where
  "apart r q \<longleftrightarrow> snd r \<le> fst q \<or> snd q \<le> fst r"

definition proper :: "ranges \<Rightarrow> bool" where
  "proper rs \<longleftrightarrow> (\<forall>r \<in> set rs. fst r < snd r)"

text \<open>Ranges in order whose neighbours do not overlap.\<close>

fun chained :: "u64 option \<Rightarrow> ranges \<Rightarrow> bool" where
  "chained p [] = True"
| "chained p (r # rs) = ((case p of None \<Rightarrow> True | Some e \<Rightarrow> e \<le> fst r) \<and> chained (Some (snd r)) rs)"

lemma check_chain:
  "for_fold rs p (\<lambda>previous_end (start, range_end).
       and_then (err_if (case previous_end of Some v \<Rightarrow> start < v | None \<Rightarrow> False)
                  (format_error ''packed-stream ranges overlap'')) (\<lambda>_.
       ok (Some range_end))) s
   = (if chained p rs then (Inr (if rs = [] then p else Some (snd (last rs))), s)
      else (Inl (format_error ''packed-stream ranges overlap''), s))"
proof (induction rs arbitrary: p)
  case Nil
  then show ?case by (simp add: run)
next
  case (Cons r rs)
  obtain a b where "r = (a, b)" by force
  with Cons show ?case
    by (auto simp: and_then_def run not_less split: option.splits)
qed

lemma check_sorted_ranges_eq:
  "check_sorted_ranges rs s =
     (if chained None rs then (Inr (), s) else (Inl (format_error ''packed-stream ranges overlap''), s))"
  unfolding check_sorted_ranges_def
  by (cases "chained None rs") (simp_all only: check_chain and_then_run_Inl and_then_run_Inr if_True if_False ok_run)

text \<open>In a list ordered by start, chained is pairwise apart.\<close>

lemma chained_apart:
  assumes "sorted_wrt (\<lambda>r q. fst r \<le> fst q) rs" and "proper rs"
  shows "chained p rs \<longleftrightarrow>
    (\<forall>r \<in> set rs. case p of None \<Rightarrow> True | Some e \<Rightarrow> e \<le> fst r) \<and> sorted_wrt apart rs"
  using assms
proof (induction rs arbitrary: p)
  case (Cons r rs)
  have r: "fst r < snd r" and rs: "proper rs" "sorted_wrt (\<lambda>r q. fst r \<le> fst q) rs"
    using Cons.prems by (auto simp: proper_def)
  have "(\<forall>q \<in> set rs. snd r \<le> fst q) \<longleftrightarrow> (\<forall>q \<in> set rs. apart r q)"
    using Cons.prems by (fastforce simp: apart_def proper_def)
  moreover have "(\<forall>q \<in> set rs. e \<le> fst q)" if "e \<le> fst r" for e
    using that Cons.prems by force
  ultimately show ?case
    using Cons.IH [OF rs(2,1), of "Some (snd r)"] by (auto split: option.splits)
qed simp

text \<open>Pairwise apart does not depend on the order.\<close>

lemma apart_sym: "apart r q = apart q r"
  by (auto simp: apart_def)

lemma apart_permuted:
  assumes "sorted_wrt apart rs" and "mset rs = mset qs"
  shows "sorted_wrt apart qs"
  using assms
proof (induction rs arbitrary: qs)
  case (Cons r rs)
  from Cons.prems(2) have "r \<in> set qs" by (metis list.set_intros(1) set_mset_mset)
  then obtain us vs where qs: "qs = us @ r # vs" by (auto dest: split_list)
  with Cons.prems(2) have ms: "mset rs = mset (us @ vs)" by simp
  then have "set rs = set us \<union> set vs" by (metis set_append set_mset_mset)
  with Cons.prems(1) have "\<forall>u \<in> set us. apart u r" "\<forall>v \<in> set vs. apart r v"
    using apart_sym by auto
  with Cons.IH [OF _ ms] Cons.prems(1) qs show ?case
    by (simp add: sorted_wrt_append)
qed simp

lemma apart_mset: "mset rs = mset qs \<Longrightarrow> sorted_wrt apart rs = sorted_wrt apart qs"
  using apart_permuted [of rs qs] apart_permuted [of qs rs] by auto

lemma check_of_sorted:
  assumes "sorted_wrt (\<lambda>r q. fst r \<le> fst q) qs" and "mset qs = mset rs" and "proper rs"
  shows "check_sorted_ranges qs s =
    (if sorted_wrt apart rs then (Inr (), s)
     else (Inl (format_error ''packed-stream ranges overlap''), s))"
proof -
  have "proper qs" using assms(2,3) by (metis proper_def set_mset_mset)
  from chained_apart [OF assms(1) this, of None] have "chained None qs = sorted_wrt apart qs"
    by simp
  also have "\<dots> = sorted_wrt apart rs" using assms(2) by (rule apart_mset)
  finally have "chained None qs = sorted_wrt apart rs" .
  then show ?thesis by (simp add: check_sorted_ranges_eq)
qed

lemma sorted_by_start:
  "sorted_wrt (\<lambda>r q. fst r \<le> fst q) rs \<longleftrightarrow> sorted (map fst (rs :: ranges))"
  by (simp add: sorted_map)

lemma sort_key_by_start: "sorted_wrt (\<lambda>r q. fst r \<le> fst q) (sort_key fst (rs :: ranges))"
  unfolding sorted_by_start by (rule sorted_sort_key)

text \<open>C12: The overlap check accepts a list of non-empty ranges exactly when they are pairwise disjoint.\<close>

theorem overlap_check_correct:
  assumes "proper rs"
  shows "check_non_overlapping_ranges rs s =
    (if sorted_wrt apart rs then (Inr (), s)
     else (Inl (format_error ''packed-stream ranges overlap''), s))"
  unfolding check_non_overlapping_ranges_def
  by (rule check_of_sorted [OF sort_key_by_start mset_sort assms])

lemma overlap_check_correct_witness:
  "check_non_overlapping_ranges [(40, 50), (32, 40)] () = (Inr (), ())"
  using overlap_check_correct [of "[(40, 50), (32, 40)]" "()"] by (simp add: proper_def apart_def)

text \<open>C13: The answer does not depend on how an unstable sort orders ranges with equal starts.\<close>

theorem overlap_check_order_independent:
  assumes "proper rs" and "mset qs = mset rs" and "sorted (map fst qs)"
  shows "check_sorted_ranges qs s = check_non_overlapping_ranges rs s"
proof -
  from assms(3) have "sorted_wrt (\<lambda>r q. fst r \<le> fst q) qs" by (simp only: sorted_by_start)
  from check_of_sorted [OF this assms(2,1)] show ?thesis
    by (simp only: check_non_overlapping_ranges_def check_of_sorted [OF sort_key_by_start mset_sort assms(1)])
qed

lemma overlap_check_order_independent_witness:
  "check_sorted_ranges [(32, 50), (32, 40)] () = check_non_overlapping_ranges [(32, 40), (32, 50)] ()"
  by (rule overlap_check_order_independent) (simp_all add: proper_def)

end
