(* ===== verification/Loop_Laws.thy ===== *)
theory Loop_Laws
  imports Session_Laws
begin

text \<open>
  The contract of a \<open>while\<close> loop.  Each loop of the model is a recursive function of its own whose
  equation is the shape of the source: test, body, again.  A component states its loop as an
  instance of this interface, with the variant that its termination rests on, and gets the
  invariant rules for outcomes, successful runs and state relations from here.
\<close>

locale loop =
  fixes while_loop :: "'a \<Rightarrow> ('s, 'a) comp"
    and continues :: "'a \<Rightarrow> bool"
    and step :: "'a \<Rightarrow> ('s, 'a) comp"
    and variant :: "'a \<Rightarrow> 's \<Rightarrow> nat"
  assumes loop_unfold:
      "while_loop a s = (if continues a then and_then (step a) while_loop s else ok a s)"
    and loop_decreases: "continues a \<Longrightarrow> step a s = (Inr b, t) \<Longrightarrow> variant b t < variant a s"
begin

text \<open>Recursion along the variant: the claim may assume itself after one body.\<close>

lemma loop_induct [case_names step]:
  assumes "\<And>a s. (\<And>b t. continues a \<Longrightarrow> step a s = (Inr b, t) \<Longrightarrow> P b t) \<Longrightarrow> P a s"
  shows "P a s"
proof (induction "variant a s" arbitrary: a s rule: less_induct)
  case less
  show ?case
  proof (rule assms)
    fix b t assume "continues a" and "step a s = (Inr b, t)"
    then have "variant b t < variant a s" by (rule loop_decreases)
    then show "P b t" by (rule less.hyps)
  qed
qed

lemma loop_exit: "\<not> continues a \<Longrightarrow> while_loop a s = (Inr a, s)"
  by (simp add: loop_unfold run)

lemma loop_body: "continues a \<Longrightarrow> while_loop a s = and_then (step a) while_loop s"
  by (simp add: loop_unfold)

lemma loop_outcome:
  assumes "I a s"
    and "\<And>a s. I a s \<Longrightarrow> continues a \<Longrightarrow> outcome E (step a) s I"
    and "\<And>b t. I b t \<Longrightarrow> \<not> continues b \<Longrightarrow> Q b t"
  shows "outcome E (while_loop a) s Q"
  using assms(1)
proof (induction a s rule: loop_induct)
  case (step a s)
  show ?case
  proof (cases "continues a")
    case True
    from assms(2) [OF step.prems True] have "outcome E (step a) s (\<lambda>b t. outcome E (while_loop b) t Q)"
      by (rule outcome_weaken) (use step.IH True in blast)
    then have "outcome E (and_then (step a) while_loop) s Q" by (rule outcome_and_then)
    with True show ?thesis by (simp add: outcome_def loop_body)
  next
    case False
    with step.prems assms(3) show ?thesis by (simp add: outcome_def loop_exit)
  qed
qed

lemma loop_success:
  assumes "while_loop a s = (Inr b, t)" and "I a s"
    and "\<And>a s b t. I a s \<Longrightarrow> continues a \<Longrightarrow> step a s = (Inr b, t) \<Longrightarrow> I b t"
  shows "I b t \<and> \<not> continues b"
  using assms(1,2)
proof (induction a s rule: loop_induct)
  case (step a s)
  show ?case
  proof (cases "continues a")
    case True
    with step.prems(1) obtain c u where c: "step a s = (Inr c, u)" "while_loop c u = (Inr b, t)"
      by (auto simp: loop_body success)
    with step.IH [OF True c(1) c(2)] assms(3) [OF step.prems(2) True c(1)] show ?thesis by blast
  next
    case False
    with step.prems show ?thesis by (auto simp: loop_exit)
  qed
qed

lemma loop_keeps:
  assumes "state_relation R" and "\<And>a. preserves failing R (step a)"
  shows "preserves failing R (while_loop a)"
proof (rule preservesI)
  fix s r t assume "while_loop a s = (r, t)" and "observed failing r"
  then show "R s t"
  proof (induction a s rule: loop_induct)
    case (step a s)
    show ?case
    proof (cases "continues a")
      case False
      with step.prems assms(1) show ?thesis by (auto simp: loop_exit state_relation_def)
    next
      case True
      obtain q u where q: "step a s = (q, u)" by force
      show ?thesis
      proof (cases q)
        case (Inl e)
        with q True step.prems assms(2) [of a] show ?thesis
          by (auto simp: loop_body and_then_run_Inl preserves_def)
      next
        case (Inr b)
        with q assms(2) [of a] have "R s u" by (auto intro: preservesD)
        moreover have "R u t"
          using step.IH [OF True] q Inr True step.prems by (simp add: loop_body and_then_run_Inr)
        ultimately show ?thesis using assms(1) by (auto simp: state_relation_def)
      qed
    qed
  qed
qed

end

end
