(* ===== verification/Byte_Access.thy ===== *)
theory Byte_Access
  imports Loop_Laws
begin

text \<open>
  Access to byte buffers as the decoders write it: indexing and ranges with their own messages,
  big-endian readings, narrowing conversions and in-place replacement.  A buffer behind
  \<open>&mut [u8]\<close> is a list that the operation returns updated.
\<close>


section \<open>Readings\<close>

text \<open>\<open>uN::from_be_bytes\<close> and \<open>uN::to_be_bytes\<close>\<close>

definition from_be_bytes :: "byte_slice \<Rightarrow> 'a::len word" where
  "from_be_bytes bs = from_le_bytes (rev bs)"

definition to_be_bytes :: "nat \<Rightarrow> nat \<Rightarrow> byte_slice" where
  "to_be_bytes n v = rev (to_le_bytes n v)"

lemma length_to_be_bytes [simp]: "length (to_be_bytes n v) = n"
  by (simp add: to_be_bytes_def)

lemma from_be_bytes_to_be_bytes_u32 [simp]: "from_be_bytes (to_be_bytes 4 (unat (w :: u32))) = w"
  by (simp add: from_be_bytes_def to_be_bytes_def)

lemma to_be_bytes_from_be_bytes_u32:
  "length bs = 4 \<Longrightarrow> to_be_bytes 4 (unat (from_be_bytes bs :: u32)) = bs"
  using to_le_bytes_from_le_bytes_u32 [of "rev bs"] by (simp add: from_be_bytes_def to_be_bytes_def)


text \<open>\<open>u8::try_from\<close> and its like on unsigned integers.\<close>

definition narrow :: "'a::len word \<Rightarrow> 'b::len word option" where
  "narrow v = (if unat v < 2 ^ LENGTH('b) then Some (ucast v) else None)"

definition usize_to_u32 :: "nat \<Rightarrow> string \<Rightarrow> u32 op" where
  "usize_to_u32 n detail = (if n < 2 ^ 32 then ok (of_nat n) else err (format_error detail))"

definition usize_sub :: "nat \<Rightarrow> nat \<Rightarrow> string \<Rightarrow> nat op" where
  "usize_sub a b detail = (if b \<le> a then ok (a - b) else err (format_error detail))"

text \<open>\<open>u32::try_from(index).ok().and_then(|index| index.checked_mul(8))\<close>\<close>

definition byte_shift :: "nat \<Rightarrow> u32 option" where
  "byte_shift index = (if index < 2 ^ 32 then checked_mul (of_nat index) 8 else None)"

text \<open>\<open>bytes.get(i).copied().ok_or_else(..)\<close> and \<open>bytes.get(i..j).ok_or_else(..)\<close>\<close>

definition byte_at :: "byte_slice \<Rightarrow> nat \<Rightarrow> string \<Rightarrow> u8 op" where
  "byte_at bytes i detail = ok_or (format_error detail) (item_get bytes i)"

definition bytes_at :: "byte_slice \<Rightarrow> nat \<Rightarrow> nat \<Rightarrow> string \<Rightarrow> byte_slice op" where
  "bytes_at bytes i j detail = ok_or (format_error detail) (slice_get bytes i j)"

text \<open>\<open><[u8; n]>::try_from(slice)\<close>\<close>

definition array_of :: "nat \<Rightarrow> byte_slice \<Rightarrow> byte_slice option" where
  "array_of n bs = (if length bs = n then Some bs else None)"

text \<open>\<open>bytes.get_mut(i..j)\<close> followed by \<open>copy_from_slice\<close> of as many bytes.\<close>

definition overwrite :: "'a list \<Rightarrow> nat \<Rightarrow> 'a list \<Rightarrow> 'a list" where
  "overwrite xs i ys = take i xs @ ys @ drop (i + length ys) xs"

lemma length_overwrite [simp]: "i + length ys \<le> length xs \<Longrightarrow> length (overwrite xs i ys) = length xs"
  by (simp add: overwrite_def)

lemma overwrite_middle [simp]:
  "length us = i \<Longrightarrow> length vs = length ys \<Longrightarrow> overwrite (us @ vs @ ws) i ys = us @ ys @ ws"
  by (simp add: overwrite_def)


section \<open>Laws\<close>

lemma byte_at_success [success]: "byte_at bs i d s = (Inr x, t) \<longleftrightarrow> i < length bs \<and> x = bs ! i \<and> t = s"
  by (auto simp: byte_at_def success item_get_eq_Some)

lemma bytes_at_success [success]:
  "bytes_at bs i j d s = (Inr ys, t) \<longleftrightarrow> i \<le> j \<and> j \<le> length bs \<and> ys = take (j - i) (drop i bs) \<and> t = s"
  by (auto simp: bytes_at_def success slice_get_eq_Some)

lemma usize_sub_success [success]: "usize_sub a b d s = (Inr x, t) \<longleftrightarrow> b \<le> a \<and> x = a - b \<and> t = s"
  by (auto simp: usize_sub_def success)

lemma usize_to_u32_success [success]:
  "usize_to_u32 n d s = (Inr x, t) \<longleftrightarrow> n < 2 ^ 32 \<and> x = of_nat n \<and> t = s"
  by (auto simp: usize_to_u32_def success)

lemma outcome_byte_at:
  "i < length bs \<Longrightarrow> Q (bs ! i) s \<Longrightarrow> outcome E (byte_at bs i d) s Q"
  by (simp add: outcome_def byte_at_def item_get_def run)

lemma outcome_bytes_at:
  "i \<le> j \<Longrightarrow> j \<le> length bs \<Longrightarrow> Q (take (j - i) (drop i bs)) s \<Longrightarrow> outcome E (bytes_at bs i j d) s Q"
  by (simp add: outcome_def bytes_at_def slice_get_def run)

lemma outcome_usize_sub: "b \<le> a \<Longrightarrow> Q (a - b) s \<Longrightarrow> outcome E (usize_sub a b d) s Q"
  by (simp add: outcome_def usize_sub_def run)

lemma outcome_usize_to_u32:
  "(2 ^ 32 \<le> n \<Longrightarrow> E (format_error d)) \<Longrightarrow> (n < 2 ^ 32 \<Longrightarrow> Q (of_nat n) s) \<Longrightarrow>
     outcome E (usize_to_u32 n d) s Q"
  by (auto simp: outcome_def usize_to_u32_def run)

lemmas byte_outcomes =
  outcome_byte_at outcome_bytes_at outcome_usize_sub outcome_usize_to_u32

context control_relation
begin

lemma keeps_byte_at: "preserves failing R (byte_at bs i d)"
  unfolding byte_at_def by (rule keeps_ok_or)

lemma keeps_bytes_at: "preserves failing R (bytes_at bs i j d)"
  unfolding bytes_at_def by (rule keeps_ok_or)

lemma keeps_usize_sub: "preserves failing R (usize_sub a b d)"
  unfolding usize_sub_def by (intro keeps)

lemma keeps_usize_to_u32: "preserves failing R (usize_to_u32 n d)"
  unfolding usize_to_u32_def by (intro keeps)

lemmas byte_keeps =
  control_keeps keeps_byte_at keeps_bytes_at keeps_usize_sub keeps_usize_to_u32

end

end
