(* ===== verification/Word_Filters.thy ===== *)
theory Word_Filters
  imports Byte_Access
begin

text \<open>
  \<^verbatim>\<open>decode/filters.rs\<close>, the size-preserving filters on aligned words: Delta, PowerPC, ARM, ARM64 and
  SPARC.  A filter gets its buffer and returns it converted; what a failed filter has done to the
  buffer is not observed by any caller, which drop it.
\<close>


section \<open>Words of a buffer\<close>

definition filter_read_u32_le :: "byte_slice \<Rightarrow> nat \<Rightarrow> u32 op" where
  "filter_read_u32_le bytes offset =
     and_then (usize_add offset 4 ''filter word range overflows'') (\<lambda>last.
     and_then (bytes_at bytes offset last ''filter word is truncated'') (\<lambda>word.
     and_then (ok_or (format_error ''filter word has the wrong length'') (array_of 4 word)) (\<lambda>word.
     ok (from_le_bytes word))))"

definition filter_read_u32_be :: "byte_slice \<Rightarrow> nat \<Rightarrow> u32 op" where
  "filter_read_u32_be bytes offset =
     and_then (usize_add offset 4 ''filter word range overflows'') (\<lambda>last.
     and_then (bytes_at bytes offset last ''filter word is truncated'') (\<lambda>word.
     and_then (ok_or (format_error ''filter word has the wrong length'') (array_of 4 word)) (\<lambda>word.
     ok (from_be_bytes word))))"

definition write_word :: "byte_slice \<Rightarrow> nat \<Rightarrow> byte_slice \<Rightarrow> byte_slice op" where
  "write_word bytes offset word =
     and_then (usize_add offset 4 ''filter word range overflows'') (\<lambda>last.
     and_then (bytes_at bytes offset last ''filter word is truncated'') (\<lambda>_.
     ok (overwrite bytes offset word)))"

definition starting_position :: "byte_slice \<Rightarrow> u32 op" where
  "starting_position properties =
     (case properties of
        [] \<Rightarrow> ok 0
      | bytes \<Rightarrow>
          and_then (ok_or (format_error ''branch filter properties must be empty or four bytes'')
                     (array_of 4 bytes)) (\<lambda>bytes.
          ok (from_le_bytes bytes)))"


section \<open>Delta\<close>

text \<open>One byte: the ring of the last 256 decoded bytes is filled downwards.\<close>

definition delta_step ::
    "nat \<Rightarrow> byte_slice \<times> byte_slice \<times> u8 \<Rightarrow> u8 \<Rightarrow> (byte_slice \<times> byte_slice \<times> u8) op" where
  "delta_step distance acc byte = (case acc of (decoded, history, position) \<Rightarrow>
     and_then (checkpoint 1) (\<lambda>_.
     and_then (usize_add distance (unat position) ''Delta history index overflows'') (\<lambda>index.
     and_then (byte_at history (index AND 255) ''Delta history index is out of range'') (\<lambda>previous.
     and_then (byte_at history (unat position AND 255)
                ''Delta history destination is out of range'') (\<lambda>_.
     ok (decoded @ [byte + previous], history[unat position AND 255 := byte + previous],
         position - 1))))))"

definition decode_delta :: "byte_slice \<Rightarrow> byte_slice \<Rightarrow> byte_slice op" where
  "decode_delta bytes properties =
     and_then (byte_at properties 0 ''Delta properties must contain exactly one byte'')
       (\<lambda>property.
     and_then (err_if (length properties \<noteq> 1)
                (format_error ''Delta properties must contain exactly one byte'')) (\<lambda>_.
     and_then (usize_add (unat property) 1 ''Delta distance overflows'') (\<lambda>distance.
     and_then (for_fold bytes ([], replicate 256 0, 0) (delta_step distance)) (\<lambda>acc.
     ok (fst acc)))))"


section \<open>The loop over aligned words\<close>

text \<open>
  Four filters convert every complete word and advance the address with it.  The address a step
  gets is that of the word; ARM adds its own displacement.
\<close>

type_synonym conversion = "u32 \<Rightarrow> byte_slice \<Rightarrow> nat \<Rightarrow> byte_slice op"

definition branch_step ::
    "conversion \<Rightarrow> string \<Rightarrow> byte_slice \<times> nat \<times> u32 \<Rightarrow> (byte_slice \<times> nat \<times> u32) op" where
  "branch_step convert overflow acc = (case acc of (bytes, offset, ip) \<Rightarrow>
     and_then (checkpoint 4) (\<lambda>_.
     and_then (convert ip bytes offset) (\<lambda>bytes.
     and_then (usize_add offset 4 overflow) (\<lambda>offset.
     ok (bytes, offset, ip + 4)))))"

definition word_left :: "nat \<Rightarrow> byte_slice \<times> nat \<times> u32 \<Rightarrow> bool" where
  "word_left len acc = (fst (snd acc) + 4 \<le> len)"

lemma branch_step_advances:
  "branch_step convert overflow a s = (Inr b, t) \<Longrightarrow> fst (snd b) = fst (snd a) + 4"
  by (auto simp: branch_step_def success split: prod.splits)

function branch_loop ::
    "conversion \<Rightarrow> string \<Rightarrow> nat \<Rightarrow> byte_slice \<times> nat \<times> u32 \<Rightarrow> (byte_slice \<times> nat \<times> u32) op" where
  "branch_loop convert overflow len acc s =
     (if word_left len acc
      then and_then (branch_step convert overflow acc)
             (\<lambda>acc s. branch_loop convert overflow len acc s) s
      else ok acc s)"
  by pat_completeness auto
termination
  by (relation "measure (\<lambda>(convert, overflow, len, acc, s). len - fst (snd acc))")
    (auto simp: word_left_def dest!: branch_step_advances)

declare branch_loop.simps [simp del]

interpretation branch: loop "branch_loop convert overflow len" "word_left len"
    "branch_step convert overflow" "\<lambda>acc s. len - fst (snd acc)"
  for convert overflow len
  by unfold_locales
    (subst branch_loop.simps, simp, auto simp: word_left_def dest!: branch_step_advances)

definition decode_branches :: "conversion \<Rightarrow> string \<Rightarrow> byte_slice \<Rightarrow> u32 \<Rightarrow> byte_slice op" where
  "decode_branches convert overflow bytes ip =
     and_then (branch_loop convert overflow (length bytes) (bytes, 0, ip)) (\<lambda>acc. ok (fst acc))"


section \<open>PowerPC, ARM, ARM64 and SPARC\<close>

definition ppc_convert :: conversion where
  "ppc_convert ip bytes offset =
     and_then (byte_at bytes offset ''PPC opcode is truncated'') (\<lambda>first.
     and_then (usize_add offset 3 ''PPC index overflows'') (\<lambda>index.
     and_then (byte_at bytes index ''PPC opcode is truncated'') (\<lambda>fourth.
     and_then (filter_read_u32_be bytes offset) (\<lambda>v.
     if first AND 0xfc = 0x48 \<and> fourth AND 3 = 1 then
       let v = v - ip; v = v AND 0x03ffffff; v = v OR 0x48000000
       in write_word bytes offset (to_be_bytes 4 (unat v))
     else ok bytes))))"

definition decode_ppc :: "byte_slice \<Rightarrow> byte_slice \<Rightarrow> byte_slice op" where
  "decode_ppc bytes properties =
     and_then (starting_position properties) (\<lambda>ip.
     decode_branches ppc_convert ''PPC position overflows'' bytes ip)"

definition arm_convert :: conversion where
  "arm_convert ip bytes offset =
     and_then (usize_add offset 3 ''ARM index overflows'') (\<lambda>index.
     and_then (byte_at bytes index ''ARM opcode is truncated'') (\<lambda>opcode.
     if opcode = 0xeb then
       and_then (filter_read_u32_le bytes offset) (\<lambda>v.
       let v = v - drop_bit 2 (ip + 4); v = v AND 0x00ffffff; v = v OR 0xeb000000
       in write_word bytes offset (to_le_bytes 4 (unat v)))
     else ok bytes))"

definition decode_arm :: "byte_slice \<Rightarrow> byte_slice \<Rightarrow> byte_slice op" where
  "decode_arm bytes properties =
     and_then (starting_position properties) (\<lambda>ip.
     decode_branches arm_convert ''ARM position overflows'' bytes (ip + 4))"

definition ARM64_FLAG :: u32 where "ARM64_FLAG = push_bit 20 1"
definition ARM64_MASK :: u32 where "ARM64_MASK = push_bit 24 1 - push_bit 1 ARM64_FLAG"

definition arm64_convert :: conversion where
  "arm64_convert ip bytes offset =
     and_then (filter_read_u32_le bytes offset) (\<lambda>original.
     if (original - 0x94000000) AND 0xfc000000 = 0 then
       let v = original - drop_bit 2 ip; v = v AND 0x03ffffff; v = v OR 0x94000000
       in write_word bytes offset (to_le_bytes 4 (unat v))
     else
       let v = original - 0x90000000
       in if v AND 0x9f000000 = 0 then
            let v = v + ARM64_FLAG
            in if v AND ARM64_MASK = 0 then
                 let transformed = (v AND 0xffffffe0) OR drop_bit 26 v;
                     page = drop_bit 9 ip AND NOT 7;
                     transformed = transformed - page;
                     v = v AND 0x1f;
                     v = v OR 0x90000000;
                     v = v OR push_bit 26 transformed;
                     v = v OR (0x00ffffe0 AND
                           ((transformed AND (push_bit 1 ARM64_FLAG - 1)) - ARM64_FLAG))
                 in write_word bytes offset (to_le_bytes 4 (unat v))
               else ok bytes
          else ok bytes)"

definition decode_arm64 :: "byte_slice \<Rightarrow> byte_slice \<Rightarrow> byte_slice op" where
  "decode_arm64 bytes properties =
     and_then (starting_position properties) (\<lambda>ip.
     decode_branches arm64_convert ''ARM64 position overflows'' bytes ip)"

definition sparc_convert :: conversion where
  "sparc_convert ip bytes offset =
     and_then (byte_at bytes offset ''SPARC opcode is truncated'') (\<lambda>first.
     and_then (usize_add offset 1 ''SPARC index overflows'') (\<lambda>index.
     and_then (byte_at bytes index ''SPARC opcode is truncated'') (\<lambda>second.
     if (first = 0x40 \<and> second AND 0xc0 = 0) \<or> (first = 0x7f \<and> 0xc0 \<le> second) then
       and_then (filter_read_u32_be bytes offset) (\<lambda>v.
       let v = push_bit 2 v; v = v - ip; v = v AND 0x01ffffff; v = v - push_bit 24 1;
           v = v XOR 0xff000000; v = drop_bit 2 v; v = v OR 0x40000000
       in write_word bytes offset (to_be_bytes 4 (unat v)))
     else ok bytes)))"

definition decode_sparc :: "byte_slice \<Rightarrow> byte_slice \<Rightarrow> byte_slice op" where
  "decode_sparc bytes properties =
     and_then (starting_position properties) (\<lambda>ip.
     decode_branches sparc_convert ''SPARC position overflows'' bytes ip)"

end
