(* ===== verification/X86_Filter.thy ===== *)
theory X86_Filter
  imports Word_Filters
begin

text \<open>
  \<^verbatim>\<open>decode/filters.rs\<close>, the x86 call and jump filter.  Opcodes are found by an inner scan; the mask
  remembers which of the last three bytes could start an operand.
\<close>

definition test_x86_msb :: "u8 \<Rightarrow> bool" where
  "test_x86_msb byte = ((byte + 1) AND 0xfe = 0)"

definition is_x86_opcode :: "u8 \<Rightarrow> bool" where
  "is_x86_opcode byte = (byte AND 0xfe = 0xe8)"


section \<open>The inner scan\<close>

text \<open>The state is the position and whether the loop was left by \<open>break\<close>.\<close>

definition x86_scan_step :: "byte_slice \<Rightarrow> nat \<times> bool \<Rightarrow> (nat \<times> bool) op" where
  "x86_scan_step bytes acc =
     and_then (checkpoint 1) (\<lambda>_.
     and_then (byte_at bytes (fst acc) ''BCJ opcode index is out of range'') (\<lambda>byte.
     if is_x86_opcode byte then ok (fst acc, True)
     else and_then (usize_add (fst acc) 1 ''BCJ position overflows'') (\<lambda>position.
          ok (position, False))))"

definition x86_scanning :: "nat \<Rightarrow> nat \<times> bool \<Rightarrow> bool" where
  "x86_scanning scan_end acc = (fst acc < scan_end \<and> \<not> snd acc)"

definition x86_scan_variant :: "nat \<Rightarrow> nat \<times> bool \<Rightarrow> nat" where
  "x86_scan_variant scan_end acc = scan_end - fst acc + (if snd acc then 0 else 1)"

lemma x86_scan_decreases:
  "x86_scanning scan_end a \<Longrightarrow> x86_scan_step bytes a s = (Inr b, t) \<Longrightarrow>
     x86_scan_variant scan_end b < x86_scan_variant scan_end a"
  by (auto simp: x86_scan_step_def x86_scanning_def x86_scan_variant_def success split: if_splits)

function x86_scan :: "byte_slice \<Rightarrow> nat \<Rightarrow> nat \<times> bool \<Rightarrow> (nat \<times> bool) op" where
  "x86_scan bytes scan_end acc s =
     (if x86_scanning scan_end acc
      then and_then (x86_scan_step bytes acc) (\<lambda>acc s. x86_scan bytes scan_end acc s) s
      else ok acc s)"
  by pat_completeness auto
termination
  by (relation "measure (\<lambda>(bytes, scan_end, acc, s). x86_scan_variant scan_end acc)")
    (auto intro: x86_scan_decreases)

declare x86_scan.simps [simp del]

interpretation x86_scanner: loop "x86_scan bytes scan_end" "x86_scanning scan_end"
    "x86_scan_step bytes" "\<lambda>acc s. x86_scan_variant scan_end acc"
  for bytes scan_end
  by unfold_locales (subst x86_scan.simps, simp, rule x86_scan_decreases)

text \<open>What the scan found: nothing but other bytes before the position it stopped at.\<close>

lemma x86_scan_found:
  assumes "x86_scan bytes scan_end (start, False) s = (Inr (position, found), t)"
  shows "start \<le> position \<and> (\<forall>i. start \<le> i \<and> i < position \<longrightarrow> \<not> is_x86_opcode (bytes ! i)) \<and>
    (found \<longrightarrow> is_x86_opcode (bytes ! position)) \<and> (found \<or> scan_end \<le> position)"
proof -
  let ?I = "\<lambda>a (s :: session). start \<le> fst a \<and>
    (\<forall>i. start \<le> i \<and> i < fst a \<longrightarrow> \<not> is_x86_opcode (bytes ! i)) \<and>
    (snd a \<longrightarrow> is_x86_opcode (bytes ! fst a))"
  have "?I (position, found) t \<and> \<not> x86_scanning scan_end (position, found)"
    by (rule x86_scanner.loop_success [OF assms, where I = ?I])
      (auto simp: x86_scan_step_def success less_Suc_eq split: if_splits)
  then show ?thesis by (auto simp: x86_scanning_def)
qed


section \<open>The mask and the conversion\<close>

text \<open>
  At an opcode \<open>distance\<close> bytes behind the last one: the new mask, and whether the opcode is skipped.
\<close>

definition x86_probe :: "byte_slice \<Rightarrow> nat \<Rightarrow> nat \<Rightarrow> u32 \<Rightarrow> (u32 \<times> bool) op" where
  "x86_probe bytes position distance msk =
     (if 2 < distance then ok (0, False)
      else
        and_then (usize_to_u32 distance ''BCJ mask shift is not representable'') (\<lambda>shift.
        let msk = drop_bit (unat shift) msk
        in if msk \<noteq> 0 then
             and_then (u64_to_usize (ucast (drop_bit 1 msk)) ''BCJ mask index is not representable'')
               (\<lambda>look.
             and_then (usize_add position look ''BCJ mask index overflows'') (\<lambda>look.
             and_then (usize_add look 1 ''BCJ mask index overflows'') (\<lambda>look.
             and_then (byte_at bytes look ''BCJ mask index is out of range'') (\<lambda>tested.
             if 4 < msk \<or> msk = 3 \<or> test_x86_msb tested
             then ok (drop_bit 1 msk OR 4, True)
             else ok (msk, False)))))
           else ok (msk, False)))"

text \<open>The operand behind an opcode that is not skipped.\<close>

definition x86_operand :: "u32 \<Rightarrow> u32 \<Rightarrow> u32 \<Rightarrow> u32 op" where
  "x86_operand current msk v =
     (let v = v - current
      in if msk \<noteq> 0 then
           let shift = push_bit 2 (msk AND 6)
           in and_then (ok_or (format_error ''BCJ test byte is not representable'')
                         (narrow (drop_bit (unat shift) v AND 0xff))) (\<lambda>tested.
              if test_x86_msb tested
              then ok ((v XOR (push_bit (unat shift) 0x100 - 1)) - current)
              else ok v)
         else ok v)"

definition x86_convert :: "u32 \<Rightarrow> byte_slice \<Rightarrow> nat \<Rightarrow> u32 \<Rightarrow> (byte_slice \<times> nat \<times> u32) op" where
  "x86_convert ip bytes position msk =
     and_then (usize_add position 4 ''BCJ high-byte index overflows'') (\<lambda>high_index.
     and_then (byte_at bytes high_index ''BCJ high-byte index is out of range'') (\<lambda>high.
     if test_x86_msb high then
       and_then (usize_add position 1 ''BCJ value index overflows'') (\<lambda>value_index.
       and_then (filter_read_u32_le bytes value_index) (\<lambda>v.
       and_then (usize_to_u32 position ''BCJ position exceeds the 32-bit address domain'')
         (\<lambda>position32.
       let current = ip + 5 + position32
       in and_then (usize_add position 5 ''BCJ position overflows'') (\<lambda>position.
          and_then (x86_operand current msk v) (\<lambda>v.
          and_then (write_word bytes value_index (to_le_bytes 4 (unat v))) (\<lambda>bytes.
          and_then (byte_at bytes high_index ''BCJ high-byte index is out of range'') (\<lambda>high.
          ok (bytes[high_index := 0 - (high AND 1)], position, 0))))))))
     else
       and_then (usize_add position 1 ''BCJ position overflows'') (\<lambda>position.
       ok (bytes, position, drop_bit 1 msk OR 4))))"


section \<open>The outer loop\<close>

text \<open>The buffer, the position, the mask and whether the end was reached.\<close>

record x86_state =
  x86_bytes :: byte_slice
  x86_position :: nat
  x86_mask :: u32
  x86_done :: bool

text \<open>The scan reached the end \<open>distance\<close> bytes behind the last opcode.\<close>

definition x86_finish :: "nat \<Rightarrow> nat \<Rightarrow> x86_state \<Rightarrow> x86_state op" where
  "x86_finish position distance st =
     and_then (if 2 < distance then ok 0
               else and_then (usize_to_u32 distance ''BCJ mask shift is not representable'')
                      (\<lambda>shift. ok (drop_bit (unat shift) (x86_mask st)))) (\<lambda>msk.
     and_then (usize_to_u32 position ''BCJ position exceeds the 32-bit address domain'') (\<lambda>_.
     ok (st\<lparr>x86_position := position, x86_mask := msk, x86_done := True\<rparr>)))"

text \<open>The scan stopped at an opcode.\<close>

definition x86_branch :: "u32 \<Rightarrow> nat \<Rightarrow> nat \<Rightarrow> x86_state \<Rightarrow> x86_state op" where
  "x86_branch ip position distance st =
     and_then (x86_probe (x86_bytes st) position distance (x86_mask st)) (\<lambda>(msk, skipped).
     if skipped then
       and_then (usize_add position 1 ''BCJ position overflows'') (\<lambda>position.
       ok (st\<lparr>x86_position := position, x86_mask := msk\<rparr>))
     else
       and_then (x86_convert ip (x86_bytes st) position msk) (\<lambda>(bytes, position, msk).
       ok (st\<lparr>x86_bytes := bytes, x86_position := position, x86_mask := msk\<rparr>)))"

definition x86_step :: "u32 \<Rightarrow> nat \<Rightarrow> x86_state \<Rightarrow> x86_state op" where
  "x86_step ip scan_end st =
     (let previous = x86_position st
      in and_then (x86_scan (x86_bytes st) scan_end (previous, False)) (\<lambda>acc.
         let position = fst acc
         in and_then (usize_sub position previous ''BCJ scan distance underflows'') (\<lambda>distance.
            if scan_end \<le> position then x86_finish position distance st
            else x86_branch ip position distance st)))"

definition x86_variant :: "nat \<Rightarrow> x86_state \<Rightarrow> nat" where
  "x86_variant scan_end st = (if x86_done st then 0 else Suc (scan_end - x86_position st))"

lemma x86_convert_advances:
  "x86_convert ip bytes position msk s = (Inr (bytes', position', msk'), t) \<Longrightarrow> position < position'"
  by (auto simp: x86_convert_def success Let_def split: if_splits)

lemma x86_step_decreases:
  assumes "\<not> x86_done a" and "x86_step ip scan_end a s = (Inr b, t)"
  shows "x86_variant scan_end b < x86_variant scan_end a"
proof -
  from assms(2) obtain position found u where
    scan: "x86_scan (x86_bytes a) scan_end (x86_position a, False) s = (Inr (position, found), u)"
    and rest: "scan_end \<le> position \<and> x86_done b \<or>
      position < scan_end \<and> x86_done b = x86_done a \<and> position < x86_position b"
    by (force simp: x86_step_def x86_finish_def x86_branch_def success Let_def not_le split: if_splits prod.splits
        dest: x86_convert_advances)
  from x86_scan_found [OF scan] rest assms(1) show ?thesis
    by (auto simp: x86_variant_def)
qed

function x86_loop :: "u32 \<Rightarrow> nat \<Rightarrow> x86_state \<Rightarrow> x86_state op" where
  "x86_loop ip scan_end st s =
     (if \<not> x86_done st
      then and_then (x86_step ip scan_end st) (\<lambda>st s. x86_loop ip scan_end st s) s
      else ok st s)"
  by pat_completeness auto
termination
  by (relation "measure (\<lambda>(ip, scan_end, st, s). x86_variant scan_end st)")
    (auto intro: x86_step_decreases)

declare x86_loop.simps [simp del]

interpretation x86: loop "x86_loop ip scan_end" "\<lambda>st. \<not> x86_done st" "x86_step ip scan_end"
    "\<lambda>st s. x86_variant scan_end st"
  for ip scan_end
  by unfold_locales (subst x86_loop.simps, simp, rule x86_step_decreases)

definition decode_x86_bcj :: "byte_slice \<Rightarrow> byte_slice \<Rightarrow> byte_slice op" where
  "decode_x86_bcj bytes properties =
     and_then (usize_add 4 1 ''BCJ minimum input size overflows'') (\<lambda>minimum.
     if length bytes < minimum then ok bytes
     else
       and_then (usize_sub (length bytes) 4 ''BCJ scan bound underflows'') (\<lambda>scan_end.
       and_then (starting_position properties) (\<lambda>ip.
       and_then (x86_loop ip scan_end
           \<lparr>x86_bytes = bytes, x86_position = 0, x86_mask = 0, x86_done = False\<rparr>) (\<lambda>st.
       ok (x86_bytes st)))))"

end
