(* ===== verification/Compat_Filters.thy ===== *)
theory Compat_Filters
  imports X86_Filter
begin

text \<open>
  \<^verbatim>\<open>decode/phase5_filters.rs\<close>, the further size-preserving filters: byte swaps, ARM Thumb, IA-64 and
  RISC-V, and the dispatch of \<^verbatim>\<open>decode/filters.rs\<close> over the method identifiers of
  \<^verbatim>\<open>decode/mod.rs\<close>.
\<close>


section \<open>Words of a buffer\<close>

definition compat_starting_position :: "byte_slice \<Rightarrow> u32 op" where
  "compat_starting_position properties =
     (case properties of
        [] \<Rightarrow> ok 0
      | bytes \<Rightarrow>
          and_then (ok_or (format_error ''branch filter properties must be empty or four bytes'')
                     (array_of 4 bytes)) (\<lambda>bytes.
          ok (from_le_bytes bytes)))"

definition compat_read_u32_le :: "byte_slice \<Rightarrow> nat \<Rightarrow> u32 op" where
  "compat_read_u32_le bytes offset =
     and_then (usize_add offset 4 ''compatibility filter word range overflows'') (\<lambda>last.
     and_then (bytes_at bytes offset last ''compatibility filter word is truncated'') (\<lambda>word.
     and_then (ok_or (format_error ''compatibility filter word has the wrong length'')
                (array_of 4 word)) (\<lambda>word.
     ok (from_le_bytes word))))"

definition compat_read_u32_be :: "byte_slice \<Rightarrow> nat \<Rightarrow> u32 op" where
  "compat_read_u32_be bytes offset =
     and_then (usize_add offset 4 ''compatibility filter word range overflows'') (\<lambda>last.
     and_then (bytes_at bytes offset last ''compatibility filter word is truncated'') (\<lambda>word.
     and_then (ok_or (format_error ''compatibility filter word has the wrong length'')
                (array_of 4 word)) (\<lambda>word.
     ok (from_be_bytes word))))"

definition write_u32_le :: "byte_slice \<Rightarrow> nat \<Rightarrow> u32 \<Rightarrow> byte_slice op" where
  "write_u32_le bytes offset v =
     and_then (usize_add offset 4 ''compatibility filter word range overflows'') (\<lambda>last.
     and_then (bytes_at bytes offset last ''compatibility filter word is truncated'') (\<lambda>_.
     ok (overwrite bytes offset (to_le_bytes 4 (unat v)))))"

definition read_u48_le :: "byte_slice \<Rightarrow> nat \<Rightarrow> u64 op" where
  "read_u48_le bytes offset =
     and_then (usize_add offset 6 ''IA64 instruction range overflows'') (\<lambda>last.
     and_then (bytes_at bytes offset last ''IA64 instruction is truncated'') (\<lambda>instruction.
     for_fold (enumerate 0 instruction) 0 (\<lambda>v (index, byte).
       and_then (ok_or (format_error ''IA64 instruction shift overflows'') (byte_shift index)) (\<lambda>shift.
       and_then (ok_or (format_error ''IA64 instruction value overflows'')
                  (checked_shl (ucast byte) (unat shift))) (\<lambda>part.
       ok (v OR part))))))"

definition write_u48_le :: "byte_slice \<Rightarrow> nat \<Rightarrow> u64 \<Rightarrow> byte_slice op" where
  "write_u48_le bytes offset v =
     and_then (usize_add offset 6 ''IA64 instruction range overflows'') (\<lambda>last.
     and_then (bytes_at bytes offset last ''IA64 instruction is truncated'') (\<lambda>instruction.
     and_then (for_push [0..<length instruction] (\<lambda>index.
       and_then (ok_or (format_error ''IA64 instruction shift overflows'') (byte_shift index)) (\<lambda>shift.
       ok_or (format_error ''IA64 instruction byte is not representable'')
         (narrow (drop_bit (unat shift) v AND 0xff))))) (\<lambda>instruction.
     ok (overwrite bytes offset instruction))))"

definition low_u32_offset :: "nat \<Rightarrow> u32 op" where
  "low_u32_offset offset =
     and_then (usize_to_u64 offset ''filter offset is not representable as u64'') (\<lambda>offset.
     ok_or (format_error ''filter offset is not representable as u32'')
       (narrow (offset AND ucast (- 1 :: u32))))"


section \<open>Byte swaps\<close>

definition decode_swap :: "byte_slice \<Rightarrow> byte_slice \<Rightarrow> nat \<Rightarrow> byte_slice op" where
  "decode_swap bytes properties width =
     and_then (err_if (properties \<noteq> []) (format_error ''Swap filter properties must be empty'')) (\<lambda>_.
     and_then (err_if (width \<noteq> 2 \<and> width \<noteq> 4) (format_error ''Swap filter width is invalid'')) (\<lambda>_.
     let complete = width * (length bytes div width)
     in and_then (for_fold (chunks width (take complete bytes)) [] (\<lambda>swapped chunk.
          and_then (usize_to_u64 width ''Swap filter width is not representable'') (\<lambda>units.
          and_then (checkpoint units) (\<lambda>_.
          ok (swapped @ rev chunk))))) (\<lambda>swapped.
        ok (swapped @ drop complete bytes))))"


section \<open>ARM Thumb\<close>

text \<open>A pair of halfwords that make a branch with link, at \<open>offset\<close>.\<close>

definition arm_thumb_convert :: "u32 \<Rightarrow> u8 \<Rightarrow> u8 \<Rightarrow> byte_slice \<Rightarrow> nat \<Rightarrow> byte_slice op" where
  "arm_thumb_convert start second fourth bytes offset =
     and_then (byte_at bytes offset ''ARM Thumb instruction is truncated'') (\<lambda>first.
     and_then (usize_add offset 2 ''ARM Thumb index overflows'') (\<lambda>index.
     and_then (byte_at bytes index ''ARM Thumb instruction is truncated'') (\<lambda>third.
     let source = push_bit 19 (ucast (second AND 7)) OR push_bit 11 (ucast first)
                    OR push_bit 8 (ucast (fourth AND 7)) OR ucast third;
         source = push_bit 1 source
     in and_then (low_u32_offset offset) (\<lambda>low.
        let position = start + low + 4;
            destination = drop_bit 1 (source - position)
        in and_then (usize_add offset 4 ''ARM Thumb range overflows'') (\<lambda>last.
           and_then (bytes_at bytes offset last ''ARM Thumb instruction is truncated'') (\<lambda>_.
           and_then (ok_or (format_error ''ARM Thumb byte is not representable'')
                      (narrow (drop_bit 11 destination AND 0xff))) (\<lambda>b0.
           and_then (ok_or (format_error ''ARM Thumb byte is not representable'')
                      (narrow (drop_bit 19 destination AND 7))) (\<lambda>b1.
           and_then (ok_or (format_error ''ARM Thumb byte is not representable'')
                      (narrow (destination AND 0xff))) (\<lambda>b2.
           and_then (ok_or (format_error ''ARM Thumb byte is not representable'')
                      (narrow (drop_bit 8 destination AND 7))) (\<lambda>b3.
           ok (overwrite bytes offset [b0, 0xf0 OR b1, b2, 0xf8 OR b3])))))))))))"

definition arm_thumb_step :: "u32 \<Rightarrow> byte_slice \<times> nat \<Rightarrow> (byte_slice \<times> nat) op" where
  "arm_thumb_step start acc = (case acc of (bytes, offset) \<Rightarrow>
     and_then (checkpoint 2) (\<lambda>_.
     and_then (usize_add offset 1 ''ARM Thumb index overflows'') (\<lambda>index.
     and_then (byte_at bytes index ''ARM Thumb instruction is truncated'') (\<lambda>second.
     and_then (usize_add offset 3 ''ARM Thumb index overflows'') (\<lambda>index.
     and_then (byte_at bytes index ''ARM Thumb instruction is truncated'') (\<lambda>fourth.
     and_then (if second AND 0xf8 = 0xf0 \<and> fourth AND 0xf8 = 0xf8
               then and_then (arm_thumb_convert start second fourth bytes offset) (\<lambda>bytes.
                    and_then (usize_add offset 2 ''ARM Thumb position overflows'') (\<lambda>offset.
                    ok (bytes, offset)))
               else ok (bytes, offset)) (\<lambda>(bytes, offset).
     and_then (usize_add offset 2 ''ARM Thumb position overflows'') (\<lambda>offset.
     ok (bytes, offset)))))))))"

text \<open>The loops of this file run while the offset has not passed the last instruction.\<close>

definition offset_within :: "nat \<Rightarrow> byte_slice \<times> nat \<Rightarrow> bool" where
  "offset_within scan_end acc = (snd acc \<le> scan_end)"

lemma arm_thumb_step_advances:
  "arm_thumb_step start a s = (Inr b, t) \<Longrightarrow> snd a < snd b"
  by (auto simp: arm_thumb_step_def success split: prod.splits if_splits)

function arm_thumb_loop :: "u32 \<Rightarrow> nat \<Rightarrow> byte_slice \<times> nat \<Rightarrow> (byte_slice \<times> nat) op" where
  "arm_thumb_loop start scan_end acc s =
     (if offset_within scan_end acc
      then and_then (arm_thumb_step start acc) (\<lambda>acc s. arm_thumb_loop start scan_end acc s) s
      else ok acc s)"
  by pat_completeness auto
termination
  by (relation "measure (\<lambda>(start, scan_end, acc, s). Suc scan_end - snd acc)")
    (auto simp: offset_within_def dest!: arm_thumb_step_advances)

declare arm_thumb_loop.simps [simp del]

interpretation arm_thumb: loop "arm_thumb_loop start scan_end" "offset_within scan_end"
    "arm_thumb_step start" "\<lambda>acc s. Suc scan_end - snd acc"
  for start scan_end
  by unfold_locales
    (subst arm_thumb_loop.simps, simp, auto simp: offset_within_def dest!: arm_thumb_step_advances)

definition decode_arm_thumb :: "byte_slice \<Rightarrow> byte_slice \<Rightarrow> byte_slice op" where
  "decode_arm_thumb bytes properties =
     (if length bytes < 4 then ok bytes
      else
        and_then (compat_starting_position properties) (\<lambda>start.
        and_then (usize_sub (length bytes) 4 ''ARM Thumb scan bound underflows'') (\<lambda>scan_end.
        and_then (arm_thumb_loop start scan_end (bytes, 0)) (\<lambda>acc. ok (fst acc)))))"


section \<open>IA-64\<close>

definition IA64_BRANCH_TABLE :: "u8 list" where
  "IA64_BRANCH_TABLE =
     [0, 0, 0, 0, 0, 0, 0, 0, 0, 0, 0, 0, 0, 0, 0, 0, 4, 4, 6, 6, 0, 0, 7, 7, 4, 4, 0, 0, 4, 4, 0, 0]"

text \<open>A branch in the slot that starts \<open>bit_remainder\<close> bits behind \<open>instruction_offset\<close>.\<close>

definition ia64_convert :: "u32 \<Rightarrow> nat \<Rightarrow> nat \<Rightarrow> nat \<Rightarrow> byte_slice \<Rightarrow> byte_slice op" where
  "ia64_convert start offset instruction_offset bit_remainder bytes =
     and_then (read_u48_le bytes instruction_offset) (\<lambda>instruction.
     let normalized = drop_bit bit_remainder instruction
     in if drop_bit 37 normalized AND 0x0f = 5 \<and> drop_bit 9 normalized AND 7 = 0 then
          and_then (ok_or (format_error ''IA64 branch address is not representable'')
                     (narrow (drop_bit 13 normalized AND 0x000fffff))) (\<lambda>low.
          and_then (ok_or (format_error ''IA64 branch bit is not representable'')
                     (narrow (drop_bit 36 normalized AND 1))) (\<lambda>high.
          let source = push_bit 4 (low OR push_bit 20 high)
          in and_then (low_u32_offset offset) (\<lambda>low.
             let position = start + low;
                 destination = drop_bit 4 (source - position);
                 normalized = normalized AND NOT (push_bit 13 (ucast (0x008fffff :: u32)));
                 normalized = normalized OR push_bit 13 (ucast (destination AND 0x000fffff));
                 normalized = normalized OR push_bit 16 (ucast (destination AND 0x00100000))
             in and_then (ok_or (format_error ''IA64 instruction mask overflows'')
                           (Option.bind (checked_shl 1 bit_remainder) (\<lambda>v. checked_sub v 1)))
                  (\<lambda>low_mask.
                let instruction = instruction AND low_mask
                in and_then (ok_or (format_error ''IA64 instruction shift overflows'')
                              (checked_shl normalized bit_remainder)) (\<lambda>shifted.
                   write_u48_le bytes instruction_offset (instruction OR shifted))))))
        else ok bytes)"

definition ia64_slot ::
    "u32 \<Rightarrow> nat \<Rightarrow> u8 \<Rightarrow> byte_slice \<times> u32 \<Rightarrow> nat \<Rightarrow> (byte_slice \<times> u32) op" where
  "ia64_slot start offset branch_mask acc slot = (case acc of (bytes, bit_position) \<Rightarrow>
     and_then (checkpoint 1) (\<lambda>_.
     and_then (ok_or (format_error ''IA64 slot mask overflows'') (checked_shl 1 slot)) (\<lambda>selected.
     and_then (if branch_mask AND selected = 0 then ok bytes
               else
                 and_then (u64_to_usize (ucast (drop_bit 3 bit_position))
                            ''IA64 byte position is not representable'') (\<lambda>byte_position.
                 and_then (usize_add offset byte_position ''IA64 instruction offset overflows'')
                   (\<lambda>instruction_offset.
                 ia64_convert start offset instruction_offset (unat (bit_position AND 7)) bytes)))
       (\<lambda>bytes.
     and_then (ok_or (format_error ''IA64 bit position overflows'') (checked_add bit_position 41))
       (\<lambda>bit_position.
     ok (bytes, bit_position))))))"

definition ia64_step :: "u32 \<Rightarrow> byte_slice \<times> nat \<Rightarrow> (byte_slice \<times> nat) op" where
  "ia64_step start acc = (case acc of (bytes, offset) \<Rightarrow>
     and_then (checkpoint 16) (\<lambda>_.
     and_then (byte_at bytes offset ''IA64 bundle is truncated'') (\<lambda>first.
     and_then (byte_at IA64_BRANCH_TABLE (unat (first AND 0x1f))
                ''IA64 bundle template is out of range'') (\<lambda>branch_mask.
     and_then (for_fold [0, 1, 2] (bytes, 5) (ia64_slot start offset branch_mask)) (\<lambda>(bytes, _).
     and_then (usize_add offset 16 ''IA64 bundle offset overflows'') (\<lambda>offset.
     ok (bytes, offset)))))))"

definition offset_before :: "nat \<Rightarrow> byte_slice \<times> nat \<Rightarrow> bool" where
  "offset_before process_bytes acc = (snd acc < process_bytes)"

lemma ia64_step_advances: "ia64_step start a s = (Inr b, t) \<Longrightarrow> snd a < snd b"
  by (auto simp: ia64_step_def success split: prod.splits)

function ia64_loop :: "u32 \<Rightarrow> nat \<Rightarrow> byte_slice \<times> nat \<Rightarrow> (byte_slice \<times> nat) op" where
  "ia64_loop start process_bytes acc s =
     (if offset_before process_bytes acc
      then and_then (ia64_step start acc) (\<lambda>acc s. ia64_loop start process_bytes acc s) s
      else ok acc s)"
  by pat_completeness auto
termination
  by (relation "measure (\<lambda>(start, process_bytes, acc, s). process_bytes - snd acc)")
    (auto simp: offset_before_def dest!: ia64_step_advances)

declare ia64_loop.simps [simp del]

interpretation ia64: loop "ia64_loop start process_bytes" "offset_before process_bytes"
    "ia64_step start" "\<lambda>acc s. process_bytes - snd acc"
  for start process_bytes
  by unfold_locales
    (subst ia64_loop.simps, simp, auto simp: offset_before_def dest!: ia64_step_advances)

text \<open>\<open>bundle_count.checked_mul(16)\<close> does not exceed the length of the buffer.\<close>

definition usize_mul :: "nat \<Rightarrow> nat \<Rightarrow> string \<Rightarrow> nat op" where
  "usize_mul a b detail =
     and_then (gets (\<lambda>s. usize_max (machine s))) (\<lambda>maximum.
     if a * b \<le> maximum then ok (a * b) else err (format_error detail))"

definition decode_ia64 :: "byte_slice \<Rightarrow> byte_slice \<Rightarrow> byte_slice op" where
  "decode_ia64 bytes properties =
     and_then (compat_starting_position properties) (\<lambda>start.
     and_then (usize_mul (length bytes div 16) 16 ''IA64 scan size overflows'') (\<lambda>process_bytes.
     and_then (ia64_loop start process_bytes (bytes, 0)) (\<lambda>acc. ok (fst acc))))"


section \<open>RISC-V\<close>

definition is_not_auipc_pair :: "u32 \<Rightarrow> u32 \<Rightarrow> bool" where
  "is_not_auipc_pair auipc second =
     ((push_bit 8 auipc XOR (second - 3)) AND 0x000f8003 \<noteq> 0)"

definition is_not_special_auipc :: "u32 \<Rightarrow> u32 \<Rightarrow> bool" where
  "is_not_special_auipc auipc second_rs1 =
     (second_rs1 AND 0x1d \<le> push_bit 18 (auipc - 0x3117))"

text \<open>\<open>JAL\<close>: the converted instruction.\<close>

definition riscv_jal :: "u32 \<Rightarrow> u8 \<Rightarrow> u8 \<Rightarrow> byte_slice \<Rightarrow> nat \<Rightarrow> byte_slice op" where
  "riscv_jal start first second bytes offset =
     and_then (usize_add offset 2 ''RISC-V index overflows'') (\<lambda>index.
     and_then (byte_at bytes index ''RISC-V JAL is truncated'') (\<lambda>third.
     and_then (usize_add offset 3 ''RISC-V index overflows'') (\<lambda>index.
     and_then (byte_at bytes index ''RISC-V JAL is truncated'') (\<lambda>fourth.
     and_then (low_u32_offset offset) (\<lambda>low.
     let position = start + low;
         address = push_bit 13 (ucast (second AND 0xf0)) OR push_bit 9 (ucast third)
                     OR push_bit 1 (ucast fourth);
         address = address - position
     in and_then (usize_add offset 4 ''RISC-V JAL range overflows'') (\<lambda>last.
        and_then (bytes_at bytes offset last ''RISC-V JAL is truncated'') (\<lambda>_.
        and_then (ok_or (format_error ''RISC-V JAL byte is not representable'')
                   (narrow (drop_bit 8 address AND 0xf0))) (\<lambda>b1.
        and_then (ok_or (format_error ''RISC-V JAL byte is not representable'')
                   (narrow ((drop_bit 16 address AND 0x0f) OR (drop_bit 7 address AND 0x10)
                              OR (push_bit 4 address AND 0xe0)))) (\<lambda>b2.
        and_then (ok_or (format_error ''RISC-V JAL byte is not representable'')
                   (narrow ((drop_bit 4 address AND 0x7f) OR (drop_bit 13 address AND 0x80)))) (\<lambda>b3.
        ok (overwrite bytes offset [first, (second AND 0x0f) OR b1, b2, b3])))))))))))"

text \<open>\<open>AUIPC\<close>: the converted pair, or the offset at which the scan goes on without one.\<close>

definition riscv_auipc :: "u32 \<Rightarrow> byte_slice \<Rightarrow> nat \<Rightarrow> (nat + u32 \<times> u32) op" where
  "riscv_auipc start bytes offset =
     and_then (compat_read_u32_le bytes offset) (\<lambda>instruction.
     if instruction AND 0x0e80 \<noteq> 0 then
       and_then (usize_add offset 4 ''RISC-V pair offset overflows'') (\<lambda>pair_offset.
       and_then (compat_read_u32_le bytes pair_offset) (\<lambda>second_instruction.
       if is_not_auipc_pair instruction second_instruction then
         and_then (usize_add offset 6 ''RISC-V position overflows'') (\<lambda>offset. ok (Inl offset))
       else
         let address = (instruction AND 0xfffff000) + drop_bit 20 second_instruction;
             instruction = 0x17 OR push_bit 7 2 OR push_bit 12 second_instruction
         in ok (Inr (instruction, address))))
     else
       let second_rs1 = drop_bit 27 instruction
       in if is_not_special_auipc instruction second_rs1 then
            and_then (usize_add offset 4 ''RISC-V position overflows'') (\<lambda>offset. ok (Inl offset))
          else
            and_then (usize_add offset 4 ''RISC-V pair offset overflows'') (\<lambda>address_offset.
            and_then (low_u32_offset offset) (\<lambda>low.
            let position = start + low
            in and_then (compat_read_u32_be bytes address_offset) (\<lambda>stored.
               let address = stored - position;
                   second_instruction = drop_bit 12 instruction OR push_bit 20 address;
                   instruction = 0x17 OR push_bit 7 second_rs1 OR ((address + 0x800) AND 0xfffff000)
               in ok (Inr (instruction, second_instruction))))))"

definition riscv_step :: "u32 \<Rightarrow> byte_slice \<times> nat \<Rightarrow> (byte_slice \<times> nat) op" where
  "riscv_step start acc = (case acc of (bytes, offset) \<Rightarrow>
     and_then (checkpoint 2) (\<lambda>_.
     and_then (byte_at bytes offset ''RISC-V instruction is truncated'') (\<lambda>first.
     if first = 0xef then
       and_then (usize_add offset 1 ''RISC-V index overflows'') (\<lambda>index.
       and_then (byte_at bytes index ''RISC-V JAL is truncated'') (\<lambda>second.
       if second AND 0x0d = 0 then
         and_then (riscv_jal start first second bytes offset) (\<lambda>bytes.
         and_then (usize_add offset 4 ''RISC-V position overflows'') (\<lambda>offset.
         ok (bytes, offset)))
       else
         and_then (usize_add offset 2 ''RISC-V position overflows'') (\<lambda>offset.
         ok (bytes, offset))))
     else if first AND 0x7f = 0x17 then
       and_then (riscv_auipc start bytes offset) (\<lambda>converted.
       case converted of
         Inl offset \<Rightarrow> ok (bytes, offset)
       | Inr (instruction, second_instruction) \<Rightarrow>
           and_then (write_u32_le bytes offset instruction) (\<lambda>bytes.
           and_then (usize_add offset 4 ''RISC-V pair offset overflows'') (\<lambda>pair_offset.
           and_then (write_u32_le bytes pair_offset second_instruction) (\<lambda>bytes.
           and_then (usize_add offset 8 ''RISC-V position overflows'') (\<lambda>offset.
           ok (bytes, offset))))))
     else
       and_then (usize_add offset 2 ''RISC-V position overflows'') (\<lambda>offset.
       ok (bytes, offset)))))"

lemma riscv_auipc_advances:
  "riscv_auipc start bytes offset s = (Inr (Inl offset'), t) \<Longrightarrow> offset < offset'"
  by (auto simp: riscv_auipc_def success Let_def split: if_splits)

lemma riscv_step_advances: "riscv_step start a s = (Inr b, t) \<Longrightarrow> snd a < snd b"
  apply (auto simp: riscv_step_def success split: prod.splits if_splits sum.splits)
  subgoal for bytes offset u converted
    by (cases converted) (auto dest!: riscv_auipc_advances)
  done

function riscv_loop :: "u32 \<Rightarrow> nat \<Rightarrow> byte_slice \<times> nat \<Rightarrow> (byte_slice \<times> nat) op" where
  "riscv_loop start scan_end acc s =
     (if offset_within scan_end acc
      then and_then (riscv_step start acc) (\<lambda>acc s. riscv_loop start scan_end acc s) s
      else ok acc s)"
  by pat_completeness auto
termination
  by (relation "measure (\<lambda>(start, scan_end, acc, s). Suc scan_end - snd acc)")
    (auto simp: offset_within_def dest!: riscv_step_advances)

declare riscv_loop.simps [simp del]

interpretation riscv: loop "riscv_loop start scan_end" "offset_within scan_end"
    "riscv_step start" "\<lambda>acc s. Suc scan_end - snd acc"
  for start scan_end
  by unfold_locales
    (subst riscv_loop.simps, simp, auto simp: offset_within_def dest!: riscv_step_advances)

definition decode_riscv :: "byte_slice \<Rightarrow> byte_slice \<Rightarrow> byte_slice op" where
  "decode_riscv bytes properties =
     (if length bytes < 8 then ok bytes
      else
        and_then (compat_starting_position properties) (\<lambda>start.
        let start = start AND NOT 1
        in and_then (usize_sub (length bytes) 8 ''RISC-V scan bound underflows'') (\<lambda>scan_end.
           and_then (riscv_loop start scan_end (bytes, 0)) (\<lambda>acc. ok (fst acc)))))"


section \<open>Dispatch\<close>

definition METHOD_DELTA :: byte_slice where "METHOD_DELTA = [0x03]"
definition METHOD_BCJ :: byte_slice where "METHOD_BCJ = [0x03, 0x03, 0x01, 0x03]"
definition METHOD_PPC :: byte_slice where "METHOD_PPC = [0x03, 0x03, 0x02, 0x05]"
definition METHOD_ARM :: byte_slice where "METHOD_ARM = [0x03, 0x03, 0x05, 0x01]"
definition METHOD_SPARC :: byte_slice where "METHOD_SPARC = [0x03, 0x03, 0x08, 0x05]"
definition METHOD_ARM64 :: byte_slice where "METHOD_ARM64 = [0x0a]"
definition METHOD_IA64 :: byte_slice where "METHOD_IA64 = [0x03, 0x03, 0x04, 0x01]"
definition METHOD_ARM_THUMB :: byte_slice where "METHOD_ARM_THUMB = [0x03, 0x03, 0x07, 0x01]"
definition METHOD_RISCV :: byte_slice where "METHOD_RISCV = [0x0b]"
definition METHOD_SWAP2 :: byte_slice where "METHOD_SWAP2 = [0x02, 0x03, 0x02]"
definition METHOD_SWAP4 :: byte_slice where "METHOD_SWAP4 = [0x02, 0x03, 0x04]"

lemmas filter_methods =
  METHOD_DELTA_def METHOD_BCJ_def METHOD_PPC_def METHOD_ARM_def METHOD_SPARC_def METHOD_ARM64_def
  METHOD_IA64_def METHOD_ARM_THUMB_def METHOD_RISCV_def METHOD_SWAP2_def METHOD_SWAP4_def

definition decode_phase5_filter :: "byte_slice \<Rightarrow> byte_slice \<Rightarrow> byte_slice \<Rightarrow> byte_slice op" where
  "decode_phase5_filter method properties bytes =
     (if method = METHOD_IA64 then decode_ia64 bytes properties
      else if method = METHOD_ARM_THUMB then decode_arm_thumb bytes properties
      else if method = METHOD_RISCV then decode_riscv bytes properties
      else if method = METHOD_SWAP2 then decode_swap bytes properties 2
      else if method = METHOD_SWAP4 then decode_swap bytes properties 4
      else err (UnsupportedMethod method))"

definition decode_filter_in_place :: "byte_slice \<Rightarrow> byte_slice \<Rightarrow> byte_slice \<Rightarrow> byte_slice op" where
  "decode_filter_in_place method properties bytes =
     (if method = METHOD_DELTA then decode_delta bytes properties
      else if method = METHOD_BCJ then decode_x86_bcj bytes properties
      else if method = METHOD_PPC then decode_ppc bytes properties
      else if method = METHOD_ARM then decode_arm bytes properties
      else if method = METHOD_ARM64 then decode_arm64 bytes properties
      else if method = METHOD_SPARC then decode_sparc bytes properties
      else decode_phase5_filter method properties bytes)"

definition decode_filter :: "byte_slice \<Rightarrow> byte_slice \<Rightarrow> byte_slice \<Rightarrow> byte_slice op" where
  "decode_filter method properties bytes =
     and_then (decode_filter_in_place method properties bytes) ok"

end
