(* ===== verification/Bcj2.thy ===== *)
theory Bcj2
  imports Word_Filters
begin

text \<open>
  \<^verbatim>\<open>decode/filters.rs\<close>, the four-stream filter BCJ2: cursors over the streams, the adaptive binary
  range decoder that says which branches were converted, and the merging loop.
\<close>


section \<open>Cursors\<close>

record bcj2_cursor =
  cur_bytes :: byte_slice
  cur_position :: nat

definition bcj2_cursor_new :: "byte_slice \<Rightarrow> bcj2_cursor" where
  "bcj2_cursor_new bytes = \<lparr>cur_bytes = bytes, cur_position = 0\<rparr>"

definition cursor_read_byte :: "bcj2_cursor \<Rightarrow> (u8 \<times> bcj2_cursor) op" where
  "cursor_read_byte c =
     and_then (checkpoint 1) (\<lambda>_.
     and_then (byte_at (cur_bytes c) (cur_position c) ''truncated BCJ2 input stream'') (\<lambda>byte.
     and_then (usize_add (cur_position c) 1 ''BCJ2 input cursor overflows'') (\<lambda>position.
     ok (byte, c\<lparr>cur_position := position\<rparr>))))"

definition cursor_read_u32_be :: "bcj2_cursor \<Rightarrow> (u32 \<times> bcj2_cursor) op" where
  "cursor_read_u32_be c =
     and_then (for_fold [0, 1, 2, 3 :: nat] ([], c) (\<lambda>(word, c) _.
       and_then (cursor_read_byte c) (\<lambda>(byte, c). ok (word @ [byte], c)))) (\<lambda>(word, c).
     ok (from_be_bytes word, c))"

definition is_finished :: "bcj2_cursor \<Rightarrow> bool" where
  "is_finished c = (cur_position c = length (cur_bytes c))"


section \<open>The range decoder\<close>

record bcj2_range =
  rc_input :: bcj2_cursor
  rc_range :: u32
  rc_code :: u32
  rc_probabilities :: "u32 list"

definition bcj2_range_new :: "byte_slice \<Rightarrow> bcj2_range op" where
  "bcj2_range_new bytes =
     and_then (for_fold [0, 1, 2, 3, 4 :: nat] (bcj2_cursor_new bytes, 0) (\<lambda>(input, code) _.
       and_then (cursor_read_byte input) (\<lambda>(byte, input).
       ok (input, push_bit 8 code OR ucast byte)))) (\<lambda>(input, code).
     ok \<lparr>rc_input = input, rc_range = - 1, rc_code = code,
         rc_probabilities = replicate 258 (push_bit 10 1)\<rparr>)"

text \<open>\<open>u32::saturating_sub\<close>\<close>

definition saturating_sub :: "'a::len word \<Rightarrow> 'a word \<Rightarrow> 'a word" where
  "saturating_sub a b = (if b \<le> a then a - b else 0)"

text \<open>The symbol: the interval and the probability are updated before the interval is refilled.\<close>

definition select_symbol :: "nat \<Rightarrow> u32 \<Rightarrow> u32 \<Rightarrow> bcj2_range \<Rightarrow> (bool \<times> bcj2_range) op" where
  "select_symbol index probability bound rc =
     (if rc_code rc < bound then
        and_then (ok_or (format_error ''BCJ2 probability overflows'')
          (checked_add probability (drop_bit 5 (saturating_sub 2048 probability)))) (\<lambda>p.
        ok (False, rc\<lparr>rc_range := bound,
                      rc_probabilities := (rc_probabilities rc)[index := p]\<rparr>))
      else
        and_then (ok_or (format_error ''BCJ2 range underflows'')
          (checked_sub (rc_range rc) bound)) (\<lambda>range.
        and_then (ok_or (format_error ''BCJ2 range code underflows'')
          (checked_sub (rc_code rc) bound)) (\<lambda>code.
        and_then (ok_or (format_error ''BCJ2 probability underflows'')
          (checked_sub probability (drop_bit 5 probability))) (\<lambda>p.
        ok (True, rc\<lparr>rc_range := range, rc_code := code,
                     rc_probabilities := (rc_probabilities rc)[index := p]\<rparr>)))))"

definition bcj2_decode :: "nat \<Rightarrow> bcj2_range \<Rightarrow> (bool \<times> bcj2_range) op" where
  "bcj2_decode index rc =
     and_then (ok_or (format_error ''BCJ2 probability index is out of range'')
       (item_get (rc_probabilities rc) index)) (\<lambda>probability.
     and_then (ok_or (format_error ''BCJ2 probability bound overflows'')
       (checked_mul (drop_bit 11 (rc_range rc)) probability)) (\<lambda>bound.
     and_then (select_symbol index probability bound rc) (\<lambda>(selected, rc).
     if rc_range rc < push_bit 24 1 then
       and_then (cursor_read_byte (rc_input rc)) (\<lambda>(byte, input).
       ok (selected, rc\<lparr>rc_input := input, rc_code := push_bit 8 (rc_code rc) OR ucast byte,
                        rc_range := push_bit 8 (rc_range rc)\<rparr>))
     else ok (selected, rc))))"

definition is_bcj2_branch :: "u8 \<Rightarrow> u8 \<Rightarrow> bool" where
  "is_bcj2_branch previous current =
     (current AND 0xfe = 0xe8 \<or> (previous = 0x0f \<and> current AND 0xf0 = 0x80))"

definition bcj2_probability_index :: "u8 \<Rightarrow> u8 \<Rightarrow> nat" where
  "bcj2_probability_index previous current =
     (if current = 0xe8 then unat previous else if current = 0xe9 then 256 else 257)"


section \<open>Merging the streams\<close>

definition reserve_output :: "byte_slice \<Rightarrow> nat \<Rightarrow> u64 \<Rightarrow> unit op" where
  "reserve_output output additional maximum =
     and_then (usize_add (length output) additional ''BCJ2 output size overflows'') (\<lambda>requested.
     and_then (usize_to_u64 requested ''BCJ2 output size is not representable as u64'') (\<lambda>requested.
     and_then (check_limit requested maximum TotalOutputBytes) (\<lambda>_.
     reserve_exact additional ''BCJ2 output allocation failed'')))"

record bcj2_state =
  bcj2_main :: bcj2_cursor
  bcj2_call :: bcj2_cursor
  bcj2_jump :: bcj2_cursor
  bcj2_coder :: bcj2_range
  bcj2_output :: byte_slice
  bcj2_previous :: u8
  bcj2_written :: u32

text \<open>A converted branch: the destination comes from the side stream of the opcode.\<close>

definition bcj2_branch :: "u64 \<Rightarrow> u8 \<Rightarrow> bcj2_state \<Rightarrow> bcj2_state op" where
  "bcj2_branch maximum byte st =
     and_then (if byte = 0xe8
               then and_then (cursor_read_u32_be (bcj2_call st)) (\<lambda>(encoded, call).
                    ok (encoded, st\<lparr>bcj2_call := call\<rparr>))
               else and_then (cursor_read_u32_be (bcj2_jump st)) (\<lambda>(encoded, jump).
                    ok (encoded, st\<lparr>bcj2_jump := jump\<rparr>))) (\<lambda>(encoded, st).
     let destination = encoded - (bcj2_written st + 4)
     in and_then (reserve_output (bcj2_output st) 4 maximum) (\<lambda>_.
        and_then (ok_or (format_error ''BCJ2 previous byte is not representable'')
          (narrow (drop_bit 24 destination))) (\<lambda>previous.
        ok (st\<lparr>bcj2_output := bcj2_output st @ to_le_bytes 4 (unat destination),
               bcj2_previous := previous, bcj2_written := bcj2_written st + 4\<rparr>))))"

definition bcj2_step :: "u64 \<Rightarrow> bcj2_state \<Rightarrow> bcj2_state op" where
  "bcj2_step maximum st =
     and_then (cursor_read_byte (bcj2_main st)) (\<lambda>(byte, main).
     and_then (reserve_output (bcj2_output st) 1 maximum) (\<lambda>_.
     let previous = bcj2_previous st;
         st = st\<lparr>bcj2_main := main, bcj2_output := bcj2_output st @ [byte],
                 bcj2_written := bcj2_written st + 1\<rparr>
     in if \<not> is_bcj2_branch previous byte then ok (st\<lparr>bcj2_previous := byte\<rparr>)
        else
          and_then (bcj2_decode (bcj2_probability_index previous byte) (bcj2_coder st))
            (\<lambda>(selected, coder).
          let st = st\<lparr>bcj2_coder := coder\<rparr>
          in if selected then bcj2_branch maximum byte st
             else ok (st\<lparr>bcj2_previous := byte\<rparr>))))"

definition bcj2_unread :: "bcj2_state \<Rightarrow> nat" where
  "bcj2_unread st = length (cur_bytes (bcj2_main st)) - cur_position (bcj2_main st)"

lemma cursor_read_byte_success [success]:
  "cursor_read_byte c s = (Inr (byte, d), t) \<longleftrightarrow>
     (\<exists>u. checkpoint 1 s = (Inr (), t) \<and> u = t \<and> cur_position c < length (cur_bytes c) \<and>
       Suc (cur_position c) \<le> usize_max (machine t) \<and>
       byte = cur_bytes c ! cur_position c \<and> d = c\<lparr>cur_position := Suc (cur_position c)\<rparr>)"
  by (auto simp: cursor_read_byte_def success)

lemma bcj2_branch_main:
  "bcj2_branch maximum byte st s = (Inr st', t) \<Longrightarrow> bcj2_main st' = bcj2_main st"
  by (auto simp: bcj2_branch_def success Let_def split: if_splits prod.splits)

lemma bcj2_step_main:
  "bcj2_step maximum a s = (Inr b, t) \<Longrightarrow>
     cur_position (bcj2_main a) < length (cur_bytes (bcj2_main a)) \<and>
     bcj2_main b = (bcj2_main a)\<lparr>cur_position := Suc (cur_position (bcj2_main a))\<rparr>"
  by (force simp: bcj2_step_def success Let_def split: if_splits prod.splits dest!: bcj2_branch_main)

lemma bcj2_step_decreases:
  "bcj2_step maximum a s = (Inr b, t) \<Longrightarrow> bcj2_unread b < bcj2_unread a"
  by (drule bcj2_step_main) (auto simp: bcj2_unread_def)

function bcj2_loop :: "u64 \<Rightarrow> bcj2_state \<Rightarrow> bcj2_state op" where
  "bcj2_loop maximum st s =
     (if \<not> is_finished (bcj2_main st)
      then and_then (bcj2_step maximum st) (\<lambda>st s. bcj2_loop maximum st s) s
      else ok st s)"
  by pat_completeness auto
termination
  by (relation "measure (\<lambda>(maximum, st, s). bcj2_unread st)") (auto intro: bcj2_step_decreases)

declare bcj2_loop.simps [simp del]

interpretation bcj2: loop "bcj2_loop maximum" "\<lambda>st. \<not> is_finished (bcj2_main st)"
    "bcj2_step maximum" "\<lambda>st s. bcj2_unread st"
  for maximum
  by unfold_locales (subst bcj2_loop.simps, simp, rule bcj2_step_decreases)

definition decode_bcj2 ::
    "byte_slice list \<Rightarrow> byte_slice \<Rightarrow> u64 option \<Rightarrow> u64 \<Rightarrow> byte_slice op" where
  "decode_bcj2 inputs properties expected maximum =
     and_then (err_if (properties \<noteq> []) (format_error ''BCJ2 properties must be empty'')) (\<lambda>_.
     and_then (ok_or (format_error ''BCJ2 main stream is missing'') (item_get inputs 0)) (\<lambda>main.
     and_then (ok_or (format_error ''BCJ2 call stream is missing'') (item_get inputs 1)) (\<lambda>call.
     and_then (ok_or (format_error ''BCJ2 jump stream is missing'') (item_get inputs 2)) (\<lambda>jump.
     and_then (ok_or (format_error ''BCJ2 range stream is missing'') (item_get inputs 3)) (\<lambda>range.
     and_then (err_if (length inputs \<noteq> 4)
                (format_error ''BCJ2 requires exactly four input streams'')) (\<lambda>_.
     and_then (check_limit (case expected of Some e \<Rightarrow> e | None \<Rightarrow> 0) maximum TotalOutputBytes) (\<lambda>_.
     and_then (case expected of
                 Some e \<Rightarrow>
                   and_then (u64_to_usize e ''BCJ2 output size is not representable on this platform'')
                     try_reserve
               | None \<Rightarrow> ok ()) (\<lambda>_.
     and_then (bcj2_range_new range) (\<lambda>coder.
     and_then (bcj2_loop maximum
       \<lparr>bcj2_main = bcj2_cursor_new main, bcj2_call = bcj2_cursor_new call,
        bcj2_jump = bcj2_cursor_new jump, bcj2_coder = coder, bcj2_output = [],
        bcj2_previous = 0, bcj2_written = 0\<rparr>) (\<lambda>st.
     and_then (err_if (\<not> is_finished (bcj2_call st) \<or> \<not> is_finished (bcj2_jump st))
                (format_error ''BCJ2 side streams were not consumed exactly'')) (\<lambda>_.
     and_then (case expected of
                 Some e \<Rightarrow>
                   and_then (usize_to_u64 (length (bcj2_output st))
                               ''BCJ2 output size is not representable as u64'') (\<lambda>produced.
                   err_if (produced \<noteq> e)
                     (format_error ''BCJ2 output size does not match its declaration''))
               | None \<Rightarrow> ok ()) (\<lambda>_.
     ok (bcj2_output st)))))))))))))"

end
