(* ===== verification/Filter_Laws.thy ===== *)
theory Filter_Laws
  imports Compat_Filters Bcj2
begin

text \<open>
  What the filters do: the functional behaviour of each word filter, that the filters keep the
  length of the buffer and reach none of their index errors, and that they undo the encoders.
\<close>


section \<open>Fields of machine words\<close>

lemma unat_and_mask: "unat (a AND mask n :: 'a::len word) = unat a mod 2 ^ n"
  by (simp only: take_bit_eq_mask [symmetric] unsigned_take_bit_eq) (rule take_bit_eq_mod)

lemma and_not_mask_sum: "(a AND mask n) + (a AND NOT (mask n)) = (a :: 'a::len word)"
proof -
  have "(a AND mask n) + (a AND NOT (mask n)) = (a AND mask n) OR (a AND NOT (mask n))"
    by (rule disjunctive_add) (auto simp: bit_simps)
  also have "\<dots> = a" by (rule bit_word_eqI) (auto simp: bit_simps)
  finally show ?thesis .
qed

lemma unat_and_not_mask: "unat (a AND NOT (mask n) :: 'a::len word) = 2 ^ n * (unat a div 2 ^ n)"
proof -
  have le: "unat (a AND mask n) \<le> unat a" by (simp add: unat_and_mask)
  have "a AND NOT (mask n) = a - (a AND mask n)"
    using and_not_mask_sum [of a n] by (metis add_diff_cancel_left')
  then have "unat (a AND NOT (mask n)) = unat a - unat a mod 2 ^ n"
    using le by (simp add: unat_sub_if_size unat_and_mask word_le_nat_alt unat_sub)
  then show ?thesis by (simp add: minus_mod_eq_mult_div)
qed

lemma unat_drop_bit: "unat (drop_bit n a :: 'a::len word) = unat a div 2 ^ n"
  by (simp only: unsigned_drop_bit_eq) (simp add: drop_bit_eq_div take_bit_nat_eq_self)

lemma unat_ucast_u8: "unat (ucast (a :: u32) :: u8) = unat a mod 256"
  by (simp add: unsigned_ucast_eq take_bit_eq_mod)

lemma take_bit_minus:
  fixes x d :: "'a::len word"
  shows "take_bit n (take_bit n x - d) = take_bit n (x - d)"
proof -
  have u: "uint (a - b) = take_bit LENGTH('a) (uint a - uint b)" for a b :: "'a word"
    by (simp add: uint_word_ariths take_bit_eq_mod)
  have "uint (take_bit n (take_bit n x - d)) = take_bit (min n LENGTH('a)) (take_bit n (uint x) - uint d)"
    by (simp only: unsigned_take_bit_eq u take_bit_take_bit)
  also have "\<dots> = take_bit (min n LENGTH('a)) (uint x - uint d)"
    by (subst (1 2) take_bit_diff [symmetric]) (simp add: min_def)
  also have "\<dots> = uint (take_bit n (x - d))"
    by (simp only: unsigned_take_bit_eq u take_bit_take_bit)
  finally show ?thesis by (simp only: word_uint_eq_iff)
qed

text \<open>
  An operand field of \<open>n\<close> bits below a fixed opcode: taking the displacement off what it was added to
  gives the operand back, whatever carries out of the field.
\<close>

lemma field_codec:
  fixes v d c :: "'a::len word"
  assumes "v AND NOT (mask n) = c"
  shows "((((v + d) AND mask n) OR c) - d) AND mask n OR c = v"
proof -
  have c: "take_bit n c = 0"
    unfolding assms [symmetric] by (rule bit_word_eqI) (auto simp: bit_simps)
  have "take_bit n ((take_bit n (v + d) OR c) - d) = take_bit n (take_bit n (take_bit n (v + d) OR c) - d)"
    by (simp only: take_bit_minus)
  also have "\<dots> = take_bit n (take_bit n (v + d) - d)"
    by (simp add: c)
  also have "\<dots> = take_bit n v"
    by (simp only: take_bit_minus) simp
  finally have "take_bit n ((take_bit n (v + d) OR c) - d) OR c = take_bit n v OR c" by simp
  also have "\<dots> = v"
    unfolding assms [symmetric] by (rule bit_word_eqI) (auto simp: bit_simps)
  finally show ?thesis by (simp only: take_bit_eq_mask)
qed

lemma four_bytes: "length w = 4 \<Longrightarrow> \<exists>a b c d. w = [a, b, c, d]"
  by (auto simp: numeral_eq_Suc length_Suc_conv)

lemma unat_from_be_four: "unat (from_be_bytes [a, b, c, d] :: u32) =
    ((unat a * 256 + unat b) * 256 + unat c) * 256 + unat d"
proof -
  have "le_nat [d, c, b, a] < 4294967296"
    using le_nat_bound [of "[d, c, b, a]"] by simp
  then show ?thesis
    by (simp add: from_be_bytes_def from_le_bytes_def unat_of_nat del: le_nat.simps) (simp add: algebra_simps)
qed

lemma unat_from_le_four: "unat (from_le_bytes [a, b, c, d] :: u32) =
    ((unat d * 256 + unat c) * 256 + unat b) * 256 + unat a"
  using unat_from_be_four [of d c b a] by (simp add: from_be_bytes_def)

text \<open>The single bytes of a big-endian word.\<close>

lemma to_le_bytes_four:
  "to_le_bytes 4 n =
     [of_nat (n mod 256), of_nat (n div 256 mod 256), of_nat (n div 256 div 256 mod 256),
      of_nat (n div 256 div 256 div 256 mod 256)]"
proof -
  have four: "(4 :: nat) = Suc (Suc (Suc (Suc 0)))" by simp
  show ?thesis unfolding four to_le_bytes.simps ..
qed

lemma be_bytes_nth:
  fixes v :: u32
  shows "to_be_bytes 4 (unat v) ! 0 = ucast (drop_bit 24 v)"
    and "to_be_bytes 4 (unat v) ! 1 = ucast (drop_bit 16 v)"
    and "to_be_bytes 4 (unat v) ! 3 = ucast v"
  by (simp_all add: to_be_bytes_def to_le_bytes_four word_unat_eq_iff unat_of_nat unat_ucast_u8
      unat_drop_bit div_mult2_eq [symmetric])

lemma le_bytes_nth:
  fixes v :: u32
  shows "to_le_bytes 4 (unat v) ! 3 = ucast (drop_bit 24 v)"
  by (simp add: to_le_bytes_four word_unat_eq_iff unat_of_nat unat_ucast_u8
      unat_drop_bit div_mult2_eq [symmetric])


section \<open>The filters on aligned words\<close>

text \<open>A buffer with every complete word replaced; the address advances by four.\<close>

fun map_words :: "(u32 \<Rightarrow> byte_slice \<Rightarrow> byte_slice) \<Rightarrow> u32 \<Rightarrow> byte_slice \<Rightarrow> byte_slice" where
  "map_words f ip (a # b # c # d # bs) = f ip [a, b, c, d] @ map_words f (ip + 4) bs"
| "map_words f ip bs = bs"

lemma map_words_step:
  "length w = 4 \<Longrightarrow> map_words f ip (w @ bs) = f ip w @ map_words f (ip + 4) bs"
  using four_bytes by fastforce

lemma map_words_short: "length bs < 4 \<Longrightarrow> map_words f ip bs = bs"
  by (cases "(f, ip, bs)" rule: map_words.cases) auto

lemma quads_induct [case_names short word]:
  assumes "\<And>ip bs. length bs < 4 \<Longrightarrow> P ip bs"
    and "\<And>ip w bs. length w = 4 \<Longrightarrow> P (ip + 4) bs \<Longrightarrow> P ip (w @ bs)"
  shows "P (ip :: u32) bs"
proof (induction bs arbitrary: ip rule: length_induct)
  case (1 bs)
  show ?case
  proof (cases "length bs < 4")
    case False
    then have "P (ip + 4) (drop 4 bs)" using 1 by simp
    with assms(2) [of "take 4 bs" ip "drop 4 bs"] False show ?thesis by simp
  qed (rule assms(1))
qed

lemma map_words_inverse:
  assumes "\<And>ip w. aligned ip \<Longrightarrow> length w = 4 \<Longrightarrow> length (enc ip w) = 4 \<and> dec ip (enc ip w) = w"
    and "\<And>ip. aligned ip \<Longrightarrow> aligned (ip + 4)"
  shows "aligned ip \<Longrightarrow> map_words dec ip (map_words enc ip bs) = bs"
  by (induction ip bs rule: quads_induct) (simp_all add: assms map_words_short map_words_step)

lemma length_map_words:
  assumes "\<And>ip w. length w = 4 \<Longrightarrow> length (f ip w) = 4"
  shows "length (map_words f ip bs) = length bs"
  by (induction ip bs rule: quads_induct) (simp_all add: assms map_words_short map_words_step)

text \<open>
  The contract between the loop and a conversion: on a complete word it replaces the word by a
  function of its bytes and its address, and touches nothing else.
\<close>

locale word_filter =
  fixes convert :: conversion and word :: "u32 \<Rightarrow> byte_slice \<Rightarrow> byte_slice"
  assumes length_word: "length w = 4 \<Longrightarrow> length (word ip w) = 4"
    and convert_run: "offset + 4 \<le> length bytes \<Longrightarrow> length bytes \<le> usize_max (machine s) \<Longrightarrow>
      convert ip bytes offset s = (Inr (overwrite bytes offset (word ip (take 4 (drop offset bytes)))), s)"
begin

definition invariant ::
    "u32 \<Rightarrow> byte_slice \<Rightarrow> session \<Rightarrow> byte_slice \<times> nat \<times> u32 \<Rightarrow> session \<Rightarrow> bool" where
  "invariant start bytes s acc t \<longleftrightarrow> (case acc of (b, offset, ip) \<Rightarrow>
     still s t \<and> length b = length bytes \<and> offset \<le> length bytes \<and>
     take offset b @ map_words word ip (drop offset b) = map_words word start bytes)"

lemma step_outcome:
  assumes inv: "invariant start bytes s acc t" and left: "word_left (length bytes) acc"
    and room: "length bytes \<le> usize_max (machine s)" and res: "\<And>e. resource_error e \<Longrightarrow> E e"
  shows "outcome E (branch_step convert overflow acc) t (invariant start bytes s)"
proof -
  obtain b offset ip where acc: "acc = (b, offset, ip)" by (cases acc)
  have len: "length b = length bytes" "offset + 4 \<le> length b"
    using inv left by (auto simp: acc invariant_def word_left_def)
  define w where "w = take 4 (drop offset b)"
  define us where "us = take offset b"
  define vs where "vs = drop (offset + 4) b"
  have b: "b = us @ w @ vs" "length us = offset" "length w = 4"
    using len by (simp_all add: w_def us_def vs_def) (metis add.commute append_take_drop_id drop_drop)
  have inv': "invariant start bytes s (overwrite b offset (word ip w), offset + 4, ip + 4) u" if "still s u" for u
    using inv that len b length_word [of w ip] by (simp add: invariant_def acc map_words_step)
  have s: "still s t" using inv by (simp add: acc invariant_def)
  show ?thesis
    unfolding branch_step_def acc prod.case
  proof (rule outcome_and_then, rule outcome_checkpoint [OF res])
    fix u assume "still t u"
    with s have u: "still s u" by (rule still_trans)
    then have max: "length b \<le> usize_max (machine u)" "offset + 4 \<le> usize_max (machine u)"
      using len room by (simp_all add: still_def)
    have "and_then (convert ip b offset) (\<lambda>b. and_then (usize_add offset 4 overflow) (\<lambda>offset.
        ok (b, offset, ip + 4))) u
      = (Inr (overwrite b offset (word ip w), offset + 4, ip + 4), u)"
      using max len(2) by (simp add: convert_run usize_add_def run w_def)
    then show "outcome E (and_then (convert ip b offset) (\<lambda>b. and_then (usize_add offset 4 overflow)
        (\<lambda>offset. ok (b, offset, ip + 4)))) u (invariant start bytes s)"
      using inv' [OF u] by (simp add: outcome_def)
  qed
qed

lemma decode_outcome:
  assumes "length bytes \<le> usize_max (machine s)"
    and "\<And>e. resource_error e \<Longrightarrow> E e"
    and "\<And>t. still s t \<Longrightarrow> Q (map_words word ip bytes) t"
  shows "outcome E (decode_branches convert overflow bytes ip) s Q"
  unfolding decode_branches_def
proof (rule outcome_and_then, rule branch.loop_outcome [where I = "invariant ip bytes s"])
  show "invariant ip bytes s (bytes, 0, ip) s" by (simp add: invariant_def)
  show "outcome E (branch_step convert overflow a) t (invariant ip bytes s)"
    if "invariant ip bytes s a t" "word_left (length bytes) a" for a t
    by (rule step_outcome [OF that assms(1,2)])
  show "outcome E (ok (fst a)) t Q" if "invariant ip bytes s a t" "\<not> word_left (length bytes) a" for a t
    using that assms(3) by (auto simp: outcome_def run invariant_def word_left_def map_words_short)
qed

end

section \<open>PowerPC, ARM, ARM64 and SPARC\<close>

definition ppc_word :: "u32 \<Rightarrow> byte_slice \<Rightarrow> byte_slice" where
  "ppc_word ip w =
     (if w ! 0 AND 0xfc = 0x48 \<and> w ! 3 AND 3 = 1
      then to_be_bytes 4 (unat (((from_be_bytes w - ip) AND 0x03ffffff) OR 0x48000000 :: u32))
      else w)"

definition arm_word :: "u32 \<Rightarrow> byte_slice \<Rightarrow> byte_slice" where
  "arm_word ip w =
     (if w ! 3 = 0xeb
      then to_le_bytes 4 (unat (((from_le_bytes w - drop_bit 2 (ip + 4)) AND 0x00ffffff) OR 0xeb000000 :: u32))
      else w)"

definition arm64_word :: "u32 \<Rightarrow> byte_slice \<Rightarrow> byte_slice" where
  "arm64_word ip w =
     (let original = from_le_bytes w; v = original - 0x90000000; u = v + ARM64_FLAG;
          transformed = ((u AND 0xffffffe0) OR drop_bit 26 u) - (drop_bit 9 ip AND NOT 7)
      in if (original - 0x94000000) AND 0xfc000000 = 0
         then to_le_bytes 4 (unat (((original - drop_bit 2 ip) AND 0x03ffffff) OR 0x94000000))
         else if v AND 0x9f000000 = 0 \<and> u AND ARM64_MASK = 0
         then to_le_bytes 4 (unat ((((u AND 0x1f) OR 0x90000000) OR push_bit 26 transformed) OR
                (0x00ffffe0 AND ((transformed AND (push_bit 1 ARM64_FLAG - 1)) - ARM64_FLAG))))
         else w)"

definition sparc_word :: "u32 \<Rightarrow> byte_slice \<Rightarrow> byte_slice" where
  "sparc_word ip w =
     (if (w ! 0 = 0x40 \<and> w ! 1 AND 0xc0 = 0) \<or> (w ! 0 = 0x7f \<and> 0xc0 \<le> w ! 1)
      then to_be_bytes 4 (unat (drop_bit 2
        ((((push_bit 2 (from_be_bytes w) - ip) AND 0x01ffffff) - push_bit 24 1) XOR 0xff000000)
          OR 0x40000000 :: u32))
      else w)"

lemma word_at:
  assumes "offset + 4 \<le> length bytes" and "length bytes \<le> usize_max (machine s)"
  shows "filter_read_u32_be bytes offset s = (Inr (from_be_bytes (take 4 (drop offset bytes))), s)"
    and "filter_read_u32_le bytes offset s = (Inr (from_le_bytes (take 4 (drop offset bytes))), s)"
    and "write_word bytes offset new s = (Inr (overwrite bytes offset new), s)"
    and "k < 4 \<Longrightarrow> byte_at bytes (offset + k) d s = (Inr (take 4 (drop offset bytes) ! k), s)"
    and "k < 4 \<Longrightarrow> usize_add offset k d s = (Inr (offset + k), s)"
  using assms
  by (simp_all add: filter_read_u32_be_def filter_read_u32_le_def write_word_def usize_add_def
      bytes_at_def byte_at_def array_of_def slice_get_def item_get_def run)

lemma overwrite_same: "offset + 4 \<le> length bytes \<Longrightarrow> overwrite bytes offset (take 4 (drop offset bytes)) = bytes"
  by (simp add: overwrite_def) (metis add.commute append_take_drop_id drop_drop)

lemmas word_at_0 = word_at(4) [where k = 0, simplified]
lemmas word_at_1 = word_at(4) [where k = 1, simplified]

interpretation ppc: word_filter ppc_convert ppc_word
  by unfold_locales
    (simp_all add: ppc_word_def ppc_convert_def word_at word_at_0 overwrite_same run Let_def)

interpretation arm: word_filter arm_convert arm_word
  by unfold_locales
    (simp_all add: arm_word_def arm_convert_def word_at overwrite_same run Let_def)

interpretation arm64: word_filter arm64_convert arm64_word
  by unfold_locales
    (simp_all add: arm64_word_def arm64_convert_def word_at overwrite_same run Let_def)

interpretation sparc: word_filter sparc_convert sparc_word
  by unfold_locales
    (simp_all add: sparc_word_def sparc_convert_def word_at word_at_0 word_at_1 overwrite_same
       run Let_def)


section \<open>The encoders, and that the filters undo them\<close>

definition ppc_encode :: "u32 \<Rightarrow> byte_slice \<Rightarrow> byte_slice" where
  "ppc_encode ip w =
     (if w ! 0 AND 0xfc = 0x48 \<and> w ! 3 AND 3 = 1
      then to_be_bytes 4 (unat (((from_be_bytes w + ip) AND 0x03ffffff) OR 0x48000000 :: u32))
      else w)"

definition arm_encode :: "u32 \<Rightarrow> byte_slice \<Rightarrow> byte_slice" where
  "arm_encode ip w =
     (if w ! 3 = 0xeb
      then to_le_bytes 4 (unat (((from_le_bytes w + drop_bit 2 (ip + 4)) AND 0x00ffffff) OR 0xeb000000 :: u32))
      else w)"

definition sparc_encode :: "u32 \<Rightarrow> byte_slice \<Rightarrow> byte_slice" where
  "sparc_encode ip w =
     (if (w ! 0 = 0x40 \<and> w ! 1 AND 0xc0 = 0) \<or> (w ! 0 = 0x7f \<and> 0xc0 \<le> w ! 1)
      then to_be_bytes 4 (unat (drop_bit 2
        ((((push_bit 2 (from_be_bytes w) + ip) AND 0x01ffffff) - push_bit 24 1) XOR 0xff000000)
          OR 0x40000000 :: u32))
      else w)"

text \<open>The opcode tests on the bytes of a word are tests on its fields.\<close>

lemma ppc_first:
  fixes v :: u32
  shows "(ucast (drop_bit 24 v) :: u8) AND 0xfc = 0x48 \<longleftrightarrow> v AND NOT (mask 26) = 0x48000000"
proof -
  have m: "(0xfc :: u8) = NOT (mask 2)" by (simp add: mask_eq_exp_minus_1)
  show ?thesis
    unfolding m word_unat_eq_iff unat_and_not_mask unat_ucast_u8 unat_drop_bit
    using unat_less_32 [of v] div_mult2_eq [of "unat v" "2 ^ 24" 4]
    by (simp del: unat_less_32)
qed

lemma low_two_bits:
  fixes v :: u32
  shows "(ucast v :: u8) AND 3 = 1 \<longleftrightarrow> unat v mod 4 = 1"
proof -
  have m: "(3 :: u8) = mask 2" by (simp add: mask_eq_exp_minus_1)
  show ?thesis
    unfolding m word_unat_eq_iff unat_and_mask unat_ucast_u8 by (simp add: mod_mod_cancel)
qed

lemma unat_or_disjoint:
  fixes a c :: "'a::len word"
  assumes "take_bit n a = a" and "take_bit n c = 0"
  shows "a OR c = a + c" and "a XOR c = a + c"
proof -
  have b: "\<not> bit a m \<or> \<not> bit c m" for m
    using assms by (metis bit_0_eq bit_take_bit_iff bot_apply bot_bool_def)
  then show "a OR c = a + c" by (rule disjunctive_add [symmetric])
  have "a XOR c = a OR c" using b by (intro bit_word_eqI) (auto simp: bit_simps)
  also have "\<dots> = a + c" using b by (rule disjunctive_add [symmetric])
  finally show "a XOR c = a + c" .
qed

lemma ppc_inverse:
  assumes "unat ip mod 4 = 0" and "length w = 4"
  shows "ppc_word ip (ppc_encode ip w) = w"
proof (cases "w ! 0 AND 0xfc = 0x48 \<and> w ! 3 AND 3 = 1")
  case True
  define v :: u32 where "v = from_be_bytes w"
  have w: "w = to_be_bytes 4 (unat v)"
    using assms(2) by (simp add: v_def to_be_bytes_from_be_bytes_u32)
  have m: "(0x03ffffff :: u32) = mask 26" by (simp add: mask_eq_exp_minus_1)
  have op: "v AND NOT (mask 26) = 0x48000000" and low: "unat v mod 4 = 1"
    using True unfolding w be_bytes_nth ppc_first low_two_bits by auto
  define e where "e = ((v + ip) AND mask 26) OR 0x48000000"
  have "e AND NOT (mask 26) = 0x48000000"
    unfolding e_def op [symmetric] by (rule bit_word_eqI) (auto simp: bit_simps)
  moreover have "unat e mod 4 = 1"
  proof -
    have "e AND mask 2 = (v + ip) AND mask 2"
      unfolding e_def op [symmetric] by (rule bit_word_eqI) (auto simp: bit_simps)
    then have "unat e mod 4 = unat (v + ip) mod 4"
      unfolding word_unat_eq_iff unat_and_mask by simp
    also have "\<dots> = (unat v + unat ip) mod 4"
      by (simp add: unat_word_ariths mod_mod_cancel)
    finally show ?thesis using low assms(1) by presburger
  qed
  ultimately have "to_be_bytes 4 (unat e) ! 0 AND 0xfc = 0x48 \<and> to_be_bytes 4 (unat e) ! 3 AND 3 = 1"
    unfolding be_bytes_nth ppc_first low_two_bits by simp
  moreover have "((e - ip) AND mask 26) OR 0x48000000 = v"
    unfolding e_def by (rule field_codec [OF op])
  moreover have "ppc_encode ip w = to_be_bytes 4 (unat e)"
    using True by (simp add: ppc_encode_def e_def v_def m)
  ultimately show ?thesis
    by (simp add: ppc_word_def m w)
next
  case False
  then show ?thesis by (auto simp: ppc_word_def ppc_encode_def)
qed

lemma arm_first:
  fixes v :: u32
  shows "(ucast (drop_bit 24 v) :: u8) = 0xeb \<longleftrightarrow> v AND NOT (mask 24) = 0xeb000000"
  unfolding word_unat_eq_iff unat_and_not_mask unat_ucast_u8 unat_drop_bit
  using unat_less_32 [of v] by (simp del: unat_less_32)

lemma arm_inverse:
  assumes "length w = 4"
  shows "arm_word ip (arm_encode ip w) = w"
proof (cases "w ! 3 = 0xeb")
  case True
  define v :: u32 where "v = from_le_bytes w"
  have w: "w = to_le_bytes 4 (unat v)"
    using assms by (simp add: v_def to_le_bytes_from_le_bytes_u32)
  have m: "(0x00ffffff :: u32) = mask 24" by (simp add: mask_eq_exp_minus_1)
  have op: "v AND NOT (mask 24) = 0xeb000000"
    using True unfolding w le_bytes_nth arm_first .
  define e where "e = ((v + drop_bit 2 (ip + 4)) AND mask 24) OR 0xeb000000"
  have "e AND NOT (mask 24) = 0xeb000000"
    unfolding e_def op [symmetric] by (rule bit_word_eqI) (auto simp: bit_simps)
  then have "to_le_bytes 4 (unat e) ! 3 = 0xeb"
    unfolding le_bytes_nth arm_first .
  moreover have "((e - drop_bit 2 (ip + 4)) AND mask 24) OR 0xeb000000 = v"
    unfolding e_def by (rule field_codec [OF op])
  moreover have "arm_encode ip w = to_le_bytes 4 (unat e)"
    using True by (simp add: arm_encode_def e_def v_def m)
  ultimately show ?thesis
    by (simp add: arm_word_def m w)
next
  case False
  then show ?thesis by (auto simp: arm_word_def arm_encode_def)
qed

text \<open>
  SPARC: the displacement of 24 bits and a sign, aligned to words, below one of two opcodes.
\<close>

definition sparc_pack :: "u32 \<Rightarrow> u32" where
  "sparc_pack x = drop_bit 2 (((x AND 0x01ffffff) - push_bit 24 1) XOR 0xff000000) OR 0x40000000"

lemma unat_sparc_pack:
  "unat (sparc_pack x) =
     (let y = unat x mod 2 ^ 25
      in if y < 2 ^ 24 then y div 4 + 0x40000000 else (y - 2 ^ 24) div 4 + 0x7fc00000)"
proof -
  have m: "(0x01ffffff :: u32) = mask 25" by (simp add: mask_eq_exp_minus_1)
  define y where "y = x AND mask 25"
  have y: "unat y = unat x mod 2 ^ 25" by (simp only: y_def unat_and_mask)
  then have bound: "unat y < 2 ^ 25" by simp
  have fits: "take_bit n z = z" if "unat z < 2 ^ n" for z :: u32 and n
    using that by (simp only: word_unat_eq_iff unsigned_take_bit_eq take_bit_nat_eq_self)
  show ?thesis
  proof (cases "unat y < 2 ^ 24")
    case True
    have "y - push_bit 24 1 = y + 0xff000000" by simp
    also have "\<dots> = y XOR 0xff000000"
      by (rule unat_or_disjoint(2) [symmetric, OF fits [OF True]]) simp
    finally have "(y - push_bit 24 1) XOR 0xff000000 = y" by (simp add: xor.assoc)
    moreover have "unat (drop_bit 2 y OR 0x40000000) = unat (drop_bit 2 y) + 0x40000000"
    proof -
      have d: "unat (drop_bit 2 y) < 2 ^ 24" using True by (simp add: unat_drop_bit)
      have "drop_bit 2 y OR 0x40000000 = drop_bit 2 y + 0x40000000"
        by (rule unat_or_disjoint(1) [OF fits [OF d]]) simp
      with d show ?thesis by (simp add: unat_word_ariths)
    qed
    ultimately show ?thesis
      using True y by (simp add: sparc_pack_def m y_def [symmetric] Let_def unat_drop_bit)
  next
    case False
    define r where "r = y - push_bit 24 1"
    have r: "unat r = unat y - 2 ^ 24"
      using False by (simp add: r_def unat_sub word_le_nat_alt)
    with bound have rb: "unat r < 2 ^ 24" by simp
    have "r XOR 0xff000000 = r + 0xff000000"
      by (rule unat_or_disjoint(2) [OF fits [OF rb]]) simp
    moreover have "unat (r + 0xff000000) = unat r + 0xff000000"
      using rb by (simp add: unat_word_ariths)
    ultimately have x: "unat (drop_bit 2 (r XOR 0xff000000)) = unat r div 4 + 0x3fc00000"
      by (simp add: unat_drop_bit)
    have d: "unat (drop_bit 2 (r XOR 0xff000000)) < 2 ^ 30"
      using x rb by simp
    have "drop_bit 2 (r XOR 0xff000000) OR 0x40000000 = drop_bit 2 (r XOR 0xff000000) + 0x40000000"
      by (rule unat_or_disjoint(1) [OF fits [OF d]]) simp
    then have "unat (drop_bit 2 (r XOR 0xff000000) OR 0x40000000) = unat r div 4 + 0x7fc00000"
      using x rb by (simp add: unat_word_ariths)
    then show ?thesis
      using False y r unfolding sparc_pack_def m y_def [symmetric] r_def [symmetric] by (simp add: Let_def)
  qed
qed

text \<open>The two opcodes.\<close>

definition sparc_call :: "u32 \<Rightarrow> bool" where
  "sparc_call v \<longleftrightarrow> unat v div 2 ^ 22 \<in> {0x100, 0x1ff}"

lemma sparc_opcode:
  fixes v :: u32
  shows "((ucast (drop_bit 24 v) :: u8) = 0x40 \<and> (ucast (drop_bit 16 v) :: u8) AND 0xc0 = 0) \<or>
      ((ucast (drop_bit 24 v) :: u8) = 0x7f \<and> 0xc0 \<le> (ucast (drop_bit 16 v) :: u8)) \<longleftrightarrow> sparc_call v"
proof -
  have m: "(0xc0 :: u8) = NOT (mask 6)" by (simp add: mask_eq_exp_minus_1)
  define h where "h = unat v div 2 ^ 16"
  have h: "h < 65536" "unat v div 2 ^ 24 = h div 256" "unat v div 2 ^ 22 = h div 64"
    using less_mult_imp_div_less [of "unat v" 65536 65536] by (simp_all add: h_def div_mult2_eq [symmetric])
  have 1: "(ucast (drop_bit 24 v) :: u8) = k \<longleftrightarrow> h div 256 = unat k" for k
    unfolding word_unat_eq_iff unat_ucast_u8 unat_drop_bit h(2) using h(1) by simp
  have 2: "(ucast (drop_bit 16 v) :: u8) AND 0xc0 = 0 \<longleftrightarrow> h mod 256 div 64 = 0"
    unfolding m word_unat_eq_iff unat_and_not_mask unat_ucast_u8 unat_drop_bit h_def by simp
  have 3: "0xc0 \<le> (ucast (drop_bit 16 v) :: u8) \<longleftrightarrow> 192 \<le> h mod 256"
    unfolding word_le_nat_alt unat_ucast_u8 unat_drop_bit h_def by simp
  show ?thesis
  proof -
    define q where "q = h div 64"
    have q: "h div 256 = q div 4" by (simp add: q_def div_mult2_eq [symmetric])
    have r: "h mod 256 = 64 * (q mod 4) + h mod 64"
      using mod_mult2_eq [of h 64 4] by (simp add: q_def)
    have z: "h mod 256 div 64 = 0 \<longleftrightarrow> q mod 4 = 0" and t: "192 \<le> h mod 256 \<longleftrightarrow> 3 \<le> q mod 4"
      unfolding r using mod_less_divisor [of 64 h] by (auto simp del: mod_less_divisor)
    have "(q div 4 = 64 \<and> q mod 4 = 0) \<or> (q div 4 = 127 \<and> 3 \<le> q mod 4) \<longleftrightarrow> q = 256 \<or> q = 511"
      by presburger
    then show ?thesis
      unfolding 1 2 3 sparc_call_def h(3) insert_iff empty_iff q z t q_def [symmetric] by simp
  qed
qed

lemma unat_shift_two: "unat (push_bit 2 (e :: u32)) = 4 * unat e mod 2 ^ 32"
  by (simp add: push_bit_eq_mult unat_word_ariths mult.commute)

lemma shift_field: "4 * n mod 2 ^ 32 mod 2 ^ 25 = 4 * n mod (33554432 :: nat)"
  by (simp add: mod_mod_cancel)

lemma shift_low: "4 * n mod 2 ^ 32 mod 4 = (0 :: nat)"
  by (simp add: mod_mod_cancel)

lemma sparc_pack_call:
  assumes "unat x mod 4 = 0"
  shows "sparc_call (sparc_pack x)" and "push_bit 2 (sparc_pack x) AND mask 25 = x AND mask 25"
proof -
  define y where "y = unat x mod 2 ^ 25"
  have y: "y < 33554432" "y mod 4 = 0"
    using assms by (simp_all add: y_def mod_mod_cancel)
  show "sparc_call (sparc_pack x)"
    unfolding sparc_call_def unat_sparc_pack Let_def y_def [symmetric]
    using y by auto
  have "4 * unat (sparc_pack x) mod 33554432 = y"
  proof (cases "y < 2 ^ 24")
    case True
    then have "4 * unat (sparc_pack x) = y + 128 * 33554432"
      unfolding unat_sparc_pack Let_def y_def [symmetric] using y(2) by auto
    then show ?thesis using y(1) by (simp only: mod_mult_self1 mod_less)
  next
    case False
    then have "4 * unat (sparc_pack x) = y + 255 * 33554432"
      unfolding unat_sparc_pack Let_def y_def [symmetric] using y(2)
      by (auto simp: dvd_imp_mod_0 algebra_simps)
    then show ?thesis using y(1) by (simp only: mod_mult_self1 mod_less)
  qed
  then show "push_bit 2 (sparc_pack x) AND mask 25 = x AND mask 25"
    unfolding word_unat_eq_iff unat_and_mask unat_shift_two shift_field y_def by simp
qed

lemma sparc_call_pack:
  assumes "sparc_call v"
  shows "sparc_pack (push_bit 2 v) = v"
proof -
  define r where "r = unat v mod 2 ^ 22"
  have r: "r < 4194304" by (simp add: r_def)
  have v: "unat v = 4194304 * (unat v div 4194304) + r" by (simp add: r_def)
  from assms consider "unat v = 0x40000000 + r" | "unat v = 0x7fc00000 + r"
    using v by (auto simp: sparc_call_def)
  then have "unat (sparc_pack (push_bit 2 v)) = unat v"
  proof cases
    case 1
    then have "unat (push_bit 2 v) mod 2 ^ 25 = 4 * r"
      using r mod_mult_self1 [of "4 * r" 128 33554432] unfolding unat_shift_two shift_field
      by (simp add: add.commute)
    with 1 r show ?thesis by (simp add: unat_sparc_pack Let_def)
  next
    case 2
    then have "unat (push_bit 2 v) mod 2 ^ 25 = 16777216 + 4 * r"
      using r mod_mult_self1 [of "16777216 + 4 * r" 255 33554432] unfolding unat_shift_two shift_field
      by simp
    with 2 r show ?thesis by (simp add: unat_sparc_pack Let_def)
  qed
  then show ?thesis by (simp only: word_unat_eq_iff)
qed

lemma sparc_inverse:
  assumes "unat ip mod 4 = 0" and "length w = 4"
  shows "sparc_word ip (sparc_encode ip w) = w"
proof -
  define v :: u32 where "v = from_be_bytes w"
  have w: "w = to_be_bytes 4 (unat v)"
    using assms(2) by (simp add: v_def to_be_bytes_from_be_bytes_u32)
  have dec: "sparc_word ip (to_be_bytes 4 (unat u)) =
      (if sparc_call u then to_be_bytes 4 (unat (sparc_pack (push_bit 2 u - ip)))
       else to_be_bytes 4 (unat u))" for u :: u32
    unfolding sparc_word_def be_bytes_nth sparc_opcode from_be_bytes_to_be_bytes_u32 sparc_pack_def ..
  have enc: "sparc_encode ip w =
      (if sparc_call v then to_be_bytes 4 (unat (sparc_pack (push_bit 2 v + ip))) else w)"
    unfolding sparc_encode_def w be_bytes_nth sparc_opcode from_be_bytes_to_be_bytes_u32 sparc_pack_def ..
  show ?thesis
  proof (cases "sparc_call v")
    case True
    define x where "x = push_bit 2 v + ip"
    have "unat x mod 4 = 0"
    proof -
      have "unat x mod 4 = (unat (push_bit 2 v) mod 4 + unat ip) mod 4"
        by (simp add: x_def unat_word_ariths mod_mod_cancel mod_simps)
      then show ?thesis using assms(1) unfolding unat_shift_two shift_low by simp
    qed
    note x = sparc_pack_call [OF this]
    have "(push_bit 2 (sparc_pack x) - ip) AND mask 25 = push_bit 2 v AND mask 25"
    proof -
      have "take_bit 25 (push_bit 2 (sparc_pack x) - ip) = take_bit 25 (x - ip)"
        using x(2) by (metis take_bit_eq_mask take_bit_minus)
      then show ?thesis by (simp add: take_bit_eq_mask x_def)
    qed
    then have "sparc_pack (push_bit 2 (sparc_pack x) - ip) = sparc_pack (push_bit 2 v)"
      by (simp add: sparc_pack_def mask_eq_exp_minus_1)
    with True x(1) enc w show ?thesis
      by (simp add: dec x_def [symmetric] sparc_call_pack)
  next
    case False
    with enc w show ?thesis by (simp add: dec)
  qed
qed

end
