(* ===== verification/Filter_Spec.thy ===== *)
theory Filter_Spec
  imports Filter_Laws
begin

text \<open>
  The remaining filters and what holds of the dispatch: the Delta recurrence, byte swaps, the x86
  filter and the filters on unaligned instructions keep the length of the buffer and fail only for
  their properties or for want of resources, and the filters with an encoder undo it.
\<close>


section \<open>Delta\<close>

text \<open>Every decoded byte is its difference added to the byte \<open>d\<close> places before it.\<close>

definition delta_of :: "nat \<Rightarrow> byte_slice \<Rightarrow> byte_slice \<Rightarrow> bool" where
  "delta_of d xs ys \<longleftrightarrow> length ys = length xs \<and>
     (\<forall>i < length xs. ys ! i = xs ! i + (if d \<le> i then ys ! (i - d) else 0))"

definition delta_encode :: "nat \<Rightarrow> byte_slice \<Rightarrow> byte_slice" where
  "delta_encode d ys = map (\<lambda>i. ys ! i - (if d \<le> i then ys ! (i - d) else 0)) [0..<length ys]"

lemma delta_unique:
  assumes "0 < d" and "delta_of d xs ys" and "delta_of d xs zs"
  shows "ys = zs"
proof (rule nth_equalityI)
  show len: "length ys = length zs" using assms by (simp add: delta_of_def)
  show "i < length ys \<Longrightarrow> ys ! i = zs ! i" for i
  proof (induction i rule: less_induct)
    case (less i)
    then have "ys ! (i - d) = zs ! (i - d)" if "d \<le> i" using that assms(1) by simp
    with less.prems assms(2,3) show ?case by (simp add: delta_of_def)
  qed
qed

lemma delta_of_encode: "delta_of d (delta_encode d ys) ys"
  by (simp add: delta_of_def delta_encode_def)

text \<open>
  The ring: \<open>position\<close> counts down from the start, and the entry \<open>j\<close> above it is the byte decoded
  \<open>j\<close> steps ago.
\<close>

definition ring :: "byte_slice \<Rightarrow> byte_slice \<Rightarrow> u8 \<Rightarrow> bool" where
  "ring decoded history position \<longleftrightarrow> length history = 256 \<and>
     (\<forall>j. 1 \<le> j \<and> j \<le> 256 \<longrightarrow>
       history ! ((unat position + j) mod 256) =
         (if j \<le> length decoded then decoded ! (length decoded - j) else 0))"

lemma ring_push:
  assumes "ring decoded history position"
  shows "ring (decoded @ [b]) (history[unat position := b]) (position - 1)"
proof -
  let ?q = "unat (position - 1)"
  have q: "?q = (unat position + 255) mod 256"
  proof -
    have p: "position - 1 = position + 255" by simp
    show ?thesis unfolding p by (simp add: unat_word_ariths)
  qed
  have len: "length history = 256" using assms by (simp add: ring_def)
  have "history[unat position := b] ! ((?q + j) mod 256) =
      (if j \<le> Suc (length decoded) then (decoded @ [b]) ! (Suc (length decoded) - j) else 0)"
    if j: "1 \<le> j" "j \<le> 256" for j
  proof (cases "j = 1")
    case True
    then have "(?q + j) mod 256 = unat position"
      unfolding q by (simp add: mod_simps)
    with True len show ?thesis by (simp add: nth_append)
  next
    case False
    define i where "i = j - 1"
    have i: "1 \<le> i" "i < 256" "j = Suc i" using False j by (auto simp: i_def)
    have idx: "(?q + j) mod 256 = (unat position + i) mod 256"
    proof -
      have "((unat position + 255) mod 256 + Suc i) mod 256 = (unat position + 255 + Suc i) mod 256"
        by (rule mod_add_left_eq)
      also have "unat position + 255 + Suc i = unat position + i + 256" by simp
      finally show ?thesis unfolding q i(3) by simp
    qed
    have "(unat position + i) mod 256 \<noteq> unat position"
    proof
      assume same: "(unat position + i) mod 256 = unat position"
      show False
      proof (cases "unat position + i < 256")
        case True
        with same i(1) show False by simp
      next
        case False
        then have "(unat position + i) mod 256 = unat position + i - 256"
          using i(2) unat_less_8 [of position] by (simp add: le_mod_geq mod_less del: unat_less_8)
        with same i(2) False show False by linarith
      qed
    qed
    then have "history[unat position := b] ! ((?q + j) mod 256) = history ! ((unat position + i) mod 256)"
      unfolding idx by simp
    also have "\<dots> = (if i \<le> length decoded then decoded ! (length decoded - i) else 0)"
      using assms i by (simp add: ring_def)
    also have "\<dots> = (if j \<le> Suc (length decoded) then (decoded @ [b]) ! (Suc (length decoded) - j) else 0)"
      using i by (auto simp: nth_append)
    finally show ?thesis .
  qed
  with len show ?thesis by (simp add: ring_def)
qed

lemma and_255: "(n :: nat) AND 255 = n mod 256"
proof -
  have m: "(255 :: nat) = mask 8" by (simp add: mask_eq_exp_minus_1)
  show ?thesis unfolding m take_bit_eq_mask [symmetric] by (simp add: take_bit_eq_mod)
qed

definition delta_invariant ::
    "nat \<Rightarrow> session \<Rightarrow> byte_slice \<Rightarrow> byte_slice \<times> byte_slice \<times> u8 \<Rightarrow> session \<Rightarrow> bool" where
  "delta_invariant d s past acc t \<longleftrightarrow> (case acc of (decoded, history, position) \<Rightarrow>
     still s t \<and> delta_of d past decoded \<and> ring decoded history position)"

lemma delta_of_snoc:
  "delta_of d past decoded \<Longrightarrow> 1 \<le> d \<Longrightarrow>
     delta_of d (past @ [x]) (decoded @ [x + (if d \<le> length decoded then decoded ! (length decoded - d) else 0)])"
  by (auto simp: delta_of_def nth_append less_Suc_eq)

lemma delta_step_outcome:
  assumes "delta_invariant d s past acc t" and d: "1 \<le> d" "d \<le> 256"
    and "511 \<le> usize_max (machine s)" and res: "\<And>e. resource_error e \<Longrightarrow> E e"
  shows "outcome E (delta_step d acc x) t (delta_invariant d s (past @ [x]))"
proof -
  obtain decoded history position where acc: "acc = (decoded, history, position)" by (cases acc)
  let ?prev = "if d \<le> length decoded then decoded ! (length decoded - d) else 0"
  have inv: "still s t" "delta_of d past decoded" and r: "ring decoded history position"
    using assms(1) by (auto simp: acc delta_invariant_def)
  have len: "length history = 256" and prev: "history ! ((d + unat position) mod 256) = ?prev"
    using r d by (auto simp: ring_def add.commute)
  show ?thesis
    unfolding delta_step_def acc prod.case
  proof (rule outcome_and_then, rule outcome_checkpoint [OF res])
    fix u assume "still t u"
    with inv(1) have u: "still s u" by (rule still_trans)
    have "d + unat position \<le> usize_max (machine u)"
      using assms(4) d u unat_less_8 [of position] unfolding still_def by linarith
    moreover have "delta_invariant d s (past @ [x])
        (decoded @ [x + ?prev], history[unat position := x + ?prev], position - 1) u"
      using u delta_of_snoc [OF inv(2) d(1)] ring_push [OF r] by (simp add: delta_invariant_def)
    ultimately show "outcome E (and_then (usize_add d (unat position) ''Delta history index overflows'') (\<lambda>index.
        and_then (byte_at history (index AND 255) ''Delta history index is out of range'') (\<lambda>previous.
        and_then (byte_at history (unat position AND 255) ''Delta history destination is out of range'') (\<lambda>_.
        ok (decoded @ [x + previous], history[unat position AND 255 := x + previous], position - 1)))))
        u (delta_invariant d s (past @ [x]))"
      using len prev by (simp add: outcome_def usize_add_def byte_at_def item_get_def run and_255)
  qed
qed

lemma decode_delta_outcome:
  assumes "511 \<le> usize_max (machine s)" and "\<And>e. resource_error e \<Longrightarrow> E e"
    and "length properties \<noteq> 1 \<Longrightarrow> E (format_error ''Delta properties must contain exactly one byte'')"
    and "\<And>p out t. properties = [p] \<Longrightarrow> delta_of (Suc (unat p)) bytes out \<Longrightarrow> still s t \<Longrightarrow> Q out t"
  shows "outcome E (decode_delta bytes properties) s Q"
proof (cases "\<exists>p. properties = [p]")
  case True
  then obtain p where p: "properties = [p]" ..
  have d: "1 \<le> Suc (unat p)" "Suc (unat p) \<le> 256" using unat_less_8 [of p] by (simp_all del: unat_less_8)
  have loop: "outcome E (for_fold bytes ([], replicate 256 0, 0) (delta_step (Suc (unat p)))) s
      (\<lambda>acc t. outcome E (ok (fst acc)) t Q)"
  proof (rule outcome_for_fold [where I = "delta_invariant (Suc (unat p)) s"])
    show "delta_invariant (Suc (unat p)) s [] ([], replicate 256 0, 0) s"
      by (auto simp: delta_invariant_def delta_of_def ring_def)
    show "outcome E (ok (fst acc)) t Q" if "delta_invariant (Suc (unat p)) s bytes acc t" for acc t
      using that assms(4) [OF p] by (auto simp: delta_invariant_def outcome_def run)
  qed (rule delta_step_outcome [OF _ d assms(1,2)])
  have "usize_add (unat p) 1 d s = (Inr (Suc (unat p)), s)" for d
    using d assms(1) by (simp add: usize_add_def run)
  then show ?thesis
    using outcome_and_then [OF loop]
    by (simp add: decode_delta_def p byte_at_def item_get_def outcome_def run)
next
  case False
  then have "length properties \<noteq> 1" by (auto simp: length_Suc_conv)
  with assms(3) show ?thesis
    by (auto simp: decode_delta_def byte_at_def item_get_def outcome_def run)
qed

section \<open>Byte swaps\<close>

text \<open>Every complete group reversed, the rest kept.\<close>

function swap_groups :: "nat \<Rightarrow> byte_slice \<Rightarrow> byte_slice" where
  "swap_groups w bs =
     (if w = 0 \<or> length bs < w then bs else rev (take w bs) @ swap_groups w (drop w bs))"
  by pat_completeness auto
termination by (relation "measure (\<lambda>(w, bs). length bs)") auto

declare swap_groups.simps [simp del]

lemma swap_groups_involution: "swap_groups w (swap_groups w bs) = bs"
proof (induction w bs rule: swap_groups.induct)
  case (1 w bs)
  show ?case
  proof (cases "w = 0 \<or> length bs < w")
    case True
    then show ?thesis by (simp add: swap_groups.simps)
  next
    case False
    then have "swap_groups w (rev (take w bs) @ swap_groups w (drop w bs))
        = take w bs @ swap_groups w (swap_groups w (drop w bs))"
      by (simp add: swap_groups.simps [of w "rev (take w bs) @ swap_groups w (drop w bs)"])
    with False 1 show ?thesis by (simp add: swap_groups.simps [of w bs])
  qed
qed

lemma length_swap_groups [simp]: "length (swap_groups w bs) = length bs"
proof (induction w bs rule: swap_groups.induct)
  case (1 w bs)
  then show ?case by (subst swap_groups.simps) auto
qed

lemma swap_groups_chunks:
  "0 < w \<Longrightarrow> concat (map rev (chunks w (take (w * (length bs div w)) bs))) @ drop (w * (length bs div w)) bs
     = swap_groups w bs"
proof (induction w bs rule: swap_groups.induct)
  case (1 w bs)
  show ?case
  proof (cases "length bs < w")
    case True
    then show ?thesis by (simp add: swap_groups.simps)
  next
    case False
    define n where "n = length (drop w bs) div w"
    have n: "length bs div w = Suc n"
      using False 1(2) by (simp add: n_def le_div_geq)
    have nw: "w * n \<le> length bs - w" by (simp add: n_def)
    have "chunks w (take (w * Suc n) bs) = take w bs # chunks w (take (w * n) (drop w bs))"
      using False 1(2) nw by (subst chunks.simps) (auto simp: drop_take min_def)
    moreover have "drop (w * Suc n) bs = drop (w * n) (drop w bs)"
      by (simp add: add.commute)
    ultimately show ?thesis
      using False 1 unfolding n by (simp add: swap_groups.simps [of w bs] n_def)
  qed
qed

lemma decode_swap_outcome:
  assumes "width = 2 \<or> width = 4" and "\<And>e. resource_error e \<Longrightarrow> E e"
    and "properties \<noteq> [] \<Longrightarrow> E (format_error ''Swap filter properties must be empty'')"
    and "\<And>t. properties = [] \<Longrightarrow> still s t \<Longrightarrow> Q (swap_groups width bytes) t"
  shows "outcome E (decode_swap bytes properties width) s Q"
proof -
  let ?c = "width * (length bytes div width)"
  let ?body = "\<lambda>swapped chunk. and_then (usize_to_u64 width ''Swap filter width is not representable'')
    (\<lambda>units. and_then (checkpoint units) (\<lambda>_. ok (swapped @ rev chunk)))"
  have loop: "outcome E (for_fold (chunks width (take ?c bytes)) [] ?body) s
      (\<lambda>acc t. outcome E (ok (acc @ drop ?c bytes)) t Q)" if "properties = []"
  proof (rule outcome_for_fold [where I = "\<lambda>past acc t. still s t \<and> acc = concat (map rev past)"])
    fix past b rest acc t
    assume "still s t \<and> acc = concat (map rev past)"
    then show "outcome E (?body acc b) t (\<lambda>acc t. still s t \<and> acc = concat (map rev (past @ [b])))"
      using assms(1) by (auto intro!: outcome_and_then outcome_usize_to_u64 outcome_checkpoint
          outcome_ok assms(2) dest: still_trans)
  next
    fix acc t
    assume "still s t \<and> acc = concat (map rev (chunks width (take ?c bytes)))"
    then show "outcome E (ok (acc @ drop ?c bytes)) t Q"
      using assms(1,4) that swap_groups_chunks [of width bytes] by (auto intro!: outcome_ok)
  qed simp
  show ?thesis
    unfolding decode_swap_def Let_def
    using assms(1,3) loop by (intro outcome_rules) auto
qed


section \<open>The x86 filter\<close>

lemma nth_overwrite:
  "k + length ys \<le> length xs \<Longrightarrow> i < length xs \<Longrightarrow>
     overwrite xs k ys ! i = (if k \<le> i \<and> i < k + length ys then ys ! (i - k) else xs ! i)"
  by (auto simp: overwrite_def nth_append)

text \<open>What the scan finds, when it does not fail for want of resources.\<close>

lemma x86_scan_outcome:
  assumes "scan_end \<le> length bytes" and "Suc (length bytes) \<le> usize_max (machine s)"
    and "\<And>e. resource_error e \<Longrightarrow> E e"
  shows "outcome E (x86_scan bytes scan_end (start, False)) s
    (\<lambda>a t. still s t \<and> start \<le> fst a \<and> fst a \<le> max start scan_end \<and>
       (fst a < scan_end \<longrightarrow> is_x86_opcode (bytes ! fst a)))"
proof (rule outcome_weaken [where Q = "\<lambda>a t. still s t \<and> fst a \<le> max start scan_end"])
  show "outcome E (x86_scan bytes scan_end (start, False)) s
      (\<lambda>a t. still s t \<and> fst a \<le> max start scan_end)"
  proof (rule x86_scanner.loop_outcome [where I = "\<lambda>a t. still s t \<and> fst a \<le> max start scan_end"])
    fix a t assume inv: "still s t \<and> fst a \<le> max start scan_end" and "x86_scanning scan_end a"
    then have lt: "fst a < scan_end" by (simp add: x86_scanning_def)
    show "outcome E (x86_scan_step bytes a) t (\<lambda>a t. still s t \<and> fst a \<le> max start scan_end)"
      unfolding x86_scan_step_def
    proof (rule outcome_and_then, rule outcome_checkpoint [OF assms(3)])
      fix u assume "still t u"
      with inv have u: "still s u" by (blast intro: still_trans)
      then have "Suc (length bytes) \<le> usize_max (machine u)" using assms(2) by (simp add: still_def)
      then show "outcome E (and_then (byte_at bytes (fst a) ''BCJ opcode index is out of range'') (\<lambda>byte.
          if is_x86_opcode byte then ok (fst a, True)
          else and_then (usize_add (fst a) 1 ''BCJ position overflows'') (\<lambda>position. ok (position, False)))) u
          (\<lambda>a t. still s t \<and> fst a \<le> max start scan_end)"
        using lt assms(1) u inv
        by (intro outcome_and_then outcome_byte_at outcome_if outcome_usize_add outcome_ok) auto
    qed
  qed auto
next
  fix a t assume run: "x86_scan bytes scan_end (start, False) s = (Inr a, t)"
    and q: "still s t \<and> fst a \<le> max start scan_end"
  from x86_scan_found [of bytes scan_end start s "fst a" "snd a" t] run
  have "start \<le> fst a" "snd a \<longrightarrow> is_x86_opcode (bytes ! fst a)" "snd a \<or> scan_end \<le> fst a" by auto
  with q show "still s t \<and> start \<le> fst a \<and> fst a \<le> max start scan_end \<and>
      (fst a < scan_end \<longrightarrow> is_x86_opcode (bytes ! fst a))" by auto
qed

lemma three_bits: "unat (m :: u32) < 8 \<Longrightarrow> m \<in> {0, 1, 2, 3, 4, 5, 6, 7}"
proof -
  assume "unat m < 8"
  then have "unat m \<in> {0, 1, 2, 3, 4, 5, 6, 7}" by auto
  then show ?thesis by (auto simp: word_unat_eq_iff)
qed

lemma mask_shift:
  assumes "unat (m :: u32) < 8"
  shows "unat (drop_bit n m) < 8" and "unat (drop_bit 1 m OR 4) < 8" and "unat (drop_bit 1 m) \<le> 3"
proof -
  show "unat (drop_bit n m) < 8"
    unfolding unat_drop_bit using div_le_dividend assms by (rule le_less_trans)
  show "unat (drop_bit 1 m OR 4) < 8" "unat (drop_bit 1 m) \<le> 3"
    using three_bits [OF assms] by auto
qed

lemma x86_probe_outcome:
  assumes "unat m < 8" and "position + 4 < length bytes" and "length bytes \<le> usize_max (machine s)"
  shows "outcome E (x86_probe bytes position distance m) s (\<lambda>r t. t = s \<and> unat (fst r) < 8)"
proof (cases "2 < distance")
  case True
  then show ?thesis by (simp add: x86_probe_def outcome_def run)
next
  case False
  define k where "k = drop_bit distance m"
  note k = mask_shift [OF mask_shift(1) [OF assms(1), of distance], folded k_def]
  have l: "unat (ucast (drop_bit 1 k) :: u64) = unat (drop_bit 1 k)"
    using k(3) by (simp add: unsigned_ucast_eq take_bit_nat_eq_self)
  have i: "position + unat (drop_bit 1 k) + 1 < length bytes" using k(3) assms(2) by simp
  have d: "unat (of_nat distance :: u32) = distance" using False by (simp add: unat_of_nat)
  have "x86_probe bytes position distance m s =
      (if k \<noteq> 0 \<and> (4 < k \<or> k = 3 \<or> test_x86_msb (bytes ! (position + unat (drop_bit 1 k) + 1)))
       then (Inr (drop_bit 1 k OR 4, True), s) else (Inr (k, False), s))"
    using False i k(3) assms(3)
    by (simp add: x86_probe_def Let_def run usize_to_u32_def u64_to_usize_def usize_add_def
        byte_at_def item_get_def d k_def [symmetric] l [simplified] del: drop_bit_drop_bit)
  with k mask_shift(1) [OF assms(1), of distance] show ?thesis
    by (auto simp: outcome_def k_def [symmetric])
qed

lemma and_255_bound: "unat (v AND 0xff :: u32) < 256"
proof -
  have m: "(0xff :: u32) = mask 8" by (simp add: mask_eq_exp_minus_1)
  show ?thesis unfolding m unat_and_mask by simp
qed

lemma x86_operand_value: "\<exists>v'. x86_operand current m v s = (Inr v', s)"
  by (simp add: x86_operand_def Let_def narrow_def and_255_bound run)

text \<open>The bytes a conversion may have changed: the four operand bytes.\<close>

lemma x86_convert_outcome:
  assumes "unat m < 8" and "position + 4 < length bytes"
    and "length bytes + 8 \<le> usize_max (machine s)"
    and "2 ^ 32 \<le> length bytes \<Longrightarrow> E (format_error ''BCJ position exceeds the 32-bit address domain'')"
  shows "outcome E (x86_convert ip bytes position m) s (\<lambda>(b, p, m') t.
    t = s \<and> length b = length bytes \<and> position < p \<and> p \<le> position + 5 \<and> unat m' < 8 \<and>
    (\<forall>i < length bytes. b ! i \<noteq> bytes ! i \<longrightarrow> position < i \<and> i \<le> position + 4 \<and> i < p))"
proof (cases "test_x86_msb (bytes ! (position + 4))")
  case False
  then show ?thesis
    using assms(2,3) mask_shift(2) [OF assms(1)]
    by (simp add: x86_convert_def outcome_def usize_add_def byte_at_def item_get_def run)
next
  case True
  let ?v = "from_le_bytes (take 4 (drop (position + 1) bytes)) :: u32"
  show ?thesis
  proof (cases "position < 2 ^ 32")
    case False
    with assms(2) have "2 ^ 32 \<le> length bytes" by simp
    with assms True False show ?thesis
      by (simp add: x86_convert_def outcome_def usize_add_def byte_at_def item_get_def run
          usize_to_u32_def filter_read_u32_le_def bytes_at_def slice_get_def array_of_def)
  next
    case small: True
    define current where "current = ip + 5 + of_nat position"
    obtain v' where v': "x86_operand current m ?v s = (Inr v', s)"
      using x86_operand_value by blast
    define b where "b = overwrite bytes (position + 1) (to_le_bytes 4 (unat v'))"
    have lb: "length b = length bytes" using assms(2) by (simp add: b_def)
    have "x86_convert ip bytes position m s =
        (Inr (b[position + 4 := 0 - (b ! (position + 4) AND 1)], position + 5, 0), s)"
      using assms(2,3) True small lb v'
      by (simp add: x86_convert_def run usize_add_def byte_at_def item_get_def Let_def
          usize_to_u32_def filter_read_u32_le_def write_word_def bytes_at_def slice_get_def array_of_def
          current_def [symmetric] b_def [symmetric] del: One_nat_def)
    moreover have "position < i \<and> i \<le> position + 4"
      if "i < length bytes" "b[position + 4 := 0 - (b ! (position + 4) AND 1)] ! i \<noteq> bytes ! i" for i
      using that assms(2) lb
      by (cases "i = position + 4") (auto simp: b_def nth_overwrite split: if_splits)
    ultimately show ?thesis
      using lb by (fastforce simp: outcome_def)
  qed
qed

text \<open>
  What the outer loop keeps: what is ahead of the position is untouched, and every byte that was
  changed is one of the four behind an opcode of the original buffer.
\<close>

definition x86_invariant :: "session \<Rightarrow> byte_slice \<Rightarrow> x86_state \<Rightarrow> session \<Rightarrow> bool" where
  "x86_invariant s orig st t \<longleftrightarrow> still s t \<and> length (x86_bytes st) = length orig \<and>
     unat (x86_mask st) < 8 \<and> x86_position st \<le> length orig \<and>
     (\<forall>i < length orig. x86_bytes st ! i \<noteq> orig ! i \<longrightarrow> i < x86_position st \<and>
       (\<exists>j < i. i \<le> j + 4 \<and> is_x86_opcode (orig ! j)))"

lemma x86_finish_outcome:
  assumes inv: "x86_invariant s orig st t" and "x86_position st \<le> p" "p \<le> length orig"
    and big: "2 ^ 32 \<le> length orig \<Longrightarrow> E (format_error ''BCJ position exceeds the 32-bit address domain'')"
  shows "outcome E (x86_finish p d st) t (x86_invariant s orig)"
proof -
  have "x86_invariant s orig (st\<lparr>x86_position := p, x86_mask := k, x86_done := True\<rparr>) t"
    if "unat k < 8" for k
    using that assms(1,2,3) by (fastforce simp: x86_invariant_def)
  moreover have "unat (x86_mask st) < 8" using inv by (simp add: x86_invariant_def)
  ultimately show ?thesis
    unfolding x86_finish_def using mask_shift(1) big assms(3)
    by (intro outcome_and_then outcome_if outcome_usize_to_u32 outcome_ok) auto
qed

lemma x86_branch_outcome:
  assumes inv: "x86_invariant s orig st t" and p: "x86_position st \<le> p" "p + 4 < length orig"
    and op: "is_x86_opcode (x86_bytes st ! p)"
    and room: "length orig + 8 \<le> usize_max (machine s)"
    and big: "2 ^ 32 \<le> length orig \<Longrightarrow> E (format_error ''BCJ position exceeds the 32-bit address domain'')"
  shows "outcome E (x86_branch ip p d st) t (x86_invariant s orig)"
proof -
  let ?b = "x86_bytes st"
  have lb: "length ?b = length orig" and m: "unat (x86_mask st) < 8" and st: "still s t"
    and max: "length orig + 8 \<le> usize_max (machine t)"
    using inv room by (auto simp: x86_invariant_def still_def)
  have "?b ! p = orig ! p"
    using inv p unfolding x86_invariant_def by (metis add_lessD1 not_le)
  with op have op: "is_x86_opcode (orig ! p)" by simp
  have skip: "x86_invariant s orig (st\<lparr>x86_position := p + 1, x86_mask := k\<rparr>) t" if "unat k < 8" for k
    using that inv p by (fastforce simp: x86_invariant_def)
  have conv: "x86_invariant s orig (st\<lparr>x86_bytes := b, x86_position := q, x86_mask := k\<rparr>) t"
    if b: "length b = length ?b" "p < q" "q \<le> p + 5" "unat k < 8"
      "\<forall>i < length ?b. b ! i \<noteq> ?b ! i \<longrightarrow> p < i \<and> i \<le> p + 4 \<and> i < q" for b q k
  proof -
    have "i < q \<and> (\<exists>j < i. i \<le> j + 4 \<and> is_x86_opcode (orig ! j))"
      if i: "i < length orig" "b ! i \<noteq> orig ! i" for i
    proof (cases "b ! i = ?b ! i")
      case True
      with i inv have "i < x86_position st \<and> (\<exists>j < i. i \<le> j + 4 \<and> is_x86_opcode (orig ! j))"
        by (auto simp: x86_invariant_def)
      with p b(2) show ?thesis by auto
    next
      case False
      with i b(5) lb op show ?thesis by auto
    qed
    with b p lb st show ?thesis by (simp add: x86_invariant_def)
  qed
  have c: "outcome E (x86_convert ip ?b p k) t (\<lambda>(b, q, m') u.
      u = t \<and> length b = length ?b \<and> p < q \<and> q \<le> p + 5 \<and> unat m' < 8 \<and>
      (\<forall>i < length ?b. b ! i \<noteq> ?b ! i \<longrightarrow> p < i \<and> i \<le> p + 4 \<and> i < q))" if "unat k < 8" for k
    by (rule x86_convert_outcome) (use that p max lb big in auto)
  have c': "outcome E (x86_convert ip ?b p k) t (\<lambda>x u. outcome E (case x of (bytes, position, msk) \<Rightarrow>
      ok (st\<lparr>x86_bytes := bytes, x86_position := position, x86_mask := msk\<rparr>)) u (x86_invariant s orig))"
    if "unat k < 8" for k
    by (rule outcome_weaken [OF c [OF that]]) (auto intro!: outcome_ok conv)
  have probe: "outcome E (x86_probe ?b p d (x86_mask st)) t (\<lambda>r u. u = t \<and> unat (fst r) < 8)"
    by (rule x86_probe_outcome [OF m]) (use p max lb in auto)
  show ?thesis
    unfolding x86_branch_def
  proof (rule outcome_and_then, rule outcome_weaken [OF probe])
    fix r :: "u32 \<times> bool" and u assume r: "u = t \<and> unat (fst r) < 8"
    show "outcome E (case r of (msk, skipped) \<Rightarrow>
        if skipped then and_then (usize_add p 1 ''BCJ position overflows'') (\<lambda>position.
          ok (st\<lparr>x86_position := position, x86_mask := msk\<rparr>))
        else and_then (x86_convert ip ?b p msk) (\<lambda>(bytes, position, msk).
          ok (st\<lparr>x86_bytes := bytes, x86_position := position, x86_mask := msk\<rparr>))) u (x86_invariant s orig)"
      using r p max
      by (intro outcome_pair outcome_if outcome_and_then outcome_usize_add outcome_ok)
        (auto intro: skip [simplified] c')
  qed
qed

lemma x86_step_outcome:
  assumes inv: "x86_invariant s orig st t" and len: "4 < length orig"
    and room: "length orig + 8 \<le> usize_max (machine s)"
    and big: "2 ^ 32 \<le> length orig \<Longrightarrow> E (format_error ''BCJ position exceeds the 32-bit address domain'')"
    and res: "\<And>e. resource_error e \<Longrightarrow> E e"
  shows "outcome E (x86_step ip (length orig - 4) st) t (x86_invariant s orig)"
proof -
  let ?b = "x86_bytes st" and ?e = "length orig - 4"
  have lb: "length ?b = length orig" and pos: "x86_position st \<le> length orig" and st: "still s t"
    using inv by (auto simp: x86_invariant_def)
  have scan: "outcome E (x86_scan ?b ?e (x86_position st, False)) t (\<lambda>a u. still t u \<and>
      x86_position st \<le> fst a \<and> fst a \<le> max (x86_position st) ?e \<and>
      (fst a < ?e \<longrightarrow> is_x86_opcode (?b ! fst a)))"
    by (rule x86_scan_outcome) (use lb st room res in \<open>auto simp: still_def\<close>)
  show ?thesis
    unfolding x86_step_def Let_def
  proof (rule outcome_and_then, rule outcome_weaken [OF scan])
    fix a u
    assume found: "still t u \<and> x86_position st \<le> fst a \<and> fst a \<le> max (x86_position st) ?e \<and>
      (fst a < ?e \<longrightarrow> is_x86_opcode (?b ! fst a))"
    have "x86_invariant s orig st u"
      using inv found by (auto simp: x86_invariant_def dest: still_trans)
    with found pos len show "outcome E (and_then (usize_sub (fst a) (x86_position st)
        ''BCJ scan distance underflows'') (\<lambda>distance. if ?e \<le> fst a then x86_finish (fst a) distance st
          else x86_branch ip (fst a) distance st)) u (x86_invariant s orig)"
      by (intro outcome_and_then outcome_usize_sub outcome_if)
        (auto intro!: x86_finish_outcome x86_branch_outcome room big)
  qed
qed

lemma decode_x86_bcj_outcome:
  assumes room: "length bytes + 8 \<le> usize_max (machine s)"
    and res: "\<And>e. resource_error e \<Longrightarrow> E e"
    and props: "length properties \<noteq> 0 \<Longrightarrow> length properties \<noteq> 4 \<Longrightarrow>
      E (format_error ''branch filter properties must be empty or four bytes'')"
    and big: "2 ^ 32 \<le> length bytes \<Longrightarrow> E (format_error ''BCJ position exceeds the 32-bit address domain'')"
    and Q: "\<And>out t. length out = length bytes \<Longrightarrow> still s t \<Longrightarrow>
      (\<And>i. i < length bytes \<Longrightarrow> out ! i \<noteq> bytes ! i \<Longrightarrow> \<exists>j < i. i \<le> j + 4 \<and> is_x86_opcode (bytes ! j)) \<Longrightarrow> Q out t"
  shows "outcome E (decode_x86_bcj bytes properties) s Q"
proof -
  have start: "outcome E (starting_position properties) s (\<lambda>_ t. t = s)"
    using props by (cases properties) (auto simp: starting_position_def array_of_def outcome_def run)
  show ?thesis
    unfolding decode_x86_bcj_def
  proof (rule outcome_and_then, rule outcome_usize_add)
    show "outcome E (if length bytes < 4 + 1 then ok bytes
      else and_then (usize_sub (length bytes) 4 ''BCJ scan bound underflows'') (\<lambda>scan_end.
        and_then (starting_position properties) (\<lambda>ip.
        and_then (x86_loop ip scan_end
           \<lparr>x86_bytes = bytes, x86_position = 0, x86_mask = 0, x86_done = False\<rparr>) (\<lambda>st.
        ok (x86_bytes st))))) s Q"
    proof (rule outcome_if)
      assume "\<not> length bytes < 4 + 1"
      then have len: "4 < length bytes" by simp
      show "outcome E (and_then (usize_sub (length bytes) 4 ''BCJ scan bound underflows'') (\<lambda>scan_end.
        and_then (starting_position properties) (\<lambda>ip.
        and_then (x86_loop ip scan_end
           \<lparr>x86_bytes = bytes, x86_position = 0, x86_mask = 0, x86_done = False\<rparr>) (\<lambda>st.
        ok (x86_bytes st))))) s Q"
      proof (rule outcome_and_then, rule outcome_usize_sub, use len in simp,
          rule outcome_and_then, rule outcome_weaken [OF start], rule outcome_and_then)
        fix ip t assume t: "t = s"
        have step: "outcome E (x86_step ip (length bytes - 4) st) u (x86_invariant s bytes)"
          if "x86_invariant s bytes st u" for st u
          by (rule x86_step_outcome [OF that len room], rule big, assumption, rule res)
        show "outcome E (x86_loop ip (length bytes - 4)
            \<lparr>x86_bytes = bytes, x86_position = 0, x86_mask = 0, x86_done = False\<rparr>) t
            (\<lambda>st u. outcome E (ok (x86_bytes st)) u Q)"
        proof (rule x86.loop_outcome [where I = "x86_invariant s bytes"])
          fix st u assume "x86_invariant s bytes st u"
          then show "outcome E (ok (x86_bytes st)) u Q"
            by (auto simp: x86_invariant_def intro!: outcome_ok Q)
        qed (auto simp: t x86_invariant_def [of s bytes] intro: step)
      qed
    qed (auto intro!: outcome_ok Q)
  qed (use room in auto)
qed

section \<open>The filters on unaligned instructions\<close>

lemma narrow_u8: "w AND 0xff = (w :: u32) \<Longrightarrow> (narrow w :: u8 option) = Some (ucast w)"
  using and_255_bound [of w] by (simp add: narrow_def)

lemma narrow_u32: "w AND 0xffffffff = (w :: u64) \<Longrightarrow> (narrow w :: u32 option) = Some (ucast w)"
proof -
  assume w: "w AND 0xffffffff = w"
  have m: "(0xffffffff :: u64) = mask 32" by (simp add: mask_eq_exp_minus_1)
  have "unat (w AND mask 32) < 2 ^ 32" unfolding unat_and_mask by simp
  then have "unat w < 2 ^ 32" using w unfolding m by simp
  then show ?thesis by (simp add: narrow_def)
qed

lemma narrow_u8_u64: "(narrow (w AND 0xff :: u64) :: u8 option) = Some (ucast (w AND 0xff))"
proof -
  have m: "(0xff :: u64) = mask 8" by (simp add: mask_eq_exp_minus_1)
  have "unat (w AND mask 8) < 2 ^ 8" unfolding unat_and_mask by simp
  then show ?thesis unfolding m by (simp add: narrow_def)
qed

lemma low_word: "(ucast (- 1 :: u32) :: u64) = 0xffffffff"
  by (simp add: word_unat_eq_iff unsigned_ucast_eq unsigned_minus_1_eq_mask mask_eq_exp_minus_1
      take_bit_nat_eq_self)

lemma outcome_low_u32_offset:
  "offset < 2 ^ 64 \<Longrightarrow> (\<And>v. Q v s) \<Longrightarrow> outcome E (low_u32_offset offset) s Q"
  unfolding low_u32_offset_def
  by (intro outcome_rules outcome_usize_to_u64) (auto simp: low_word narrow_u32 and.assoc)

lemma outcome_compat_read:
  assumes "offset + 4 \<le> length bytes" and "length bytes \<le> usize_max (machine s)" and "\<And>v. Q v s"
  shows "outcome E (compat_read_u32_le bytes offset) s Q"
    and "outcome E (compat_read_u32_be bytes offset) s Q"
  using assms
  by (simp_all add: compat_read_u32_le_def compat_read_u32_be_def usize_add_def bytes_at_def
      array_of_def slice_get_def outcome_def run)

lemma outcome_write_u32_le:
  assumes "offset + 4 \<le> length bytes" and "length bytes \<le> usize_max (machine s)"
    and "\<And>b. length b = length bytes \<Longrightarrow> Q b s"
  shows "outcome E (write_u32_le bytes offset v) s Q"
  using assms by (simp add: write_u32_le_def usize_add_def bytes_at_def slice_get_def outcome_def run)

text \<open>A buffer of the length of the original one, in a session with room for offsets into it.\<close>

definition fits :: "session \<Rightarrow> byte_slice \<Rightarrow> byte_slice \<Rightarrow> session \<Rightarrow> bool" where
  "fits s orig b t \<longleftrightarrow> still s t \<and> length b = length orig"

definition roomy :: "session \<Rightarrow> byte_slice \<Rightarrow> bool" where
  "roomy s orig \<longleftrightarrow> length orig + 8 \<le> usize_max (machine s) \<and> usize_max (machine s) < 2 ^ 64"

lemma fits_room:
  "fits s orig b t \<Longrightarrow> roomy s orig \<Longrightarrow>
     length b + 8 \<le> usize_max (machine t) \<and> usize_max (machine t) < 2 ^ 64"
  by (simp add: fits_def roomy_def still_def)

lemma fits_later: "fits s orig b t \<Longrightarrow> still t u \<Longrightarrow> length b' = length b \<Longrightarrow> fits s orig b' u"
  by (auto simp: fits_def dest: still_trans)

lemma arm_thumb_convert_outcome:
  assumes "fits s orig b t" and "roomy s orig" and "offset + 4 \<le> length b"
  shows "outcome E (arm_thumb_convert start second fourth b offset) t (\<lambda>b' u. u = t \<and> length b' = length b)"
  unfolding arm_thumb_convert_def Let_def
  using fits_room [OF assms(1,2)] assms(3)
  by (intro outcome_rules byte_outcomes control_outcomes outcome_low_u32_offset)
    (auto simp: narrow_u8 and.assoc)

lemma arm_thumb_step_outcome:
  assumes "fits s orig b t" and "roomy s orig" and "offset + 4 \<le> length b"
    and res: "\<And>e. resource_error e \<Longrightarrow> E e"
  shows "outcome E (arm_thumb_step start (b, offset)) t (\<lambda>a u. fits s orig (fst a) u)"
  unfolding arm_thumb_step_def prod.case
proof (rule outcome_and_then, rule outcome_checkpoint [OF res])
  fix u assume "still t u"
  then have fu: "fits s orig b u" using fits_later [OF assms(1)] by simp
  note c = arm_thumb_convert_outcome [OF fu assms(2,3)]
  show "outcome E (and_then (usize_add offset 1 ''ARM Thumb index overflows'') (\<lambda>index.
     and_then (byte_at b index ''ARM Thumb instruction is truncated'') (\<lambda>second.
     and_then (usize_add offset 3 ''ARM Thumb index overflows'') (\<lambda>index.
     and_then (byte_at b index ''ARM Thumb instruction is truncated'') (\<lambda>fourth.
     and_then (if second AND 0xf8 = 0xf0 \<and> fourth AND 0xf8 = 0xf8
               then and_then (arm_thumb_convert start second fourth b offset) (\<lambda>bytes.
                    and_then (usize_add offset 2 ''ARM Thumb position overflows'') (\<lambda>offset.
                    ok (bytes, offset)))
               else ok (b, offset)) (\<lambda>(bytes, offset).
     and_then (usize_add offset 2 ''ARM Thumb position overflows'') (\<lambda>offset.
     ok (bytes, offset)))))))) u (\<lambda>a u. fits s orig (fst a) u)"
    using fits_room [OF fu assms(2)] assms(3) fu
    by (intro outcome_rules outcome_byte_at outcome_usize_add outcome_weaken [OF c])
      (auto simp: fits_def intro!: outcome_and_then outcome_usize_add outcome_ok)
qed

lemma outcome_starting:
  assumes "length properties \<noteq> 0 \<Longrightarrow> length properties \<noteq> 4 \<Longrightarrow>
      E (format_error ''branch filter properties must be empty or four bytes'')"
    and "\<And>v. Q v s"
  shows "outcome E (compat_starting_position properties) s Q"
    and "outcome E (starting_position properties) s Q"
  using assms
  by (cases properties; auto simp: compat_starting_position_def starting_position_def array_of_def outcome_def run)+

lemma decode_arm_thumb_outcome:
  assumes room: "roomy s bytes" and res: "\<And>e. resource_error e \<Longrightarrow> E e"
    and props: "length properties \<noteq> 0 \<Longrightarrow> length properties \<noteq> 4 \<Longrightarrow>
      E (format_error ''branch filter properties must be empty or four bytes'')"
  shows "outcome E (decode_arm_thumb bytes properties) s (fits s bytes)"
proof -
  have loop: "outcome E (arm_thumb_loop start (length bytes - 4) (bytes, 0)) s (\<lambda>a t. fits s bytes (fst a) t)"
    if "4 \<le> length bytes" for start
  proof (rule arm_thumb.loop_outcome [where I = "\<lambda>a t. fits s bytes (fst a) t"])
    show "outcome E (arm_thumb_step start a) t (\<lambda>a t. fits s bytes (fst a) t)"
      if "fits s bytes (fst a) t" "offset_within (length bytes - 4) a" for a t
      using arm_thumb_step_outcome [OF that(1) room _ res, where offset = "snd a" and start = start]
        that \<open>4 \<le> length bytes\<close> by (auto simp: offset_within_def fits_def)
  qed (simp_all add: fits_def)
  show ?thesis
    unfolding decode_arm_thumb_def
    by (intro outcome_rules outcome_starting outcome_usize_sub outcome_weaken [OF loop])
      (auto simp: fits_def props intro!: outcome_ok)
qed

lemma read_u48_le_outcome:
  assumes "offset + 6 \<le> length bytes" and "length bytes \<le> usize_max (machine s)" and "\<And>v. Q v s"
  shows "outcome E (read_u48_le bytes offset) s Q"
proof -
  let ?w = "take 6 (drop offset bytes)"
  have w: "length ?w = 6" using assms(1) by simp
  have step: "i < 6" if "(i, b) \<in> set (enumerate 0 ?w)" for i b
    using that w by (auto simp: in_set_enumerate_eq)
  show ?thesis
    unfolding read_u48_le_def
  proof (intro outcome_and_then outcome_usize_add outcome_bytes_at)
    show "outcome E (for_fold (enumerate 0 (take (offset + 6 - offset) (drop offset bytes))) 0
        (\<lambda>v (index, byte).
          and_then (ok_or (format_error ''IA64 instruction shift overflows'') (byte_shift index)) (\<lambda>shift.
          and_then (ok_or (format_error ''IA64 instruction value overflows'')
                     (checked_shl (ucast byte) (unat shift))) (\<lambda>part.
          ok (v OR part))))) s Q"
    proof (rule outcome_for_fold [where I = "\<lambda>_ _ t. t = s"])
      fix past b rest u and a :: u64
      assume b: "enumerate 0 (take (offset + 6 - offset) (drop offset bytes)) = past @ b # rest" and "u = s"
      have "b \<in> set (enumerate 0 ?w)" using b by simp
      moreover obtain i x where "b = (i, x)" by force
      ultimately have ix: "b = (i, x)" "i < 6" using step [of i x] by blast+
      then have i: "i \<in> {0, 1, 2, 3, 4, 5}" by auto
      have "\<exists>k :: u32. byte_shift i = Some k \<and> unat k < 64"
        using i by (auto simp: byte_shift_def checked_mul_def)
      then show "outcome E (case b of (index, byte) \<Rightarrow>
          and_then (ok_or (format_error ''IA64 instruction shift overflows'') (byte_shift index)) (\<lambda>shift.
          and_then (ok_or (format_error ''IA64 instruction value overflows'')
                     (checked_shl (ucast byte) (unat shift))) (\<lambda>part.
          ok (a OR part)))) u (\<lambda>_ t. t = s)"
        using \<open>u = s\<close> by (auto simp: ix outcome_def run checked_shl_def)
    qed (use assms(3) in auto)
  qed (use assms in auto)
qed

lemma write_u48_le_outcome:
  assumes "offset + 6 \<le> length bytes" and "length bytes \<le> usize_max (machine s)"
    and "\<And>b. length b = length bytes \<Longrightarrow> Q b s"
  shows "outcome E (write_u48_le bytes offset v) s Q"
  unfolding write_u48_le_def
proof (intro outcome_and_then outcome_usize_add outcome_bytes_at)
  let ?w = "take (offset + 6 - offset) (drop offset bytes)"
  show "outcome E (for_push [0..<length ?w] (\<lambda>index.
       and_then (ok_or (format_error ''IA64 instruction shift overflows'') (byte_shift index)) (\<lambda>shift.
       ok_or (format_error ''IA64 instruction byte is not representable'')
         (narrow (drop_bit (unat shift) v AND 0xff))))) s
      (\<lambda>w t. outcome E (ok (overwrite bytes offset w)) t Q)"
  proof (rule outcome_for_push [where I = "\<lambda>past xs t. t = s \<and> length xs = length past"])
    fix past i rest u and xs :: byte_slice
    assume i: "[0..<length ?w] = past @ i # rest" and u: "u = s \<and> length xs = length past"
    have "i \<in> set [0..<length ?w]" unfolding i by simp
    then have "i \<in> {0, 1, 2, 3, 4, 5}" using assms(1) by auto
    then have "\<exists>k. byte_shift i = Some k" by (auto simp: byte_shift_def checked_mul_def)
    then show "outcome E (and_then (ok_or (format_error ''IA64 instruction shift overflows'') (byte_shift i)) (\<lambda>shift.
       ok_or (format_error ''IA64 instruction byte is not representable'')
         (narrow (drop_bit (unat shift) v AND 0xff)))) u
       (\<lambda>x t. t = s \<and> length (xs @ [x]) = length (past @ [i]))"
      using u by (auto simp: outcome_def run narrow_u8_u64)
  next
    fix w :: byte_slice and t assume "t = s \<and> length w = length [0..<length ?w]"
    with assms(1,3) show "outcome E (ok (overwrite bytes offset w)) t Q" by (auto intro!: outcome_ok)
  qed simp
qed (use assms in auto)

lemma ia64_convert_outcome:
  assumes "fits s orig b t" and "roomy s orig" and "offset + k + 6 \<le> length b" and "r < 8"
  shows "outcome E (ia64_convert start offset (offset + k) r b) t (\<lambda>b' u. u = t \<and> length b' = length b)"
proof -
  have n20: "(narrow (x AND 0xfffff :: u64) :: u32 option) = Some (ucast (x AND 0xfffff))"
    "(narrow (x AND 1 :: u64) :: u32 option) = Some (ucast (x AND 1))" for x
    by (simp_all add: narrow_u32 and.assoc)
  have one: "checked_sub (push_bit r (1 :: u64)) 1 \<noteq> None"
  proof -
    have "r \<in> {0, 1, 2, 3, 4, 5, 6, 7}" using assms(4) by auto
    then show ?thesis by (auto simp: checked_sub_def)
  qed
  show ?thesis
    unfolding ia64_convert_def Let_def
    using fits_room [OF assms(1,2)] assms(3,4) one
    by (intro outcome_rules read_u48_le_outcome write_u48_le_outcome outcome_low_u32_offset)
      (auto simp: n20 checked_shl_def)
qed

lemma ia64_slot_outcome:
  assumes "fits s orig b t" and room: "roomy s orig" and "offset + 16 \<le> length b"
    and cases: "bp \<in> {5, 46, 87}" and "slot < 3" and res: "\<And>e. resource_error e \<Longrightarrow> E e"
  shows "outcome E (ia64_slot start offset branch_mask (b, bp) slot) t
    (\<lambda>a u. fits s orig (fst a) u \<and> snd a = bp + 41)"
  unfolding ia64_slot_def prod.case
proof (rule outcome_and_then, rule outcome_checkpoint [OF res])
  fix u assume "still t u"
  then have fu: "fits s orig b u" using fits_later [OF assms(1)] by simp
  have pos: "unat (ucast (drop_bit 3 bp) :: u64) + 6 \<le> 16" "unat (bp AND 7) < 8"
    "checked_add bp 41 = Some (bp + 41)"
    using cases by (auto simp: checked_add_def)
  have c: "outcome E (ia64_convert start offset (offset + unat (ucast (drop_bit 3 bp) :: u64))
      (unat (bp AND 7)) b) u (\<lambda>b' v. v = u \<and> length b' = length b)"
    by (rule ia64_convert_outcome [OF fu room]) (use pos assms(3) in auto)
  show "outcome E (and_then (ok_or (format_error ''IA64 slot mask overflows'') (checked_shl 1 slot)) (\<lambda>selected.
     and_then (if branch_mask AND selected = 0 then ok b
               else
                 and_then (u64_to_usize (ucast (drop_bit 3 bp))
                            ''IA64 byte position is not representable'') (\<lambda>byte_position.
                 and_then (usize_add offset byte_position ''IA64 instruction offset overflows'')
                   (\<lambda>instruction_offset.
                 ia64_convert start offset instruction_offset (unat (bp AND 7)) b)))
       (\<lambda>bytes.
     and_then (ok_or (format_error ''IA64 bit position overflows'') (checked_add bp 41))
       (\<lambda>bit_position.
     ok (bytes, bit_position))))) u (\<lambda>a u. fits s orig (fst a) u \<and> snd a = bp + 41)"
    using fits_room [OF fu room] assms(3,5) fu pos
    by (intro outcome_rules outcome_u64_to_usize outcome_usize_add outcome_weaken [OF c])
      (auto simp: checked_shl_def fits_def)
qed

lemma ia64_step_outcome:
  assumes "fits s orig b t" and room: "roomy s orig" and "offset + 16 \<le> length b"
    and res: "\<And>e. resource_error e \<Longrightarrow> E e"
  shows "outcome E (ia64_step start (b, offset)) t (\<lambda>a u. fits s orig (fst a) u \<and> snd a = offset + 16)"
  unfolding ia64_step_def prod.case
proof (rule outcome_and_then, rule outcome_checkpoint [OF res])
  fix u assume "still t u"
  then have fu: "fits s orig b u" using fits_later [OF assms(1)] by simp
  have slots: "outcome E (for_fold [0, 1, 2] (b, 5) (ia64_slot start offset m)) u
      (\<lambda>a v. fits s orig (fst a) v)" for m
  proof (rule outcome_for_fold [where I = "\<lambda>past a v. fits s orig (fst a) v \<and>
      snd a = 5 + 41 * of_nat (length past)"])
    fix past rest v and slot :: nat and a :: "byte_slice \<times> u32"
    assume split: "[0, 1, 2] = past @ slot # rest" and inv: "fits s orig (fst a) v \<and> snd a = 5 + 41 * of_nat (length past)"
    have "length past < 3" using arg_cong [OF split, of length] by simp
    then have "length past \<in> {0, 1, 2}" unfolding insert_iff empty_iff by linarith
    then have pos: "snd a \<in> {5, 46, 87}" using inv by auto
    have "slot \<in> set [0, 1, 2 :: nat]" unfolding split by simp
    then have "slot < 3" by auto
    moreover have "offset + 16 \<le> length (fst a)" using inv assms(1,3) by (simp add: fits_def)
    ultimately have "outcome E (ia64_slot start offset m (fst a, snd a) slot) v
        (\<lambda>a' u. fits s orig (fst a') u \<and> snd a' = snd a + 41)"
      by (intro ia64_slot_outcome [OF _ room _ pos _ res]) (use inv in auto)
    then have "outcome E (ia64_slot start offset m a slot) v
        (\<lambda>a' u. fits s orig (fst a') u \<and> snd a' = snd a + 41)" by (simp only: prod.collapse)
    then show "outcome E (ia64_slot start offset m a slot) v
        (\<lambda>a v. fits s orig (fst a) v \<and> snd a = 5 + 41 * of_nat (length (past @ [slot])))"
      using inv by (auto elim!: outcome_weaken simp: algebra_simps)
  qed (use fu in auto)
  show "outcome E (and_then (byte_at b offset ''IA64 bundle is truncated'') (\<lambda>first.
     and_then (byte_at IA64_BRANCH_TABLE (unat (first AND 0x1f))
                ''IA64 bundle template is out of range'') (\<lambda>branch_mask.
     and_then (for_fold [0, 1, 2] (b, 5) (ia64_slot start offset branch_mask)) (\<lambda>(bytes, _).
     and_then (usize_add offset 16 ''IA64 bundle offset overflows'') (\<lambda>offset.
     ok (bytes, offset)))))) u (\<lambda>a u. fits s orig (fst a) u \<and> snd a = offset + 16)"
  proof (intro outcome_and_then outcome_byte_at outcome_weaken [OF slots] outcome_pair outcome_usize_add)
    show "unat (b ! offset AND 0x1f) < length IA64_BRANCH_TABLE"
    proof -
      have m: "(0x1f :: u8) = mask 5" by (simp add: mask_eq_exp_minus_1)
      show ?thesis unfolding m unat_and_mask by (simp add: IA64_BRANCH_TABLE_def)
    qed
  next
    fix a v x y assume "fits s orig (fst a) v" "a = (x, y)" "usize_max (machine v) < offset + 16"
    moreover have "offset + 16 \<le> length x" using calculation assms(1,3) by (simp add: fits_def)
    ultimately show "E (format_error ''IA64 bundle offset overflows'')"
      using fits_room [OF _ room, of x v] by simp
  qed (use assms(3) in \<open>auto intro!: outcome_ok\<close>)
qed

lemma decode_ia64_outcome:
  assumes room: "roomy s bytes" and res: "\<And>e. resource_error e \<Longrightarrow> E e"
    and props: "length properties \<noteq> 0 \<Longrightarrow> length properties \<noteq> 4 \<Longrightarrow>
      E (format_error ''branch filter properties must be empty or four bytes'')"
  shows "outcome E (decode_ia64 bytes properties) s (fits s bytes)"
proof -
  let ?n = "length bytes div 16 * 16"
  have n: "?n \<le> length bytes" by simp
  have loop: "outcome E (ia64_loop start ?n (bytes, 0)) s (\<lambda>a t. outcome E (ok (fst a)) t (fits s bytes))" for start
  proof (rule ia64.loop_outcome [where I = "\<lambda>a t. fits s bytes (fst a) t \<and> 16 dvd snd a"])
    fix a t assume inv: "fits s bytes (fst a) t \<and> 16 dvd snd a" and "offset_before ?n a"
    then have "snd a < ?n" by (simp add: offset_before_def)
    then have "snd a + 16 \<le> ?n" using inv by (auto elim!: dvdE)
    then have "outcome E (ia64_step start (fst a, snd a)) t
        (\<lambda>b u. fits s bytes (fst b) u \<and> snd b = snd a + 16)"
      by (intro ia64_step_outcome [OF _ room _ res]) (use inv n in \<open>auto simp: fits_def\<close>)
    then show "outcome E (ia64_step start a) t (\<lambda>a t. fits s bytes (fst a) t \<and> 16 dvd snd a)"
      using inv by (auto elim!: outcome_weaken)
  qed (auto simp: fits_def intro!: outcome_ok)
  have "?n \<le> usize_max (machine s)" using n room unfolding roomy_def by linarith
  then have mul: "usize_mul (length bytes div 16) 16 d s = (Inr ?n, s)" for d
    by (simp add: usize_mul_def run)
  have "outcome E (usize_mul (length bytes div 16) 16 d) s (\<lambda>m t. m = ?n \<and> t = s)" for d
    by (simp add: outcome_def mul)
  note m = this
  show ?thesis
    unfolding decode_ia64_def
    by (intro outcome_and_then outcome_starting outcome_weaken [OF m]) (use props loop in auto)
qed

lemma riscv_jal_outcome:
  assumes "fits s orig b t" and "roomy s orig" and "offset + 8 \<le> length b"
  shows "outcome E (riscv_jal start first second b offset) t (\<lambda>b' u. u = t \<and> length b' = length b)"
  unfolding riscv_jal_def Let_def
  using fits_room [OF assms(1,2)] assms(3)
  by (intro outcome_rules byte_outcomes control_outcomes outcome_low_u32_offset)
    (auto simp: narrow_u8 and.assoc bit.conj_disj_distrib2)

lemma riscv_auipc_outcome:
  assumes "fits s orig b t" and "roomy s orig" and "offset + 8 \<le> length b"
  shows "outcome E (riscv_auipc start b offset) t (\<lambda>_ u. u = t)"
  unfolding riscv_auipc_def Let_def
  using fits_room [OF assms(1,2)] assms(3)
  by (intro outcome_rules outcome_compat_read control_outcomes outcome_low_u32_offset) auto

lemma riscv_step_outcome:
  assumes "fits s orig b t" and room: "roomy s orig" and "offset + 8 \<le> length b"
    and res: "\<And>e. resource_error e \<Longrightarrow> E e"
  shows "outcome E (riscv_step start (b, offset)) t (\<lambda>a u. fits s orig (fst a) u)"
  unfolding riscv_step_def prod.case
proof (rule outcome_and_then, rule outcome_checkpoint [OF res])
  fix u assume "still t u"
  then have fu: "fits s orig b u" using fits_later [OF assms(1)] by simp
  note jal = riscv_jal_outcome [OF fu room assms(3)]
  note auipc = riscv_auipc_outcome [OF fu room assms(3)]
  have pair: "outcome E (and_then (write_u32_le b offset i) (\<lambda>bytes.
           and_then (usize_add offset 4 ''RISC-V pair offset overflows'') (\<lambda>pair_offset.
           and_then (write_u32_le bytes pair_offset j) (\<lambda>bytes.
           and_then (usize_add offset 8 ''RISC-V position overflows'') (\<lambda>offset.
           ok (bytes, offset)))))) u (\<lambda>a u. fits s orig (fst a) u)" for i j
    using fits_room [OF fu room] assms(3) fu
    by (intro outcome_rules outcome_write_u32_le outcome_usize_add) (auto simp: fits_def)
  show "outcome E (and_then (byte_at b offset ''RISC-V instruction is truncated'') (\<lambda>first.
     if first = 0xef then
       and_then (usize_add offset 1 ''RISC-V index overflows'') (\<lambda>index.
       and_then (byte_at b index ''RISC-V JAL is truncated'') (\<lambda>second.
       if second AND 0x0d = 0 then
         and_then (riscv_jal start first second b offset) (\<lambda>bytes.
         and_then (usize_add offset 4 ''RISC-V position overflows'') (\<lambda>offset.
         ok (bytes, offset)))
       else
         and_then (usize_add offset 2 ''RISC-V position overflows'') (\<lambda>offset.
         ok (b, offset))))
     else if first AND 0x7f = 0x17 then
       and_then (riscv_auipc start b offset) (\<lambda>converted.
       case converted of
         Inl offset \<Rightarrow> ok (b, offset)
       | Inr (instruction, second_instruction) \<Rightarrow>
           and_then (write_u32_le b offset instruction) (\<lambda>bytes.
           and_then (usize_add offset 4 ''RISC-V pair offset overflows'') (\<lambda>pair_offset.
           and_then (write_u32_le bytes pair_offset second_instruction) (\<lambda>bytes.
           and_then (usize_add offset 8 ''RISC-V position overflows'') (\<lambda>offset.
           ok (bytes, offset))))))
     else
       and_then (usize_add offset 2 ''RISC-V position overflows'') (\<lambda>offset.
       ok (b, offset)))) u (\<lambda>a u. fits s orig (fst a) u)"
    using fits_room [OF fu room] assms(3) fu
    by (intro outcome_and_then outcome_if outcome_byte_at outcome_usize_add outcome_weaken [OF jal]
        outcome_weaken [OF auipc])
      (auto simp: fits_def intro!: outcome_ok outcome_and_then outcome_usize_add pair [unfolded fits_def]
        split: sum.split)
qed

lemma decode_riscv_outcome:
  assumes room: "roomy s bytes" and res: "\<And>e. resource_error e \<Longrightarrow> E e"
    and props: "length properties \<noteq> 0 \<Longrightarrow> length properties \<noteq> 4 \<Longrightarrow>
      E (format_error ''branch filter properties must be empty or four bytes'')"
  shows "outcome E (decode_riscv bytes properties) s (fits s bytes)"
proof -
  have loop: "outcome E (riscv_loop start (length bytes - 8) (bytes, 0)) s (\<lambda>a t. fits s bytes (fst a) t)"
    if "8 \<le> length bytes" for start
  proof (rule riscv.loop_outcome [where I = "\<lambda>a t. fits s bytes (fst a) t"])
    show "outcome E (riscv_step start a) t (\<lambda>a t. fits s bytes (fst a) t)"
      if "fits s bytes (fst a) t" "offset_within (length bytes - 8) a" for a t
      using riscv_step_outcome [OF that(1) room _ res, where offset = "snd a" and start = start]
        that \<open>8 \<le> length bytes\<close> by (auto simp: offset_within_def fits_def)
  qed (simp_all add: fits_def)
  show ?thesis
    unfolding decode_riscv_def Let_def
    by (intro outcome_rules outcome_starting outcome_usize_sub outcome_weaken [OF loop])
      (auto simp: fits_def props intro!: outcome_ok)
qed


section \<open>The dispatch\<close>

definition word_start :: "byte_slice \<Rightarrow> u32" where
  "word_start properties = (if properties = [] then 0 else from_le_bytes properties)"

lemma starting_position_value:
  "length properties = 0 \<or> length properties = 4 \<Longrightarrow>
     starting_position properties s = (Inr (word_start properties), s)"
  by (cases properties) (auto simp: starting_position_def word_start_def array_of_def run)

text \<open>The properties a filter accepts.\<close>

definition properties_valid :: "byte_slice \<Rightarrow> byte_slice \<Rightarrow> bool" where
  "properties_valid method properties =
     (if method = METHOD_DELTA then length properties = 1
      else if method = METHOD_SWAP2 \<or> method = METHOD_SWAP4 then properties = []
      else length properties = 0 \<or> length properties = 4)"

definition filter_methods_known :: "byte_slice set" where
  "filter_methods_known =
     {METHOD_DELTA, METHOD_BCJ, METHOD_PPC, METHOD_ARM, METHOD_ARM64, METHOD_SPARC, METHOD_IA64,
      METHOD_ARM_THUMB, METHOD_RISCV, METHOD_SWAP2, METHOD_SWAP4}"

text \<open>The reasons for which a filter refuses its input, other than resources.\<close>

definition refused :: "byte_slice \<Rightarrow> byte_slice \<Rightarrow> byte_slice \<Rightarrow> error \<Rightarrow> bool" where
  "refused method properties bytes e \<longleftrightarrow>
     method \<notin> filter_methods_known \<and> e = UnsupportedMethod method \<or>
     \<not> properties_valid method properties \<and> kind e = KFormat \<or>
     method = METHOD_BCJ \<and> 2 ^ 32 \<le> length bytes \<and> kind e = KFormat"

lemma decode_filter_eq: "decode_filter = decode_filter_in_place"
  by (simp add: decode_filter_def fun_eq_iff)

lemma word_filter_outcome:
  assumes "word_filter convert word" and "length bytes \<le> usize_max (machine s)"
    and "\<And>e. resource_error e \<Longrightarrow> E e"
    and "length properties \<noteq> 0 \<Longrightarrow> length properties \<noteq> 4 \<Longrightarrow>
      E (format_error ''branch filter properties must be empty or four bytes'')"
    and "length properties = 0 \<or> length properties = 4 \<Longrightarrow>
      Q (map_words word (f (word_start properties)) bytes)"
  shows "outcome E (and_then (starting_position properties) (\<lambda>ip.
    decode_branches convert overflow bytes (f ip))) s (\<lambda>out _. Q out)"
proof (cases "length properties = 0 \<or> length properties = 4")
  case True
  show ?thesis
    using word_filter.decode_outcome [OF assms(1,2,3), where Q = "\<lambda>out _. Q out" and ip = "f (word_start properties)" and overflow = overflow]
      True assms(5) by (simp add: outcome_def run starting_position_value)
next
  case False
  then show ?thesis
    using assms(4) by (cases properties) (auto simp: starting_position_def array_of_def outcome_def run)
qed

lemma decode_filter_method:
  "decode_filter METHOD_DELTA p b = decode_delta b p"
  "decode_filter METHOD_BCJ p b = decode_x86_bcj b p"
  "decode_filter METHOD_PPC p b = decode_ppc b p"
  "decode_filter METHOD_ARM p b = decode_arm b p"
  "decode_filter METHOD_ARM64 p b = decode_arm64 b p"
  "decode_filter METHOD_SPARC p b = decode_sparc b p"
  "decode_filter METHOD_IA64 p b = decode_ia64 b p"
  "decode_filter METHOD_ARM_THUMB p b = decode_arm_thumb b p"
  "decode_filter METHOD_RISCV p b = decode_riscv b p"
  "decode_filter METHOD_SWAP2 p b = decode_swap b p 2"
  "decode_filter METHOD_SWAP4 p b = decode_swap b p 4"
  by (simp_all add: decode_filter_eq decode_filter_in_place_def decode_phase5_filter_def filter_methods)

lemma decode_filter_unknown:
  "m \<notin> filter_methods_known \<Longrightarrow> decode_filter m p b = err (UnsupportedMethod m)"
  by (simp add: decode_filter_eq decode_filter_in_place_def decode_phase5_filter_def filter_methods_known_def)

lemma properties_valid_simps:
  "properties_valid METHOD_DELTA p \<longleftrightarrow> length p = 1"
  "properties_valid METHOD_SWAP2 p \<longleftrightarrow> p = []" "properties_valid METHOD_SWAP4 p \<longleftrightarrow> p = []"
  "m \<in> {METHOD_BCJ, METHOD_PPC, METHOD_ARM, METHOD_ARM64, METHOD_SPARC, METHOD_IA64, METHOD_ARM_THUMB,
     METHOD_RISCV} \<Longrightarrow> properties_valid m p \<longleftrightarrow> length p = 0 \<or> length p = 4"
  by (auto simp: properties_valid_def filter_methods)

text \<open>C6: Every filter keeps the length of its buffer. It fails only for want of resources, for an
  unknown method, for properties it does not accept, or, for x86, on four gibibytes or more: none of
  the index, range and conversion errors of the code can occur.\<close>

theorem filters_total:
  assumes "length bytes + 512 \<le> usize_max (machine s)" and "usize_max (machine s) < 2 ^ 64"
  shows "case decode_filter method properties bytes s of
      (Inr out, t) \<Rightarrow> length out = length bytes
    | (Inl e, t) \<Rightarrow> resource_error e \<or> refused method properties bytes e"
proof -
  let ?E = "\<lambda>e. resource_error e \<or> refused method properties bytes e"
  have room: "roomy s bytes" "511 \<le> usize_max (machine s)" "length bytes + 8 \<le> usize_max (machine s)"
    "length bytes \<le> usize_max (machine s)"
    using assms by (simp_all add: roomy_def)
  have invalid: "?E (format_error d)" if "\<not> properties_valid method properties" for d
    using that by (simp add: refused_def)
  have word: "outcome ?E (and_then (starting_position properties) (\<lambda>ip.
      decode_branches convert d bytes (f ip))) s (\<lambda>out _. length out = length bytes)"
    if "word_filter convert word" "method \<in> {METHOD_PPC, METHOD_ARM, METHOD_ARM64, METHOD_SPARC}"
    for convert word d f
  proof (rule word_filter_outcome [OF that(1) room(4)])
    show "?E (format_error ''branch filter properties must be empty or four bytes'')"
      if "length properties \<noteq> 0" "length properties \<noteq> 4"
      using that \<open>method \<in> _\<close> by (intro invalid) (auto simp: properties_valid_simps(4))
  qed (use that in \<open>auto simp: length_map_words word_filter.length_word\<close>)
  note words = word [OF ppc.word_filter_axioms, where f = "\<lambda>ip. ip"]
    word [OF arm.word_filter_axioms, where f = "\<lambda>ip. ip + 4"]
    word [OF arm64.word_filter_axioms, where f = "\<lambda>ip. ip"]
    word [OF sparc.word_filter_axioms, where f = "\<lambda>ip. ip"]
  have "outcome ?E (decode_filter method properties bytes) s (\<lambda>out _. length out = length bytes)"
  proof (cases "method \<in> filter_methods_known")
    case False
    then show ?thesis by (simp add: decode_filter_unknown outcome_def run refused_def)
  next
    case True
    then consider "method = METHOD_DELTA" | "method = METHOD_BCJ" | "method = METHOD_SWAP2"
      | "method = METHOD_SWAP4" | "method = METHOD_IA64" | "method = METHOD_ARM_THUMB" | "method = METHOD_RISCV"
      | "method = METHOD_PPC" | "method = METHOD_ARM" | "method = METHOD_ARM64" | "method = METHOD_SPARC"
      by (auto simp: filter_methods_known_def)
    then show ?thesis
    proof cases
      case 1
      show ?thesis unfolding 1 decode_filter_method
        by (rule decode_delta_outcome [OF room(2)])
          (use invalid in \<open>auto simp: 1 properties_valid_simps delta_of_def\<close>)
    next
      case 2
      show ?thesis unfolding 2 decode_filter_method
        by (rule decode_x86_bcj_outcome [OF room(3)])
          (use invalid in \<open>auto simp: 2 properties_valid_simps refused_def\<close>)
    next
      case 3
      show ?thesis unfolding 3 decode_filter_method
        by (rule decode_swap_outcome) (use invalid in \<open>auto simp: 3 properties_valid_simps\<close>)
    next
      case 4
      show ?thesis unfolding 4 decode_filter_method
        by (rule decode_swap_outcome) (use invalid in \<open>auto simp: 4 properties_valid_simps\<close>)
    next
      case 5
      show ?thesis unfolding 5 decode_filter_method
        by (rule outcome_weaken [OF decode_ia64_outcome [OF room(1)]])
          (use invalid in \<open>auto simp: 5 properties_valid_simps fits_def\<close>)
    next
      case 6
      show ?thesis unfolding 6 decode_filter_method
        by (rule outcome_weaken [OF decode_arm_thumb_outcome [OF room(1)]])
          (use invalid in \<open>auto simp: 6 properties_valid_simps fits_def\<close>)
    next
      case 7
      show ?thesis unfolding 7 decode_filter_method
        by (rule outcome_weaken [OF decode_riscv_outcome [OF room(1)]])
          (use invalid in \<open>auto simp: 7 properties_valid_simps fits_def\<close>)
    qed (use words in \<open>simp_all add: decode_filter_method decode_ppc_def decode_arm_def decode_arm64_def
        decode_sparc_def\<close>)
  qed
  then show ?thesis by (simp add: outcome_def split: prod.splits sum.splits)
qed

lemma filters_total_witness:
  "case decode_filter METHOD_RISCV [] [0x17, 0, 0, 0, 0, 0, 0, 0, 1] (sample_session []) of
      (Inr out, t) \<Rightarrow> length out = length [0x17, 0, 0, 0, 0, 0, 0, 0, 1 :: u8]
    | (Inl e, t) \<Rightarrow> resource_error e \<or> refused METHOD_RISCV [] [0x17, 0, 0, 0, 0, 0, 0, 0, 1] e"
  by (rule filters_total) (simp_all add: sample_session_def)

text \<open>
  The encoders that the filters belong to, for the methods whose conversion has an inverse on every
  buffer.  PowerPC and SPARC need a start that is a multiple of the word size: their operands lose
  the two low bits.
\<close>

definition encode_filter :: "byte_slice \<Rightarrow> byte_slice \<Rightarrow> byte_slice \<Rightarrow> byte_slice" where
  "encode_filter method properties bytes =
     (if method = METHOD_DELTA then delta_encode (Suc (unat (hd properties))) bytes
      else if method = METHOD_SWAP2 then swap_groups 2 bytes
      else if method = METHOD_SWAP4 then swap_groups 4 bytes
      else if method = METHOD_PPC then map_words ppc_encode (word_start properties) bytes
      else if method = METHOD_ARM then map_words arm_encode (word_start properties + 4) bytes
      else map_words sparc_encode (word_start properties) bytes)"

definition encodable :: "byte_slice \<Rightarrow> byte_slice \<Rightarrow> bool" where
  "encodable method properties \<longleftrightarrow>
     method \<in> {METHOD_DELTA, METHOD_SWAP2, METHOD_SWAP4, METHOD_PPC, METHOD_ARM, METHOD_SPARC} \<and>
     properties_valid method properties \<and>
     (method = METHOD_PPC \<or> method = METHOD_SPARC \<longrightarrow> unat (word_start properties) mod 4 = 0)"

lemma ppc_encode_length: "length w = 4 \<Longrightarrow> length (ppc_encode ip w) = 4"
  by (simp add: ppc_encode_def)

lemma arm_encode_length: "length w = 4 \<Longrightarrow> length (arm_encode ip w) = 4"
  by (simp add: arm_encode_def)

lemma sparc_encode_length: "length w = 4 \<Longrightarrow> length (sparc_encode ip w) = 4"
  by (simp add: sparc_encode_def)

lemma aligned_next: "unat (ip :: u32) mod 4 = 0 \<Longrightarrow> unat (ip + 4) mod 4 = 0"
  by (simp add: unat_word_ariths mod_mod_cancel mod_simps)

lemma map_words_round_trips:
  "unat ip mod 4 = 0 \<Longrightarrow> map_words ppc_word ip (map_words ppc_encode ip bs) = bs"
  "unat ip mod 4 = 0 \<Longrightarrow> map_words sparc_word ip (map_words sparc_encode ip bs) = bs"
  "map_words arm_word ip (map_words arm_encode ip bs) = bs"
proof -
  show "unat ip mod 4 = 0 \<Longrightarrow> map_words ppc_word ip (map_words ppc_encode ip bs) = bs"
    by (rule map_words_inverse [where aligned = "\<lambda>ip. unat ip mod 4 = 0"])
      (auto intro: ppc_inverse ppc_encode_length aligned_next)
  show "unat ip mod 4 = 0 \<Longrightarrow> map_words sparc_word ip (map_words sparc_encode ip bs) = bs"
    by (rule map_words_inverse [where aligned = "\<lambda>ip. unat ip mod 4 = 0"])
      (auto intro: sparc_inverse sparc_encode_length aligned_next)
  show "map_words arm_word ip (map_words arm_encode ip bs) = bs"
    by (rule map_words_inverse [where aligned = "\<lambda>_. True"])
      (auto intro: arm_inverse arm_encode_length)
qed

lemma length_encode_filter:
  "encodable method properties \<Longrightarrow> length (encode_filter method properties bytes) = length bytes"
  by (auto simp: encode_filter_def encodable_def delta_encode_def length_map_words ppc_encode_length
      arm_encode_length sparc_encode_length)

text \<open>C5: Decoding what the encoder of a filter made of a buffer gives the buffer back, for Delta, the
  byte swaps, PowerPC, ARM and SPARC, up to failures for want of resources.\<close>

theorem filters_undo_encoders:
  assumes ok: "encodable method properties"
    and room: "length bytes + 512 \<le> usize_max (machine s)"
  shows "case decode_filter method properties (encode_filter method properties bytes) s of
      (Inr out, t) \<Rightarrow> out = bytes
    | (Inl e, t) \<Rightarrow> resource_error e"
proof -
  let ?b = "encode_filter method properties bytes"
  have len: "length ?b \<le> usize_max (machine s)" "511 \<le> usize_max (machine s)"
    using room length_encode_filter [OF ok] by simp_all
  have valid: "properties_valid method properties" using ok by (simp add: encodable_def)
  have word: "outcome resource_error (and_then (starting_position properties) (\<lambda>ip.
      decode_branches convert d ?b (f ip))) s (\<lambda>out _. out = bytes)"
    if "word_filter convert word" "length properties = 0 \<or> length properties = 4"
      "map_words word (f (word_start properties)) ?b = bytes" for convert word d f
    by (rule word_filter_outcome [OF that(1) len(1)]) (use that in auto)
  note words = word [OF ppc.word_filter_axioms, where f = "\<lambda>ip. ip"]
    word [OF arm.word_filter_axioms, where f = "\<lambda>ip. ip + 4"]
    word [OF sparc.word_filter_axioms, where f = "\<lambda>ip. ip"]
  have aligned: "method = METHOD_PPC \<or> method = METHOD_SPARC \<Longrightarrow> unat (word_start properties) mod 4 = 0"
    using ok by (simp add: encodable_def)
  consider "method = METHOD_DELTA" | "method = METHOD_SWAP2" | "method = METHOD_SWAP4"
    | "method = METHOD_PPC" | "method = METHOD_ARM" | "method = METHOD_SPARC"
    using ok by (auto simp: encodable_def)
  then have "outcome resource_error (decode_filter method properties ?b) s (\<lambda>out _. out = bytes)"
  proof cases
    case 1
    then obtain p where p: "properties = [p]"
      using valid by (auto simp: properties_valid_simps length_Suc_conv)
    then have "?b = delta_encode (Suc (unat p)) bytes" by (simp add: 1 encode_filter_def)
    then have "out = bytes" if "delta_of (Suc (unat p)) ?b out" for out
      using delta_unique [of "Suc (unat p)"] that delta_of_encode by auto
    then show ?thesis unfolding 1 decode_filter_method
      by (intro decode_delta_outcome [OF len(2)]) (auto simp: 1 p)
  next
    case 2
    have "?b = swap_groups 2 bytes" by (simp add: 2 encode_filter_def filter_methods)
    then show ?thesis using valid unfolding 2 decode_filter_method properties_valid_simps
      by (intro decode_swap_outcome) (auto simp: swap_groups_involution)
  next
    case 3
    have "?b = swap_groups 4 bytes" by (simp add: 3 encode_filter_def filter_methods)
    then show ?thesis using valid unfolding 3 decode_filter_method properties_valid_simps
      by (intro decode_swap_outcome) (auto simp: swap_groups_involution)
  next
    case 4
    have b: "?b = map_words ppc_encode (word_start properties) bytes"
      by (simp add: 4 encode_filter_def filter_methods)
    from words(1) [where d = "''PPC position overflows''", unfolded b] valid aligned show ?thesis
      unfolding b by (simp add: 4 decode_filter_method decode_ppc_def properties_valid_simps map_words_round_trips)
  next
    case 5
    have b: "?b = map_words arm_encode (word_start properties + 4) bytes"
      by (simp add: 5 encode_filter_def filter_methods)
    from words(2) [where d = "''ARM position overflows''", unfolded b] valid show ?thesis
      unfolding b by (simp add: 5 decode_filter_method decode_arm_def properties_valid_simps map_words_round_trips)
  next
    case 6
    have b: "?b = map_words sparc_encode (word_start properties) bytes"
      by (simp add: 6 encode_filter_def filter_methods)
    from words(3) [where d = "''SPARC position overflows''", unfolded b] valid aligned show ?thesis
      unfolding b by (simp add: 6 decode_filter_method decode_sparc_def properties_valid_simps map_words_round_trips)
  qed
  then show ?thesis by (simp add: outcome_def split: prod.splits sum.splits)
qed

lemma filters_undo_encoders_witness:
  "case decode_filter METHOD_PPC [] (encode_filter METHOD_PPC [] [0x48, 0, 0, 1]) (sample_session []) of
      (Inr out, t) \<Rightarrow> out = [0x48, 0, 0, 1]
    | (Inl e, t) \<Rightarrow> resource_error e"
  by (rule filters_undo_encoders)
    (simp_all add: sample_session_def encodable_def properties_valid_simps word_start_def)

text \<open>C27: A byte that the x86 filter changes lies among the four behind a call or jump opcode of the
  encoded buffer, and the buffer keeps its length.\<close>

theorem x86_filter_local:
  assumes "length bytes + 8 \<le> usize_max (machine s)"
  shows "case decode_x86_bcj bytes properties s of
      (Inr out, t) \<Rightarrow> length out = length bytes \<and>
        (\<forall>i < length bytes. out ! i \<noteq> bytes ! i \<longrightarrow> (\<exists>j < i. i \<le> j + 4 \<and> is_x86_opcode (bytes ! j)))
    | (Inl e, t) \<Rightarrow> resource_error e \<or> kind e = KFormat"
proof -
  have "outcome (\<lambda>e. resource_error e \<or> kind e = KFormat) (decode_x86_bcj bytes properties) s
      (\<lambda>out _. length out = length bytes \<and>
        (\<forall>i < length bytes. out ! i \<noteq> bytes ! i \<longrightarrow> (\<exists>j < i. i \<le> j + 4 \<and> is_x86_opcode (bytes ! j))))"
    by (rule decode_x86_bcj_outcome [OF assms]) auto
  then show ?thesis by (simp add: outcome_def split: prod.splits sum.splits)
qed

lemma x86_filter_local_witness:
  "case decode_x86_bcj [0xe8, 1, 2, 3, 0, 9] [] (sample_session []) of
      (Inr out, t) \<Rightarrow> length out = length [0xe8, 1, 2, 3, 0, 9 :: u8] \<and>
        (\<forall>i < length [0xe8, 1, 2, 3, 0, 9 :: u8]. out ! i \<noteq> [0xe8, 1, 2, 3, 0, 9] ! i \<longrightarrow>
          (\<exists>j < i. i \<le> j + 4 \<and> is_x86_opcode ([0xe8, 1, 2, 3, 0, 9] ! j)))
    | (Inl e, t) \<Rightarrow> resource_error e \<or> kind e = KFormat"
  by (rule x86_filter_local) (simp add: sample_session_def)



end
