(* ===== verification/Bcj2_Laws.thy ===== *)
theory Bcj2_Laws
  imports Filter_Laws
begin

text \<open>
  BCJ2: the arithmetic of the range decoder cannot fail, the output stays within its limit and has
  the declared size.  What is left of the errors of the code are the ones that a truncated or
  inconsistent input causes.
\<close>


section \<open>The failures that remain\<close>

definition bcj2_details :: "string set" where
  "bcj2_details =
     {''BCJ2 properties must be empty'', ''BCJ2 main stream is missing'',
      ''BCJ2 call stream is missing'', ''BCJ2 jump stream is missing'',
      ''BCJ2 range stream is missing'', ''BCJ2 requires exactly four input streams'',
      ''BCJ2 output size is not representable on this platform'', ''truncated BCJ2 input stream'',
      ''BCJ2 side streams were not consumed exactly'',
      ''BCJ2 output size does not match its declaration''}"

definition bcj2_failure :: "u64 \<Rightarrow> error \<Rightarrow> bool" where
  "bcj2_failure maximum e \<longleftrightarrow> resource_error e \<or> (\<exists>r. e = LimitExceeded TotalOutputBytes r maximum) \<or>
     e \<in> format_error ` bcj2_details"

lemma bcj2_failureI:
  "resource_error e \<Longrightarrow> bcj2_failure maximum e"
  "bcj2_failure maximum (LimitExceeded TotalOutputBytes r maximum)"
  "d \<in> bcj2_details \<Longrightarrow> bcj2_failure maximum (format_error d)"
  unfolding bcj2_failure_def by blast+


section \<open>Cursors and the range decoder\<close>

text \<open>A cursor inside its stream, in a session with room for offsets into it.\<close>

definition cursor_ok :: "session \<Rightarrow> bcj2_cursor \<Rightarrow> bool" where
  "cursor_ok t c \<longleftrightarrow> cur_position c \<le> length (cur_bytes c) \<and> length (cur_bytes c) < usize_max (machine t)"

lemma cursor_ok_later: "cursor_ok t c \<Longrightarrow> still t u \<Longrightarrow> cursor_ok u c"
  by (simp add: cursor_ok_def still_def)

lemma cursor_read_byte_outcome:
  assumes "cursor_ok t c"
  shows "outcome (bcj2_failure maximum) (cursor_read_byte c) t (\<lambda>(b, d) u. still t u \<and> cursor_ok u d)"
  unfolding cursor_read_byte_def
proof (rule outcome_and_then, rule outcome_checkpoint [OF bcj2_failureI(1)])
  fix u assume "still t u"
  then show "outcome (bcj2_failure maximum) (and_then (byte_at (cur_bytes c) (cur_position c)
      ''truncated BCJ2 input stream'') (\<lambda>byte.
      and_then (usize_add (cur_position c) 1 ''BCJ2 input cursor overflows'') (\<lambda>position.
      ok (byte, c\<lparr>cur_position := position\<rparr>)))) u (\<lambda>(b, d) u. still t u \<and> cursor_ok u d)"
    unfolding byte_at_def using assms
    by (intro outcome_rules outcome_usize_add)
      (auto simp: cursor_ok_def still_def item_get_eq_Some bcj2_details_def intro!: bcj2_failureI)
qed

lemma cursor_read_u32_be_outcome:
  assumes "cursor_ok t c"
  shows "outcome (bcj2_failure maximum) (cursor_read_u32_be c) t (\<lambda>(w, d) u. still t u \<and> cursor_ok u d)"
proof -
  have step: "outcome (bcj2_failure maximum)
      ((\<lambda>(word, c) _. and_then (cursor_read_byte c) (\<lambda>(byte, c). ok (word @ [byte], c))) a i) u
      (\<lambda>a v. still t v \<and> cursor_ok v (snd a))" if "still t u \<and> cursor_ok u (snd a)" for a u and i :: nat
  proof -
    obtain w d where a: "a = (w, d)" by force
    have "outcome (bcj2_failure maximum) (cursor_read_byte d) u (\<lambda>(b, d) v. still u v \<and> cursor_ok v d)"
      by (rule cursor_read_byte_outcome) (use that a in simp)
    then show ?thesis
      using that unfolding a prod.case
      by (intro outcome_and_then, elim outcome_weaken)
        (auto intro!: outcome_ok dest: still_trans)
  qed
  show ?thesis
    unfolding cursor_read_u32_be_def
    by (rule outcome_and_then,
        rule outcome_for_fold [where I = "\<lambda>_ a v. still t v \<and> cursor_ok v (snd a)"])
      (use assms step in \<open>auto intro!: outcome_ok\<close>)
qed

text \<open>The probabilities stay within the eleven bits that the bound is computed with.\<close>

definition range_ok :: "session \<Rightarrow> bcj2_range \<Rightarrow> bool" where
  "range_ok t rc \<longleftrightarrow> cursor_ok t (rc_input rc) \<and> length (rc_probabilities rc) = 258 \<and>
     (\<forall>p \<in> set (rc_probabilities rc). unat p \<le> 2048)"

lemma range_ok_later: "range_ok t c \<Longrightarrow> still t u \<Longrightarrow> range_ok u c"
  by (auto simp: range_ok_def intro: cursor_ok_later)

lemma bcj2_range_new_outcome:
  assumes "length bytes < usize_max (machine t)"
  shows "outcome (bcj2_failure maximum) (bcj2_range_new bytes) t (\<lambda>rc u. still t u \<and> range_ok u rc)"
proof -
  have step: "outcome (bcj2_failure maximum)
      ((\<lambda>(input, code) _. and_then (cursor_read_byte input) (\<lambda>(byte, input).
         ok (input, push_bit 8 code OR ucast byte))) a i) u
      (\<lambda>a v. still t v \<and> cursor_ok v (fst a))" if "still t u \<and> cursor_ok u (fst a)"
    for a :: "bcj2_cursor \<times> u32" and u and i :: nat
  proof -
    obtain d code where a: "a = (d, code)" by force
    have "outcome (bcj2_failure maximum) (cursor_read_byte d) u (\<lambda>(b, d) v. still u v \<and> cursor_ok v d)"
      by (rule cursor_read_byte_outcome) (use that a in simp)
    then show ?thesis
      using that unfolding a prod.case
      by (intro outcome_and_then, elim outcome_weaken)
        (auto intro!: outcome_ok dest: still_trans)
  qed
  show ?thesis
    unfolding bcj2_range_new_def
    by (rule outcome_and_then,
        rule outcome_for_fold [where I = "\<lambda>_ a v. still t v \<and> cursor_ok v (fst a)"])
      (use assms step in \<open>auto intro!: outcome_ok simp: range_ok_def cursor_ok_def bcj2_cursor_new_def\<close>)
qed

lemma saturating_gap: "unat p \<le> 2048 \<Longrightarrow> unat (saturating_sub 2048 (p :: u32)) = 2048 - unat p"
  by (simp add: saturating_sub_def word_le_nat_alt unat_sub)

text \<open>The interval arithmetic: the bound does not exceed the range, and the probability stays in bounds.\<close>

lemma select_symbol_outcome:
  assumes "range_ok t rc" and "index < 258" and p: "p = rc_probabilities rc ! index"
    and bound: "unat bound = unat (rc_range rc) div 2048 * unat p"
  shows "outcome E (select_symbol index p bound rc) t (\<lambda>(_, rc') u. u = t \<and> range_ok t rc')"
proof -
  have p2: "unat p \<le> 2048" using assms by (simp add: range_ok_def)
  have "unat (rc_range rc) div 2048 * unat p \<le> unat (rc_range rc) div 2048 * 2048"
    using p2 by (rule mult_le_mono2)
  also have "\<dots> \<le> unat (rc_range rc)" by simp
  finally have le: "unat bound \<le> unat (rc_range rc)" unfolding bound .
  have up: "unat p + unat (drop_bit 5 (saturating_sub 2048 p)) \<le> 2048"
    unfolding unat_drop_bit saturating_gap [OF p2] using p2 by simp
  have new: "range_ok t rc'" if "rc_input rc' = rc_input rc"
    "rc_probabilities rc' = (rc_probabilities rc)[index := q]" "unat q \<le> 2048" for rc' q
    using assms(1) that by (auto simp: range_ok_def dest!: subsetD [OF set_update_subset_insert])
  show ?thesis
    unfolding select_symbol_def
    apply (intro outcome_rules)
             apply (use up le in \<open>auto simp: checked_add_eq_Some checked_add_eq_None checked_sub_eq_Some
               checked_sub_eq_None unat_drop_bit not_less word_le_nat_alt\<close>)
    subgoal for q by (rule new [where q = q]) simp_all
    subgoal for r c q by (rule new [where q = q]) (use p2 in auto)
    done
qed

lemma bcj2_decode_outcome:
  assumes "range_ok t rc" and "index < 258"
  shows "outcome (bcj2_failure maximum) (bcj2_decode index rc) t (\<lambda>(_, rc') u. still t u \<and> range_ok u rc')"
proof -
  define p where "p = rc_probabilities rc ! index"
  have p: "unat p \<le> 2048" using assms by (simp add: range_ok_def p_def)
  have fits: "unat (drop_bit 11 (rc_range rc)) * unat p < 2 ^ 32"
  proof -
    have "unat (drop_bit 11 (rc_range rc)) < 2 ^ 21"
      unfolding unat_drop_bit using less_mult_imp_div_less [of "unat (rc_range rc)" "2 ^ 21" "2 ^ 11"] by simp
    then have "unat (drop_bit 11 (rc_range rc)) * unat p \<le> (2 ^ 21 - 1) * 2048"
      using p by (intro mult_le_mono) auto
    then show ?thesis by simp
  qed
  have select: "outcome (bcj2_failure maximum) (select_symbol index p bound rc) t
      (\<lambda>(_, rc') u. u = t \<and> range_ok t rc')" if "unat (drop_bit 11 (rc_range rc)) * unat p = unat bound" for bound
    by (rule select_symbol_outcome [OF assms p_def]) (use that in \<open>simp add: unat_drop_bit\<close>)
  have refill: "outcome (bcj2_failure maximum) (and_then (cursor_read_byte (rc_input rc')) (\<lambda>(byte, input).
       ok (selected, rc'\<lparr>rc_input := input, rc_code := push_bit 8 (rc_code rc') OR ucast byte,
                        rc_range := push_bit 8 (rc_range rc')\<rparr>))) t
      (\<lambda>(_, rc') u. still t u \<and> range_ok u rc')" if "range_ok t rc'" for rc' selected
  proof (rule outcome_and_then, rule outcome_weaken [OF cursor_read_byte_outcome])
    show "cursor_ok t (rc_input rc')" using that by (simp add: range_ok_def)
  qed (use that in \<open>auto intro!: outcome_ok simp: range_ok_def\<close>)
  obtain bound where b: "checked_mul (drop_bit 11 (rc_range rc)) p = Some bound"
    using fits by (simp add: checked_mul_def)
  then have "unat (drop_bit 11 (rc_range rc)) * unat p = unat bound" by (simp add: checked_mul_eq_Some)
  note select = select [OF this]
  have "item_get (rc_probabilities rc) index = Some p"
    using assms by (simp add: item_get_def range_ok_def p_def)
  moreover have "outcome (bcj2_failure maximum) (and_then (select_symbol index p bound rc) (\<lambda>(selected, rc).
     if rc_range rc < push_bit 24 1 then
       and_then (cursor_read_byte (rc_input rc)) (\<lambda>(byte, input).
       ok (selected, rc\<lparr>rc_input := input, rc_code := push_bit 8 (rc_code rc) OR ucast byte,
                        rc_range := push_bit 8 (rc_range rc)\<rparr>))
     else ok (selected, rc))) t (\<lambda>(_, rc') u. still t u \<and> range_ok u rc')"
    by (rule outcome_and_then, rule outcome_weaken [OF select]) (auto intro!: outcome_ok refill)
  ultimately show ?thesis
    using b by (simp add: bcj2_decode_def)
qed

lemma probability_index_bound: "bcj2_probability_index previous current < 258"
  using unat_less_8 [of previous] by (simp add: bcj2_probability_index_def del: unat_less_8)


section \<open>The merging loop\<close>

lemma reserve_output_outcome:
  assumes "length output \<le> unat maximum" and "additional \<le> 4"
    and "unat maximum + 4 \<le> usize_max (machine t)" and "usize_max (machine t) < 2 ^ 64"
  shows "outcome (bcj2_failure maximum) (reserve_output output additional maximum) t
    (\<lambda>_ u. still t u \<and> length output + additional \<le> unat maximum)"
proof -
  have n: "unat (of_nat (length output + additional) :: u64) = length output + additional"
    using assms by (intro unat_of_nat_u64) simp
  show ?thesis
    unfolding reserve_output_def
    by (intro outcome_and_then outcome_usize_add outcome_usize_to_u64 outcome_check_limit outcome_reserve_exact)
      (use assms n in \<open>auto simp: word_le_nat_alt intro: bcj2_failureI\<close>)
qed

definition bcj2_invariant :: "session \<Rightarrow> u64 \<Rightarrow> bcj2_state \<Rightarrow> session \<Rightarrow> bool" where
  "bcj2_invariant s maximum st t \<longleftrightarrow> still s t \<and> cursor_ok t (bcj2_main st) \<and> cursor_ok t (bcj2_call st) \<and>
     cursor_ok t (bcj2_jump st) \<and> range_ok t (bcj2_coder st) \<and> length (bcj2_output st) \<le> unat maximum"

definition bcj2_room :: "session \<Rightarrow> u64 \<Rightarrow> bool" where
  "bcj2_room s maximum \<longleftrightarrow> unat maximum + 4 \<le> usize_max (machine s) \<and> usize_max (machine s) < 2 ^ 64"

lemma bcj2_invariant_later:
  "bcj2_invariant s maximum st t \<Longrightarrow> still t u \<Longrightarrow> bcj2_invariant s maximum st u"
  by (auto simp: bcj2_invariant_def intro: still_trans cursor_ok_later range_ok_later)

lemma narrow_top_byte: "\<exists>b :: u8. narrow (drop_bit 24 (v :: u32)) = Some b"
proof -
  have "unat (drop_bit 24 v) < 256"
    unfolding unat_drop_bit using less_mult_imp_div_less [of "unat v" 256 "2 ^ 24"] by simp
  then show ?thesis by (simp add: narrow_def)
qed

lemma bcj2_branch_outcome:
  assumes inv: "bcj2_invariant s maximum st t" and room: "bcj2_room s maximum"
  shows "outcome (bcj2_failure maximum) (bcj2_branch maximum byte st) t (bcj2_invariant s maximum)"
proof -
  let ?side = "if byte = 0xe8
      then and_then (cursor_read_u32_be (bcj2_call st)) (\<lambda>(encoded, call).
           ok (encoded, st\<lparr>bcj2_call := call\<rparr>))
      else and_then (cursor_read_u32_be (bcj2_jump st)) (\<lambda>(encoded, jump).
           ok (encoded, st\<lparr>bcj2_jump := jump\<rparr>))"
  have read: "outcome (bcj2_failure maximum) (cursor_read_u32_be c) t (\<lambda>(w, d) u. still t u \<and> cursor_ok u d)"
    if "c = bcj2_call st \<or> c = bcj2_jump st" for c
    by (rule cursor_read_u32_be_outcome) (use that inv in \<open>auto simp: bcj2_invariant_def\<close>)
  have inv_t: "bcj2_invariant s maximum st u" if "still t u" for u
    by (rule bcj2_invariant_later [OF inv that])
  have side: "outcome (bcj2_failure maximum) ?side t (\<lambda>r u. bcj2_invariant s maximum (snd r) u)"
    by (rule outcome_if; rule outcome_and_then; rule outcome_weaken [OF read])
      (use inv_t in \<open>auto intro!: outcome_ok simp: bcj2_invariant_def\<close>)
  obtain b where b: "\<And>v. narrow (drop_bit 24 (v :: u32)) = Some (b v :: u8)"
    using narrow_top_byte by metis
  show ?thesis
    unfolding bcj2_branch_def
  proof (rule outcome_bind [OF side], goal_cases)
    case (1 r u)
    obtain encoded st' where p: "r = (encoded, st')" by force
    have out: "length (bcj2_output st') \<le> unat maximum" and still: "still s u"
      using 1 p by (simp_all add: bcj2_invariant_def)
    have reserve: "outcome (bcj2_failure maximum) (reserve_output (bcj2_output st') 4 maximum) u
        (\<lambda>_ v. still u v \<and> length (bcj2_output st') + 4 \<le> unat maximum)"
      by (rule reserve_output_outcome [OF out]) (use room still in \<open>simp_all add: bcj2_room_def still_def\<close>)
    have fin: "bcj2_invariant s maximum (st'\<lparr>bcj2_output := bcj2_output st' @ to_le_bytes 4 w,
        bcj2_previous := x, bcj2_written := y\<rparr>) v"
      if "still u v" "length (bcj2_output st') + 4 \<le> unat maximum" for w x y v
      using bcj2_invariant_later [OF 1 that(1)] that(2) p by (simp add: bcj2_invariant_def)
    show ?case
      unfolding p prod.case Let_def b
      by (rule outcome_bind [OF reserve]) (auto intro!: outcome_ok fin)
  qed
qed

lemma bcj2_step_outcome:
  assumes inv: "bcj2_invariant s maximum st t" and room: "bcj2_room s maximum"
  shows "outcome (bcj2_failure maximum) (bcj2_step maximum st) t (bcj2_invariant s maximum)"
proof -
  have read: "outcome (bcj2_failure maximum) (cursor_read_byte (bcj2_main st)) t
      (\<lambda>(b, d) u. still t u \<and> cursor_ok u d)"
    by (rule cursor_read_byte_outcome) (use inv in \<open>simp add: bcj2_invariant_def\<close>)
  show ?thesis
    unfolding bcj2_step_def
  proof (rule outcome_bind [OF read], goal_cases)
    case (1 r u)
    obtain byte main where p: "r = (byte, main)" by force
    have u: "bcj2_invariant s maximum st u" and main: "cursor_ok u main"
      using 1 p bcj2_invariant_later [OF inv] by auto
    have reserve: "outcome (bcj2_failure maximum) (reserve_output (bcj2_output st) 1 maximum) u
        (\<lambda>_ v. still u v \<and> length (bcj2_output st) + 1 \<le> unat maximum)"
      by (rule reserve_output_outcome)
        (use room u in \<open>auto simp: bcj2_room_def still_def bcj2_invariant_def\<close>)
    show ?case
      unfolding p prod.case Let_def
    proof (rule outcome_bind [OF reserve], goal_cases)
      case (1 x v)
      define st' where "st' = st\<lparr>bcj2_main := main, bcj2_output := bcj2_output st @ [byte],
        bcj2_written := bcj2_written st + 1\<rparr>"
      have inv': "bcj2_invariant s maximum st' v"
        using bcj2_invariant_later [OF u, of v] 1 cursor_ok_later [OF main, of v]
        by (simp add: bcj2_invariant_def st'_def)
      have dec: "outcome (bcj2_failure maximum) (bcj2_decode (bcj2_probability_index k byte) (bcj2_coder st')) v
          (\<lambda>(_, rc) w. still v w \<and> range_ok w rc)" for k
        by (rule bcj2_decode_outcome [OF _ probability_index_bound])
          (use inv' in \<open>simp add: bcj2_invariant_def\<close>)
      have coded: "bcj2_invariant s maximum (st'\<lparr>bcj2_coder := rc\<rparr>) w" if "still v w" "range_ok w rc" for rc w
        using bcj2_invariant_later [OF inv' that(1)] that(2) by (simp add: bcj2_invariant_def)
      have plain: "bcj2_invariant s maximum (q\<lparr>bcj2_previous := x\<rparr>) v"
        if "bcj2_invariant s maximum q v" for q x v
        using that by (simp add: bcj2_invariant_def)
      show ?case
        unfolding st'_def [symmetric]
        by (intro outcome_if outcome_ok plain inv' outcome_bind [OF dec])
          (auto intro!: outcome_ok bcj2_branch_outcome [OF _ room] coded plain)
    qed
  qed
qed

text \<open>C10: The BCJ2 decoder produces no more than its limit and exactly the declared size. Its failures
  are those of the resources, the output limit, the truncation or the inconsistency of its streams:
  none of the overflow and range checks of its arithmetic can fire.\<close>

theorem bcj2_safe:
  assumes streams: "\<forall>x \<in> set inputs. length x < usize_max (machine s)"
    and room: "unat maximum + 4 \<le> usize_max (machine s)" "usize_max (machine s) < 2 ^ 64"
  shows "case decode_bcj2 inputs properties expected maximum s of
      (Inr out, t) \<Rightarrow> length out \<le> unat maximum \<and> (\<forall>e. expected = Some e \<longrightarrow> length out = unat e)
    | (Inl e, t) \<Rightarrow> bcj2_failure maximum e"
proof -
  have item: "length x < usize_max (machine s)" if "item_get inputs i = Some x" for i x
    using that streams by (auto simp: item_get_eq_Some)
  have room': "bcj2_room s maximum" using room by (simp add: bcj2_room_def)
  have loop: "outcome (bcj2_failure maximum) (bcj2_loop maximum st) t (bcj2_invariant s maximum)"
    if "bcj2_invariant s maximum st t" for st t
    by (rule bcj2.loop_outcome [where I = "bcj2_invariant s maximum"])
      (use that bcj2_step_outcome [OF _ room'] in auto)
  have new: "outcome (bcj2_failure maximum) (bcj2_range_new x) t (\<lambda>rc u. still t u \<and> range_ok u rc)"
    if "item_get inputs i = Some x" "still s t" for i x t
    by (rule bcj2_range_new_outcome) (use item [OF that(1)] that(2) in \<open>simp add: still_def\<close>)
  have start: "bcj2_invariant s maximum
      \<lparr>bcj2_main = bcj2_cursor_new m, bcj2_call = bcj2_cursor_new c, bcj2_jump = bcj2_cursor_new j,
       bcj2_coder = rc, bcj2_output = [], bcj2_previous = 0, bcj2_written = 0\<rparr> u"
    if "item_get inputs i1 = Some m" "item_get inputs i2 = Some c" "item_get inputs i3 = Some j"
      "still s t" "still t u" "range_ok u rc" for m c j rc t u i1 i2 i3
    using that item [OF that(1)] item [OF that(2)] item [OF that(3)] still_trans [OF that(4,5)]
    by (simp add: bcj2_invariant_def cursor_ok_def bcj2_cursor_new_def still_def)
  have out: "length (bcj2_output st) \<le> unat maximum \<and> length (bcj2_output st) < 18446744073709551616"
    if "bcj2_invariant s maximum st t" for st t
    using that le_less_trans [OF _ unat_less_64 [of maximum]] by (auto simp: bcj2_invariant_def)
  have "outcome (bcj2_failure maximum) (decode_bcj2 inputs properties expected maximum) s
      (\<lambda>out _. length out \<le> unat maximum \<and> (\<forall>e. expected = Some e \<longrightarrow> length out = unat e))"
    unfolding decode_bcj2_def
    by (intro outcome_and_then outcome_err_if outcome_ok_or outcome_check_limit outcome_option
        outcome_u64_to_usize outcome_try_reserve outcome_ok outcome_usize_to_u64 outcome_weaken [OF new]
        outcome_weaken [OF loop])
      (auto simp: bcj2_details_def intro: start [OF _ _ _ still_refl] start dest: out intro!: bcj2_failureI)
  then show ?thesis by (simp add: outcome_def split: prod.splits sum.splits)
qed

lemma bcj2_safe_witness:
  "case decode_bcj2 [[0x61, 0x62, 0x63], [], [], [0, 0, 0, 0, 0]] [] (Some 3) 3 (sample_session []) of
      (Inr out, t) \<Rightarrow> length out \<le> unat (3 :: u64) \<and> (\<forall>e. Some 3 = Some e \<longrightarrow> length out = unat (e :: u64))
    | (Inl e, t) \<Rightarrow> bcj2_failure 3 e"
  by (rule bcj2_safe) (simp_all add: sample_session_def)

end
