(* ===== verification/Callbacks.thy ===== *)
theory Callbacks
  imports Byte_Access
begin

text \<open>
  The boundary to code of the caller.  A \<open>dyn Write\<close> or an entry sink is not part of the crate: what
  the crate does to it is the sequence of calls, kept as a log beside the session, and what it
  answers is an oracle over that log.  The second half is the calculus for such logs.
\<close>


section \<open>Calls\<close>

type_synonym ('e, 'a) dialogue = "(session \<times> 'e list, 'a) comp"

text \<open>Code that does not talk to the caller, whatever is kept of the caller's side.\<close>

definition internal :: "'a op \<Rightarrow> (session \<times> 'w, 'a) comp" where
  "internal m = (\<lambda>(s, log). case m s of (r, t) \<Rightarrow> (r, (t, log)))"

text \<open>One call: the callee has seen the calls before it and may refuse with an error.\<close>

definition call_back :: "('e list \<Rightarrow> 'e \<Rightarrow> error option) \<Rightarrow> 'e \<Rightarrow> ('e, unit) dialogue" where
  "call_back answer e = (\<lambda>(s, log).
     (case answer log e of None \<Rightarrow> Inr () | Some x \<Rightarrow> Inl x, (s, log @ [e])))"

text \<open>\<open>for chunk in data.chunks(IO_CHUNK_SIZE) { control.consume_bytes(chunk)?; .. }\<close>\<close>

definition IO_CHUNK_SIZE :: nat where
  "IO_CHUNK_SIZE = 8192"

definition deliver ::
    "('e list \<Rightarrow> 'e \<Rightarrow> error option) \<Rightarrow> (byte_slice \<Rightarrow> 'e) \<Rightarrow> byte_slice \<Rightarrow> ('e, unit) dialogue" where
  "deliver answer wrap data =
     for_fold (chunks IO_CHUNK_SIZE data) () (\<lambda>_ chunk.
     and_then (internal (consume_bytes chunk)) (\<lambda>_. call_back answer (wrap chunk)))"

text \<open>
  \<open>writer.write_all(chunk).map_err(Error::Io)\<close>: the writer answers with an \<open>io::Error\<close> or accepts.
\<close>

type_synonym writer = "byte_slice list \<Rightarrow> byte_slice \<Rightarrow> (io_error_kind \<times> string) option"

definition written :: "writer \<Rightarrow> byte_slice list \<Rightarrow> byte_slice \<Rightarrow> error option" where
  "written w log chunk = map_option (\<lambda>(kind, message). Io kind message) (w log chunk)"


section \<open>Logs\<close>

text \<open>
  \<open>emits events m s\<close>: from \<open>s\<close> on, \<open>m\<close> makes the calls \<open>events\<close> in this order; a run that fails may
  have stopped on the way, a run that succeeds has made them all.
\<close>

definition emits :: "'e list \<Rightarrow> ('e, 'a) dialogue \<Rightarrow> session \<times> 'e list \<Rightarrow> bool" where
  "emits events m s \<longleftrightarrow> (\<forall>r t. m s = (r, t) \<longrightarrow>
     (\<exists>sent rest. events = sent @ rest \<and> snd t = snd s @ sent \<and> (\<not> isl r \<longrightarrow> rest = [])))"

lemma emitsD:
  "emits events m s \<Longrightarrow> m s = (r, t) \<Longrightarrow>
     \<exists>sent rest. events = sent @ rest \<and> snd t = snd s @ sent \<and> (\<not> isl r \<longrightarrow> rest = [])"
  unfolding emits_def by blast

lemma emits_and_then:
  assumes "emits es m s" and "\<And>x t. m s = (Inr x, t) \<Longrightarrow> emits fs (f x) t"
  shows "emits (es @ fs) (and_then m f) s"
  unfolding emits_def
proof (intro allI impI)
  fix r u assume run: "and_then m f s = (r, u)"
  obtain q t where m: "m s = (q, t)" by (cases "m s")
  from emitsD [OF assms(1) m] obtain sent rest where sent: "es = sent @ rest" "snd t = snd s @ sent"
    "\<not> isl q \<longrightarrow> rest = []"
    by blast
  show "\<exists>sent rest. es @ fs = sent @ rest \<and> snd u = snd s @ sent \<and> (\<not> isl r \<longrightarrow> rest = [])"
  proof (cases q)
    case (Inl e)
    with run m sent show ?thesis by (auto simp: and_then_def)
  next
    case (Inr x)
    with run m have "f x t = (r, u)" by (simp add: and_then_def)
    from emitsD [OF assms(2) this] m Inr obtain sent' rest' where "fs = sent' @ rest'"
      "snd u = snd t @ sent'" "\<not> isl r \<longrightarrow> rest' = []"
      by blast
    with sent Inr show ?thesis by auto
  qed
qed

lemma emits_silent_then:
  "emits [] m s \<Longrightarrow> (\<And>x t. m s = (Inr x, t) \<Longrightarrow> emits fs (f x) t) \<Longrightarrow> emits fs (and_then m f) s"
  using emits_and_then [of "[]" m s fs f] by simp

lemma emits_call_then:
  "(\<And>t. call_back answer e s = (Inr (), t) \<Longrightarrow> emits fs (f ()) t) \<Longrightarrow>
     emits (e # fs) (and_then (call_back answer e) f) s"
  using emits_and_then [of "[e]" "call_back answer e" s fs f]
  by (auto simp: emits_def call_back_def split: option.splits prod.splits)

lemma emits_call: "emits [e] (call_back answer e) s"
  by (auto simp: emits_def call_back_def split: option.splits prod.splits)

lemma emits_internal: "emits [] (internal m) s"
  by (auto simp: emits_def internal_def split: prod.splits)

lemma emits_ok: "emits [] (ok x) s"
  by (simp add: emits_def ok_def)

lemma emits_for_fold:
  assumes "\<And>a b s. b \<in> set bs \<Longrightarrow> emits (g b) (f a b) s"
  shows "emits (concat (map g bs)) (for_fold bs a f) s"
  using assms
proof (induction bs arbitrary: a s)
  case (Cons b bs a s)
  have "emits (g b @ concat (map g bs)) (and_then (f a b) (\<lambda>x. for_fold bs x f)) s"
    by (rule emits_and_then) (auto intro!: Cons.prems Cons.IH)
  then show ?case by simp
qed (simp add: emits_ok)

lemma emits_deliver: "emits (map wrap (chunks IO_CHUNK_SIZE data)) (deliver answer wrap data) s"
proof -
  have "emits (concat (map (\<lambda>chunk. [wrap chunk]) (chunks IO_CHUNK_SIZE data)))
      (deliver answer wrap data) s"
    unfolding deliver_def
    by (intro emits_for_fold emits_silent_then [OF emits_internal] emits_call)
  then show ?thesis by simp
qed


section \<open>Outcomes\<close>

lemma internal_success [success]:
  "internal m s = (Inr x, t) \<longleftrightarrow> m (fst s) = (Inr x, fst t) \<and> snd t = snd s"
  by (cases s, cases t) (auto simp: internal_def split: prod.splits)

lemma call_back_success [success]:
  "call_back answer e s = (Inr x, t) \<longleftrightarrow> answer (snd s) e = None \<and> t = (fst s, snd s @ [e])"
  by (cases s, cases t) (auto simp: call_back_def split: option.splits)

lemma outcome_internal:
  "outcome E m (fst s) (\<lambda>x t. Q x (t, snd s)) \<Longrightarrow> outcome E (internal m) s Q"
  by (cases s) (auto simp: outcome_def internal_def split: prod.splits sum.splits)

lemma outcome_call_back:
  "(\<And>e'. answer (snd s) e = Some e' \<Longrightarrow> E e') \<Longrightarrow>
     (answer (snd s) e = None \<Longrightarrow> Q () (fst s, snd s @ [e])) \<Longrightarrow> outcome E (call_back answer e) s Q"
  by (cases s) (auto simp: outcome_def call_back_def split: option.splits)

text \<open>Bytes are paid for or the budget is exhausted; nothing else can happen to them.\<close>

lemma outcome_consume_bytes:
  assumes "\<And>e. resource_error e \<Longrightarrow> E e" and "\<And>t. still s t \<Longrightarrow> Q () t"
  shows "outcome E (consume_bytes bs) s Q"
  unfolding consume_bytes_def
proof (intro outcome_if)
  show "outcome E (for_fold (chunks CONTROL_CHUNK_SIZE bs) () (\<lambda>_ chunk.
      and_then (usize_to_u64 (length chunk) ''work chunk length is not representable as u64'')
        checkpoint)) s Q"
    by (rule outcome_for_fold [where I = "\<lambda>_ _. still s"])
      (auto intro!: outcome_and_then outcome_usize_to_u64 outcome_checkpoint assms
        intro: still_trans dest!: chunks_bound in_set_conv_decomp [THEN iffD2, OF exI, OF exI]
        simp: CONTROL_CHUNK_SIZE_def)
qed (intro outcome_checkpoint assms)

lemma outcome_deliver:
  assumes "\<And>e. resource_error e \<Longrightarrow> E e"
    and "\<And>log chunk e. answer log (wrap chunk) = Some e \<Longrightarrow> E e"
    and "\<And>t. still (fst s) (fst t) \<Longrightarrow> snd t = snd s @ map wrap (chunks IO_CHUNK_SIZE data) \<Longrightarrow> Q () t"
  shows "outcome E (deliver answer wrap data) s Q"
  unfolding deliver_def
  by (rule outcome_for_fold [where I = "\<lambda>past _ t. still (fst s) (fst t) \<and> snd t = snd s @ map wrap past"])
    (auto intro!: outcome_and_then outcome_internal outcome_consume_bytes outcome_call_back assms(3)
      intro: assms(1,2) still_trans)

end
