(* ===== verification/Cpio.thy ===== *)
theory Cpio
  imports Callbacks
begin

text \<open>
  \<^verbatim>\<open>crates/unpackio/src/cpio.rs\<close>: CPIO archives held in memory.  Numbers and headers of the four
  representations, the member loop, the archive and its extraction to a writer or an entry sink.
  \<open>open_path\<close> and \<open>read_path\<close> read a file and are not modelled; \<open>name_lossy\<close> is for display.
  \<^verbatim>\<open>rpm/cpio.rs\<close> calls \<open>parse_entries\<close> and \<open>byte_sum\<close>.
\<close>

definition cpio_error :: "string \<Rightarrow> error" where
  "cpio_error detail = format_error (''CPIO: '' @ detail)"

definition ascii :: "string \<Rightarrow> byte_slice" where
  "ascii cs = map of_char cs"

definition NEWC_HEADER_BYTES :: u64 where "NEWC_HEADER_BYTES = 110"
definition ODC_HEADER_BYTES :: u64 where "ODC_HEADER_BYTES = 76"
definition BINARY_HEADER_BYTES :: u64 where "BINARY_HEADER_BYTES = 26"
definition MAGIC_NEWC :: byte_slice where "MAGIC_NEWC = ascii ''070701''"
definition MAGIC_CRC :: byte_slice where "MAGIC_CRC = ascii ''070702''"
definition MAGIC_ODC :: byte_slice where "MAGIC_ODC = ascii ''070707''"
definition MAGIC_LARGE :: byte_slice where "MAGIC_LARGE = ascii ''07070X''"
definition BINARY_MAGIC :: u16 where "BINARY_MAGIC = 0x71c7"
definition TRAILER :: byte_slice where "TRAILER = ascii ''TRAILER!!!''"


section \<open>Data\<close>

datatype cpio_format =
  Newc | CrcNewc | Odc | BinaryLittleEndian | BinaryBigEndian | Mixed

record cpio_entry =
  ce_index :: u64
  ce_format :: cpio_format
  ce_raw_name :: byte_slice
  ce_inode :: u32
  ce_mode :: u32
  ce_uid :: u32
  ce_gid :: u32
  ce_link_count :: u32
  ce_modified_time :: u64
  ce_size :: u64
  ce_device_major :: u32
  ce_device_minor :: u32
  ce_rdev_major :: u32
  ce_rdev_minor :: u32
  ce_checksum :: "u32 option"
  ce_data_start :: u64
  ce_data_end :: u64

text \<open>The file-type bits of a mode, in octal \<open>0o170_000\<close>.\<close>

definition is_regular_file :: "cpio_entry \<Rightarrow> bool" where
  "is_regular_file entry \<longleftrightarrow> ce_mode entry AND 0xF000 = 0x8000"

definition is_directory :: "cpio_entry \<Rightarrow> bool" where
  "is_directory entry \<longleftrightarrow> ce_mode entry AND 0xF000 = 0x4000"

definition cpio_is_symlink :: "cpio_entry \<Rightarrow> bool" where
  "cpio_is_symlink entry \<longleftrightarrow> ce_mode entry AND 0xF000 = 0xA000"

record parsed_header =
  ph_format :: cpio_format
  ph_header_bytes :: u64
  ph_alignment :: u64
  ph_inode :: u32
  ph_mode :: u32
  ph_uid :: u32
  ph_gid :: u32
  ph_link_count :: u32
  ph_modified_time :: u64
  ph_file_size :: u64
  ph_device_major :: u32
  ph_device_minor :: u32
  ph_rdev_major :: u32
  ph_rdev_minor :: u32
  ph_name_size :: u64
  ph_checksum :: "u32 option"


section \<open>Numbers\<close>

definition hex_digit :: "string \<Rightarrow> u8 \<Rightarrow> u32 op" where
  "hex_digit detail byte =
     (if 0x30 \<le> byte \<and> byte \<le> 0x39 then
        and_then (ok_or (cpio_error detail) (checked_sub byte 0x30)) (\<lambda>d. ok (ucast d))
      else if 0x61 \<le> byte \<and> byte \<le> 0x66 then
        and_then (ok_or (cpio_error detail) (checked_sub byte 0x61)) (\<lambda>d.
        ok_or (cpio_error detail) (checked_add (ucast d) 10))
      else if 0x41 \<le> byte \<and> byte \<le> 0x46 then
        and_then (ok_or (cpio_error detail) (checked_sub byte 0x41)) (\<lambda>d.
        ok_or (cpio_error detail) (checked_add (ucast d) 10))
      else err (cpio_error detail))"

definition hex_u32 :: "byte_slice \<Rightarrow> u64 \<Rightarrow> string \<Rightarrow> u32 op" where
  "hex_u32 bytes offset detail =
     and_then (checked_range bytes offset 8 detail detail) (\<lambda>digits.
     for_fold digits 0 (\<lambda>value digit.
       and_then (hex_digit detail digit) (\<lambda>nibble.
       ok_or (cpio_error detail)
         (Option.bind (checked_mul value 16) (\<lambda>current. checked_add current nibble)))))"

definition octal_digit :: "u8 \<Rightarrow> u8 option" where
  "octal_digit byte = Option.bind (checked_sub byte 0x30) (\<lambda>v. if v < 8 then Some v else None)"

definition cpio_octal_u64 :: "byte_slice \<Rightarrow> u64 \<Rightarrow> u64 \<Rightarrow> string \<Rightarrow> u64 op" where
  "cpio_octal_u64 bytes offset len detail =
     and_then (checked_range bytes offset len detail detail) (\<lambda>digits.
     for_fold digits 0 (\<lambda>value digit.
       and_then (ok_or (cpio_error detail) (octal_digit digit)) (\<lambda>octet.
       ok_or (cpio_error detail)
         (Option.bind (checked_mul value 8) (\<lambda>current. checked_add current (ucast octet))))))"

definition octal_u32 :: "byte_slice \<Rightarrow> u64 \<Rightarrow> u64 \<Rightarrow> string \<Rightarrow> u32 op" where
  "octal_u32 bytes offset len detail =
     and_then (cpio_octal_u64 bytes offset len detail) (\<lambda>value.
     ok_or (cpio_error detail) (narrow value))"

definition align_up :: "u64 \<Rightarrow> u64 \<Rightarrow> u64 op" where
  "align_up value alignment =
     and_then (err_if (alignment = 0) (cpio_error ''alignment is zero'')) (\<lambda>_.
     let remainder = value mod alignment
     in and_then (if remainder = 0 then ok 0
          else ok_or (cpio_error ''alignment underflows'') (checked_sub alignment remainder))
        (\<lambda>padding. ok_or (cpio_error ''alignment overflows'') (checked_add value padding)))"

definition combine_words :: "u16 \<Rightarrow> u16 \<Rightarrow> u64" where
  "combine_words high low = push_bit 16 (ucast high) OR ucast low"


section \<open>Headers\<close>

definition parse_newc_header :: "byte_slice \<Rightarrow> u64 \<Rightarrow> bool \<Rightarrow> parsed_header op" where
  "parse_newc_header payload offset has_checksum =
     and_then (checked_range payload offset NEWC_HEADER_BYTES
       ''CPIO newc header range overflows'' ''CPIO newc header is truncated'') (\<lambda>header.
     and_then (hex_u32 header 102 ''CPIO checksum is invalid'') (\<lambda>declared_checksum.
     and_then (err_if (\<not> has_checksum \<and> declared_checksum \<noteq> 0)
       (cpio_error ''newc entry has a nonzero checksum field'')) (\<lambda>_.
     and_then (hex_u32 header 6 ''CPIO inode is invalid'') (\<lambda>inode.
     and_then (hex_u32 header 14 ''CPIO mode is invalid'') (\<lambda>mode.
     and_then (hex_u32 header 22 ''CPIO uid is invalid'') (\<lambda>uid.
     and_then (hex_u32 header 30 ''CPIO gid is invalid'') (\<lambda>gid.
     and_then (hex_u32 header 38 ''CPIO link count is invalid'') (\<lambda>link_count.
     and_then (hex_u32 header 46 ''CPIO mtime is invalid'') (\<lambda>mtime.
     and_then (hex_u32 header 54 ''CPIO file size is invalid'') (\<lambda>file_size.
     and_then (hex_u32 header 62 ''CPIO device major is invalid'') (\<lambda>device_major.
     and_then (hex_u32 header 70 ''CPIO device minor is invalid'') (\<lambda>device_minor.
     and_then (hex_u32 header 78 ''CPIO rdev major is invalid'') (\<lambda>rdev_major.
     and_then (hex_u32 header 86 ''CPIO rdev minor is invalid'') (\<lambda>rdev_minor.
     and_then (hex_u32 header 94 ''CPIO name size is invalid'') (\<lambda>name_size.
     ok \<lparr>ph_format = (if has_checksum then CrcNewc else Newc),
         ph_header_bytes = NEWC_HEADER_BYTES, ph_alignment = 4, ph_inode = inode, ph_mode = mode,
         ph_uid = uid, ph_gid = gid, ph_link_count = link_count, ph_modified_time = ucast mtime,
         ph_file_size = ucast file_size, ph_device_major = device_major,
         ph_device_minor = device_minor, ph_rdev_major = rdev_major, ph_rdev_minor = rdev_minor,
         ph_name_size = ucast name_size,
         ph_checksum = (if has_checksum then Some declared_checksum else None)\<rparr>)))))))))))))))"

definition parse_odc_header :: "byte_slice \<Rightarrow> u64 \<Rightarrow> parsed_header op" where
  "parse_odc_header payload offset =
     and_then (checked_range payload offset ODC_HEADER_BYTES
       ''CPIO odc header range overflows'' ''CPIO odc header is truncated'') (\<lambda>header.
     and_then (octal_u32 header 6 6 ''CPIO odc device is invalid'') (\<lambda>device.
     and_then (octal_u32 header 42 6 ''CPIO odc rdev is invalid'') (\<lambda>rdev.
     and_then (octal_u32 header 12 6 ''CPIO odc inode is invalid'') (\<lambda>inode.
     and_then (octal_u32 header 18 6 ''CPIO odc mode is invalid'') (\<lambda>mode.
     and_then (octal_u32 header 24 6 ''CPIO odc uid is invalid'') (\<lambda>uid.
     and_then (octal_u32 header 30 6 ''CPIO odc gid is invalid'') (\<lambda>gid.
     and_then (octal_u32 header 36 6 ''CPIO odc link count is invalid'') (\<lambda>link_count.
     and_then (cpio_octal_u64 header 48 11 ''CPIO odc mtime is invalid'') (\<lambda>modified_time.
     and_then (cpio_octal_u64 header 59 6 ''CPIO odc name size is invalid'') (\<lambda>name_size.
     and_then (cpio_octal_u64 header 65 11 ''CPIO odc file size is invalid'') (\<lambda>file_size.
     ok \<lparr>ph_format = Odc, ph_header_bytes = ODC_HEADER_BYTES, ph_alignment = 1, ph_inode = inode,
         ph_mode = mode, ph_uid = uid, ph_gid = gid, ph_link_count = link_count,
         ph_modified_time = modified_time, ph_file_size = file_size, ph_device_major = 0,
         ph_device_minor = device, ph_rdev_major = 0, ph_rdev_minor = rdev,
         ph_name_size = name_size, ph_checksum = None\<rparr>)))))))))))"

definition header_word :: "byte_slice \<Rightarrow> bool \<Rightarrow> u64 \<Rightarrow> string \<Rightarrow> u16 op" where
  "header_word header little_endian word_index detail =
     and_then (ok_or (cpio_error ''binary header offset overflows'') (checked_mul word_index 2))
       (\<lambda>byte_offset.
     and_then (checked_range header byte_offset 2 detail detail) (\<lambda>bytes.
     and_then (ok_or (cpio_error detail) (item_get bytes 0)) (\<lambda>first.
     and_then (ok_or (cpio_error detail) (item_get bytes 1)) (\<lambda>second.
     ok (if little_endian then from_le_bytes [first, second]
         else from_be_bytes [first, second])))))"

definition parse_binary_header :: "byte_slice \<Rightarrow> u64 \<Rightarrow> bool \<Rightarrow> parsed_header op" where
  "parse_binary_header payload offset little_endian =
     and_then (checked_range payload offset BINARY_HEADER_BYTES
       ''CPIO binary header range overflows'' ''CPIO binary header is truncated'') (\<lambda>header.
     let word = header_word header little_endian in
     and_then (word 0 ''CPIO binary magic is invalid'') (\<lambda>magic.
     and_then (err_if (magic \<noteq> BINARY_MAGIC) (cpio_error ''binary magic is invalid'')) (\<lambda>_.
     and_then (word 1 ''CPIO binary device is invalid'') (\<lambda>device.
     and_then (word 7 ''CPIO binary rdev is invalid'') (\<lambda>rdev.
     and_then (word 8 ''CPIO binary mtime is invalid'') (\<lambda>mtime_high.
     and_then (word 9 ''CPIO binary mtime is invalid'') (\<lambda>mtime_low.
     and_then (word 11 ''CPIO binary file size is invalid'') (\<lambda>size_high.
     and_then (word 12 ''CPIO binary file size is invalid'') (\<lambda>size_low.
     and_then (word 2 ''CPIO binary inode is invalid'') (\<lambda>inode.
     and_then (word 3 ''CPIO binary mode is invalid'') (\<lambda>mode.
     and_then (word 4 ''CPIO binary uid is invalid'') (\<lambda>uid.
     and_then (word 5 ''CPIO binary gid is invalid'') (\<lambda>gid.
     and_then (word 6 ''CPIO binary link count is invalid'') (\<lambda>link_count.
     and_then (word 10 ''CPIO binary name size is invalid'') (\<lambda>name_size.
     ok \<lparr>ph_format = (if little_endian then BinaryLittleEndian else BinaryBigEndian),
         ph_header_bytes = BINARY_HEADER_BYTES, ph_alignment = 2, ph_inode = ucast inode,
         ph_mode = ucast mode, ph_uid = ucast uid, ph_gid = ucast gid,
         ph_link_count = ucast link_count, ph_modified_time = combine_words mtime_high mtime_low,
         ph_file_size = combine_words size_high size_low, ph_device_major = 0,
         ph_device_minor = ucast device, ph_rdev_major = 0, ph_rdev_minor = ucast rdev,
         ph_name_size = ucast name_size, ph_checksum = None\<rparr>)))))))))))))))"

definition cpio_parse_header :: "byte_slice \<Rightarrow> u64 \<Rightarrow> parsed_header op" where
  "cpio_parse_header payload offset =
     and_then (checked_range payload offset 2
       ''CPIO magic range overflows'' ''CPIO magic is truncated'') (\<lambda>prefix.
     and_then (ok_or (cpio_error ''magic is truncated'') (item_get prefix 0)) (\<lambda>first.
     and_then (ok_or (cpio_error ''magic is truncated'') (item_get prefix 1)) (\<lambda>second.
     if [first, second] = to_le_bytes 2 (unat BINARY_MAGIC) then
       parse_binary_header payload offset True
     else if [first, second] = to_be_bytes 2 (unat BINARY_MAGIC) then
       parse_binary_header payload offset False
     else
       and_then (checked_range payload offset 6
         ''CPIO magic range overflows'' ''CPIO magic is truncated'') (\<lambda>magic.
       and_then (err_if (magic = MAGIC_LARGE) (UnsupportedFeature ''rpm-large-file-cpio'')) (\<lambda>_.
       if magic = MAGIC_NEWC \<or> magic = MAGIC_CRC then
         parse_newc_header payload offset (magic = MAGIC_CRC)
       else if magic = MAGIC_ODC then parse_odc_header payload offset
       else err (cpio_error ''magic is invalid''))))))"

section \<open>Members\<close>

definition byte_sum :: "byte_slice \<Rightarrow> u32 op" where
  "byte_sum bytes =
     for_fold (chunks CONTROL_CHUNK_SIZE bytes) 0 (\<lambda>total chunk.
     and_then (usize_to_u64 (length chunk) ''CPIO checksum chunk length is not representable'')
       (\<lambda>units.
     and_then (checkpoint units) (\<lambda>_.
     ok (foldl (\<lambda>total byte. total + ucast byte) total chunk))))"

definition cpio_verify_checksum :: "byte_slice \<Rightarrow> cpio_entry \<Rightarrow> unit op" where
  "cpio_verify_checksum data entry =
     (case ce_checksum entry of
        None \<Rightarrow> ok ()
      | Some expected \<Rightarrow>
          and_then (byte_sum data) (\<lambda>found.
          err_if (found \<noteq> expected) (Checksum Member (Some (ce_index entry)))))"

definition validate_zero_padding :: "byte_slice \<Rightarrow> u64 \<Rightarrow> u64 \<Rightarrow> unit op" where
  "validate_zero_padding bytes start finish =
     and_then (ok_or (cpio_error ''padding length underflows'') (checked_sub finish start)) (\<lambda>len.
     and_then (checked_range bytes start len
       ''CPIO padding range overflows'' ''CPIO padding is truncated'') (\<lambda>padding.
     err_if (list_ex (\<lambda>byte. byte \<noteq> 0) padding) (cpio_error ''alignment padding is nonzero'')))"

text \<open>The locals of the loop in \<open>parse_entries\<close>; \<open>cp_capacity\<close> is the capacity of \<open>entries\<close>.\<close>

record cpio_progress =
  cp_entries :: "cpio_entry list"
  cp_capacity :: nat
  cp_offset :: u64
  cp_total_name_bytes :: u64
  cp_total_header_bytes :: u64
  cp_archive_format :: "cpio_format option"
  cp_saw_trailer :: bool

definition merge_format :: "cpio_format option \<Rightarrow> cpio_format \<Rightarrow> cpio_format" where
  "merge_format seen found =
     (case seen of
        None \<Rightarrow> found
      | Some current \<Rightarrow>
          if current = Mixed then Mixed else if current = found then current else Mixed)"

text \<open>The name of the member at \<open>name_start\<close>, without its terminator, and its length.\<close>

definition cpio_name :: "byte_slice \<Rightarrow> u64 \<Rightarrow> u64 \<Rightarrow> (byte_slice \<times> u64) op" where
  "cpio_name payload name_start name_size =
     and_then (checked_range payload name_start name_size
       ''CPIO name range overflows'' ''CPIO name is truncated'') (\<lambda>name_with_nul.
     and_then (err_if (name_with_nul = [] \<or> last name_with_nul \<noteq> 0)
       (cpio_error ''name is not NUL terminated'')) (\<lambda>_.
     and_then (ok_or (cpio_error ''name length underflows'') (checked_sub name_size 1))
       (\<lambda>name_length.
     and_then (checked_range name_with_nul 0 name_length
       ''CPIO name range overflows'' ''CPIO name is truncated'') (\<lambda>name.
     and_then (err_if (0 \<in> set name) (cpio_error ''name contains an embedded NUL'')) (\<lambda>_.
     ok (name, name_length))))))"

text \<open>Where the data start and end, the data, and the end of the padded record.\<close>

definition cpio_extent ::
    "byte_slice \<Rightarrow> parsed_header \<Rightarrow> u64 \<Rightarrow> (u64 \<times> u64 \<times> byte_slice \<times> u64) op" where
  "cpio_extent payload parsed name_start =
     and_then (ok_or (cpio_error ''data offset overflows'')
       (checked_add name_start (ph_name_size parsed))) (\<lambda>unaligned_data.
     and_then (align_up unaligned_data (ph_alignment parsed)) (\<lambda>data_start.
     and_then (validate_zero_padding payload unaligned_data data_start) (\<lambda>_.
     and_then (ok_or (cpio_error ''data range overflows'')
       (checked_add data_start (ph_file_size parsed))) (\<lambda>data_end.
     and_then (checked_range payload data_start (ph_file_size parsed)
       ''CPIO data range overflows'' ''CPIO member data is truncated'') (\<lambda>data.
     and_then (align_up data_end (ph_alignment parsed)) (\<lambda>record_end.
     and_then (validate_zero_padding payload data_end record_end) (\<lambda>_.
     ok (data_start, data_end, data, record_end))))))))"

text \<open>A member that is not the trailer: limits, the copied name, the checksum, the push.\<close>

definition cpio_member ::
    "limits \<Rightarrow> parsed_header \<Rightarrow> byte_slice \<Rightarrow> u64 \<Rightarrow> u64 \<times> u64 \<times> byte_slice \<Rightarrow> cpio_progress \<Rightarrow>
     cpio_progress op" where
  "cpio_member limits parsed name name_length extent st =
     (case extent of (data_start, data_end, data) \<Rightarrow>
     and_then (usize_to_u64 (length (cp_entries st)) ''CPIO entry count is not representable'')
       (\<lambda>count.
     and_then (ok_or (cpio_error ''entry count overflows'') (checked_add count 1)) (\<lambda>next_count.
     and_then (check_limit next_count (max_files limits) Files) (\<lambda>_.
     and_then (check_limit name_length (max_name_bytes_per_entry limits) NameBytesPerEntry) (\<lambda>_.
     and_then (ok_or (cpio_error ''total name bytes overflow'')
       (checked_add (cp_total_name_bytes st) name_length)) (\<lambda>total_name_bytes.
     and_then (check_limit total_name_bytes (max_total_name_bytes limits) TotalNameBytes) (\<lambda>_.
     and_then (check_limit (ph_file_size parsed) (max_entry_output_bytes limits)
       EntryOutputBytes) (\<lambda>_.
     and_then (ok_or (cpio_error ''entry index underflows'') (checked_sub next_count 1))
       (\<lambda>entry_index.
     and_then (copy_bytes name) (\<lambda>raw_name.
     let entry = \<lparr>ce_index = entry_index, ce_format = ph_format parsed, ce_raw_name = raw_name,
           ce_inode = ph_inode parsed, ce_mode = ph_mode parsed, ce_uid = ph_uid parsed,
           ce_gid = ph_gid parsed, ce_link_count = ph_link_count parsed,
           ce_modified_time = ph_modified_time parsed, ce_size = ph_file_size parsed,
           ce_device_major = ph_device_major parsed, ce_device_minor = ph_device_minor parsed,
           ce_rdev_major = ph_rdev_major parsed, ce_rdev_minor = ph_rdev_minor parsed,
           ce_checksum = ph_checksum parsed, ce_data_start = data_start,
           ce_data_end = data_end\<rparr>
     in and_then (cpio_verify_checksum data entry) (\<lambda>_.
        and_then (make_room (length (cp_entries st)) (cp_capacity st)) (\<lambda>capacity.
        ok (st\<lparr>cp_entries := cp_entries st @ [entry], cp_capacity := capacity,
               cp_total_name_bytes := total_name_bytes\<rparr>)))))))))))))"

definition cpio_step :: "byte_slice \<Rightarrow> limits \<Rightarrow> cpio_progress \<Rightarrow> cpio_progress op" where
  "cpio_step payload limits st =
     and_then (checkpoint 1) (\<lambda>_.
     and_then (cpio_parse_header payload (cp_offset st)) (\<lambda>parsed.
     let st = st\<lparr>cp_archive_format := Some (merge_format (cp_archive_format st) (ph_format parsed))\<rparr>
     in and_then (ok_or (cpio_error ''total header bytes overflow'')
          (Option.bind (checked_add (cp_total_header_bytes st) (ph_header_bytes parsed))
            (\<lambda>value. checked_add value (ph_name_size parsed)))) (\<lambda>total_header_bytes.
     let st = st\<lparr>cp_total_header_bytes := total_header_bytes\<rparr>
     in and_then (check_limit total_header_bytes (max_header_bytes limits) HeaderBytes) (\<lambda>_.
        and_then (err_if (ph_name_size parsed = 0) (cpio_error ''name size is zero'')) (\<lambda>_.
        and_then (ok_or (cpio_error ''name offset overflows'')
          (checked_add (cp_offset st) (ph_header_bytes parsed))) (\<lambda>name_start.
        and_then (cpio_name payload name_start (ph_name_size parsed)) (\<lambda>(name, name_length).
        and_then (cpio_extent payload parsed name_start)
          (\<lambda>(data_start, data_end, data, record_end).
        if name = TRAILER then
          and_then (err_if (ph_file_size parsed \<noteq> 0) (cpio_error ''trailer has data'')) (\<lambda>_.
          ok (st\<lparr>cp_offset := record_end, cp_saw_trailer := True\<rparr>))
        else
          and_then (cpio_member limits parsed name name_length (data_start, data_end, data) st)
            (\<lambda>st. ok (st\<lparr>cp_offset := record_end\<rparr>))))))))))"

lemma align_up_success:
  "align_up v a s = (Inr w, t) \<Longrightarrow>
     a \<noteq> 0 \<and> t = s \<and> unat v \<le> unat w \<and> unat w < unat v + unat a \<and> unat a dvd unat w"
proof -
  assume run: "align_up v a s = (Inr w, t)"
  then have a: "0 < unat a" and t: "t = s" by (auto simp: align_up_def success Let_def unat_gt_0)
  have small: "unat v mod unat a < unat a" using a by simp
  have m: "unat (v mod a) = unat v mod unat a" by (simp add: unat_mod)
  show ?thesis
  proof (cases "v mod a = 0")
    case True
    with run have "w = v" by (auto simp: align_up_def success Let_def checked_add_def split: if_splits)
    with True m a t show ?thesis by (auto simp: unat_gt_0)
  next
    case False
    with run have w: "unat w = unat v + (unat a - unat v mod unat a)"
      by (auto simp: align_up_def success Let_def word_nat m)
    from False m have "0 < unat v mod unat a" by (metis gr0I unat_eq_zero)
    moreover have "unat w = unat a * (unat v div unat a) + unat a"
      using w small by (metis add_diff_inverse_nat add.assoc mult_div_mod_eq nat_less_le not_less)
    moreover from this have "unat a dvd unat w" by simp
    moreover have "unat v \<le> unat w" "unat w < unat v + unat a"
      using w small \<open>0 < unat v mod unat a\<close> by linarith+
    ultimately show ?thesis using a t by (auto simp: unat_gt_0)
  qed
qed

lemma cpio_extent_success:
  "cpio_extent payload parsed start s = (Inr (data_start, data_end, data, record_end), t) \<Longrightarrow>
     t = s \<and> unat start + unat (ph_name_size parsed) \<le> unat data_start \<and>
     unat data_end = unat data_start + unat (ph_file_size parsed) \<and>
     unat data_end \<le> length payload \<and> unat data_end \<le> unat record_end \<and>
     unat record_end \<le> length payload \<and> unat record_end \<le> usize_max (machine s) \<and>
     data = take (unat (ph_file_size parsed)) (drop (unat data_start) payload)"
  by (auto simp: cpio_extent_def validate_zero_padding_def success word_nat dest!: align_up_success)

lemma cpio_member_offset:
  "cpio_member limits parsed name n extent st s = (Inr st', t) \<Longrightarrow>
     cp_saw_trailer st' = cp_saw_trailer st \<and> cp_offset st' = cp_offset st"
  by (cases extent) (auto simp: cpio_member_def success Let_def)

definition cpio_reading :: "u64 \<Rightarrow> cpio_progress \<Rightarrow> bool" where
  "cpio_reading payload_size st \<longleftrightarrow> \<not> cp_saw_trailer st \<and> cp_offset st < payload_size"

definition cpio_left :: "u64 \<Rightarrow> cpio_progress \<Rightarrow> nat" where
  "cpio_left payload_size st =
     (if cp_saw_trailer st then 0 else Suc (unat payload_size - unat (cp_offset st)))"

text \<open>The state in which a member is admitted, after its header has been counted.\<close>

definition cpio_counted :: "parsed_header \<Rightarrow> u64 \<Rightarrow> cpio_progress \<Rightarrow> cpio_progress" where
  "cpio_counted parsed n st =
     st\<lparr>cp_archive_format := Some (merge_format (cp_archive_format st) (ph_format parsed)),
        cp_total_header_bytes := n\<rparr>"

lemma cpio_step_cases:
  assumes "cpio_step payload limits st s = (Inr st', t)"
  obtains parsed n start name name_length data_start data_end data record_end u v w where
      "checkpoint 1 s = (Inr (), u)" "cpio_parse_header payload (cp_offset st) u = (Inr parsed, v)"
      "n \<le> max_header_bytes limits" "ph_name_size parsed \<noteq> 0"
      "checked_add (cp_offset st) (ph_header_bytes parsed) = Some start"
      "cpio_name payload start (ph_name_size parsed) v = (Inr (name, name_length), w)"
      "cpio_extent payload parsed start w = (Inr (data_start, data_end, data, record_end), w)"
      "cp_offset st' = record_end"
      "name = TRAILER \<and> ph_file_size parsed = 0 \<and> t = w \<and>
         st' = (cpio_counted parsed n st)\<lparr>cp_offset := record_end, cp_saw_trailer := True\<rparr> \<or>
       name \<noteq> TRAILER \<and> (\<exists>st''. cpio_member limits parsed name name_length
         (data_start, data_end, data) (cpio_counted parsed n st) w = (Inr st'', t) \<and>
         st' = st''\<lparr>cp_offset := record_end\<rparr>)"
  using assms
  by (clarsimp simp: cpio_step_def success Let_def cpio_counted_def split: prod.splits)
    (frule cpio_extent_success, auto simp: success split: if_splits)

lemma cpio_step_advances:
  assumes "cpio_step payload limits st s = (Inr st', t)"
  shows "unat (cp_offset st) < unat (cp_offset st')"
  using assms
proof (cases rule: cpio_step_cases)
  case (1 parsed n start name name_length data_start data_end data record_end u v w)
  have "0 < unat (ph_name_size parsed)" using 1(4) by (simp add: unat_gt_0)
  moreover have "unat start = unat (cp_offset st) + unat (ph_header_bytes parsed)"
    using 1(5) by (simp add: word_nat)
  ultimately show ?thesis using cpio_extent_success [OF 1(7)] 1(8) by simp
qed

lemma cpio_step_decreases:
  "cpio_reading n st \<Longrightarrow> cpio_step payload limits st s = (Inr st', t) \<Longrightarrow>
     cpio_left n st' < cpio_left n st"
  using cpio_step_advances [of payload limits st s st' t]
  by (auto simp: cpio_left_def cpio_reading_def word_less_nat_alt)

function cpio_loop ::
    "byte_slice \<Rightarrow> limits \<Rightarrow> u64 \<Rightarrow> cpio_progress \<Rightarrow> cpio_progress op" where
  "cpio_loop payload limits payload_size st s =
     (if cpio_reading payload_size st
      then and_then (cpio_step payload limits st)
             (\<lambda>st s. cpio_loop payload limits payload_size st s) s
      else ok st s)"
  by pat_completeness auto
termination
  by (relation "measure (\<lambda>(payload, limits, n, st, s). cpio_left n st)")
    (auto dest: cpio_step_decreases)

declare cpio_loop.simps [simp del]

interpretation cpio_members: loop "cpio_loop payload limits payload_size"
  "cpio_reading payload_size" "cpio_step payload limits" "\<lambda>st _. cpio_left payload_size st"
  for payload limits payload_size
  by unfold_locales (subst cpio_loop.simps, simp, rule cpio_step_decreases)

text \<open>After the loop: the trailer was there and nothing but zeros follows it.\<close>

definition cpio_trailing :: "byte_slice \<Rightarrow> u64 \<Rightarrow> cpio_progress \<Rightarrow> (cpio_format \<times> cpio_entry list) op" where
  "cpio_trailing payload payload_size st =
     and_then (err_if (\<not> cp_saw_trailer st) (cpio_error ''trailer is missing'')) (\<lambda>_.
     and_then (ok_or (cpio_error ''trailing range underflows'')
       (checked_sub payload_size (cp_offset st))) (\<lambda>trailing_length.
     and_then (checked_range payload (cp_offset st) trailing_length
       ''CPIO trailing range overflows'' ''CPIO trailing range is truncated'') (\<lambda>trailing.
     and_then (err_if (list_ex (\<lambda>byte. byte \<noteq> 0) trailing)
       (cpio_error ''payload has nonzero bytes after its trailer'')) (\<lambda>_.
     and_then (ok_or (cpio_error ''archive is empty'') (cp_archive_format st)) (\<lambda>format.
     ok (format, cp_entries st))))))"

definition cpio_start :: cpio_progress where
  "cpio_start = \<lparr>cp_entries = [], cp_capacity = 0, cp_offset = 0, cp_total_name_bytes = 0,
     cp_total_header_bytes = 0, cp_archive_format = None, cp_saw_trailer = False\<rparr>"

definition parse_entries :: "byte_slice \<Rightarrow> limits \<Rightarrow> (cpio_format \<times> cpio_entry list) op" where
  "parse_entries payload limits =
     and_then (usize_to_u64 (length payload) ''CPIO payload size is not representable'')
       (\<lambda>payload_size.
     and_then (cpio_loop payload limits payload_size cpio_start) (cpio_trailing payload payload_size))"

section \<open>The archive\<close>

record cpio_archive =
  ca_bytes :: byte_slice
  ca_entries :: "cpio_entry list"
  ca_format :: cpio_format
  ca_limits :: limits

definition cpio_open_bytes :: "byte_slice \<Rightarrow> limits \<Rightarrow> cpio_archive op" where
  "cpio_open_bytes bytes limits =
     and_then (usize_to_u64 (length bytes) ''CPIO input size is not representable'') (\<lambda>input_size.
     and_then (check_limit input_size (max_total_input_bytes limits) TotalInputBytes) (\<lambda>_.
     and_then (parse_entries bytes limits) (\<lambda>(format, entries).
     ok \<lparr>ca_bytes = bytes, ca_entries = entries, ca_format = format, ca_limits = limits\<rparr>)))"

text \<open>\<open>entry\<close>: \<open>None\<close> also for an index that is no \<open>usize\<close>.\<close>

definition cpio_entry_at :: "cpio_archive \<Rightarrow> u64 \<Rightarrow> cpio_entry option op" where
  "cpio_entry_at archive index =
     and_then (gets (\<lambda>s. usize_max (machine s))) (\<lambda>maximum.
     ok (if unat index \<le> maximum then item_get (ca_entries archive) (unat index) else None))"

definition cpio_retained_input_bytes :: "cpio_archive \<Rightarrow> nat" where
  "cpio_retained_input_bytes archive = length (ca_bytes archive)"

definition required_entry :: "cpio_archive \<Rightarrow> u64 \<Rightarrow> cpio_entry op" where
  "required_entry archive index =
     and_then (gets (\<lambda>s. usize_max (machine s))) (\<lambda>maximum.
     and_then (err_if (maximum < unat index) (cpio_error ''entry index is too large'')) (\<lambda>_.
     ok_or (cpio_error ''entry index is out of range'')
       (item_get (ca_entries archive) (unat index))))"

definition cpio_data :: "cpio_archive \<Rightarrow> cpio_entry \<Rightarrow> byte_slice op" where
  "cpio_data archive entry =
     and_then (ok_or (cpio_error ''member data range underflows'')
       (checked_sub (ce_data_end entry) (ce_data_start entry))) (\<lambda>len.
     checked_range (ca_bytes archive) (ce_data_start entry) len
       ''CPIO member data range overflows'' ''CPIO member data range is invalid'')"

definition verified_data :: "cpio_archive \<Rightarrow> cpio_entry \<Rightarrow> byte_slice op" where
  "verified_data archive entry =
     and_then (cpio_data archive entry) (\<lambda>data.
     and_then (cpio_verify_checksum data entry) (\<lambda>_.
     ok data))"

definition symlink_target :: "cpio_archive \<Rightarrow> u64 \<Rightarrow> byte_slice option op" where
  "symlink_target archive entry_index =
     and_then (required_entry archive entry_index) (\<lambda>entry.
     if \<not> cpio_is_symlink entry then ok None
     else and_then (cpio_data archive entry) (\<lambda>data. ok (Some data)))"

definition cpio_extract_entry_to ::
    "writer \<Rightarrow> cpio_archive \<Rightarrow> u64 \<Rightarrow> (byte_slice, u64) dialogue" where
  "cpio_extract_entry_to writer archive entry_index =
     and_then (internal (required_entry archive entry_index)) (\<lambda>entry.
     and_then (internal (verified_data archive entry)) (\<lambda>data.
     and_then (check_limit (ce_size entry) (max_entry_output_bytes (ca_limits archive))
       EntryOutputBytes) (\<lambda>_.
     and_then (deliver (written writer) (\<lambda>chunk. chunk) data) (\<lambda>_.
     ok (ce_size entry)))))"

definition checked_output_total :: "u64 \<Rightarrow> u64 \<Rightarrow> limits \<Rightarrow> ('s, u64) comp" where
  "checked_output_total current entry_size limits =
     and_then (check_limit entry_size (max_entry_output_bytes limits) EntryOutputBytes) (\<lambda>_.
     and_then (ok_or (LimitExceeded TotalOutputBytes (- 1) (max_total_output_bytes limits))
       (checked_add current entry_size)) (\<lambda>total_bytes.
     and_then (check_limit total_bytes (max_total_output_bytes limits) TotalOutputBytes) (\<lambda>_.
     ok total_bytes)))"

text \<open>The calls of \<open>CpioEntrySink\<close>.\<close>

datatype cpio_event =
  Begin_Entry cpio_entry | Write_Entry u64 byte_slice | Finish_Entry u64

type_synonym cpio_sink = "cpio_event list \<Rightarrow> cpio_event \<Rightarrow> error option"

definition extract_member ::
    "cpio_sink \<Rightarrow> cpio_archive \<Rightarrow> u64 \<Rightarrow> cpio_entry \<Rightarrow> (cpio_event, u64) dialogue" where
  "extract_member sink archive total_bytes entry =
     and_then (checked_output_total total_bytes (ce_size entry) (ca_limits archive))
       (\<lambda>total_bytes.
     and_then (internal (verified_data archive entry)) (\<lambda>data.
     and_then (call_back sink (Begin_Entry entry)) (\<lambda>_.
     and_then (deliver sink (Write_Entry (ce_index entry)) data) (\<lambda>_.
     and_then (call_back sink (Finish_Entry (ce_index entry))) (\<lambda>_.
     ok total_bytes)))))"

definition cpio_extract_entries_to ::
    "cpio_sink \<Rightarrow> cpio_archive \<Rightarrow> (cpio_event, u64) dialogue" where
  "cpio_extract_entries_to sink archive =
     for_fold (ca_entries archive) 0 (extract_member sink archive)"

definition cpio_verify :: "cpio_archive \<Rightarrow> unit op" where
  "cpio_verify archive =
     and_then (for_fold (ca_entries archive) 0 (\<lambda>total_bytes entry.
       and_then (checked_output_total total_bytes (ce_size entry) (ca_limits archive))
         (\<lambda>total_bytes.
       and_then (verified_data archive entry) (\<lambda>_.
       ok total_bytes)))) (\<lambda>_.
     ok ())"

end
