(* ===== verification/Member_Layout.thy ===== *)
theory Member_Layout
  imports Callbacks
begin

text \<open>
  Where the members of a container lie.  \<open>in_order extent first members last\<close>: the extents follow
  each other in the order of the list, none is reversed, and all lie between the two offsets.  The
  container formats establish it for the members they return.
\<close>

fun in_order :: "('m \<Rightarrow> nat \<times> nat) \<Rightarrow> nat \<Rightarrow> 'm list \<Rightarrow> nat \<Rightarrow> bool" where
  "in_order extent a [] b \<longleftrightarrow> a \<le> b"
| "in_order extent a (m # ms) b \<longleftrightarrow>
     a \<le> fst (extent m) \<and> fst (extent m) \<le> snd (extent m) \<and> in_order extent (snd (extent m)) ms b"

lemma in_order_le: "in_order extent a ms b \<Longrightarrow> a \<le> b"
  by (induction ms arbitrary: a) force+

lemma in_order_mono: "in_order extent a ms b \<Longrightarrow> b \<le> c \<Longrightarrow> in_order extent a ms c"
  by (induction ms arbitrary: a) auto

lemma in_order_snoc:
  "in_order extent a ms b \<Longrightarrow> b \<le> fst (extent m) \<Longrightarrow> fst (extent m) \<le> snd (extent m) \<Longrightarrow>
     snd (extent m) \<le> c \<Longrightarrow> in_order extent a (ms @ [m]) c"
  by (induction ms arbitrary: a) auto

lemma in_order_bounds:
  "in_order extent a ms b \<Longrightarrow> m \<in> set ms \<Longrightarrow>
     a \<le> fst (extent m) \<and> fst (extent m) \<le> snd (extent m) \<and> snd (extent m) \<le> b"
proof (induction ms arbitrary: a)
  case (Cons x ms)
  then show ?case using in_order_le [of extent "snd (extent x)" ms b] by force
qed simp

text \<open>Earlier members end before later ones begin: no byte belongs to two of them.\<close>

lemma in_order_apart:
  "in_order extent a ms b \<Longrightarrow> i < j \<Longrightarrow> j < length ms \<Longrightarrow>
     snd (extent (ms ! i)) \<le> fst (extent (ms ! j))"
proof (induction ms arbitrary: a i j)
  case (Cons x ms)
  show ?case
  proof (cases i)
    case 0
    with Cons.prems obtain k where k: "j = Suc k" "k < length ms" by (cases j) auto
    with Cons.prems have "in_order extent (snd (extent x)) ms b" by simp
    from in_order_bounds [OF this nth_mem [OF k(2)]] 0 k show ?thesis by simp
  next
    case (Suc l)
    with Cons.prems obtain k where k: "j = Suc k" "l < k" "k < length ms" by (cases j) auto
    with Cons.prems Suc Cons.IH [of "snd (extent x)" l k] show ?thesis by simp
  qed
qed simp

text \<open>The bytes of a member.\<close>

definition member_bytes :: "byte_slice \<Rightarrow> nat \<times> nat \<Rightarrow> byte_slice" where
  "member_bytes bytes extent = take (snd extent - fst extent) (drop (fst extent) bytes)"

lemma length_member_bytes:
  "in_order extent a ms (length bytes) \<Longrightarrow> m \<in> set ms \<Longrightarrow>
     length (member_bytes bytes (extent m)) = snd (extent m) - fst (extent m)"
  by (drule (1) in_order_bounds) (auto simp: member_bytes_def)


text \<open>\<open>tiled\<close>: the extents fill the space between the two offsets without a gap.\<close>

fun tiled :: "('m \<Rightarrow> nat \<times> nat) \<Rightarrow> nat \<Rightarrow> 'm list \<Rightarrow> nat \<Rightarrow> bool" where
  "tiled extent a [] b \<longleftrightarrow> a = b"
| "tiled extent a (m # ms) b \<longleftrightarrow>
     a = fst (extent m) \<and> fst (extent m) \<le> snd (extent m) \<and> tiled extent (snd (extent m)) ms b"

lemma tiled_snoc:
  "tiled extent a (ms @ [m]) b \<longleftrightarrow>
     tiled extent a ms (fst (extent m)) \<and> fst (extent m) \<le> snd (extent m) \<and> b = snd (extent m)"
  by (induction ms arbitrary: a) auto

lemma tiled_in_order: "tiled extent a ms b \<Longrightarrow> in_order extent a ms b"
  by (induction ms arbitrary: a) auto

end
