(* ===== verification/Cpio_Laws.thy ===== *)
theory Cpio_Laws
  imports Cpio Member_Layout
begin

text \<open>
  What \<open>open_bytes\<close> promises about the members of a CPIO archive, and what extraction does with
  them: the layout, the checksums, the limits, and the sequence of calls to the sink.
\<close>


section \<open>Checksums\<close>

definition byte_total :: "byte_slice \<Rightarrow> u32" where
  "byte_total bytes = (\<Sum>byte\<leftarrow>bytes. ucast byte)"

lemma foldl_byte_total: "foldl (\<lambda>total byte. total + ucast byte) n bs = n + byte_total bs"
  by (induction bs arbitrary: n) (simp_all add: byte_total_def add.assoc)

lemma byte_total_concat: "byte_total (concat cs) = (\<Sum>c\<leftarrow>cs. byte_total c)"
  by (induction cs) (simp_all add: byte_total_def)

lemma outcome_byte_sum:
  assumes "\<And>e. resource_error e \<Longrightarrow> E e" and "\<And>t. still s t \<Longrightarrow> Q (byte_total bs) t"
  shows "outcome E (byte_sum bs) s Q"
  unfolding byte_sum_def
proof (rule outcome_for_fold [where I = "\<lambda>past n t. still s t \<and> n = (\<Sum>c\<leftarrow>past. byte_total c)"])
  fix t n assume "still s t \<and> n = (\<Sum>c\<leftarrow>chunks CONTROL_CHUNK_SIZE bs. byte_total c)"
  moreover have "concat (chunks CONTROL_CHUNK_SIZE bs) = bs"
    by (rule concat_chunks) (simp add: CONTROL_CHUNK_SIZE_def)
  ultimately show "Q n t" using assms(2) by (simp flip: byte_total_concat)
next
  fix past c rest n t
  assume c: "chunks CONTROL_CHUNK_SIZE bs = past @ c # rest"
    and inv: "still s t \<and> n = (\<Sum>c\<leftarrow>past. byte_total c)"
  have "length c \<le> CONTROL_CHUNK_SIZE"
    using c chunks_bound [of c CONTROL_CHUNK_SIZE bs] by simp
  with inv show "outcome E (and_then
      (usize_to_u64 (length c) ''CPIO checksum chunk length is not representable'') (\<lambda>units.
      and_then (checkpoint units) (\<lambda>_. ok (foldl (\<lambda>total byte. total + ucast byte) n c)))) t
      (\<lambda>n t. still s t \<and> n = (\<Sum>c\<leftarrow>past @ [c]. byte_total c))"
    by (intro outcome_rules outcome_usize_to_u64 outcome_checkpoint)
      (auto simp: foldl_byte_total CONTROL_CHUNK_SIZE_def intro: assms(1) still_trans)
qed simp

lemma byte_sum_value: "byte_sum bs s = (Inr n, t) \<Longrightarrow> n = byte_total bs"
  by (rule outcome_value [OF outcome_byte_sum [of any_error s "\<lambda>n _. n = byte_total bs"]]) simp_all

definition intact :: "byte_slice \<Rightarrow> cpio_entry \<Rightarrow> bool" where
  "intact data entry \<longleftrightarrow> (case ce_checksum entry of None \<Rightarrow> True | Some c \<Rightarrow> byte_total data = c)"

lemma cpio_verify_checksum_success:
  "cpio_verify_checksum data entry s = (Inr u, t) \<Longrightarrow> intact data entry"
  by (auto simp: cpio_verify_checksum_def intact_def success dest: byte_sum_value split: option.splits)

lemma outcome_verify_checksum:
  assumes "\<And>e. resource_error e \<Longrightarrow> E e"
    and "\<not> intact data entry \<Longrightarrow> E (Checksum Member (Some (ce_index entry)))"
    and "\<And>t. still s t \<Longrightarrow> intact data entry \<Longrightarrow> Q () t"
  shows "outcome E (cpio_verify_checksum data entry) s Q"
  unfolding cpio_verify_checksum_def
  by (intro outcome_rules outcome_byte_sum) (use assms in \<open>auto simp: intact_def\<close>)


section \<open>Members\<close>

definition cpio_range :: "cpio_entry \<Rightarrow> nat \<times> nat" where
  "cpio_range entry = (unat (ce_data_start entry), unat (ce_data_end entry))"

definition entry_data :: "byte_slice \<Rightarrow> cpio_entry \<Rightarrow> byte_slice" where
  "entry_data bytes entry = member_bytes bytes (cpio_range entry)"

text \<open>What holds of the entry at an index of an archive that was opened.\<close>

definition entry_sound :: "byte_slice \<Rightarrow> limits \<Rightarrow> nat \<Rightarrow> cpio_entry \<Rightarrow> bool" where
  "entry_sound bytes limits i entry \<longleftrightarrow>
     unat (ce_index entry) = i \<and>
     unat (ce_data_end entry) = unat (ce_data_start entry) + unat (ce_size entry) \<and>
     ce_size entry \<le> max_entry_output_bytes limits \<and>
     0 \<notin> set (ce_raw_name entry) \<and> ce_raw_name entry \<noteq> TRAILER \<and>
     length (ce_raw_name entry) \<le> unat (max_name_bytes_per_entry limits) \<and>
     ce_format entry \<noteq> Mixed \<and> (ce_checksum entry = None \<longleftrightarrow> ce_format entry \<noteq> CrcNewc) \<and>
     intact (entry_data bytes entry) entry"

lemma newc_format:
  "parse_newc_header payload offset c s = (Inr parsed, t) \<Longrightarrow>
     ph_format parsed = (if c then CrcNewc else Newc) \<and> (ph_checksum parsed = None \<longleftrightarrow> \<not> c)"
  by (clarsimp simp: parse_newc_header_def success)

lemma odc_format:
  "parse_odc_header payload offset s = (Inr parsed, t) \<Longrightarrow>
     ph_format parsed = Odc \<and> ph_checksum parsed = None"
  by (clarsimp simp: parse_odc_header_def success)

lemma binary_format:
  "parse_binary_header payload offset c s = (Inr parsed, t) \<Longrightarrow>
     ph_format parsed = (if c then BinaryLittleEndian else BinaryBigEndian) \<and> ph_checksum parsed = None"
  by (clarsimp simp: parse_binary_header_def success Let_def)

lemma cpio_parse_header_format:
  "cpio_parse_header payload offset s = (Inr parsed, t) \<Longrightarrow>
     ph_format parsed \<noteq> Mixed \<and> (ph_checksum parsed = None \<longleftrightarrow> ph_format parsed \<noteq> CrcNewc)"
  by (auto simp: cpio_parse_header_def success dest!: newc_format odc_format binary_format split: if_splits)

lemma cpio_name_success:
  "cpio_name payload start len s = (Inr (name, n), t) \<Longrightarrow>
     t = s \<and> 0 \<notin> set name \<and> length name = unat n \<and> unat len = unat n + 1"
  by (auto simp: cpio_name_def success checked_sub_eq_Some)

lemma cpio_member_success:
  assumes "cpio_member limits parsed name n (data_start, data_end, data) st s = (Inr st', t)"
    and "length name = unat n"
  shows "\<exists>entry. cp_entries st' = cp_entries st @ [entry] \<and>
     unat (ce_index entry) = length (cp_entries st) \<and> ce_format entry = ph_format parsed \<and>
     ce_raw_name entry = name \<and> ce_size entry = ph_file_size parsed \<and>
     ce_checksum entry = ph_checksum parsed \<and> ce_data_start entry = data_start \<and>
     ce_data_end entry = data_end \<and> intact data entry \<and>
     ce_size entry \<le> max_entry_output_bytes limits \<and>
     length name \<le> unat (max_name_bytes_per_entry limits) \<and>
     Suc (length (cp_entries st)) \<le> unat (max_files limits) \<and>
     unat (cp_total_name_bytes st') = unat (cp_total_name_bytes st) + length name \<and>
     cp_total_name_bytes st' \<le> max_total_name_bytes limits \<and>
     cp_offset st' = cp_offset st \<and> cp_saw_trailer st' = cp_saw_trailer st"
  using assms unfolding cpio_member_def
  by (clarsimp simp: success Let_def checked_add_eq_Some checked_sub_eq_Some unat_of_nat
      word_le_nat_alt dest!: copy_bytes_value cpio_verify_checksum_success)


section \<open>The member loop\<close>

definition cpio_inv :: "byte_slice \<Rightarrow> limits \<Rightarrow> cpio_progress \<Rightarrow> bool" where
  "cpio_inv payload limits st \<longleftrightarrow>
     in_order cpio_range 0 (cp_entries st) (unat (cp_offset st)) \<and>
     unat (cp_offset st) \<le> length payload \<and>
     (\<forall>i < length (cp_entries st). entry_sound payload limits i (cp_entries st ! i)) \<and>
     length (cp_entries st) \<le> unat (max_files limits) \<and>
     unat (cp_total_name_bytes st) = (\<Sum>entry\<leftarrow>cp_entries st. length (ce_raw_name entry)) \<and>
     cp_total_name_bytes st \<le> max_total_name_bytes limits"

lemma cpio_inv_start: "cpio_inv payload limits cpio_start"
  by (simp add: cpio_inv_def cpio_start_def)

lemma cpio_inv_step:
  assumes inv: "cpio_inv payload limits st" and run: "cpio_step payload limits st s = (Inr st', t)"
  shows "cpio_inv payload limits st'"
  using run
proof (cases rule: cpio_step_cases)
  case (1 parsed n start name name_length data_start data_end data record_end u v w)
  note name = cpio_name_success [OF 1(6)] and extent = cpio_extent_success [OF 1(7)]
  have start: "unat (cp_offset st) \<le> unat data_start"
    using extent 1(5) by (simp add: checked_add_eq_Some)
  have data: "data = member_bytes payload (unat data_start, unat data_end)"
    using extent by (simp add: member_bytes_def)
  show ?thesis
  proof (cases "name = TRAILER")
    case True
    with 1(9) inv start extent show ?thesis
      by (auto simp: cpio_inv_def cpio_counted_def intro: in_order_mono)
  next
    case False
    with 1(9) obtain st'' where member: "cpio_member limits parsed name name_length
        (data_start, data_end, data) (cpio_counted parsed n st) w = (Inr st'', t)"
      and st': "st' = st''\<lparr>cp_offset := record_end\<rparr>" by blast
    from cpio_member_success [OF member] name obtain entry where entry:
      "cp_entries st'' = cp_entries st @ [entry]"
      "unat (ce_index entry) = length (cp_entries st)" "ce_format entry = ph_format parsed"
      "ce_raw_name entry = name" "ce_size entry = ph_file_size parsed"
      "ce_checksum entry = ph_checksum parsed" "ce_data_start entry = data_start"
      "ce_data_end entry = data_end" "intact data entry"
      "ce_size entry \<le> max_entry_output_bytes limits"
      "length name \<le> unat (max_name_bytes_per_entry limits)"
      "Suc (length (cp_entries st)) \<le> unat (max_files limits)"
      "unat (cp_total_name_bytes st'') = unat (cp_total_name_bytes st) + length name"
      "cp_total_name_bytes st'' \<le> max_total_name_bytes limits"
      by (auto simp: cpio_counted_def)
    have sound: "entry_sound payload limits (length (cp_entries st)) entry"
      using entry name False extent cpio_parse_header_format [OF 1(2)] data
      by (auto simp: entry_sound_def entry_data_def cpio_range_def member_bytes_def)
    have "in_order cpio_range 0 (cp_entries st @ [entry]) (unat record_end)"
      using inv start extent entry by (intro in_order_snoc) (auto simp: cpio_inv_def cpio_range_def)
    with inv st' entry sound extent show ?thesis
      by (auto simp: cpio_inv_def nth_append less_Suc_eq)
  qed
qed

lemma cpio_trailing_success:
  "cpio_trailing payload n st s = (Inr (format, entries), t) \<Longrightarrow>
     t = s \<and> entries = cp_entries st \<and> cp_saw_trailer st \<and> unat n \<le> usize_max (machine s)"
  by (auto simp: cpio_trailing_def success checked_sub_eq_Some)

text \<open>Everything \<open>open_bytes\<close> promises.\<close>

definition cpio_sound :: "cpio_archive \<Rightarrow> bool" where
  "cpio_sound archive \<longleftrightarrow>
     in_order cpio_range 0 (ca_entries archive) (length (ca_bytes archive)) \<and>
     (\<forall>i < length (ca_entries archive).
        entry_sound (ca_bytes archive) (ca_limits archive) i (ca_entries archive ! i)) \<and>
     length (ca_bytes archive) \<le> unat (max_total_input_bytes (ca_limits archive)) \<and>
     length (ca_entries archive) \<le> unat (max_files (ca_limits archive)) \<and>
     (\<Sum>entry\<leftarrow>ca_entries archive. length (ce_raw_name entry))
       \<le> unat (max_total_name_bytes (ca_limits archive))"

lemma cpio_open_sound:
  assumes "cpio_open_bytes bytes limits s = (Inr archive, t)"
  shows "ca_bytes archive = bytes \<and> ca_limits archive = limits \<and> cpio_sound archive"
proof -
  from assms obtain st u v format entries where
    archive: "archive = \<lparr>ca_bytes = bytes, ca_entries = entries, ca_format = format, ca_limits = limits\<rparr>"
    and fits: "length bytes \<le> unat (max_total_input_bytes limits)" "length bytes < 2 ^ 64"
    and loop: "cpio_loop bytes limits (of_nat (length bytes)) cpio_start s = (Inr st, u)"
    and rest: "cpio_trailing bytes (of_nat (length bytes)) st u = (Inr (format, entries), v)"
    by (auto simp: cpio_open_bytes_def parse_entries_def success word_le_nat_alt)
  have "cpio_inv bytes limits st"
    using cpio_members.loop_success [OF loop, where I = "\<lambda>st _. cpio_inv bytes limits st"]
    by (auto intro: cpio_inv_start cpio_inv_step)
  with cpio_trailing_success [OF rest] archive fits show ?thesis
    by (auto simp: cpio_sound_def cpio_inv_def word_le_nat_alt intro: in_order_mono)
qed


section \<open>Reading members back\<close>

definition sound_in :: "cpio_archive \<Rightarrow> cpio_entry \<Rightarrow> bool" where
  "sound_in archive entry \<longleftrightarrow>
     (\<exists>i < length (ca_entries archive). entry = ca_entries archive ! i) \<and> cpio_sound archive"

lemma sound_inD:
  assumes "sound_in archive entry"
  shows "unat (ce_data_end entry) \<le> length (ca_bytes archive)"
    and "unat (ce_data_end entry) = unat (ce_data_start entry) + unat (ce_size entry)"
    and "intact (entry_data (ca_bytes archive) entry) entry"
    and "ce_size entry \<le> max_entry_output_bytes (ca_limits archive)"
    and "length (entry_data (ca_bytes archive) entry) = unat (ce_size entry)"
proof -
  from assms obtain i where i: "i < length (ca_entries archive)" "entry = ca_entries archive ! i"
    and sound: "cpio_sound archive" by (auto simp: sound_in_def)
  then have entry: "entry_sound (ca_bytes archive) (ca_limits archive) i entry"
    and mem: "entry \<in> set (ca_entries archive)" by (auto simp: cpio_sound_def)
  from sound have order: "in_order cpio_range 0 (ca_entries archive) (length (ca_bytes archive))"
    by (simp add: cpio_sound_def)
  from in_order_bounds [OF this mem] show "unat (ce_data_end entry) \<le> length (ca_bytes archive)"
    by (simp add: cpio_range_def)
  from entry show "unat (ce_data_end entry) = unat (ce_data_start entry) + unat (ce_size entry)"
    "intact (entry_data (ca_bytes archive) entry) entry"
    "ce_size entry \<le> max_entry_output_bytes (ca_limits archive)"
    by (simp_all add: entry_sound_def)
  with length_member_bytes [OF order mem]
  show "length (entry_data (ca_bytes archive) entry) = unat (ce_size entry)"
    by (simp add: entry_data_def cpio_range_def)
qed

lemma outcome_checked_range:
  "unat start + unat len \<le> length bs \<Longrightarrow> length bs \<le> usize_max (machine s) \<Longrightarrow>
     unat start + unat len < 2 ^ 64 \<Longrightarrow> Q (take (unat len) (drop (unat start) bs)) s \<Longrightarrow>
     outcome E (checked_range bs start len d1 d2) s Q"
  by (auto simp: checked_range_def outcome_def run checked_add_def u64_to_usize_def slice_get_def
      unat_word_ariths)

lemma outcome_cpio_data:
  assumes "sound_in archive entry" and "length (ca_bytes archive) \<le> usize_max (machine s)"
    and "Q (entry_data (ca_bytes archive) entry) s"
  shows "outcome E (cpio_data archive entry) s Q"
proof -
  have sub: "checked_sub (ce_data_end entry) (ce_data_start entry) = Some (ce_size entry)"
    using sound_inD(2) [OF assms(1)] by (simp add: checked_sub_eq_Some)
  have "unat (ce_data_start entry) + unat (ce_size entry) < 2 ^ 64"
    using sound_inD(2) [OF assms(1)] unat_less_64 [of "ce_data_end entry"] unfolding two_power_64 by simp
  then show ?thesis
    unfolding cpio_data_def sub ok_or_simps and_then_ok
    using sound_inD(1,2) [OF assms(1)] assms(2,3)
    by (intro outcome_checked_range) (auto simp: entry_data_def cpio_range_def member_bytes_def)
qed

lemma outcome_verified_data:
  assumes "sound_in archive entry" and "length (ca_bytes archive) \<le> usize_max (machine s)"
    and "\<And>e. resource_error e \<Longrightarrow> E e"
    and "\<And>t. still s t \<Longrightarrow> Q (entry_data (ca_bytes archive) entry) t"
  shows "outcome E (verified_data archive entry) s Q"
  unfolding verified_data_def
  by (intro outcome_rules outcome_cpio_data outcome_verify_checksum)
    (use assms sound_inD(3) [OF assms(1)] in auto)


section \<open>Extraction to a sink\<close>

text \<open>What the sink is told of one member.\<close>

definition member_events :: "byte_slice \<Rightarrow> cpio_entry \<Rightarrow> cpio_event list" where
  "member_events bytes entry =
     Begin_Entry entry #
     map (Write_Entry (ce_index entry)) (chunks IO_CHUNK_SIZE (entry_data bytes entry)) @
     [Finish_Entry (ce_index entry)]"

lemma emits_checked_output_total: "emits [] (checked_output_total n m limits) s"
  by (auto simp: emits_def checked_output_total_def and_then_def check_limit_def err_if_def ok_or_def
      ok_def err_def split: option.splits if_splits prod.splits)

lemma verified_data_success:
  "verified_data archive entry s = (Inr data, t) \<Longrightarrow>
     data = entry_data (ca_bytes archive) entry \<and> intact data entry"
  by (auto simp: verified_data_def cpio_data_def success checked_sub_eq_Some entry_data_def member_bytes_def
      cpio_range_def dest: cpio_verify_checksum_success)

abbreviation entry_intact :: "cpio_archive \<Rightarrow> cpio_entry \<Rightarrow> bool" where
  "entry_intact archive entry \<equiv> intact (entry_data (ca_bytes archive) entry) entry"

lemma extract_member_success:
  "extract_member sink archive n entry s = (Inr m, t) \<Longrightarrow>
     entry_intact archive entry \<and> unat m = unat n + unat (ce_size entry)"
  by (auto simp: extract_member_def checked_output_total_def success checked_add_eq_Some
      dest: verified_data_success)

lemma extract_member_emits:
  "emits (if entry_intact archive entry then member_events (ca_bytes archive) entry else [])
     (extract_member sink archive n entry) s"
proof -
  let ?events = "if entry_intact archive entry then member_events (ca_bytes archive) entry else []"
  have sends: "emits ?events (and_then (call_back sink (Begin_Entry entry)) (\<lambda>_.
      and_then (deliver sink (Write_Entry (ce_index entry)) data) (\<lambda>_.
      and_then (call_back sink (Finish_Entry (ce_index entry))) (\<lambda>_. ok m)))) t"
    if "data = entry_data (ca_bytes archive) entry \<and> intact data entry" for data m t
    using that unfolding member_events_def
    by (auto intro!: emits_call_then emits_and_then emits_deliver emits_ok)
  show ?thesis
    unfolding extract_member_def
    by (rule emits_silent_then [OF emits_checked_output_total], rule emits_silent_then [OF emits_internal],
        rule sends, auto simp: success dest: verified_data_success)
qed

lemma extract_entries_emits:
  "emits (concat (map (member_events (ca_bytes archive)) (takeWhile (entry_intact archive) entries)))
     (for_fold entries n (extract_member sink archive)) s"
proof (induction entries arbitrary: n s)
  case (Cons entry entries n s)
  show ?case
  proof (cases "entry_intact archive entry")
    case True
    have "emits (member_events (ca_bytes archive) entry @
        concat (map (member_events (ca_bytes archive)) (takeWhile (entry_intact archive) entries)))
      (and_then (extract_member sink archive n entry)
        (\<lambda>m. for_fold entries m (extract_member sink archive))) s"
      using extract_member_emits [of archive entry sink n s] True by (intro emits_and_then Cons.IH) simp
    with True show ?thesis by simp
  next
    case False
    have "emits [] (and_then (extract_member sink archive n entry)
        (\<lambda>m. for_fold entries m (extract_member sink archive))) s"
      using extract_member_emits [of archive entry sink n s] False
      by (intro emits_silent_then) (auto dest: extract_member_success)
    with False show ?thesis by simp
  qed
qed (simp add: emits_ok)

lemma extract_entries_success:
  "for_fold entries n (extract_member sink archive) s = (Inr m, t) \<Longrightarrow>
     list_all (entry_intact archive) entries \<and> unat m = unat n + (\<Sum>entry\<leftarrow>entries. unat (ce_size entry))"
  by (induction entries arbitrary: n s) (fastforce simp: success dest: extract_member_success)+

end
