(* ===== verification/Cpio_Properties.thy ===== *)
theory Cpio_Properties
  imports Cpio_Laws
begin

text \<open>
  The properties of CPIO archives: the members of an opened archive, reading them back, and the
  calls that extraction makes to the entry sink.
\<close>


section \<open>An archive to evaluate\<close>

definition cpio_sample :: byte_slice where
  "cpio_sample =
     [0xC7, 0x71, 0, 0, 1, 0, 0xA4, 0x81, 0, 0, 0, 0, 1, 0, 0, 0, 0, 0, 0, 0, 2, 0, 0, 0, 3, 0,
      0x61, 0, 1, 2, 3, 0,
      0xC7, 0x71, 0, 0, 0, 0, 0, 0, 0, 0, 0, 0, 1, 0, 0, 0, 0, 0, 0, 0, 11, 0, 0, 0, 0, 0]
     @ TRAILER @ [0, 0]"

lemma magic_bytes: "to_le_bytes 2 29127 = [0xC7, 0x71]" "to_be_bytes 2 29127 = [0x71, 0xC7]"
  by code_simp+

lemmas cpio_evaluate =
  TRAILER_def ascii_def cpio_start_def cpio_parse_header_def parse_binary_header_def header_word_def
  BINARY_HEADER_BYTES_def BINARY_MAGIC_def magic_bytes from_le_bytes_def cpio_name_def
  cpio_extent_def align_up_def validate_zero_padding_def cpio_member_def cpio_verify_checksum_def
  cpio_trailing_def combine_words_def merge_format_def cpio_step_def cpio_open_bytes_def
  parse_entries_def cpio_loop.simps cpio_reading_def unat_word_ariths

lemma cpio_sample_opens:
  "\<exists>archive t. cpio_open_bytes cpio_sample default_limits (sample_session []) = (Inr archive, t) \<and>
     length (ca_entries archive) = 1"
  by (simp add: evaluate cpio_evaluate cpio_sample_def)

lemma length_cpio_sample: "length cpio_sample = 70"
  by (simp add: cpio_sample_def TRAILER_def ascii_def)


section \<open>Opened archives\<close>

text \<open>C17: Whatever the input, an archive that opens has its members inside the input, in the order of
  the list and without overlap; each entry knows its index and has a range of exactly its declared
  size within the output limit, a name without NUL within the name limit, and data that match its
  checksum, which exactly the CRC variant of the format carries.  The number of members and the
  bytes of their names are within the limits.\<close>

theorem cpio_members_sound:
  assumes "cpio_open_bytes bytes limits s = (Inr archive, t)"
  shows "ca_bytes archive = bytes \<and> ca_limits archive = limits \<and> cpio_sound archive"
  using assms by (rule cpio_open_sound)

lemma cpio_members_sound_witness:
  "\<exists>archive. cpio_sound archive \<and> length (ca_entries archive) = 1"
  using cpio_sample_opens cpio_members_sound by blast

text \<open>C18: Extracting a member of an opened archive cannot fail on the archive: no range, checksum or
  output-limit error is possible, only a cancellation, an exhausted budget or an I/O error of the
  writer.  On success the writer got exactly the bytes of the member, in chunks, and the result is
  their number.
\<close>

theorem cpio_entry_extracts:
  assumes "cpio_open_bytes bytes limits s = (Inr archive, t)"
    and "length bytes \<le> usize_max (machine s')"
    and "length (ca_entries archive) \<le> usize_max (machine s')"
    and "unat index < length (ca_entries archive)"
  shows "outcome resource_error (cpio_extract_entry_to writer archive index) (s', log)
    (\<lambda>n (t', log'). let entry = ca_entries archive ! unat index in
       n = ce_size entry \<and> unat n = length (entry_data bytes entry) \<and>
       (\<exists>new. log' = log @ new \<and> concat new = entry_data bytes entry))"
proof -
  let ?entry = "ca_entries archive ! unat index"
  from cpio_open_sound [OF assms(1)] assms(2,4)
  have archive: "ca_bytes archive = bytes" "sound_in archive ?entry"
    and fits: "length (ca_bytes archive) \<le> usize_max (machine s')"
    by (auto simp: sound_in_def)
  from assms(3,4) have small: "unat index \<le> usize_max (machine s')" by simp
  show ?thesis
    unfolding cpio_extract_entry_to_def required_entry_def
    by (intro outcome_rules outcome_internal outcome_verified_data outcome_check_limit outcome_deliver)
      (use archive fits small assms(4) sound_inD [OF archive(2)] in
        \<open>auto simp: item_get_def written_def IO_CHUNK_SIZE_def concat_chunks Let_def still_def\<close>)
qed

lemma cpio_entry_extracts_witness:
  "\<exists>archive. ca_bytes archive = cpio_sample \<and>
     outcome resource_error (cpio_extract_entry_to (\<lambda>_ _. None) archive 0) (sample_session [], [])
       (\<lambda>n (t', log'). let entry = ca_entries archive ! unat (0 :: u64) in
          n = ce_size entry \<and> unat n = length (entry_data cpio_sample entry) \<and>
          (\<exists>new. log' = [] @ new \<and> concat new = entry_data cpio_sample entry))"
proof -
  obtain archive t where
    "cpio_open_bytes cpio_sample default_limits (sample_session []) = (Inr archive, t)"
    "length (ca_entries archive) = 1" using cpio_sample_opens by blast
  with cpio_entry_extracts [OF this(1), of "sample_session []" 0 "\<lambda>_ _. None" "[]"]
    cpio_open_sound [OF this(1)]
  show ?thesis by (auto simp: length_cpio_sample sample_session_def)
qed

text \<open>C16: The sink of an extraction sees the members one after the other: begin, the data of the
  member in order, finish.  Nothing is sent for a member whose checksum does not match or for any
  after it, whatever the archive holds and whatever the sink answers; if the extraction succeeds,
  every member was intact and was sent completely, and the result is the sum of the sizes.
\<close>

theorem cpio_extraction_order:
  "case cpio_extract_entries_to sink archive (s, log) of (r, (t, log')) \<Rightarrow>
     (\<exists>sent rest. log' = log @ sent \<and>
        concat (map (member_events (ca_bytes archive))
         (takeWhile (entry_intact archive) (ca_entries archive))) = sent @ rest \<and>
        (case r of Inl e \<Rightarrow> True | Inr n \<Rightarrow>
           rest = [] \<and> list_all (entry_intact archive) (ca_entries archive) \<and>
           unat n = (\<Sum>entry\<leftarrow>ca_entries archive. unat (ce_size entry))))"
proof (cases "cpio_extract_entries_to sink archive (s, log)")
  case (fields r t log')
  with emitsD [OF extract_entries_emits, of "ca_entries archive" 0 sink archive "(s, log)"]
  show ?thesis
    by (cases r) (auto simp: cpio_extract_entries_to_def dest: extract_entries_success)
qed

text \<open>C19: Verifying an opened archive fails only for want of resources or because the members together
  exceed the output limit; if it succeeds they do not.
\<close>

theorem cpio_verify_opened:
  assumes "cpio_open_bytes bytes limits s = (Inr archive, t)"
    and "length bytes \<le> usize_max (machine s')"
  shows "outcome
    (\<lambda>e. resource_error e \<or>
       (\<exists>n. e = LimitExceeded TotalOutputBytes n (max_total_output_bytes limits)))
    (cpio_verify archive) s'
    (\<lambda>_ _. (\<Sum>entry\<leftarrow>ca_entries archive. unat (ce_size entry))
       \<le> unat (max_total_output_bytes limits))"
proof -
  from cpio_open_sound [OF assms(1)] have sound:
    "ca_bytes archive = bytes" "ca_limits archive = limits" "cpio_sound archive" by auto
  let ?size = "\<lambda>past. \<Sum>entry\<leftarrow>past. unat (ce_size entry)"
  show ?thesis
    unfolding cpio_verify_def
  proof (rule outcome_and_then, rule outcome_for_fold
      [where I = "\<lambda>past n u. still s' u \<and> unat n = ?size past \<and> n \<le> max_total_output_bytes limits"],
      goal_cases)
    case (2 past entry rest n u)
    then have e: "sound_in archive entry"
      using sound(3) by (auto simp: sound_in_def intro!: exI [of _ "length past"])
    from sound_inD(4) [OF this] 2 sound assms(2) show ?case
      unfolding checked_output_total_def
      by (intro outcome_rules outcome_check_limit outcome_verified_data [OF e])
        (auto simp: still_def checked_add_eq_Some)
  qed (auto intro!: outcome_ok simp: word_le_nat_alt)
qed

lemma cpio_verify_opened_witness:
  "\<exists>archive. length (ca_entries archive) = 1 \<and> outcome
    (\<lambda>e. resource_error e \<or>
       (\<exists>n. e = LimitExceeded TotalOutputBytes n (max_total_output_bytes default_limits)))
    (cpio_verify archive) (sample_session [])
    (\<lambda>_ _. (\<Sum>entry\<leftarrow>ca_entries archive. unat (ce_size entry))
       \<le> unat (max_total_output_bytes default_limits))"
proof -
  obtain archive t where
    "cpio_open_bytes cpio_sample default_limits (sample_session []) = (Inr archive, t)"
    "length (ca_entries archive) = 1" using cpio_sample_opens by blast
  with cpio_verify_opened [OF this(1), of "sample_session []"] show ?thesis
    by (auto simp: length_cpio_sample sample_session_def)
qed

end
