(* ===== verification/Deb_Ar.thy ===== *)
theory Deb_Ar
  imports Cpio
begin

text \<open>
  \<^verbatim>\<open>crates/unpackio/src/deb/ar.rs\<close>: the System V ar container of Debian packages, every function.
  \<open>ascii\<close> writes the byte string literals of the source.
\<close>

definition deb_error :: "string \<Rightarrow> error" where
  "deb_error detail = format_error (''Debian package: '' @ detail)"

definition GLOBAL_HEADER :: byte_slice where "GLOBAL_HEADER = ascii ''!<arch>'' @ [0x0A]"
definition MEMBER_HEADER_BYTES :: u64 where "MEMBER_HEADER_BYTES = 60"

record ar_member =
  ar_index :: u64
  ar_raw_name :: byte_slice
  ar_modified_time :: u64
  ar_uid :: u32
  ar_gid :: u32
  ar_mode :: u32
  ar_size :: u64
  ar_data_start :: u64
  ar_data_end :: u64


section \<open>Fields\<close>

text \<open>The locals of the digit loop: the value, whether a digit and whether a space after it was seen.\<close>

type_synonym positional = "u64 \<times> bool \<times> bool"

definition positional_step :: "u8 \<Rightarrow> string \<Rightarrow> positional \<Rightarrow> u8 \<Rightarrow> positional op" where
  "positional_step radix detail st byte =
     (case st of (value, saw_digit, trailing_space) \<Rightarrow>
     if byte = 0x20 then ok (value, saw_digit, trailing_space \<or> saw_digit)
     else
       and_then (err_if trailing_space (deb_error detail)) (\<lambda>_.
       and_then (ok_or (deb_error detail)
         (Option.bind (checked_sub byte 0x30) (\<lambda>d. if d < radix then Some d else None))) (\<lambda>d.
       and_then (ok_or (deb_error detail)
         (Option.bind (checked_mul value (ucast radix)) (\<lambda>current. checked_add current (ucast d))))
         (\<lambda>value. ok (value, True, trailing_space)))))"

definition positional_u64 :: "byte_slice \<Rightarrow> u64 \<Rightarrow> u64 \<Rightarrow> u8 \<Rightarrow> string \<Rightarrow> u64 op" where
  "positional_u64 bytes offset len radix detail =
     and_then (checked_range bytes offset len detail detail) (\<lambda>field.
     and_then (for_fold field (0, False, False) (positional_step radix detail))
       (\<lambda>(value, saw_digit, trailing_space).
     if saw_digit then ok value else ok 0))"

definition decimal_u64 :: "byte_slice \<Rightarrow> u64 \<Rightarrow> u64 \<Rightarrow> string \<Rightarrow> u64 op" where
  "decimal_u64 bytes offset len detail = positional_u64 bytes offset len 10 detail"

definition octal_u64 :: "byte_slice \<Rightarrow> u64 \<Rightarrow> u64 \<Rightarrow> string \<Rightarrow> u64 op" where
  "octal_u64 bytes offset len detail = positional_u64 bytes offset len 8 detail"

text \<open>The loop that moves \<open>end\<close> before the trailing spaces.\<close>

fun trim_name :: "byte_slice \<Rightarrow> nat \<Rightarrow> nat op" where
  "trim_name field 0 = ok 0"
| "trim_name field (Suc previous) =
     and_then (ok_or (deb_error ''ar name field is truncated'') (item_get field previous)) (\<lambda>byte.
     if byte = 0x20 then trim_name field previous else ok (Suc previous))"

definition starts_with :: "byte_slice \<Rightarrow> byte_slice \<Rightarrow> bool" where
  "starts_with name prefix \<longleftrightarrow> take (length prefix) name = prefix"

definition ends_with_byte :: "byte_slice \<Rightarrow> u8 \<Rightarrow> bool" where
  "ends_with_byte name byte \<longleftrightarrow> name \<noteq> [] \<and> last name = byte"

definition ar_parse_name :: "byte_slice \<Rightarrow> byte_slice op" where
  "ar_parse_name field =
     and_then (trim_name field (length field)) (\<lambda>finish.
     and_then (ok_or (deb_error ''ar name range is invalid'') (slice_get field 0 finish)) (\<lambda>name.
     and_then (if ends_with_byte name 0x2F \<and> name \<noteq> ascii ''/'' \<and> name \<noteq> ascii ''//'' then
          and_then (usize_sub (length name) 1 ''Debian package: ar name length underflows'')
            (\<lambda>without_slash.
          ok_or (deb_error ''ar name range is invalid'') (slice_get name 0 without_slash))
        else ok name) (\<lambda>name.
     and_then (err_if (name = []) (deb_error ''ar member name is empty'')) (\<lambda>_.
     and_then (err_if (0 \<in> set name) (deb_error ''ar member name contains NUL'')) (\<lambda>_.
     and_then (err_if (starts_with name (ascii ''#1/'') \<or> name = ascii ''//'' \<or>
         starts_with name (ascii ''/'')) (UnsupportedFeature ''deb-non-system-v-ar-name'')) (\<lambda>_.
     ok name))))))"


section \<open>Members\<close>

record ar_progress =
  ap_entries :: "ar_member list"
  ap_capacity :: nat
  ap_offset :: u64
  ap_total_name_bytes :: u64
  ap_total_header_bytes :: u64

text \<open>The numbers of a member header: time, owner, group, mode and size.\<close>

definition ar_numbers :: "byte_slice \<Rightarrow> (u64 \<times> u32 \<times> u32 \<times> u32 \<times> u64) op" where
  "ar_numbers header =
     and_then (decimal_u64 header 16 12 ''ar timestamp is invalid'') (\<lambda>modified_time.
     and_then (decimal_u64 header 28 6 ''ar uid is invalid'') (\<lambda>uid_value.
     and_then (decimal_u64 header 34 6 ''ar gid is invalid'') (\<lambda>gid_value.
     and_then (ok_or (deb_error ''ar uid is too large'') (narrow uid_value)) (\<lambda>uid.
     and_then (ok_or (deb_error ''ar gid is too large'') (narrow gid_value)) (\<lambda>gid.
     and_then (octal_u64 header 40 8 ''ar mode is invalid'') (\<lambda>mode_value.
     and_then (ok_or (deb_error ''ar mode is too large'') (narrow mode_value)) (\<lambda>mode.
     and_then (decimal_u64 header 48 10 ''ar member size is invalid'') (\<lambda>len.
     ok (modified_time, uid, gid, mode, len)))))))))"

text \<open>The newline behind data of odd length.\<close>

definition ar_padding :: "byte_slice \<Rightarrow> u64 \<Rightarrow> u64 \<Rightarrow> u64 op" where
  "ar_padding bytes data_end len =
     (if len AND 1 \<noteq> 0 then
        and_then (checked_range bytes data_end 1
          ''ar padding range overflows'' ''ar member padding is truncated'') (\<lambda>padding.
        and_then (err_if (padding \<noteq> [0x0A]) (deb_error ''ar member padding is invalid'')) (\<lambda>_.
        ok_or (deb_error ''ar member padding offset overflows'') (checked_add data_end 1)))
      else ok data_end)"

definition ar_step :: "byte_slice \<Rightarrow> limits \<Rightarrow> ar_progress \<Rightarrow> ar_progress op" where
  "ar_step bytes limits st =
     and_then (checkpoint 1) (\<lambda>_.
     and_then (ok_or (deb_error ''total ar header bytes overflow'')
       (checked_add (ap_total_header_bytes st) MEMBER_HEADER_BYTES)) (\<lambda>total_header_bytes.
     and_then (check_limit total_header_bytes (max_header_bytes limits) HeaderBytes) (\<lambda>_.
     and_then (checked_range bytes (ap_offset st) MEMBER_HEADER_BYTES
       ''ar member header range overflows'' ''ar member header is truncated'') (\<lambda>header.
     and_then (consume_bytes header) (\<lambda>_.
     and_then (err_if (slice_get header 58 60 \<noteq> Some [0x60, 0x0A])
       (deb_error ''ar member header terminator is invalid'')) (\<lambda>_.
     and_then (ok_or (deb_error ''ar member name is truncated'') (slice_get header 0 16))
       (\<lambda>name_field.
     and_then (ar_parse_name name_field) (\<lambda>raw_name.
     and_then (usize_to_u64 (length raw_name) ''ar member name length is not representable'')
       (\<lambda>name_length.
     and_then (check_limit name_length (max_name_bytes_per_entry limits) NameBytesPerEntry) (\<lambda>_.
     and_then (ok_or (deb_error ''total ar member name bytes overflow'')
       (checked_add (ap_total_name_bytes st) name_length)) (\<lambda>total_name_bytes.
     and_then (check_limit total_name_bytes (max_total_name_bytes limits) TotalNameBytes) (\<lambda>_.
     and_then (ar_numbers header) (\<lambda>(modified_time, uid, gid, mode, len).
     and_then (ok_or (deb_error ''ar member data offset overflows'')
       (checked_add (ap_offset st) MEMBER_HEADER_BYTES)) (\<lambda>data_start.
     and_then (ok_or (deb_error ''ar member data range overflows'') (checked_add data_start len))
       (\<lambda>data_end.
     and_then (checked_range bytes data_start len
       ''ar member data range overflows'' ''ar member data is truncated'') (\<lambda>_.
     and_then (usize_to_u64 (length (ap_entries st)) ''ar member count is not representable'')
       (\<lambda>count.
     and_then (ok_or (deb_error ''ar member count overflows'') (checked_add count 1)) (\<lambda>next_count.
     and_then (check_limit next_count (max_files limits) Files) (\<lambda>_.
     and_then (make_room (length (ap_entries st)) (ap_capacity st)) (\<lambda>capacity.
     and_then (ok_or (deb_error ''ar member index underflows'') (checked_sub next_count 1)) (\<lambda>index.
     and_then (copy_bytes raw_name) (\<lambda>copied_name.
     and_then (ar_padding bytes data_end len) (\<lambda>next_offset.
     ok \<lparr>ap_entries = ap_entries st @
           [\<lparr>ar_index = index, ar_raw_name = copied_name, ar_modified_time = modified_time,
             ar_uid = uid, ar_gid = gid, ar_mode = mode, ar_size = len,
             ar_data_start = data_start, ar_data_end = data_end\<rparr>],
         ap_capacity = capacity, ap_offset = next_offset, ap_total_name_bytes = total_name_bytes,
         ap_total_header_bytes = total_header_bytes\<rparr>)))))))))))))))))))))))"

lemma ar_padding_success:
  "ar_padding bytes data_end len s = (Inr next_offset, t) \<Longrightarrow>
     t = s \<and> (if len AND 1 = 0 then next_offset = data_end
       else unat next_offset = Suc (unat data_end) \<and> unat next_offset \<le> length bytes \<and>
         bytes ! unat data_end = 0x0A)"
  by (auto simp: ar_padding_def success checked_add_eq_Some take_Suc_conv_app_nth hd_drop_conv_nth
      take_Suc Suc_le_eq split: if_splits)

text \<open>What one pass of the loop did.\<close>

lemma ar_step_cases:
  assumes "ar_step bytes limits st s = (Inr st', t)"
  obtains m where
    "ap_entries st' = ap_entries st @ [m]" "unat (ar_index m) = length (ap_entries st)"
    "Suc (length (ap_entries st)) \<le> unat (max_files limits)"
    "slice_get (take 60 (drop (unat (ap_offset st)) bytes)) 58 60 = Some [0x60, 0x0A]"
    "\<exists>field u v. slice_get (take 60 (drop (unat (ap_offset st)) bytes)) 0 16 = Some field \<and>
       ar_parse_name field u = (Inr (ar_raw_name m), v)"
    "length (ar_raw_name m) \<le> unat (max_name_bytes_per_entry limits)"
    "unat (ap_total_name_bytes st') = unat (ap_total_name_bytes st) + length (ar_raw_name m)"
    "unat (ap_total_name_bytes st') \<le> unat (max_total_name_bytes limits)"
    "unat (ar_data_start m) = unat (ap_offset st) + 60"
    "unat (ar_data_end m) = unat (ar_data_start m) + unat (ar_size m)"
    "unat (ar_data_end m) \<le> length bytes"
    "\<exists>w. ar_padding bytes (ar_data_end m) (ar_size m) w = (Inr (ap_offset st'), t)"
  using assms unfolding ar_step_def
  by (clarsimp simp: success checked_add_eq_Some checked_sub_eq_Some MEMBER_HEADER_BYTES_def
      word_le_nat_alt split: prod.splits dest!: copy_bytes_value) blast

lemma ar_step_advances:
  assumes "ar_step bytes limits st s = (Inr st', t)"
  shows "unat (ap_offset st) < unat (ap_offset st')"
  using assms
proof (cases rule: ar_step_cases)
  case (1 m)
  then show ?thesis by (auto dest!: ar_padding_success split: if_splits)
qed

definition ar_reading :: "u64 \<Rightarrow> ar_progress \<Rightarrow> bool" where
  "ar_reading input_size st \<longleftrightarrow> ap_offset st < input_size"

function ar_loop :: "byte_slice \<Rightarrow> limits \<Rightarrow> u64 \<Rightarrow> ar_progress \<Rightarrow> ar_progress op" where
  "ar_loop bytes limits input_size st s =
     (if ar_reading input_size st
      then and_then (ar_step bytes limits st) (\<lambda>st s. ar_loop bytes limits input_size st s) s
      else ok st s)"
  by pat_completeness auto
termination
  by (relation "measure (\<lambda>(bytes, limits, n, st, s). unat n - unat (ap_offset st))")
    (auto simp: ar_reading_def word_less_nat_alt dest: ar_step_advances intro!: diff_less_mono2)

declare ar_loop.simps [simp del]

interpretation ar_members: loop "ar_loop bytes limits input_size" "ar_reading input_size"
  "ar_step bytes limits" "\<lambda>st _. unat input_size - unat (ap_offset st)"
  for bytes limits input_size
proof unfold_locales
  fix st s st' t
  show "ar_loop bytes limits input_size st s =
      (if ar_reading input_size st
       then and_then (ar_step bytes limits st) (ar_loop bytes limits input_size) s else ok st s)"
    by (subst ar_loop.simps) simp
  assume "ar_reading input_size st" and "ar_step bytes limits st s = (Inr st', t)"
  then show "unat input_size - unat (ap_offset st') < unat input_size - unat (ap_offset st)"
    using ar_step_advances [of bytes limits st s st' t]
    by (auto simp: ar_reading_def word_less_nat_alt)
qed

definition ar_parse :: "byte_slice \<Rightarrow> limits \<Rightarrow> ar_member list op" where
  "ar_parse bytes limits =
     and_then (usize_to_u64 (length GLOBAL_HEADER) ''ar magic length is not representable'')
       (\<lambda>magic_length.
     and_then (checked_range bytes 0 magic_length
       ''ar magic range overflows'' ''ar global header is truncated'') (\<lambda>magic.
     and_then (consume_bytes magic) (\<lambda>_.
     and_then (err_if (magic \<noteq> GLOBAL_HEADER) (deb_error ''ar global header is invalid'')) (\<lambda>_.
     and_then (usize_to_u64 (length bytes) ''ar input size is not representable'') (\<lambda>input_size.
     and_then (usize_to_u64 (length GLOBAL_HEADER) ''ar header length is not representable'')
       (\<lambda>offset.
     and_then (ar_loop bytes limits input_size
       \<lparr>ap_entries = [], ap_capacity = 0, ap_offset = offset, ap_total_name_bytes = 0,
         ap_total_header_bytes = 0\<rparr>) (\<lambda>st.
     ok (ap_entries st))))))))"

end
