(* ===== verification/Deb_Tar.thy ===== *)
theory Deb_Tar
  imports Deb_Ar
begin

text \<open>
  \<^verbatim>\<open>crates/unpackio/src/deb/tar.rs\<close>: the tar archives of a Debian package, in the V7, ustar, GNU and
  pax forms.  Every function.  The totals are borrowed from the package and survive a failure, so
  they are part of the state of a \<open>tar_op\<close>.  \<^verbatim>\<open>i64\<close> and \<^verbatim>\<open>i128\<close> values are integers whose range is
  checked where the code checks it.
\<close>

definition BLOCK_BYTES :: u64 where "BLOCK_BYTES = 512"

record archive_totals =
  at_files :: u64
  at_name_bytes :: u64
  at_header_bytes :: u64
  at_next_entry_index :: u64
  at_properties :: u64

type_synonym 'a tar_op = "(session \<times> archive_totals, 'a) comp"

record pax_values =
  pv_path :: "byte_slice option"
  pv_link_path :: "byte_slice option"
  pv_size :: "u64 option"
  pv_uid :: "u64 option"
  pv_gid :: "u64 option"
  pv_modified_time :: "int option"
  pv_user_name :: "byte_slice option"
  pv_group_name :: "byte_slice option"

definition pax_default :: pax_values where
  "pax_default = \<lparr>pv_path = None, pv_link_path = None, pv_size = None, pv_uid = None, pv_gid = None,
     pv_modified_time = None, pv_user_name = None, pv_group_name = None\<rparr>"

datatype deb_section = ControlSection | DataSection

datatype deb_entry_kind =
  Regular | HardLink | SymbolicLink | CharacterDevice | BlockDevice | Directory | Fifo | OtherKind u8

record deb_entry =
  de_index :: u64
  de_section :: deb_section
  de_raw_name :: byte_slice
  de_raw_link_name :: "byte_slice option"
  de_kind :: deb_entry_kind
  de_mode :: u32
  de_uid :: u64
  de_gid :: u64
  de_modified_time :: "int option"
  de_size :: u64
  de_user_name :: "byte_slice option"
  de_group_name :: "byte_slice option"
  de_device_major :: "u32 option"
  de_device_minor :: "u32 option"
  de_header_checksum :: u32
  de_data_start :: u64
  de_data_end :: u64

definition from_type_flag :: "u8 \<Rightarrow> deb_entry_kind" where
  "from_type_flag value =
     (if value = 0 \<or> value = of_char CHR ''0'' \<or> value = of_char CHR ''7'' then Regular
      else if value = of_char CHR ''1'' then HardLink
      else if value = of_char CHR ''2'' then SymbolicLink
      else if value = of_char CHR ''3'' then CharacterDevice
      else if value = of_char CHR ''4'' then BlockDevice
      else if value = of_char CHR ''5'' then Directory
      else if value = of_char CHR ''6'' then Fifo
      else OtherKind value)"

text \<open>\<open>iter().position(predicate)\<close>\<close>

primrec position_where :: "('a \<Rightarrow> bool) \<Rightarrow> 'a list \<Rightarrow> nat option" where
  "position_where P [] = None"
| "position_where P (x # xs) = (if P x then Some 0 else map_option Suc (position_where P xs))"

text \<open>\<open>a.or(b)\<close>\<close>

definition or_else :: "'a option \<Rightarrow> 'a option \<Rightarrow> 'a option" where
  "or_else a b = (case a of None \<Rightarrow> b | Some x \<Rightarrow> Some x)"

definition unwrap_or :: "'a option \<Rightarrow> 'a \<Rightarrow> 'a" where
  "unwrap_or a x = (case a of None \<Rightarrow> x | Some y \<Rightarrow> y)"

text \<open>\<open>total = total.checked_add(n).ok_or_else(..)?\<close> on one of the totals.\<close>

definition add_total ::
    "(archive_totals \<Rightarrow> u64) \<Rightarrow> ((u64 \<Rightarrow> u64) \<Rightarrow> archive_totals \<Rightarrow> archive_totals) \<Rightarrow> u64 \<Rightarrow> string \<Rightarrow> u64 tar_op"
  where
  "add_total field update n detail =
     and_then (gets (\<lambda>(s, totals). field totals)) (\<lambda>current.
     and_then (ok_or (deb_error detail) (checked_add current n)) (\<lambda>updated.
     and_then (modify (\<lambda>(s, totals). (s, update (\<lambda>_. updated) totals))) (\<lambda>_. ok updated)))"


section \<open>Numbers\<close>

definition checked_i128 :: "int \<Rightarrow> int option" where
  "checked_i128 v = (if - (2 ^ 127) \<le> v \<and> v < 2 ^ 127 then Some v else None)"

text \<open>\<open>1_i128.checked_shl(n)\<close>\<close>

definition i128_shl_one :: "nat \<Rightarrow> int option" where
  "i128_shl_one n = (if n < 127 then Some (2 ^ n) else if n = 127 then Some (- (2 ^ 127)) else None)"

text \<open>\<open>value * radix + digit\<close> in \<^verbatim>\<open>i128\<close>.\<close>

definition i128_push :: "int \<Rightarrow> int \<Rightarrow> int \<Rightarrow> int option" where
  "i128_push radix value d = Option.bind (checked_i128 (value * radix)) (\<lambda>current. checked_i128 (current + d))"

text \<open>The two's complement form of GNU tar, marked by the top bit of the first byte.\<close>

definition base256_value :: "byte_slice \<Rightarrow> u8 \<Rightarrow> string \<Rightarrow> int op" where
  "base256_value field first detail =
     and_then (gets (\<lambda>s. usize_max (machine s))) (\<lambda>maximum.
     and_then (err_if (maximum < length field * 8 \<or> length field * 8 = 0) (deb_error detail)) (\<lambda>_.
     let bit_count = length field * 8 - 1 in
     and_then (err_if (127 \<le> bit_count) (deb_error detail)) (\<lambda>_.
     and_then (for_fold (drop 1 field) (uint (first AND 0x7F)) (\<lambda>value byte.
       ok_or (deb_error detail) (i128_push 256 value (uint byte)))) (\<lambda>value.
     and_then (err_if (bit_count = 0) (deb_error detail)) (\<lambda>_.
     and_then (ok_or (deb_error detail) (i128_shl_one (bit_count - 1))) (\<lambda>sign.
     if value AND sign \<noteq> 0 then
       and_then (ok_or (deb_error detail) (i128_shl_one bit_count)) (\<lambda>modulus.
       ok_or (deb_error detail) (checked_i128 (value - modulus)))
     else ok value))))))"

type_synonym octal_progress = "int \<times> bool \<times> bool"

definition tar_octal_step :: "string \<Rightarrow> octal_progress \<Rightarrow> u8 \<Rightarrow> octal_progress op" where
  "tar_octal_step detail st byte =
     (case st of (value, saw_digit, trailing) \<Rightarrow>
     if byte = 0 \<or> byte = 0x20 then ok (value, saw_digit, trailing \<or> saw_digit)
     else
       and_then (err_if trailing (deb_error detail)) (\<lambda>_.
       and_then (ok_or (deb_error detail) (octal_digit byte)) (\<lambda>d.
       and_then (ok_or (deb_error detail) (i128_push 8 value (uint d))) (\<lambda>value.
       ok (value, True, trailing)))))"

definition tar_i128 :: "byte_slice \<Rightarrow> u64 \<Rightarrow> u64 \<Rightarrow> string \<Rightarrow> int op" where
  "tar_i128 bytes offset len detail =
     and_then (checked_range bytes offset len detail detail) (\<lambda>field.
     and_then (ok_or (deb_error detail) (item_get field 0)) (\<lambda>first.
     if first AND 0x80 \<noteq> 0 then base256_value field first detail
     else
       and_then (for_fold field (0, False, False) (tar_octal_step detail)) (\<lambda>(value, _, _).
       ok value)))"

definition tar_u64 :: "byte_slice \<Rightarrow> u64 \<Rightarrow> u64 \<Rightarrow> string \<Rightarrow> u64 op" where
  "tar_u64 bytes offset len detail =
     and_then (tar_i128 bytes offset len detail) (\<lambda>value.
     if 0 \<le> value \<and> value < 2 ^ 64 then ok (word_of_int value) else err (deb_error detail))"

definition tar_i64 :: "byte_slice \<Rightarrow> u64 \<Rightarrow> u64 \<Rightarrow> string \<Rightarrow> int op" where
  "tar_i64 bytes offset len detail =
     and_then (tar_i128 bytes offset len detail) (\<lambda>value.
     if - (2 ^ 63) \<le> value \<and> value < 2 ^ 63 then ok value else err (deb_error detail))"

definition decimal_bytes :: "byte_slice \<Rightarrow> string \<Rightarrow> u64 op" where
  "decimal_bytes bytes detail =
     and_then (err_if (bytes = []) (deb_error detail)) (\<lambda>_.
     for_fold bytes 0 (\<lambda>value byte.
       and_then (ok_or (deb_error detail)
         (Option.bind (checked_sub byte 0x30) (\<lambda>d. if d < 10 then Some d else None))) (\<lambda>d.
       ok_or (deb_error detail)
         (Option.bind (checked_mul value 10) (\<lambda>current. checked_add current (ucast d))))))"

text \<open>Seconds, without the fraction.\<close>

definition pax_time :: "byte_slice \<Rightarrow> int op" where
  "pax_time bytes =
     and_then (if item_get bytes 0 = Some 0x2D then
         and_then (ok_or (deb_error ''pax mtime is invalid'') (slice_get bytes 1 (length bytes)))
           (\<lambda>digits. ok (True, digits))
       else ok (False, bytes)) (\<lambda>(negative, digits).
     let seconds = takeWhile (\<lambda>byte. byte \<noteq> 0x2E) digits in
     and_then (decimal_bytes seconds ''pax mtime is invalid'') (\<lambda>value.
     and_then (err_if (2 ^ 63 \<le> unat value) (deb_error ''pax mtime is too large'')) (\<lambda>_.
     if negative then
       and_then (err_if (uint value = - (2 ^ 63)) (deb_error ''pax mtime overflows'')) (\<lambda>_.
       ok (- uint value))
     else ok (uint value))))"

definition tar_align_up :: "u64 \<Rightarrow> u64 \<Rightarrow> u64 op" where
  "tar_align_up value alignment =
     (let remainder = value mod alignment in
     and_then (if remainder = 0 then ok 0
       else ok_or (deb_error ''tar alignment underflows'') (checked_sub alignment remainder)) (\<lambda>padding.
     ok_or (deb_error ''tar alignment overflows'') (checked_add value padding)))"

definition next_record_offset :: "u64 \<Rightarrow> u64 \<Rightarrow> u64 op" where
  "next_record_offset data_start len =
     and_then (ok_or (deb_error ''tar record data range overflows'') (checked_add data_start len))
       (\<lambda>data_end. tar_align_up data_end BLOCK_BYTES)"


section \<open>Headers\<close>

text \<open>The two sums of the header bytes, the checksum field read as spaces.\<close>

definition checksum_byte :: "u64 \<times> int \<Rightarrow> nat \<times> u8 \<Rightarrow> (u64 \<times> int) op" where
  "checksum_byte sums p =
     and_then (checkpoint 1) (\<lambda>_.
     let value = (if 148 \<le> fst p \<and> fst p < 156 then 0x20 else snd p) in
     and_then (ok_or (deb_error ''tar checksum overflows'') (checked_add (fst sums) (ucast value)))
       (\<lambda>unsigned.
     and_then (err_if (\<not> (- (2 ^ 63) \<le> snd sums + sint value \<and> snd sums + sint value < 2 ^ 63))
       (deb_error ''tar signed checksum overflows'')) (\<lambda>_.
     ok (unsigned, snd sums + sint value))))"

definition verify_header_checksum :: "byte_slice \<Rightarrow> unit op" where
  "verify_header_checksum header =
     and_then (tar_u64 header 148 8 ''tar checksum is invalid'') (\<lambda>expected.
     and_then (for_fold (List.enumerate 0 header) (0, 0) checksum_byte) (\<lambda>(unsigned, signed).
     let signed_matches = (0 \<le> signed \<and> signed = uint expected) in
     err_if (unsigned \<noteq> expected \<and> \<not> signed_matches) (Checksum PackageHeader None)))"

definition validate_magic :: "byte_slice \<Rightarrow> unit op" where
  "validate_magic header =
     and_then (ok_or (deb_error ''tar magic is truncated'') (slice_get header 257 263)) (\<lambda>magic.
     if magic = ascii ''ustar'' @ [0] \<or> magic = ascii ''ustar '' \<or> list_all (\<lambda>byte. byte = 0) magic
     then ok () else err (deb_error ''tar magic is invalid''))"

definition tar_string :: "byte_slice \<Rightarrow> u64 \<Rightarrow> u64 \<Rightarrow> string \<Rightarrow> byte_slice op" where
  "tar_string bytes offset len detail =
     and_then (checked_range bytes offset len detail detail) (\<lambda>field.
     let finish = unwrap_or (position_where (\<lambda>byte. byte = 0) field) (length field) in
     and_then (ok_or (deb_error detail) (slice_get field 0 finish)) (\<lambda>value.
     and_then (ok_or (deb_error detail) (slice_get field finish (length field))) (\<lambda>remainder.
     and_then (err_if (list_ex (\<lambda>byte. byte \<noteq> 0 \<and> byte \<noteq> 0x20) remainder)
       (deb_error ''tar string padding is invalid'')) (\<lambda>_.
     ok value))))"

definition header_path :: "byte_slice \<Rightarrow> limits \<Rightarrow> byte_slice op" where
  "header_path header limits =
     and_then (tar_string header 0 100 ''tar name is truncated'') (\<lambda>name.
     and_then (tar_string header 345 155 ''tar prefix is truncated'') (\<lambda>prefix.
     if prefix = [] then copy_bytes name
     else
       and_then (gets (\<lambda>s. usize_max (machine s))) (\<lambda>maximum.
       let path_length = length prefix + 1 + length name in
       and_then (err_if (maximum < path_length) (deb_error ''tar path length overflows'')) (\<lambda>_.
       and_then (usize_to_u64 path_length ''tar path length is not representable'') (\<lambda>units.
       and_then (check_limit units (max_name_bytes_per_entry limits) NameBytesPerEntry) (\<lambda>_.
       and_then (try_reserve path_length) (\<lambda>_.
       and_then (usize_to_u64 path_length ''tar path copy length is not representable'') (\<lambda>units.
       and_then (checkpoint units) (\<lambda>_.
       ok (prefix @ [0x2F] @ name))))))))))"

definition validate_name :: "byte_slice \<Rightarrow> limits \<Rightarrow> unit tar_op" where
  "validate_name name limits =
     and_then (err_if (name = []) (deb_error ''tar member name is empty'')) (\<lambda>_.
     and_then (err_if (0 \<in> set name) (deb_error ''tar member name contains NUL'')) (\<lambda>_.
     and_then (internal (usize_to_u64 (length name) ''tar member name length is not representable''))
       (\<lambda>len.
     and_then (check_limit len (max_name_bytes_per_entry limits) NameBytesPerEntry) (\<lambda>_.
     and_then (add_total at_name_bytes at_name_bytes_update len ''total Debian name bytes overflow'')
       (\<lambda>name_bytes.
     check_limit name_bytes (max_total_name_bytes limits) TotalNameBytes)))))"


section \<open>Extensions\<close>

definition copy_pax_name :: "byte_slice \<Rightarrow> limits \<Rightarrow> byte_slice op" where
  "copy_pax_name value limits =
     and_then (err_if (0 \<in> set value) (deb_error ''pax string contains NUL'')) (\<lambda>_.
     and_then (usize_to_u64 (length value) ''pax string length is not representable'') (\<lambda>len.
     and_then (check_limit len (max_name_bytes_per_entry limits) NameBytesPerEntry) (\<lambda>_.
     copy_bytes value)))"

definition apply_pax_value :: "byte_slice \<Rightarrow> byte_slice \<Rightarrow> pax_values \<Rightarrow> limits \<Rightarrow> pax_values op" where
  "apply_pax_value key value values limits =
     (if key = ascii ''path'' then
        and_then (copy_pax_name value limits) (\<lambda>v. ok (values\<lparr>pv_path := Some v\<rparr>))
      else if key = ascii ''linkpath'' then
        and_then (copy_pax_name value limits) (\<lambda>v. ok (values\<lparr>pv_link_path := Some v\<rparr>))
      else if key = ascii ''size'' then
        and_then (decimal_bytes value ''pax size is invalid'') (\<lambda>v. ok (values\<lparr>pv_size := Some v\<rparr>))
      else if key = ascii ''uid'' then
        and_then (decimal_bytes value ''pax uid is invalid'') (\<lambda>v. ok (values\<lparr>pv_uid := Some v\<rparr>))
      else if key = ascii ''gid'' then
        and_then (decimal_bytes value ''pax gid is invalid'') (\<lambda>v. ok (values\<lparr>pv_gid := Some v\<rparr>))
      else if key = ascii ''mtime'' then
        and_then (pax_time value) (\<lambda>v. ok (values\<lparr>pv_modified_time := Some v\<rparr>))
      else if key = ascii ''uname'' then
        and_then (copy_pax_name value limits) (\<lambda>v. ok (values\<lparr>pv_user_name := Some v\<rparr>))
      else if key = ascii ''gname'' then
        and_then (copy_pax_name value limits) (\<lambda>v. ok (values\<lparr>pv_group_name := Some v\<rparr>))
      else and_then (consume_bytes value) (\<lambda>_. ok values))"

text \<open>One record, \<open>length key=value\<close> and a newline, at an offset of the data.\<close>

definition pax_record :: "byte_slice \<Rightarrow> u64 \<Rightarrow> u64 \<Rightarrow> (u64 \<times> byte_slice \<times> byte_slice) op" where
  "pax_record data data_size offset =
     and_then (ok_or (deb_error ''pax remaining length underflows'') (checked_sub data_size offset))
       (\<lambda>remaining_length.
     and_then (checked_range data offset remaining_length
       ''pax record range overflows'' ''pax record is truncated'') (\<lambda>rest.
     and_then (ok_or (deb_error ''pax record length is not terminated'')
       (position_where (\<lambda>byte. byte = 0x20) rest)) (\<lambda>separator.
     and_then (ok_or (deb_error ''pax record length range is invalid'') (slice_get rest 0 separator))
       (\<lambda>length_digits.
     and_then (decimal_bytes length_digits ''pax record length is invalid'') (\<lambda>record_length.
     and_then (err_if (record_length = 0) (deb_error ''pax record length is zero'')) (\<lambda>_.
     and_then (checked_range data offset record_length
       ''pax record range overflows'' ''pax record is truncated'') (\<lambda>whole.
     and_then (err_if (\<not> ends_with_byte whole 0x0A) (deb_error ''pax record is not newline terminated''))
       (\<lambda>_.
     and_then (gets (\<lambda>s. usize_max (machine s))) (\<lambda>maximum.
     and_then (err_if (maximum < separator + 1) (deb_error ''pax record prefix length overflows'')) (\<lambda>_.
     and_then (err_if (2 ^ 64 \<le> separator + 1)
       (deb_error ''pax record prefix length is not representable'')) (\<lambda>_.
     let prefix_bytes = of_nat (separator + 1) :: u64 in
     and_then (ok_or (deb_error ''pax record body length underflows'')
       (Option.bind (checked_sub record_length prefix_bytes) (\<lambda>v. checked_sub v 1))) (\<lambda>body_length.
     and_then (checked_range whole prefix_bytes body_length
       ''pax record body range overflows'' ''pax record body is truncated'') (\<lambda>body.
     and_then (ok_or (deb_error ''pax record has no equals separator'')
       (position_where (\<lambda>byte. byte = 0x3D) body)) (\<lambda>equals.
     and_then (ok_or (deb_error ''pax key range is invalid'') (slice_get body 0 equals)) (\<lambda>key.
     and_then (err_if (maximum < equals + 1) (deb_error ''pax value offset overflows'')) (\<lambda>_.
     and_then (ok_or (deb_error ''pax value range is invalid'')
       (slice_get body (equals + 1) (length body))) (\<lambda>value.
     ok (record_length, key, value))))))))))))))))))"

definition pax_step ::
    "byte_slice \<Rightarrow> u64 \<Rightarrow> limits \<Rightarrow> u64 \<times> pax_values \<Rightarrow> (u64 \<times> pax_values) tar_op" where
  "pax_step data data_size limits p =
     and_then (internal (checkpoint 1)) (\<lambda>_.
     and_then (add_total at_properties at_properties_update 1 ''pax property count overflows'') (\<lambda>properties.
     and_then (check_limit properties (max_header_properties limits) HeaderProperties) (\<lambda>_.
     and_then (internal (pax_record data data_size (fst p))) (\<lambda>(record_length, key, value).
     and_then (internal (apply_pax_value key value (snd p) limits)) (\<lambda>values.
     and_then (ok_or (deb_error ''pax record offset overflows'') (checked_add (fst p) record_length))
       (\<lambda>offset.
     ok (offset, values)))))))"

lemma internal_success_pair [success]:
  "internal m (s, x) = (Inr a, (t, y)) \<longleftrightarrow> y = x \<and> m s = (Inr a, t)"
  by (auto simp: success)

lemma add_total_success:
  "add_total field update n detail (s, totals) = (Inr v, u) \<longleftrightarrow>
     unat (field totals) + unat n = unat v \<and> u = (s, update (\<lambda>_. v) totals)"
  by (auto simp: add_total_def success checked_add_eq_Some)

lemma decimal_bytes_nonempty: "decimal_bytes [] detail s \<noteq> (Inr v, t)"
  by (simp add: decimal_bytes_def success)

lemma pax_record_moves:
  assumes "pax_record data data_size offset s = (Inr (record_length, key, value), t)"
  shows "0 < unat record_length \<and> unat offset + unat record_length \<le> length data"
  using assms by (auto simp: pax_record_def success Let_def unat_gt_0)

lemma pax_step_advances:
  assumes "pax_step data data_size limits p s = (Inr q, t)"
  shows "unat (fst p) < unat (fst q) \<and> unat (fst q) \<le> length data"
  using assms
  by (auto simp: pax_step_def success checked_add_eq_Some split: prod.splits dest!: pax_record_moves)

definition pax_reading :: "u64 \<Rightarrow> u64 \<times> pax_values \<Rightarrow> bool" where
  "pax_reading data_size p \<longleftrightarrow> fst p < data_size"

function pax_loop ::
    "byte_slice \<Rightarrow> u64 \<Rightarrow> limits \<Rightarrow> u64 \<times> pax_values \<Rightarrow> (u64 \<times> pax_values) tar_op" where
  "pax_loop data data_size limits p s =
     (if pax_reading data_size p
      then and_then (pax_step data data_size limits p) (\<lambda>p s. pax_loop data data_size limits p s) s
      else ok p s)"
  by pat_completeness auto
termination
  by (relation "measure (\<lambda>(data, n, limits, p, s). unat n - unat (fst p))")
    (auto simp: pax_reading_def word_less_nat_alt dest!: pax_step_advances intro!: diff_less_mono2)

declare pax_loop.simps [simp del]

interpretation pax_records: loop "pax_loop data data_size limits" "pax_reading data_size"
  "pax_step data data_size limits" "\<lambda>p _. unat data_size - unat (fst p)"
  for data data_size limits
  by unfold_locales (subst pax_loop.simps, simp,
    auto simp: pax_reading_def word_less_nat_alt dest!: pax_step_advances intro!: diff_less_mono2)

definition parse_pax :: "byte_slice \<Rightarrow> pax_values \<Rightarrow> limits \<Rightarrow> pax_values tar_op" where
  "parse_pax data values limits =
     and_then (internal (usize_to_u64 (length data) ''pax data length is not representable'')) (\<lambda>data_size.
     and_then (pax_loop data data_size limits (0, values)) (\<lambda>(offset, values).
     and_then (err_if (offset \<noteq> data_size) (deb_error ''pax records were not consumed exactly'')) (\<lambda>_.
     ok values)))"

text \<open>The loop that moves \<open>end\<close> before the trailing NULs and newlines.\<close>

fun trim_long_value :: "byte_slice \<Rightarrow> nat \<Rightarrow> nat op" where
  "trim_long_value data 0 = ok 0"
| "trim_long_value data (Suc previous) =
     and_then (ok_or (deb_error ''GNU tar string is truncated'') (item_get data previous)) (\<lambda>byte.
     if byte = 0 \<or> byte = 0x0A then trim_long_value data previous else ok (Suc previous))"

definition parse_long_value :: "byte_slice \<Rightarrow> limits \<Rightarrow> byte_slice op" where
  "parse_long_value data limits =
     and_then (trim_long_value data (length data)) (\<lambda>finish.
     and_then (ok_or (deb_error ''GNU tar string range is invalid'') (slice_get data 0 finish)) (\<lambda>value.
     copy_pax_name value limits))"


section \<open>Members\<close>

record tar_progress =
  tp_offset :: u64
  tp_entries :: "deb_entry list"
  tp_capacity :: nat
  tp_global :: pax_values
  tp_local :: "pax_values option"
  tp_long_name :: "byte_slice option"
  tp_long_link :: "byte_slice option"
  tp_saw_end :: bool

definition add_header_bytes :: "limits \<Rightarrow> u64 \<Rightarrow> unit tar_op" where
  "add_header_bytes limits n =
     and_then (add_total at_header_bytes at_header_bytes_update n ''total tar header bytes overflow'')
       (\<lambda>header_bytes. check_limit header_bytes (max_header_bytes limits) HeaderBytes)"

text \<open>The end marker: a second zero block, and nothing but zeros behind it.\<close>

definition tar_end :: "byte_slice \<Rightarrow> limits \<Rightarrow> u64 \<Rightarrow> u64 \<Rightarrow> unit tar_op" where
  "tar_end bytes limits input_size offset =
     and_then (ok_or (deb_error ''tar end marker offset overflows'') (checked_add offset BLOCK_BYTES))
       (\<lambda>second_offset.
     and_then (internal (checked_range bytes second_offset BLOCK_BYTES
       ''tar end marker range overflows'' ''tar second end block is truncated'')) (\<lambda>second.
     and_then (err_if (list_ex (\<lambda>byte. byte \<noteq> 0) second) (deb_error ''tar second end block is nonzero''))
       (\<lambda>_.
     and_then (add_header_bytes limits BLOCK_BYTES) (\<lambda>_.
     and_then (ok_or (deb_error ''tar trailing offset overflows'') (checked_add second_offset BLOCK_BYTES))
       (\<lambda>trailing_start.
     and_then (ok_or (deb_error ''tar trailing range underflows'') (checked_sub input_size trailing_start))
       (\<lambda>trailing_length.
     and_then (internal (checked_range bytes trailing_start trailing_length
       ''tar trailing range overflows'' ''tar trailing range is truncated'')) (\<lambda>trailing.
     and_then (err_if (list_ex (\<lambda>byte. byte \<noteq> 0) trailing)
       (deb_error ''tar has nonzero bytes after its end marker'')) (\<lambda>_.
     internal (consume_bytes trailing)))))))))"

text \<open>The flags \<open>g\<close>, \<open>x\<close>, \<open>L\<close> and \<open>K\<close>.\<close>

definition extension_flag :: "u8 \<Rightarrow> bool" where
  "extension_flag type_flag \<longleftrightarrow>
     type_flag = of_char CHR ''g'' \<or> type_flag = of_char CHR ''x'' \<or>
     type_flag = of_char CHR ''L'' \<or> type_flag = of_char CHR ''K''"

definition tar_extension ::
    "byte_slice \<Rightarrow> limits \<Rightarrow> u8 \<Rightarrow> u64 \<Rightarrow> u64 \<Rightarrow> tar_progress \<Rightarrow> tar_progress tar_op" where
  "tar_extension bytes limits type_flag header_size data_start st =
     and_then (check_limit header_size (max_header_bytes limits) HeaderBytes) (\<lambda>_.
     and_then (add_header_bytes limits header_size) (\<lambda>_.
     and_then (internal (checked_range bytes data_start header_size
       ''tar extension data range overflows'' ''tar extension data is truncated'')) (\<lambda>data.
     and_then (if type_flag = of_char CHR ''g'' then
         and_then (parse_pax data (tp_global st) limits) (\<lambda>values. ok (st\<lparr>tp_global := values\<rparr>))
       else if type_flag = of_char CHR ''x'' then
         and_then (parse_pax data pax_default limits) (\<lambda>values. ok (st\<lparr>tp_local := Some values\<rparr>))
       else if type_flag = of_char CHR ''L'' then
         and_then (internal (parse_long_value data limits)) (\<lambda>value. ok (st\<lparr>tp_long_name := Some value\<rparr>))
       else if type_flag = of_char CHR ''K'' then
         and_then (internal (parse_long_value data limits)) (\<lambda>value. ok (st\<lparr>tp_long_link := Some value\<rparr>))
       else err (deb_error ''internal tar extension dispatch is invalid'')) (\<lambda>st.
     and_then (internal (next_record_offset data_start header_size)) (\<lambda>offset.
     ok (st\<lparr>tp_offset := offset\<rparr>))))))"

definition nonempty :: "byte_slice \<Rightarrow> byte_slice option" where
  "nonempty value = (if value = [] then None else Some value)"

text \<open>The link name of a member, and its check.\<close>

definition tar_link ::
    "byte_slice \<Rightarrow> limits \<Rightarrow> pax_values \<Rightarrow> pax_values \<Rightarrow> byte_slice option \<Rightarrow> byte_slice option op" where
  "tar_link header limits local global pending =
     and_then (tar_string header 157 100 ''tar link name is truncated'') (\<lambda>header_link.
     let link = or_else (or_else (or_else (pv_link_path local) (pv_link_path global)) pending)
       (nonempty header_link) in
     and_then (case link of None \<Rightarrow> ok ()
       | Some value \<Rightarrow>
           and_then (err_if (0 \<in> set value) (deb_error ''tar link name contains NUL'')) (\<lambda>_.
           and_then (usize_to_u64 (length value) ''tar link name length is not representable'') (\<lambda>len.
           check_limit len (max_name_bytes_per_entry limits) NameBytesPerEntry))) (\<lambda>_.
     ok link))"

text \<open>Owner, group and time: the header field is read also where a pax value replaces it.\<close>

definition tar_owner ::
    "byte_slice \<Rightarrow> pax_values \<Rightarrow> pax_values \<Rightarrow> (u32 \<times> u64 \<times> u64 \<times> int option) op" where
  "tar_owner header local global =
     and_then (tar_u64 header 100 8 ''tar mode is invalid'') (\<lambda>mode_value.
     and_then (ok_or (deb_error ''tar mode is too large'') (narrow mode_value)) (\<lambda>mode.
     and_then (tar_u64 header 108 8 ''tar uid is invalid'') (\<lambda>header_uid.
     and_then (tar_u64 header 116 8 ''tar gid is invalid'') (\<lambda>header_gid.
     and_then (tar_i64 header 136 12 ''tar mtime is invalid'') (\<lambda>header_time.
     ok (mode, unwrap_or (or_else (pv_uid local) (pv_uid global)) header_uid,
         unwrap_or (or_else (pv_gid local) (pv_gid global)) header_gid,
         or_else (or_else (pv_modified_time local) (pv_modified_time global)) (Some header_time)))))))"

definition tar_device :: "byte_slice \<Rightarrow> deb_entry_kind \<Rightarrow> u64 \<Rightarrow> string \<Rightarrow> string \<Rightarrow> u32 option op" where
  "tar_device header entry_kind offset invalid too_large =
     (if entry_kind = BlockDevice \<or> entry_kind = CharacterDevice then
        and_then (tar_u64 header offset 8 invalid) (\<lambda>value.
        and_then (ok_or (deb_error too_large) (narrow value)) (\<lambda>value. ok (Some value)))
      else ok None)"

definition copy_optional :: "byte_slice option \<Rightarrow> byte_slice option op" where
  "copy_optional value =
     (case value of None \<Rightarrow> ok None | Some bytes \<Rightarrow> and_then (copy_bytes bytes) (\<lambda>v. ok (Some v)))"

text \<open>The member under a header that is not an extension.\<close>

definition tar_member ::
    "byte_slice \<Rightarrow> deb_section \<Rightarrow> limits \<Rightarrow> byte_slice \<Rightarrow> u8 \<Rightarrow> u64 \<Rightarrow> u64 \<Rightarrow> tar_progress \<Rightarrow>
     tar_progress tar_op" where
  "tar_member bytes section limits header type_flag header_size data_start st =
     (let local = unwrap_or (tp_local st) pax_default; global = tp_global st in
     and_then (internal (header_path header limits)) (\<lambda>header_name.
     let name = unwrap_or (or_else (or_else (pv_path local) (pv_path global)) (tp_long_name st)) header_name in
     and_then (validate_name name limits) (\<lambda>_.
     and_then (internal (tar_link header limits local global (tp_long_link st))) (\<lambda>link.
     let len = unwrap_or (or_else (pv_size local) (pv_size global)) header_size in
     and_then (check_limit len (max_entry_output_bytes limits) EntryOutputBytes) (\<lambda>_.
     and_then (ok_or (deb_error ''tar member data range overflows'') (checked_add data_start len))
       (\<lambda>data_end.
     and_then (internal (checked_range bytes data_start len
       ''tar member data range overflows'' ''tar member data is truncated'')) (\<lambda>_.
     and_then (add_total at_files at_files_update 1 ''total Debian entry count overflows'') (\<lambda>files.
     and_then (check_limit files (max_files limits) Files) (\<lambda>_.
     and_then (gets (\<lambda>(s, totals). at_next_entry_index totals)) (\<lambda>index.
     and_then (add_total at_next_entry_index at_next_entry_index_update 1 ''Debian entry index overflows'')
       (\<lambda>_.
     and_then (internal (tar_owner header local global)) (\<lambda>(mode, uid, gid, modified_time).
     and_then (internal (tar_string header 265 32 ''tar user name is truncated'')) (\<lambda>header_user.
     and_then (internal (tar_string header 297 32 ''tar group name is truncated'')) (\<lambda>header_group.
     let user_name = or_else (or_else (pv_user_name local) (pv_user_name global)) (nonempty header_user);
         group_name = or_else (or_else (pv_group_name local) (pv_group_name global)) (nonempty header_group);
         entry_kind = from_type_flag type_flag in
     and_then (internal (tar_device header entry_kind 329
       ''tar device major is invalid'' ''tar device major is too large'')) (\<lambda>device_major.
     and_then (internal (tar_device header entry_kind 337
       ''tar device minor is invalid'' ''tar device minor is too large'')) (\<lambda>device_minor.
     and_then (internal (tar_u64 header 148 8 ''tar checksum is invalid'')) (\<lambda>checksum.
     and_then (ok_or (deb_error ''tar checksum is too large'') (narrow checksum)) (\<lambda>checksum.
     and_then (internal (make_room (length (tp_entries st)) (tp_capacity st))) (\<lambda>capacity.
     and_then (internal (copy_bytes name)) (\<lambda>raw_name.
     and_then (internal (copy_optional link)) (\<lambda>raw_link_name.
     and_then (internal (copy_optional user_name)) (\<lambda>user_name.
     and_then (internal (copy_optional group_name)) (\<lambda>group_name.
     and_then (internal (next_record_offset data_start len)) (\<lambda>offset.
     ok (st\<lparr>tp_offset := offset,
       tp_entries := tp_entries st @
         [\<lparr>de_index = index, de_section = section, de_raw_name = raw_name, de_raw_link_name = raw_link_name,
           de_kind = entry_kind, de_mode = mode, de_uid = uid, de_gid = gid,
           de_modified_time = modified_time, de_size = len, de_user_name = user_name,
           de_group_name = group_name, de_device_major = device_major, de_device_minor = device_minor,
           de_header_checksum = checksum, de_data_start = data_start, de_data_end = data_end\<rparr>],
       tp_capacity := capacity, tp_local := None, tp_long_name := None, tp_long_link := None\<rparr>)))))))))))))))))))))))))"

definition tar_step ::
    "byte_slice \<Rightarrow> deb_section \<Rightarrow> limits \<Rightarrow> u64 \<Rightarrow> tar_progress \<Rightarrow> tar_progress tar_op" where
  "tar_step bytes section limits input_size st =
     and_then (internal (checkpoint 1)) (\<lambda>_.
     and_then (internal (checked_range bytes (tp_offset st) BLOCK_BYTES
       ''tar header range overflows'' ''tar header is truncated'')) (\<lambda>header.
     and_then (add_header_bytes limits BLOCK_BYTES) (\<lambda>_.
     if list_all (\<lambda>byte. byte = 0) header then
       and_then (tar_end bytes limits input_size (tp_offset st)) (\<lambda>_. ok (st\<lparr>tp_saw_end := True\<rparr>))
     else
       and_then (internal (verify_header_checksum header)) (\<lambda>_.
       and_then (internal (validate_magic header)) (\<lambda>_.
       and_then (internal (tar_u64 header 124 12 ''tar size is invalid'')) (\<lambda>header_size.
       and_then (ok_or (deb_error ''tar type flag is truncated'') (item_get header 156)) (\<lambda>type_flag.
       and_then (ok_or (deb_error ''tar data offset overflows'') (checked_add (tp_offset st) BLOCK_BYTES))
         (\<lambda>data_start.
       if extension_flag type_flag then
         tar_extension bytes limits type_flag header_size data_start st
       else tar_member bytes section limits header type_flag header_size data_start st))))))))"

text \<open>Where a header ends up, for the loop and for the laws.\<close>

lemma next_block:
  "(v :: nat) = n + (if n mod 512 = 0 then 0 else 512 - n mod 512) \<Longrightarrow> v mod 512 = 0 \<and> n \<le> v \<and> v < n + 512"
proof (cases "n mod 512 = 0")
  case False
  assume v: "v = n + (if n mod 512 = 0 then 0 else 512 - n mod 512)"
  obtain q r where qr: "n = 512 * q + r" "r < 512" "n mod 512 = r"
    by (metis mod_less_divisor mult_div_mod_eq zero_less_numeral)
  with False v have "v = 512 * (q + 1)" by simp
  with False v qr show ?thesis by (simp only: mod_mult_self1_is_0) simp
qed simp

lemma tar_align_up_success:
  assumes "tar_align_up value BLOCK_BYTES s = (Inr v, t)"
  shows "t = s \<and> unat v mod 512 = 0 \<and> unat value \<le> unat v \<and> unat v < unat value + 512"
proof -
  from assms have "t = s" and
    "unat v = unat value + (if unat value mod 512 = 0 then 0 else 512 - unat value mod 512)"
    by (auto simp: tar_align_up_def success Let_def checked_sub_eq_Some checked_add_eq_Some
        BLOCK_BYTES_def unat_mod word_unat_eq_iff)
  with next_block show ?thesis by blast
qed

lemma next_record_offset_success:
  "next_record_offset data_start len s = (Inr v, t) \<Longrightarrow> t = s \<and> unat v mod 512 = 0 \<and>
     unat data_start + unat len \<le> unat v \<and> unat v < unat data_start + unat len + 512"
  by (auto simp: next_record_offset_def success checked_add_eq_Some dest!: tar_align_up_success)

lemma tar_extension_moves:
  assumes "tar_extension bytes limits flag len data_start st s = (Inr st', t)"
  shows "unat data_start \<le> unat (tp_offset st') \<and> tp_saw_end st' = tp_saw_end st"
  using assms
  by (auto simp: tar_extension_def success dest!: next_record_offset_success)

lemma tar_member_moves:
  assumes "tar_member bytes section limits header flag len data_start st s = (Inr st', t)"
  shows "unat data_start \<le> unat (tp_offset st') \<and> tp_saw_end st' = tp_saw_end st"
  using assms
  by (clarsimp simp: tar_member_def success Let_def split: prod.splits dest!: next_record_offset_success)

definition tar_left :: "u64 \<Rightarrow> tar_progress \<Rightarrow> nat" where
  "tar_left input_size st = (if tp_saw_end st then 0 else Suc (unat input_size - unat (tp_offset st)))"

definition tar_reading :: "u64 \<Rightarrow> tar_progress \<Rightarrow> bool" where
  "tar_reading input_size st \<longleftrightarrow> tp_offset st < input_size \<and> \<not> tp_saw_end st"

lemma tar_step_left:
  assumes "tar_step bytes section limits input_size st s = (Inr st', t)" and "tar_reading input_size st"
  shows "tar_left input_size st' < tar_left input_size st"
proof -
  from assms(1) have "tp_saw_end st' \<or> unat (tp_offset st) + 512 \<le> unat (tp_offset st') \<and> tp_saw_end st' = tp_saw_end st"
    by (auto simp: tar_step_def success BLOCK_BYTES_def checked_add_eq_Some
        dest!: tar_extension_moves tar_member_moves)
  with assms(2) show ?thesis
    by (auto simp: tar_left_def tar_reading_def word_less_nat_alt)
qed

function tar_loop ::
    "byte_slice \<Rightarrow> deb_section \<Rightarrow> limits \<Rightarrow> u64 \<Rightarrow> tar_progress \<Rightarrow> tar_progress tar_op" where
  "tar_loop bytes section limits input_size st s =
     (if tar_reading input_size st
      then and_then (tar_step bytes section limits input_size st)
        (\<lambda>st s. tar_loop bytes section limits input_size st s) s
      else ok st s)"
  by pat_completeness auto
termination
  by (relation "measure (\<lambda>(bytes, section, limits, n, st, s). tar_left n st)") (auto dest: tar_step_left)

declare tar_loop.simps [simp del]

interpretation tar_headers: loop "tar_loop bytes part limits input_size" "tar_reading input_size"
  "tar_step bytes part limits input_size" "\<lambda>st _. tar_left input_size st"
  for bytes part limits input_size
  by unfold_locales (subst tar_loop.simps, simp, auto dest: tar_step_left)

definition tar_parse :: "byte_slice \<Rightarrow> deb_section \<Rightarrow> limits \<Rightarrow> deb_entry list tar_op" where
  "tar_parse bytes section limits =
     and_then (internal (usize_to_u64 (length bytes) ''tar input size is not representable'')) (\<lambda>input_size.
     and_then (tar_loop bytes section limits input_size
       \<lparr>tp_offset = 0, tp_entries = [], tp_capacity = 0, tp_global = pax_default, tp_local = None,
        tp_long_name = None, tp_long_link = None, tp_saw_end = False\<rparr>) (\<lambda>st.
     and_then (err_if (\<not> tp_saw_end st) (deb_error ''tar end marker is missing'')) (\<lambda>_.
     and_then (err_if (tp_local st \<noteq> None \<or> tp_long_name st \<noteq> None \<or> tp_long_link st \<noteq> None)
       (deb_error ''tar extension header has no following member'')) (\<lambda>_.
     ok (tp_entries st)))))"

end
