(* ===== verification/Deb_Ar_Laws.thy ===== *)
theory Deb_Ar_Laws
  imports Deb_Ar Member_Layout
begin

text \<open>
  The ar container of a Debian package: its numeric fields are read as what they say, its names are
  System V names, and its members tile the file.
\<close>


section \<open>Numeric fields\<close>

text \<open>
  A field is spaces, digits, spaces; an empty field is zero.  \<open>digits_value\<close> is the number that the
  digits denote, most significant first.
\<close>

definition digits_value :: "nat \<Rightarrow> nat list \<Rightarrow> nat" where
  "digits_value radix ds = foldl (\<lambda>v d. radix * v + d) 0 ds"

definition field_of :: "nat \<Rightarrow> nat list \<Rightarrow> nat \<Rightarrow> byte_slice" where
  "field_of before ds after =
     replicate before 0x20 @ map (\<lambda>d. of_nat (0x30 + d)) ds @ replicate after 0x20"

definition radix_ok :: "u8 \<Rightarrow> bool" where "radix_ok radix \<longleftrightarrow> 0 < radix \<and> radix \<le> 10"

lemma digit_byte:
  assumes "radix_ok radix"
  shows "Option.bind (checked_sub byte 0x30) (\<lambda>d. if d < radix then Some d else None) = Some d \<longleftrightarrow>
    unat d < unat radix \<and> byte = of_nat (0x30 + unat d)"
proof -
  have "unat radix \<le> 10" using assms by (simp add: radix_ok_def word_le_nat_alt)
  then show ?thesis
    by (auto simp: Option.bind_eq_Some_conv checked_sub_eq_Some word_less_nat_alt word_unat_eq_iff unat_of_nat unat_word_ariths)
qed

lemma not_space: "d < 10 \<Longrightarrow> of_nat (48 + d) \<noteq> (0x20 :: u8)"
  by (simp add: word_unat_eq_iff unat_of_nat unat_word_ariths)

lemma positional_space [simp]: "positional_step radix detail (v, saw, trailing) 0x20 s = (Inr (v, saw, trailing \<or> saw), s)"
  by (simp add: positional_step_def run)

lemma push_digit:
  "Option.bind (checked_mul v (ucast radix)) (\<lambda>current. checked_add current (ucast (d :: u8))) = Some w \<longleftrightarrow>
     unat (w :: u64) = unat (radix :: u8) * unat v + unat d"
proof -
  have u: "unat (ucast b :: u64) = unat b" for b :: u8
    using unat_less_8 [of b] by (simp add: unsigned_ucast_eq take_bit_eq_mod mod_less [OF less_trans [OF unat_less_8]])
  have "unat w = unat radix * unat v + unat d \<longleftrightarrow>
      (\<exists>c :: u64. unat v * unat radix = unat c \<and> unat c + unat d = unat w)" (is "?L \<longleftrightarrow> ?R")
  proof
    assume ?L
    then have "unat v * unat radix < 2 ^ 64"
      using unat_less_64 [of w] unfolding two_power_64 by (simp add: mult.commute)
    then have "unat (of_nat (unat v * unat radix) :: u64) = unat v * unat radix"
      unfolding two_power_64 by (rule unat_of_nat_u64)
    with \<open>?L\<close> show ?R by (metis mult.commute)
  qed (auto simp: mult.commute)
  then show ?thesis
    by (auto simp: Option.bind_eq_Some_conv checked_mul_eq_Some checked_add_eq_Some u)
qed

lemma positional_digit:
  assumes "radix_ok radix" and "byte \<noteq> 0x20"
  shows "positional_step radix detail (v, saw, trailing) byte s = (Inr r, t) \<longleftrightarrow>
    t = s \<and> \<not> trailing \<and> (\<exists>d < unat radix. byte = of_nat (0x30 + d) \<and>
      (\<exists>w. unat w = unat radix * unat v + d \<and> r = (w, True, False)))" (is "_ \<longleftrightarrow> _ \<and> _ \<and> ?R")
proof -
  have "positional_step radix detail (v, saw, trailing) byte s = (Inr r, t) \<longleftrightarrow>
      t = s \<and> \<not> trailing \<and> (\<exists>d :: u8. unat d < unat radix \<and> byte = of_nat (0x30 + unat d) \<and>
        (\<exists>w. unat w = unat radix * unat v + unat d \<and> r = (w, True, False)))" (is "_ \<longleftrightarrow> _ \<and> _ \<and> ?L")
    using assms(2) by (auto simp: positional_step_def success digit_byte [OF assms(1)] push_digit)
  moreover have "?L \<longleftrightarrow> ?R"
  proof
    assume ?R
    then obtain d where d: "d < unat radix" "byte = of_nat (0x30 + d)"
      "\<exists>w. unat w = unat radix * unat v + d \<and> r = (w, True, False)" by blast
    moreover have "d < 256" using d(1) unat_less_8 [of radix] by linarith
    then have "unat (of_nat d :: u8) = d" by (simp add: unat_of_nat)
    ultimately show ?L by (intro exI [of _ "of_nat d :: u8"]) simp
  qed blast
  ultimately show ?thesis by blast
qed

text \<open>The loop passes through three phases: before, in and behind the digits.\<close>

lemma trailing_phase:
  assumes "radix_ok radix"
  shows "for_fold xs (v, True, True) (positional_step radix detail) s = (Inr r, t) \<longleftrightarrow>
    t = s \<and> r = (v, True, True) \<and> xs = replicate (length xs) 0x20"
proof (induction xs arbitrary: s)
  case (Cons x xs)
  show ?case
    by (cases "x = 0x20") (use Cons.IH in \<open>auto simp: success run positional_digit [OF assms]\<close>)
qed (auto simp: success)

lemma digits_value_Cons: "digits_value r (ds @ [d]) = r * digits_value r ds + d"
  by (simp add: digits_value_def)

definition digits_from :: "nat \<Rightarrow> nat \<Rightarrow> nat list \<Rightarrow> nat" where
  "digits_from radix v ds = foldl (\<lambda>v d. radix * v + d) v ds"

lemma digits_from_mono: "0 < radix \<Longrightarrow> v \<le> digits_from radix v ds"
proof (induction ds arbitrary: v)
  case (Cons d ds)
  have "v \<le> radix * v + d" using Cons.prems by (simp add: trans_le_add1)
  also have "\<dots> \<le> digits_from radix (radix * v + d) ds" using Cons by blast
  finally show ?case by (simp add: digits_from_def)
qed (simp add: digits_from_def)

abbreviation digit_bytes :: "nat list \<Rightarrow> byte_slice" where
  "digit_bytes ds \<equiv> map (\<lambda>d. of_nat (0x30 + d)) ds"

text \<open>The bytes of a field from its first digit on, and the number they make of the value so far.\<close>

definition digits_then_spaces :: "nat \<Rightarrow> nat \<Rightarrow> byte_slice \<Rightarrow> nat \<Rightarrow> bool" where
  "digits_then_spaces radix v xs w \<longleftrightarrow>
     (\<exists>ds after. xs = digit_bytes ds @ replicate after 0x20 \<and> (\<forall>d \<in> set ds. d < radix) \<and>
       digits_from radix v ds = w)"

lemma digits_then_spaces_Nil [simp]: "digits_then_spaces radix v [] w \<longleftrightarrow> v = w"
  by (auto simp: digits_then_spaces_def digits_from_def)

lemma digits_then_spaces_space:
  assumes "radix \<le> 10"
  shows "digits_then_spaces radix v (0x20 # xs) w \<longleftrightarrow> xs = replicate (length xs) 0x20 \<and> v = w"
    (is "?L \<longleftrightarrow> ?R")
proof
  assume ?L
  then obtain ds after where L: "0x20 # xs = digit_bytes ds @ replicate after 0x20"
    "\<forall>d \<in> set ds. d < radix" "digits_from radix v ds = w"
    by (auto simp: digits_then_spaces_def)
  have "ds = []"
  proof (cases ds)
    case (Cons d ds')
    with L assms have "of_nat (48 + d) = (0x20 :: u8)" "d < 10" by auto
    with not_space show ?thesis by blast
  qed simp
  with L show ?R by (cases after) (auto simp: digits_from_def)
next
  assume ?R
  then show ?L
    unfolding digits_then_spaces_def
    by (intro exI [of _ "[]"] exI [of _ "Suc (length xs)"]) (auto simp: digits_from_def)
qed

lemma digits_then_spaces_digit:
  assumes "x \<noteq> 0x20"
  shows "digits_then_spaces radix v (x # xs) w \<longleftrightarrow>
    (\<exists>d < radix. x = of_nat (0x30 + d) \<and> digits_then_spaces radix (radix * v + d) xs w)"
    (is "?L \<longleftrightarrow> ?R")
proof
  assume ?L
  then obtain ds after where L: "x # xs = digit_bytes ds @ replicate after 0x20"
    "\<forall>d \<in> set ds. d < radix" "digits_from radix v ds = w"
    by (auto simp: digits_then_spaces_def)
  moreover from L(1) assms obtain d ds' where "ds = d # ds'" by (cases ds; cases after) auto
  ultimately show ?R by (auto simp: digits_then_spaces_def digits_from_def)
next
  assume ?R
  then obtain d ds after where "d < radix" "x = of_nat (0x30 + d)"
    "xs = digit_bytes ds @ replicate after 0x20" "\<forall>d \<in> set ds. d < radix"
    "digits_from radix (radix * v + d) ds = w"
    by (auto simp: digits_then_spaces_def)
  then show ?L
    unfolding digits_then_spaces_def
    by (intro exI [of _ "d # ds"] exI [of _ after]) (auto simp: digits_from_def)
qed

lemma digits_then_spaces_mono: "0 < radix \<Longrightarrow> digits_then_spaces radix v xs w \<Longrightarrow> v \<le> w"
  by (auto simp: digits_then_spaces_def intro: digits_from_mono)

lemma digit_phase:
  assumes "radix_ok radix"
  shows "(\<exists>tr. for_fold xs (v, True, False) (positional_step radix detail) s = (Inr (w, saw, tr), t)) \<longleftrightarrow>
    t = s \<and> saw \<and> digits_then_spaces (unat radix) (unat v) xs (unat w)"
proof (induction xs arbitrary: v s)
  case Nil
  show ?case by (auto simp: success) (metis word_unat_eq_iff)
next
  case (Cons x xs)
  have r: "0 < unat radix" "unat radix \<le> 10"
    using assms by (auto simp: radix_ok_def word_less_nat_alt word_le_nat_alt)
  show ?case
  proof (cases "x = 0x20")
    case True
    then show ?thesis
      by (auto simp: success run trailing_phase [OF assms] digits_then_spaces_space [OF r(2)])
        (metis word_unat_eq_iff)
  next
    case False
    have fits: "(\<exists>u :: u64. unat u = n \<and> digits_then_spaces (unat radix) (unat u) xs (unat w)) \<longleftrightarrow>
        digits_then_spaces (unat radix) n xs (unat w)" for n
    proof safe
      assume n: "digits_then_spaces (unat radix) n xs (unat w)"
      then have "n < 18446744073709551616"
        using digits_then_spaces_mono [OF r(1) n] unat_less_64 [of w] by linarith
      with n show "\<exists>u :: u64. unat u = n \<and> digits_then_spaces (unat radix) (unat u) xs (unat w)"
        by (intro exI [of _ "of_nat n :: u64"]) simp
    qed
    have "(\<exists>tr. for_fold (x # xs) (v, True, False) (positional_step radix detail) s = (Inr (w, saw, tr), t)) \<longleftrightarrow>
      (\<exists>d u. d < unat radix \<and> x = of_nat (0x30 + d) \<and> unat u = unat radix * unat v + d \<and>
        (\<exists>tr. for_fold xs (u, True, False) (positional_step radix detail) s = (Inr (w, saw, tr), t)))"
      unfolding for_fold.simps and_then_success positional_digit [OF assms False] by blast
    also have "\<dots> \<longleftrightarrow> t = s \<and> saw \<and> (\<exists>d < unat radix. x = of_nat (0x30 + d) \<and>
        (\<exists>u :: u64. unat u = unat radix * unat v + d \<and>
          digits_then_spaces (unat radix) (unat u) xs (unat w)))"
      unfolding Cons.IH by blast
    finally show ?thesis
      unfolding fits digits_then_spaces_digit [OF False] .
  qed
qed

text \<open>Leading spaces are skipped before the first digit.\<close>

definition is_field :: "nat \<Rightarrow> byte_slice \<Rightarrow> nat \<Rightarrow> bool" where
  "is_field radix xs w \<longleftrightarrow>
     (\<exists>before ds after. xs = field_of before ds after \<and> (\<forall>d \<in> set ds. d < radix) \<and>
       digits_value radix ds = w)"

lemma is_field_lead:
  "is_field radix xs w \<longleftrightarrow> (\<exists>before ys. xs = replicate before 0x20 @ ys \<and> digits_then_spaces radix 0 ys w)"
  by (auto simp: is_field_def field_of_def digits_then_spaces_def digits_value_def digits_from_def)

lemma is_field_space:
  assumes "radix \<le> 10"
  shows "is_field radix (0x20 # xs) w \<longleftrightarrow> is_field radix xs w" (is "?L \<longleftrightarrow> ?R")
proof
  assume ?L
  then obtain before ys where L: "0x20 # xs = replicate before 0x20 @ ys" "digits_then_spaces radix 0 ys w"
    by (auto simp: is_field_lead)
  show ?R
  proof (cases before)
    case 0
    with L digits_then_spaces_space [OF assms, of 0 xs w] have "xs = replicate (length xs) 0x20 @ [] \<and> 0 = w"
      by simp
    then show ?R unfolding is_field_lead digits_then_spaces_Nil [symmetric, of 0 w radix] by blast
  qed (use L in \<open>auto simp: is_field_lead\<close>)
next
  assume ?R
  then show ?L by (auto simp: is_field_lead) (metis append_Cons replicate_Suc)
qed

lemma is_field_digit:
  "x \<noteq> 0x20 \<Longrightarrow> is_field radix (x # xs) w \<longleftrightarrow> digits_then_spaces radix 0 (x # xs) w"
  unfolding is_field_lead
proof safe
  fix before ys assume "x \<noteq> 0x20" "x # xs = replicate before 0x20 @ ys" "digits_then_spaces radix 0 ys w"
  then show "digits_then_spaces radix 0 (x # xs) w" by (cases before) auto
qed (metis append_Nil replicate_0)

lemma positional_fold:
  assumes "radix_ok radix"
  shows "(\<exists>saw tr. for_fold xs (0, False, False) (positional_step radix detail) s = (Inr (w, saw, tr), t)) \<longleftrightarrow>
    t = s \<and> is_field (unat radix) xs (unat w)"
proof (induction xs arbitrary: s)
  case Nil
  show ?case by (auto simp: success is_field_lead unat_eq_zero)
next
  case (Cons x xs)
  have r: "unat radix \<le> 10"
    using assms by (auto simp: radix_ok_def word_le_nat_alt)
  show ?case
  proof (cases "x = 0x20")
    case True
    with Cons.IH show ?thesis by (simp add: success run is_field_space [OF r])
  next
    case False
    then have "for_fold (x # xs) (0, False, False) (positional_step radix detail) s
      = for_fold (x # xs) (0, True, False) (positional_step radix detail) s"
      by (simp add: positional_step_def and_then_def)
    with digit_phase [OF assms, of "x # xs" 0] False show ?thesis
      by (auto simp: is_field_digit)
  qed
qed

lemma positional_unseen:
  assumes "for_fold xs (0, False, False) (positional_step radix detail) s = (Inr (w, saw, tr), t)"
    and "\<not> saw"
  shows "w = 0"
proof -
  have "case (w, saw, tr) of (v, saw, tr) \<Rightarrow> saw \<or> v = 0"
    by (rule for_fold_invariant [OF assms(1), where I = "\<lambda>_ r _. case r of (v, saw, tr) \<Rightarrow> saw \<or> v = 0"])
      (auto simp: positional_step_def success split: if_splits)
  with assms(2) show ?thesis by simp
qed


section \<open>Names\<close>

lemma trim_name_success:
  "trim_name field n s = (Inr k, t) \<Longrightarrow> n \<le> length field \<Longrightarrow>
     k \<le> n \<and> take n field = take k field @ replicate (n - k) 0x20"
proof (induction n)
  case (Suc n)
  show ?case
  proof (cases "field ! n = 0x20")
    case True
    with Suc.prems have "trim_name field n s = (Inr k, t)" and n: "n < length field"
      by (auto simp: success item_get_eq_Some)
    with Suc.IH have k: "k \<le> n" "take n field = take k field @ replicate (n - k) 0x20" by auto
    have "take (Suc n) field = take n field @ [0x20]"
      using n True by (simp add: take_Suc_conv_app_nth)
    also have "\<dots> = take k field @ replicate (Suc (n - k)) 0x20"
      using k(2) by (simp add: replicate_append_same)
    finally show ?thesis using k(1) by (simp add: Suc_diff_le)
  next
    case False
    with Suc show ?thesis by (auto simp: success item_get_eq_Some)
  qed
qed (simp add: success)

definition system_v_name :: "byte_slice \<Rightarrow> bool" where
  "system_v_name name \<longleftrightarrow> name \<noteq> [] \<and> 0 \<notin> set name \<and>
     \<not> starts_with name (ascii ''/'') \<and> \<not> starts_with name (ascii ''#1/'')"

lemma starts_with_refl [simp]: "starts_with name name"
  by (simp add: starts_with_def)

lemma ar_parse_name_success:
  assumes "ar_parse_name field s = (Inr name, t)"
  shows "system_v_name name \<and>
    (\<exists>n. field = name @ replicate n 0x20 \<or> field = name @ [0x2F] @ replicate n 0x20)"
proof -
  from assms obtain k where k: "trim_name field (length field) s = (Inr k, t)" and "k \<le> length field"
    and name: "(if ends_with_byte (take k field) 0x2F \<and> take k field \<noteq> ascii ''/'' \<and> take k field \<noteq> ascii ''//''
       then butlast (take k field) else take k field) = name" 
    and sys: "system_v_name name"
    by (auto simp: ar_parse_name_def system_v_name_def success slice_get_def butlast_conv_take split: if_splits)
  define pre where "pre = take k field"
  from trim_name_success [OF k] have field: "field = pre @ replicate (length field - k) 0x20"
    by (simp add: pre_def)
  show ?thesis
  proof (cases "ends_with_byte pre 0x2F \<and> pre \<noteq> ascii ''/'' \<and> pre \<noteq> ascii ''//''")
    case True
    then have "last pre = 0x2F" and "butlast pre @ [last pre] = pre"
      unfolding ends_with_byte_def by (blast, metis append_butlast_last_id)
    with True name have "pre = name @ [0x2F]" by (simp add: pre_def)
    with field sys show ?thesis by (metis append.assoc)
  next
    case False
    with name have "pre = name" by (auto simp: pre_def)
    with field sys show ?thesis by blast
  qed
qed


section \<open>Members\<close>

text \<open>A record is the header, the data and the padding byte.\<close>

definition ar_record :: "ar_member \<Rightarrow> nat \<times> nat" where
  "ar_record m = (unat (ar_data_start m) - 60, unat (ar_data_end m) + unat (ar_size m) mod 2)"

definition ar_member_sound :: "byte_slice \<Rightarrow> limits \<Rightarrow> nat \<Rightarrow> ar_member \<Rightarrow> bool" where
  "ar_member_sound bytes limits i m \<longleftrightarrow>
     unat (ar_index m) = i \<and> system_v_name (ar_raw_name m) \<and>
     length (ar_raw_name m) \<le> unat (max_name_bytes_per_entry limits) \<and>
     60 \<le> unat (ar_data_start m) \<and> unat (ar_data_end m) = unat (ar_data_start m) + unat (ar_size m) \<and>
     slice_get (member_bytes bytes (unat (ar_data_start m) - 60, unat (ar_data_start m))) 58 60
       = Some [0x60, 0x0A] \<and>
     member_bytes bytes (unat (ar_data_end m), snd (ar_record m)) = replicate (unat (ar_size m) mod 2) 0x0A"

definition ar_inv :: "byte_slice \<Rightarrow> limits \<Rightarrow> ar_progress \<Rightarrow> bool" where
  "ar_inv bytes limits st \<longleftrightarrow>
     tiled ar_record 8 (ap_entries st) (unat (ap_offset st)) \<and> unat (ap_offset st) \<le> length bytes \<and>
     (\<forall>i < length (ap_entries st). ar_member_sound bytes limits i (ap_entries st ! i)) \<and>
     length (ap_entries st) \<le> unat (max_files limits) \<and>
     unat (ap_total_name_bytes st) = (\<Sum>m\<leftarrow>ap_entries st. length (ar_raw_name m)) \<and>
     unat (ap_total_name_bytes st) \<le> unat (max_total_name_bytes limits)"

lemma ar_padding_record:
  assumes "ar_padding bytes data_end len s = (Inr next_offset, t)" and "unat data_end \<le> length bytes"
  shows "unat next_offset = unat data_end + unat len mod 2 \<and> unat next_offset \<le> length bytes \<and>
    member_bytes bytes (unat data_end, unat next_offset) = replicate (unat len mod 2) 0x0A"
proof -
  have "len AND 1 = 0 \<longleftrightarrow> unat len mod 2 = 0"
    by (simp add: and_one_eq word_unat_eq_iff unat_mod)
  with ar_padding_success [OF assms(1)] assms(2) show ?thesis
    by (cases "len AND 1 = 0") (auto simp: member_bytes_def take_Suc_conv_app_nth take_Suc hd_drop_conv_nth Suc_le_eq)
qed

lemma ar_inv_step:
  assumes inv: "ar_inv bytes limits st" and run: "ar_step bytes limits st s = (Inr st', t)"
  shows "ar_inv bytes limits st'"
  using run
proof (cases rule: ar_step_cases)
  case (1 m)
  from 1(5) obtain u v field where name: "ar_parse_name field u = (Inr (ar_raw_name m), v)" by blast
  from 1(12) obtain w where pad: "ar_padding bytes (ar_data_end m) (ar_size m) w = (Inr (ap_offset st'), t)" by blast
  note rec = ar_padding_record [OF pad 1(11)]
  have "ar_record m = (unat (ap_offset st), unat (ap_offset st'))"
    using rec 1(9) by (simp add: ar_record_def)
  moreover have "ar_member_sound bytes limits (length (ap_entries st)) m"
    using 1(2,4,6,9,10) rec ar_parse_name_success [OF name]
    by (auto simp: ar_member_sound_def ar_record_def member_bytes_def)
  ultimately show ?thesis
    using inv 1 rec by (auto simp: ar_inv_def tiled_snoc nth_append less_Suc_eq)
qed

definition ar_sound :: "byte_slice \<Rightarrow> limits \<Rightarrow> ar_member list \<Rightarrow> bool" where
  "ar_sound bytes limits ms \<longleftrightarrow>
     take 8 bytes = GLOBAL_HEADER \<and> tiled ar_record 8 ms (length bytes) \<and>
     (\<forall>i < length ms. ar_member_sound bytes limits i (ms ! i)) \<and>
     length ms \<le> unat (max_files limits) \<and>
     (\<Sum>m\<leftarrow>ms. length (ar_raw_name m)) \<le> unat (max_total_name_bytes limits)"


section \<open>Properties\<close>

text \<open>C23: A numeric field of a member header is accepted exactly when it is spaces, digits of the
  radix and spaces, and the number fits 64 bits; then the result is that number.  Nothing else is
  changed or charged.\<close>

theorem ar_number_fields:
  assumes "radix_ok radix" and "length field \<le> usize_max (machine s)" and "length field < 2 ^ 64"
  shows "positional_u64 field 0 (of_nat (length field)) radix detail s = (Inr v, t) \<longleftrightarrow>
    t = s \<and> is_field (unat radix) field (unat v)"
proof -
  have "positional_u64 field 0 (of_nat (length field)) radix detail s = (Inr v, t) \<longleftrightarrow>
      (\<exists>saw tr. for_fold field (0, False, False) (positional_step radix detail) s = (Inr (v, saw, tr), t))"
    using assms(2,3)
    by (auto simp: positional_u64_def success unat_of_nat dest: positional_unseen split: if_splits)
  then show ?thesis by (simp only: positional_fold [OF assms(1)])
qed

lemma ar_number_fields_witness:
  "positional_u64 [0x20, 0x34, 0x32, 0x20] 0 (of_nat 4) 10 [] (sample_session [])
     = (Inr 42, sample_session []) \<and> is_field 10 [0x20, 0x34, 0x32, 0x20] 42"
proof -
  have field: "is_field (unat (10 :: u8)) [0x20, 0x34, 0x32, 0x20] (unat (42 :: u64))"
    unfolding is_field_def field_of_def
    by (rule exI [of _ 1], rule exI [of _ "[4, 2]"], rule exI [of _ 1]) (simp add: digits_value_def)
  then show ?thesis
    using ar_number_fields [of 10 "[0x20, 0x34, 0x32, 0x20]" "sample_session []" "[]" 42]
    by (simp add: radix_ok_def sample_session_def)
qed

text \<open>C20: The members of an ar file that parses tile it: a global header, then for each member a
  60-byte header with its terminator, the data of the declared size and a newline behind data of odd
  size, up to the last byte of the file.  Indices count the members, names are System V names within
  the name limits, and the number of members is within its limit.\<close>

theorem ar_members_tile:
  assumes "ar_parse bytes limits s = (Inr ms, t)"
  shows "ar_sound bytes limits ms"
proof -
  have len: "length GLOBAL_HEADER = 8" by (simp add: GLOBAL_HEADER_def ascii_def)
  let ?start = "\<lparr>ap_entries = [], ap_capacity = 0, ap_offset = 8, ap_total_name_bytes = 0,
    ap_total_header_bytes = 0\<rparr>"
  from assms obtain st u v where st: "ar_loop bytes limits (of_nat (length bytes)) ?start u = (Inr st, v)"
    and magic: "take 8 bytes = GLOBAL_HEADER" "8 \<le> length bytes" "length bytes < 2 ^ 64" and ms: "ms = ap_entries st"
    by (auto simp: ar_parse_def success len)
  have "ar_inv bytes limits st \<and> \<not> ar_reading (of_nat (length bytes)) st"
    using ar_members.loop_success [OF st, where I = "\<lambda>st _. ar_inv bytes limits st"] magic(2)
    by (auto simp: ar_inv_def [of _ _ ?start] intro: ar_inv_step)
  with magic ms show ?thesis
    by (auto simp: ar_sound_def ar_inv_def ar_reading_def word_less_nat_alt not_less)
qed

definition ar_sample :: byte_slice where
  "ar_sample = GLOBAL_HEADER @
     ascii ''a/              0           0     0     644     1         `'' @ [0x0A, 7, 0x0A]"

lemmas ar_evaluate =
  ar_parse_def ar_loop.simps ar_reading_def ar_step_def ar_numbers_def ar_padding_def
  ar_parse_name_def decimal_u64_def octal_u64_def positional_u64_def positional_step_def
  GLOBAL_HEADER_def MEMBER_HEADER_BYTES_def ascii_def starts_with_def ends_with_byte_def
  usize_sub_def narrow_def unat_word_ariths

lemma ar_members_tile_witness: "\<exists>m. ar_sound ar_sample default_limits [m]"
proof -
  have "\<exists>m t. ar_parse ar_sample default_limits (sample_session []) = (Inr [m], t)"
    by (simp add: evaluate ar_evaluate ar_sample_def)
  then show ?thesis using ar_members_tile by blast
qed

end
