(* ===== verification/Deb_Tar_Laws.thy ===== *)
theory Deb_Tar_Laws
  imports Deb_Tar Deb_Ar_Laws
begin

text \<open>
  The tar archives of a Debian package: the numeric fields, the pax records, and the layout of the
  members that a successful parse returns.
\<close>

section \<open>Numbers\<close>

text \<open>The number in big-endian digits of base 256.\<close>

definition be_int :: "int \<Rightarrow> byte_slice \<Rightarrow> int" where
  "be_int v bs = foldl (\<lambda>v b. v * 256 + uint b) v bs"

lemma be_int_bounds:
  "0 \<le> v \<Longrightarrow> v < 2 ^ n \<Longrightarrow> 0 \<le> be_int v bs \<and> be_int v bs < 2 ^ (n + 8 * length bs)"
proof (induction bs arbitrary: v n)
  case (Cons b bs)
  have b: "0 \<le> uint b \<and> uint b < 256" using uint_lt2p [of b] by simp
  have "v * 256 + uint b < 2 ^ (n + 8)"
  proof -
    have "v * 256 + uint b < (v + 1) * 256" using b by simp
    also have "\<dots> \<le> 2 ^ n * 256" using Cons.prems by simp
    finally show ?thesis by (simp add: power_add)
  qed
  moreover have "0 \<le> v * 256 + uint b" using Cons.prems b by simp
  ultimately have "0 \<le> be_int (v * 256 + uint b) bs \<and> be_int (v * 256 + uint b) bs < 2 ^ (n + 8 + 8 * length bs)"
    using Cons.IH by blast
  moreover have "n + 8 + 8 * length bs = n + 8 * length (b # bs)" by simp
  ultimately show ?case by (simp only: be_int_def foldl.simps)
qed (simp add: be_int_def)

lemma i128_push_256:
  assumes "0 \<le> v" and "v < 2 ^ n" and "n + 8 \<le> 127"
  shows "i128_push 256 v (uint (b :: u8)) = Some (v * 256 + uint b)"
proof -
  have "(2 :: int) ^ (n + 8) \<le> 2 ^ 127" using assms(3) by (intro power_increasing) auto
  moreover have "v * 256 + uint b < 2 ^ (n + 8)" "0 \<le> uint b"
    using be_int_bounds [OF assms(1,2), of "[b]"] by (simp_all add: be_int_def)
  ultimately have "v * 256 + uint b < 2 ^ 127" "0 \<le> uint b" by auto
  moreover define c where "c = uint b"
  ultimately show ?thesis using assms(1) unfolding c_def [symmetric]
    by (simp add: i128_push_def checked_i128_def)
qed

lemma base256_fold:
  assumes "0 \<le> v" and "v < 2 ^ n" and "n + 8 * length bs \<le> 127"
  shows "for_fold bs v (\<lambda>value byte. ok_or e (i128_push 256 value (uint byte))) s = (Inr (be_int v bs), s)"
  using assms
proof (induction bs arbitrary: v n)
  case (Cons b bs)
  have "0 \<le> v * 256 + uint b \<and> v * 256 + uint b < 2 ^ (n + 8)"
    using be_int_bounds [OF Cons.prems(1,2), of "[b]"] by (simp add: be_int_def)
  moreover have "n + 8 + 8 * length bs \<le> 127" using Cons.prems(3) by simp
  moreover have "i128_push 256 v (uint b) = Some (v * 256 + uint b)"
    using Cons.prems by (intro i128_push_256 [of v n]) auto
  ultimately show ?case using Cons.IH [of "v * 256 + uint b" "n + 8"]
    by (simp add: run be_int_def)
qed (simp add: run be_int_def)

lemma and_power_two: "(v :: int) AND 2 ^ n \<noteq> 0 \<longleftrightarrow> bit v n"
  by (simp add: and_exp_eq_0_iff_not_bit)

lemma sign_extended:
  assumes "0 \<le> v" and "(v :: int) < 2 ^ Suc n"
  shows "signed_take_bit n v = (if bit v n then v - 2 ^ Suc n else v)"
  using assms by (simp add: signed_take_bit_eq_take_bit_minus take_bit_int_eq_self)

text \<open>A field of the second form holds a two's complement number under its marker bit.\<close>

definition base256_number :: "byte_slice \<Rightarrow> int" where
  "base256_number field =
     signed_take_bit (8 * length field - 2) (be_int (uint (hd field AND 0x7F)) (tl field))"

lemma base256_value_run:
  assumes "field \<noteq> []" and "length field \<le> 15" and "length field * 8 \<le> usize_max (machine s)"
  shows "base256_value field (hd field) detail s = (Inr (base256_number field), s)"
proof -
  obtain n where n: "length field * 8 = Suc (Suc n)" "7 + 8 * length (tl field) = Suc n" "Suc n < 127"
  proof
    show "length field * 8 = Suc (Suc (8 * length field - 2))"
      "7 + 8 * length (tl field) = Suc (8 * length field - 2)" "Suc (8 * length field - 2) < 127"
      using assms(1,2) by (cases field; simp)+
  qed
  let ?v = "be_int (uint (hd field AND 0x7F)) (tl field)"
  have low: "0 \<le> uint (hd field AND 0x7F) \<and> uint (hd field AND 0x7F) < 2 ^ 7"
  proof -
    have "uint (hd field AND 0x7F) = take_bit 7 (uint (hd field))"
      by (simp add: uint_and take_bit_eq_mask mask_eq_exp_minus_1)
    then show ?thesis using take_bit_int_less_exp [of 7 "uint (hd field)"] by simp
  qed
  have v: "0 \<le> ?v \<and> ?v < 2 ^ Suc n"
    using be_int_bounds [OF low [THEN conjunct1] low [THEN conjunct2], of "tl field"] unfolding n(2) .
  have fold: "for_fold (tl field) (uint (hd field AND 0x7F)) (\<lambda>value byte. ok_or (deb_error detail)
      (i128_push 256 value (uint byte))) s = (Inr ?v, s)"
    by (rule base256_fold [of _ 7]) (use low n(2,3) in auto)
  have "(2 :: int) ^ Suc n \<le> 2 ^ 127" using n(3) by (intro power_increasing) auto
  then have fits: "checked_i128 (?v - 2 ^ Suc n) = Some (?v - 2 ^ Suc n)"
    using v by (auto simp: checked_i128_def)
  have "base256_number field = (if bit ?v n then ?v - 2 ^ Suc n else ?v)"
    using sign_extended [of ?v n] v n(1) by (simp add: base256_number_def mult.commute)
  moreover have "i128_shl_one n = Some (2 ^ n)" "i128_shl_one (Suc n) = Some (2 ^ Suc n)"
    using n(3) by (simp_all add: i128_shl_one_def)
  ultimately show ?thesis
    using assms(1,3) fits fold n(3)
    by (simp del: power_Suc add: base256_value_def run Let_def drop_Suc and_power_two n(1))
qed

text \<open>
  A field of the first form is the octal field of an ar header, with NULs for spaces as well.
\<close>

definition blanked :: "byte_slice \<Rightarrow> byte_slice" where
  "blanked = map (\<lambda>b. if b = 0 then 0x20 else b)"

definition tar_number :: "byte_slice \<Rightarrow> int \<Rightarrow> bool" where
  "tar_number field v \<longleftrightarrow>
     (if hd field AND 0x80 \<noteq> 0 then v = base256_number field
      else 0 \<le> v \<and> is_field 8 (blanked field) (nat v))"

definition as_int :: "(error + u64 \<times> 'a) \<times> 's \<Rightarrow> (error + int \<times> 'a) \<times> 's" where
  "as_int r = (case r of (Inl e, t) \<Rightarrow> (Inl e, t) | (Inr (v, x), t) \<Rightarrow> (Inr (uint v, x), t))"

lemma radix_8 [simp]: "radix_ok 8"
  by (simp add: radix_ok_def)

lemma octal_push:
  assumes "unat (v :: u64) < 8 ^ 20" and "unat (d :: u8) < 8"
  shows "i128_push 8 (uint v) (uint d) = Some (uint v * 8 + uint d)"
    and "\<exists>w. Option.bind (checked_mul v (ucast (8 :: u8))) (\<lambda>current. checked_add current (ucast d)) = Some w \<and>
      uint w = uint v * 8 + uint d \<and> unat w < 8 * unat v + 8"
proof -
  have "int (unat v) < int (8 ^ 20)" "int (unat d) < int 8"
    using assms by (simp_all only: of_nat_less_iff)
  then have "0 \<le> uint v" "uint v < 8 ^ 20" "0 \<le> uint d" "uint d < 8" by simp_all
  moreover define a b where "a = uint v" and "b = uint d"
  ultimately show "i128_push 8 (uint v) (uint d) = Some (uint v * 8 + uint d)"
    unfolding a_def [symmetric] b_def [symmetric] by (simp add: i128_push_def checked_i128_def)
  have "8 * unat v + unat d < 18446744073709551616" using assms by simp
  then obtain w :: u64 where w: "unat w = 8 * unat v + unat d"
    using unat_of_nat_u64 by blast
  then have "int (unat w) = int (8 * unat v + unat d)" by (simp only:)
  then have "uint w = uint v * 8 + uint d" by simp
  with w assms(2) show "\<exists>w. Option.bind (checked_mul v (ucast (8 :: u8))) (\<lambda>current. checked_add current (ucast d)) = Some w \<and>
      uint w = uint v * 8 + uint d \<and> unat w < 8 * unat v + 8"
    unfolding push_digit by (intro exI [of _ w]) simp
qed

lemma tar_octal_step_same:
  assumes "unat v < 8 ^ 20"
  shows "tar_octal_step detail (uint v, saw, trailing) byte s =
    as_int (positional_step 8 detail (v, saw, trailing) (if byte = 0 then 0x20 else byte) s)"
proof (cases "byte = 0 \<or> byte = 0x20")
  case True
  then show ?thesis by (auto simp: tar_octal_step_def positional_step_def run as_int_def)
next
  case False
  show ?thesis
  proof (cases "octal_digit byte")
    case None
    with False show ?thesis
      by (auto simp: tar_octal_step_def positional_step_def octal_digit_def run as_int_def and_then_def)
  next
    case (Some d)
    then have "unat d < 8"
      using digit_byte [OF radix_8, of byte d] by (simp add: octal_digit_def)
    with octal_push [OF assms this] False Some show ?thesis
      by (auto simp: tar_octal_step_def positional_step_def octal_digit_def run as_int_def and_then_def)
  qed
qed

lemma tar_octal_fold:
  assumes "unat v < 8 ^ k" and "k + length xs \<le> 21"
  shows "for_fold xs (uint v, saw, trailing) (tar_octal_step detail) s =
    as_int (for_fold (blanked xs) (v, saw, trailing) (positional_step 8 detail) s)"
  using assms
proof (induction xs arbitrary: v saw trailing s k)
  case (Cons x xs)
  let ?x = "if x = 0 then 0x20 else x"
  have "(8 :: nat) ^ k \<le> 8 ^ 20" using Cons.prems(2) by (intro power_increasing) auto
  with Cons.prems have first: "tar_octal_step detail (uint v, saw, trailing) x s =
      as_int (positional_step 8 detail (v, saw, trailing) ?x s)"
    by (intro tar_octal_step_same) simp
  show ?case
  proof (cases "positional_step 8 detail (v, saw, trailing) ?x s")
    case (Pair r t)
    show ?thesis
    proof (cases r)
      case (Inl e)
      with Pair first show ?thesis by (simp add: blanked_def run as_int_def and_then_def)
    next
      case (Inr st)
      obtain w saw' trailing' where st: "st = (w, saw', trailing')" by (cases st)
      have "unat w < 8 ^ Suc k"
      proof (cases "?x = 0x20")
        case True
        with Pair Inr st have "w = v" by (simp add: run)
        with Cons.prems(1) show ?thesis by simp
      next
        case False
        with Pair Inr st have "\<exists>d < 8. unat w = 8 * unat v + d"
          using positional_digit [OF radix_8 False, of detail v saw trailing s "(w, saw', trailing')" t] by auto
        with Cons.prems(1) show ?thesis by auto
      qed
      from Cons.IH [OF this, of saw' trailing' t] Cons.prems(2) Pair Inr st first show ?thesis
        by (simp add: blanked_def run as_int_def and_then_def)
    qed
  qed
qed (simp add: blanked_def run as_int_def)

lemma digits_value_bound: "\<forall>d \<in> set ds. d < radix \<Longrightarrow> digits_value radix ds < radix ^ length ds"
proof (induction ds rule: rev_induct)
  case (snoc d ds)
  then have "digits_value radix ds < radix ^ length ds" "d < radix" by auto
  then have "radix * (digits_value radix ds + 1) \<le> radix * radix ^ length ds"
    by (intro mult_le_mono2) simp
  with \<open>d < radix\<close> show ?case by (simp add: digits_value_Cons)
qed (simp add: digits_value_def)

lemma is_field_bound: "is_field 8 xs v \<Longrightarrow> v < 8 ^ length xs"
proof -
  assume "is_field 8 xs v"
  then obtain before ds after where "xs = field_of before ds after" "\<forall>d \<in> set ds. d < 8" "digits_value 8 ds = v"
    by (auto simp: is_field_def)
  then have "v < 8 ^ length ds" "length ds \<le> length xs"
    using digits_value_bound [of ds 8] by (auto simp: field_of_def)
  moreover have "(8 :: nat) ^ length ds \<le> 8 ^ length xs"
    using calculation(2) by (intro power_increasing) auto
  ultimately show ?thesis by (meson less_le_trans)
qed

lemma tar_octal_value:
  assumes "length xs \<le> 20"
  shows "(\<exists>saw tr. for_fold xs (0, False, False) (tar_octal_step detail) s = (Inr (v, saw, tr), t)) \<longleftrightarrow>
    t = s \<and> 0 \<le> v \<and> is_field 8 (blanked xs) (nat v)"
proof -
  have "(\<exists>saw tr. for_fold xs (0, False, False) (tar_octal_step detail) s = (Inr (v, saw, tr), t)) \<longleftrightarrow>
      (\<exists>w. v = uint w \<and> (\<exists>saw tr. for_fold (blanked xs) (0, False, False) (positional_step 8 detail) s = (Inr (w, saw, tr), t)))"
    using tar_octal_fold [of 0 1 xs False False detail s] assms
    by (force simp: as_int_def split: prod.splits sum.splits)
  also have "\<dots> \<longleftrightarrow> t = s \<and> (\<exists>w :: u64. v = uint w \<and> is_field 8 (blanked xs) (unat w))"
    unfolding positional_fold [OF radix_8] by auto
  also have "(\<exists>w :: u64. v = uint w \<and> is_field 8 (blanked xs) (unat w)) \<longleftrightarrow>
      0 \<le> v \<and> is_field 8 (blanked xs) (nat v)" (is "?L \<longleftrightarrow> ?R")
  proof
    assume ?R
    then have "nat v < 8 ^ length (blanked xs)" by (intro is_field_bound) simp
    also have "length (blanked xs) = length xs" by (simp add: blanked_def)
    also have "(8 :: nat) ^ length xs \<le> 8 ^ 20" using assms by (intro power_increasing) auto
    finally have "unat (of_nat (nat v) :: u64) = nat v" by simp
    then obtain w :: u64 where w: "unat w = nat v" by blast
    then have "int (unat w) = int (nat v)" by (simp only:)
    with \<open>?R\<close> have "v = uint w" by simp
    moreover have "is_field 8 (blanked xs) (unat w)" unfolding w using \<open>?R\<close> by blast
    ultimately show ?L by blast
  qed auto
  finally show ?thesis .
qed

lemma tar_i128_success:
  assumes "length field \<le> 15" and "length field * 8 \<le> usize_max (machine s)" and "field \<noteq> []"
  shows "(if hd field AND 0x80 \<noteq> 0 then base256_value field (hd field) detail
      else and_then (for_fold field (0, False, False) (tar_octal_step detail)) (\<lambda>(value, _, _). ok value)) s
      = (Inr v, t) \<longleftrightarrow> t = s \<and> tar_number field v"
  using base256_value_run [OF assms(3,1,2), of detail] tar_octal_value [of field detail s v t] assms(1)
  by (auto simp: tar_number_def success)

lemma base256_value_room:
  "base256_value field first detail s = (Inr v, t) \<Longrightarrow> length field * 8 \<le> usize_max (machine s)"
  by (auto simp: base256_value_def success Let_def)

lemma tar_i128_number:
  assumes "tar_i128 bytes offset len detail s = (Inr v, t)" and "unat len \<le> 15"
  shows "t = s \<and> unat offset + unat len \<le> length bytes \<and>
    tar_number (take (unat len) (drop (unat offset) bytes)) v"
proof -
  let ?field = "take (unat len) (drop (unat offset) bytes)"
  from assms(1) have range: "unat offset + unat len \<le> length bytes" and ne: "?field \<noteq> []"
    and rest: "(if hd ?field AND 0x80 \<noteq> 0 then base256_value ?field (hd ?field) detail
      else and_then (for_fold ?field (0, False, False) (tar_octal_step detail)) (\<lambda>(value, _, _). ok value)) s
      = (Inr v, t)"
    by (auto simp: tar_i128_def success item_get_def hd_conv_nth split: if_splits)
  have l: "length ?field \<le> 15" using assms(2) by simp
  show ?thesis
  proof (cases "hd ?field AND 0x80 = 0")
    case True
    with range rest tar_octal_value [of ?field detail s v t] l show ?thesis
      by (auto simp: tar_number_def success)
  next
    case False
    with rest have run: "base256_value ?field (hd ?field) detail s = (Inr v, t)" by simp
    with base256_value_run [OF ne l base256_value_room [OF run]] range False show ?thesis
      by (auto simp: tar_number_def)
  qed
qed

lemma tar_u64_number:
  assumes "tar_u64 bytes offset len detail s = (Inr w, t)" and "unat len \<le> 15"
  shows "t = s \<and> unat offset + unat len \<le> length bytes \<and>
    tar_number (take (unat len) (drop (unat offset) bytes)) (uint w)"
proof -
  from assms(1) obtain v where v: "tar_i128 bytes offset len detail s = (Inr v, t)"
    and w: "0 \<le> v" "v < 2 ^ 64" "w = word_of_int v"
    by (auto simp: tar_u64_def success)
  then have "uint w = v" by (simp add: uint_word_of_int)
  with tar_i128_number [OF v assms(2)] show ?thesis by simp
qed

lemma is_field_unique: "is_field 8 xs v \<Longrightarrow> is_field 8 xs w \<Longrightarrow> length xs \<le> 20 \<Longrightarrow> v = w"
proof -
  assume f: "is_field 8 xs v" "is_field 8 xs w" and l: "length xs \<le> 20"
  have "(8 :: nat) ^ length xs \<le> 8 ^ 20" using l by (intro power_increasing) auto
  with f have "v < 18446744073709551616" "w < 18446744073709551616"
    by (auto dest!: is_field_bound)
  then obtain x y :: u64 where xy: "unat x = v" "unat y = w"
    using unat_of_nat_u64 by meson
  have "\<exists>saw tr. for_fold xs (0, False, False) (positional_step 8 []) (sample_session []) = (Inr (x, saw, tr), sample_session [])"
    "\<exists>saw tr. for_fold xs (0, False, False) (positional_step 8 []) (sample_session []) = (Inr (y, saw, tr), sample_session [])"
    unfolding positional_fold [OF radix_8] using f xy by auto
  then have "x = y" by auto
  with xy show ?thesis by simp
qed

lemma tar_number_unique: "tar_number field v \<Longrightarrow> tar_number field w \<Longrightarrow> length field \<le> 20 \<Longrightarrow> v = w"
  unfolding tar_number_def
  using is_field_unique [of "blanked field" "nat v" "nat w"] by (auto simp: blanked_def split: if_splits)

text \<open>C15: A numeric field of a tar header of at most 15 bytes is accepted exactly when it holds a
  number: under a set top bit of the first byte the two's complement value of the remaining bits, and
  otherwise octal digits between spaces and NULs, where an empty field is zero.  Nothing is changed
  or charged.\<close>

theorem tar_number_fields:
  assumes "field \<noteq> []" and "length field \<le> 15" and "15 * 8 \<le> usize_max (machine s)"
  shows "tar_i128 field 0 (of_nat (length field)) detail s = (Inr v, t) \<longleftrightarrow> t = s \<and> tar_number field v"
proof -
  have "tar_i128 field 0 (of_nat (length field)) detail s = (Inr v, t) \<longleftrightarrow>
      (if hd field AND 0x80 \<noteq> 0 then base256_value field (hd field) detail
       else and_then (for_fold field (0, False, False) (tar_octal_step detail)) (\<lambda>(value, _, _). ok value)) s
       = (Inr v, t)"
    using assms by (auto simp: tar_i128_def success item_get_def hd_conv_nth)
  with tar_i128_success [of field s detail v t] assms show ?thesis by simp
qed

lemma tar_number_fields_witness:
  "tar_i128 [0xFF, 0xFE] 0 2 [] (sample_session []) = (Inr (- 2), sample_session []) \<and>
   tar_number [0xFF, 0xFE] (- 2)"
proof -
  have "tar_i128 [0xFF, 0xFE] 0 2 [] (sample_session []) = (Inr (- 2), sample_session [])"
    by (simp add: tar_i128_def base256_value_def i128_push_def checked_i128_def i128_shl_one_def evaluate)
  moreover from this tar_number_fields [of "[0xFF, 0xFE]" "sample_session []" "[]" "- 2" "sample_session []"]
  have "tar_number [0xFF, 0xFE] (- 2)" by (simp add: sample_session_def)
  ultimately show ?thesis by blast
qed

section \<open>Headers\<close>

text \<open>The bytes of a header as the checksum sees them.\<close>

definition summed :: "byte_slice \<Rightarrow> byte_slice" where
  "summed header = take 148 header @ replicate 8 0x20 @ drop 156 header"

definition checksum_holds :: "byte_slice \<Rightarrow> nat \<Rightarrow> bool" where
  "checksum_holds header c \<longleftrightarrow>
     c = (\<Sum>b\<leftarrow>summed header. unat b) \<or> int c = (\<Sum>b\<leftarrow>summed header. sint b)"

lemma unat_byte_as_u64 [simp]: "unat (ucast (b :: u8) :: u64) = unat b"
  using unat_less_8 [of b] by (simp add: unsigned_ucast_eq take_bit_eq_mod mod_less [OF less_trans [OF unat_less_8]])

definition seen :: "nat \<times> u8 \<Rightarrow> u8" where
  "seen p = (if 148 \<le> fst p \<and> fst p < 156 then 0x20 else snd p)"

lemma checksum_byte_success:
  "checksum_byte sums p s = (Inr r, t) \<Longrightarrow>
     unat (fst r) = unat (fst sums) + unat (seen p) \<and> snd r = snd sums + sint (seen p)"
  by (auto simp: success checksum_byte_def Let_def checked_add_eq_Some seen_def split: if_splits)

lemma checksum_fold:
  "for_fold ps (a, b) checksum_byte s = (Inr (u, v), t) \<Longrightarrow>
     unat u = unat a + (\<Sum>p\<leftarrow>ps. unat (seen p)) \<and> v = b + (\<Sum>p\<leftarrow>ps. sint (seen p))"
proof (induction ps arbitrary: a b s)
  case (Cons p ps)
  from Cons.prems obtain r w where step: "checksum_byte (a, b) p s = (Inr r, w)"
    and rest: "for_fold ps (fst r, snd r) checksum_byte w = (Inr (u, v), t)"
    by (auto simp: success)
  from Cons.IH [OF rest] checksum_byte_success [OF step] show ?case by simp
qed (simp add: success)

lemma seen_enumerate:
  assumes "156 \<le> length header"
  shows "map seen (List.enumerate 0 header) = summed header"
  using assms
  by (intro nth_equalityI)
    (auto simp: summed_def seen_def nth_append nth_enumerate_eq min_def not_less le_diff_conv)

lemma verify_header_checksum_success:
  assumes "verify_header_checksum header s = (Inr u, t)"
  shows "\<exists>c. tar_number (take 8 (drop 148 header)) (int c) \<and> checksum_holds header c"
proof -
  from assms obtain expected un sg v w x where read: "tar_u64 header 148 8 ''tar checksum is invalid'' s = (Inr expected, v)"
    and fold: "for_fold (List.enumerate 0 header) (0, 0) checksum_byte w = (Inr (un, sg), x)"
    and fits: "un = expected \<or> 0 \<le> sg \<and> sg = uint expected"
    by (auto simp: verify_header_checksum_def success Let_def)
  note number = tar_u64_number [OF read]
  then have "156 \<le> length header" by simp
  with checksum_fold [OF fold] seen_enumerate have
    "unat un = (\<Sum>b\<leftarrow>summed header. unat b)" "sg = (\<Sum>b\<leftarrow>summed header. sint b)"
    by (simp_all flip: seen_enumerate add: comp_def)
  with fits have "checksum_holds header (unat expected)"
    by (auto simp: checksum_holds_def)
  with number show ?thesis by (intro exI [of _ "unat expected"]) simp
qed

definition tar_magic :: "byte_slice \<Rightarrow> bool" where
  "tar_magic header \<longleftrightarrow> take 6 (drop 257 header) \<in>
     {ascii ''ustar'' @ [0], ascii ''ustar '', replicate 6 0}"

lemma validate_magic_success:
  assumes "validate_magic header s = (Inr u, t)"
  shows "tar_magic header"
proof -
  from assms have l: "263 \<le> length header" and m: "take 6 (drop 257 header) = ascii ''ustar'' @ [0] \<or>
      take 6 (drop 257 header) = ascii ''ustar '' \<or> list_all (\<lambda>byte. byte = 0) (take 6 (drop 257 header))"
    by (auto simp: validate_magic_def success slice_get_eq_Some split: if_splits)
  have "list_all (\<lambda>byte. byte = 0) xs \<Longrightarrow> xs = replicate (length xs) 0" for xs :: byte_slice
    by (induction xs) auto
  from this [of "take 6 (drop 257 header)"] l m show ?thesis by (auto simp: tar_magic_def)
qed


section \<open>Members\<close>

definition plain_name :: "limits \<Rightarrow> byte_slice \<Rightarrow> bool" where
  "plain_name limits name \<longleftrightarrow> 0 \<notin> set name \<and> length name \<le> unat (max_name_bytes_per_entry limits)"

lemma validate_name_success:
  assumes "validate_name name limits (s, tot) = (Inr u, (t, tot'))"
  shows "t = s \<and> name \<noteq> [] \<and> plain_name limits name \<and> (\<exists>n. tot' = tot\<lparr>at_name_bytes := n\<rparr> \<and>
    unat n = unat (at_name_bytes tot) + length name \<and> n \<le> max_total_name_bytes limits)"
  using assms
  by (auto simp: validate_name_def success add_total_success plain_name_def word_le_nat_alt)

lemma tar_link_success:
  assumes "tar_link header limits local global pending s = (Inr link, t)"
  shows "case link of None \<Rightarrow> True | Some l \<Rightarrow> plain_name limits l"
proof -
  from assms obtain u where "(case link of None \<Rightarrow> ok ()
       | Some value \<Rightarrow>
           and_then (err_if (0 \<in> set value) (deb_error ''tar link name contains NUL'')) (\<lambda>_.
           and_then (usize_to_u64 (length value) ''tar link name length is not representable'') (\<lambda>len.
           check_limit len (max_name_bytes_per_entry limits) NameBytesPerEntry))) u = (Inr (), t)"
    unfolding tar_link_def Let_def by (clarsimp simp: success)
  then show ?thesis
    by (cases link) (auto simp: success plain_name_def word_le_nat_alt)
qed

lemma copy_optional_value: "copy_optional v s = (Inr w, t) \<Longrightarrow> w = v"
  by (auto simp: copy_optional_def success split: option.splits dest: copy_bytes_value)

lemma tar_checksum_field:
  assumes "tar_u64 header 148 8 detail s = (Inr w, t)" and "narrow w = Some (c :: u32)"
  shows "tar_number (take 8 (drop 148 header)) (uint c)"
proof -
  from assms(2) have "unat c = unat w"
    by (auto simp: narrow_def unsigned_ucast_eq take_bit_eq_mod split: if_splits)
  then have "int (unat c) = int (unat w)" by (simp only:)
  with tar_u64_number [OF assms(1)] show ?thesis by simp
qed

text \<open>What one pass over an ordinary member adds.\<close>

lemma tar_member_cases:
  assumes "tar_member bytes part limits header flag header_size data_start st (s, tot) = (Inr st', (t, tot'))"
  obtains m where
    "tp_entries st' = tp_entries st @ [m]" "tp_saw_end st' = tp_saw_end st"
    "de_index m = at_next_entry_index tot" "de_section m = part" "de_kind m = from_type_flag flag"
    "de_raw_name m \<noteq> []" "plain_name limits (de_raw_name m)"
    "case de_raw_link_name m of None \<Rightarrow> True | Some l \<Rightarrow> plain_name limits l"
    "tar_number (take 8 (drop 148 header)) (int (unat (de_header_checksum m)))"
    "de_data_start m = data_start" "unat (de_data_end m) = unat data_start + unat (de_size m)"
    "unat (de_data_end m) \<le> length bytes" "de_size m \<le> max_entry_output_bytes limits"
    "unat (at_next_entry_index tot') = Suc (unat (at_next_entry_index tot))"
    "unat (at_files tot') = Suc (unat (at_files tot))" "at_files tot' \<le> max_files limits"
    "unat (at_name_bytes tot') = unat (at_name_bytes tot) + length (de_raw_name m)"
    "at_name_bytes tot' \<le> max_total_name_bytes limits"
    "at_header_bytes tot' = at_header_bytes tot"
    "unat (tp_offset st') mod 512 = 0" "unat (de_data_end m) \<le> unat (tp_offset st')"
  using assms unfolding tar_member_def
  by (clarsimp simp: success Let_def checked_add_eq_Some add_total_success split: prod.splits
      dest!: copy_bytes_value copy_optional_value validate_name_success tar_link_success
        next_record_offset_success)
    (blast intro: tar_checksum_field)

text \<open>The header and the data of a member.\<close>

definition tar_extent :: "deb_entry \<Rightarrow> nat \<times> nat" where
  "tar_extent m = (unat (de_data_start m) - 512, unat (de_data_end m))"

definition tar_header :: "byte_slice \<Rightarrow> deb_entry \<Rightarrow> byte_slice" where
  "tar_header bytes m = member_bytes bytes (unat (de_data_start m) - 512, unat (de_data_start m))"

definition tar_header_sound :: "byte_slice \<Rightarrow> deb_entry \<Rightarrow> bool" where
  "tar_header_sound header m \<longleftrightarrow> length header = 512 \<and> tar_magic header \<and>
     tar_number (take 8 (drop 148 header)) (int (unat (de_header_checksum m))) \<and>
     checksum_holds header (unat (de_header_checksum m)) \<and>
     de_kind m = from_type_flag (header ! 156) \<and> \<not> extension_flag (header ! 156)"

definition tar_member_sound :: "byte_slice \<Rightarrow> deb_section \<Rightarrow> limits \<Rightarrow> nat \<Rightarrow> deb_entry \<Rightarrow> bool" where
  "tar_member_sound bytes part limits i m \<longleftrightarrow>
     unat (de_index m) = i \<and> de_section m = part \<and>
     de_raw_name m \<noteq> [] \<and> plain_name limits (de_raw_name m) \<and>
     (case de_raw_link_name m of None \<Rightarrow> True | Some l \<Rightarrow> plain_name limits l) \<and>
     512 \<le> unat (de_data_start m) \<and> unat (de_data_start m) mod 512 = 0 \<and>
     unat (de_data_end m) = unat (de_data_start m) + unat (de_size m) \<and>
     de_size m \<le> max_entry_output_bytes limits \<and> tar_header_sound (tar_header bytes m) m"

text \<open>The totals after the members, which are within their limits when there is a member.\<close>

definition tar_counted :: "limits \<Rightarrow> archive_totals \<Rightarrow> deb_entry list \<Rightarrow> archive_totals \<Rightarrow> bool" where
  "tar_counted limits tot es tot' \<longleftrightarrow>
     unat (at_next_entry_index tot') = unat (at_next_entry_index tot) + length es \<and>
     unat (at_files tot') = unat (at_files tot) + length es \<and>
     unat (at_name_bytes tot') = unat (at_name_bytes tot) + (\<Sum>m\<leftarrow>es. length (de_raw_name m)) \<and>
     (es = [] \<or> at_files tot' \<le> max_files limits \<and> at_name_bytes tot' \<le> max_total_name_bytes limits)"

definition tar_inv ::
    "byte_slice \<Rightarrow> deb_section \<Rightarrow> limits \<Rightarrow> archive_totals \<Rightarrow> tar_progress \<Rightarrow> archive_totals \<Rightarrow> bool" where
  "tar_inv bytes part limits tot st tot' \<longleftrightarrow>
     in_order tar_extent 0 (tp_entries st) (unat (tp_offset st)) \<and> unat (tp_offset st) mod 512 = 0 \<and>
     (\<forall>i < length (tp_entries st).
        tar_member_sound bytes part limits (unat (at_next_entry_index tot) + i) (tp_entries st ! i)) \<and>
     tar_counted limits tot (tp_entries st) tot' \<and>
     (tp_saw_end st \<longrightarrow> unat (tp_offset st) + 1024 \<le> length bytes \<and>
        list_all (\<lambda>b. b = 0) (drop (unat (tp_offset st)) bytes) \<and>
        at_header_bytes tot' \<le> max_header_bytes limits)"

lemma pax_step_totals:
  "pax_step data n limits p s = (Inr q, t) \<Longrightarrow> \<exists>v. snd t = (snd s)\<lparr>at_properties := v\<rparr>"
  by (cases s) (auto simp: pax_step_def success add_total_success split: prod.splits)

lemma parse_pax_totals:
  assumes "parse_pax data values limits s = (Inr v, t)"
  shows "\<exists>n. snd t = (snd s)\<lparr>at_properties := n\<rparr>"
proof -
  have refl: "\<exists>n. x = x\<lparr>at_properties := n\<rparr>" for x :: archive_totals
    by (rule exI [of _ "at_properties x"]) simp
  from assms obtain n p where loop: "pax_loop data n limits (0, values) s = (Inr p, t)"
    by (cases s) (auto simp: parse_pax_def success)
  show ?thesis
    by (rule conjunct1 [OF pax_records.loop_success
        [OF loop, where I = "\<lambda>_ t. \<exists>n. snd t = (snd s)\<lparr>at_properties := n\<rparr>"]])
      (use refl in \<open>auto dest!: pax_step_totals\<close>)
qed

lemma add_header_bytes_success:
  "add_header_bytes limits n (s, tot) = (Inr u, t) \<Longrightarrow>
     \<exists>v. t = (s, tot\<lparr>at_header_bytes := v\<rparr>) \<and> v \<le> max_header_bytes limits"
  by (auto simp: add_header_bytes_def success add_total_success)

lemma tar_extension_cases:
  assumes "tar_extension bytes limits flag len data_start st (s, tot) = (Inr st', (t, tot'))"
  shows "tp_entries st' = tp_entries st \<and> tp_saw_end st' = tp_saw_end st \<and>
    unat data_start \<le> unat (tp_offset st') \<and> unat (tp_offset st') mod 512 = 0 \<and>
    (\<exists>v w. tot' = tot\<lparr>at_header_bytes := v, at_properties := w\<rparr>)"
proof -
  have keep: "\<exists>v w. x\<lparr>at_header_bytes := a\<rparr> = x\<lparr>at_header_bytes := v, at_properties := w\<rparr>" for x :: archive_totals and a
    by (intro exI [of _ a] exI [of _ "at_properties x"]) simp
  from assms show ?thesis
    using keep
    by (auto simp: tar_extension_def success dest!: next_record_offset_success parse_pax_totals
        add_header_bytes_success) blast+
qed

lemma tar_end_success:
  assumes "tar_end bytes limits (of_nat (length bytes)) offset (s, tot) = (Inr u, (t, tot'))"
    and "length bytes < 2 ^ 64" and "list_all (\<lambda>b. b = 0) (take 512 (drop (unat offset) bytes))"
  shows "unat offset + 1024 \<le> length bytes \<and> list_all (\<lambda>b. b = 0) (drop (unat offset) bytes) \<and>
    (\<exists>v. tot' = tot\<lparr>at_header_bytes := v\<rparr> \<and> v \<le> max_header_bytes limits)"
proof -
  from assms(1,2) obtain a b :: u64 and v where ab: "unat offset + 512 = unat a" "unat a + 512 = unat b"
    and zeros: "list_all (\<lambda>b. b = 0) (take 512 (drop (unat a) bytes))"
      "list_all (\<lambda>b. b = 0) (drop (unat b) bytes)" and end_b: "unat b \<le> length bytes"
    and tot: "tot' = tot\<lparr>at_header_bytes := v\<rparr>" "v \<le> max_header_bytes limits"
    unfolding tar_end_def
    by (clarsimp simp: success checked_add_eq_Some checked_sub_eq_Some BLOCK_BYTES_def
        list_all_iff list_ex_iff dest!: add_header_bytes_success)
  from ab have "unat b = unat offset + 1024" "unat a = unat offset + 512" by simp_all
  with zeros end_b have len: "unat offset + 1024 \<le> length bytes"
    and two: "list_all (\<lambda>b. b = 0) (take 512 (drop (unat offset + 512) bytes))"
    and rest: "list_all (\<lambda>b. b = 0) (drop (unat offset + 1024) bytes)" by simp_all
  have block: "drop n bytes = take 512 (drop n bytes) @ drop (n + 512) bytes" for n
    by (metis append_take_drop_id drop_drop add.commute)
  have twice: "unat offset + 512 + 512 = unat offset + 1024" by simp
  have "list_all (\<lambda>b. b = 0) (drop (unat offset + 512) bytes)"
    by (subst block) (simp only: twice list_all_append two rest)
  then have "list_all (\<lambda>b. b = 0) (drop (unat offset) bytes)"
    using assms(3) block [of "unat offset"] by (metis list_all_append)
  with len tot show ?thesis by blast
qed

text \<open>What one pass of the loop did.\<close>

lemma tar_step_cases:
  assumes "tar_step bytes part limits (of_nat (length bytes)) st (s, tot) = (Inr st', (t, tot'))"
    and "length bytes < 2 ^ 64"
  obtains
    (finished) v where
      "st' = st\<lparr>tp_saw_end := True\<rparr>" "unat (tp_offset st) + 1024 \<le> length bytes"
      "list_all (\<lambda>b. b = 0) (drop (unat (tp_offset st)) bytes)"
      "tot' = tot\<lparr>at_header_bytes := v\<rparr>" "v \<le> max_header_bytes limits"
  | (extension) v w where
      "tp_entries st' = tp_entries st" "tp_saw_end st' = tp_saw_end st"
      "unat (tp_offset st) + 512 \<le> unat (tp_offset st')" "unat (tp_offset st') mod 512 = 0"
      "tot' = tot\<lparr>at_header_bytes := v, at_properties := w\<rparr>"
  | (member) c flag data_start header_size v u where
      "unat (tp_offset st) + 512 \<le> length bytes" "unat data_start = unat (tp_offset st) + 512"
      "tar_number (take 8 (drop 148 (take 512 (drop (unat (tp_offset st)) bytes)))) (int c)"
      "checksum_holds (take 512 (drop (unat (tp_offset st)) bytes)) c"
      "tar_magic (take 512 (drop (unat (tp_offset st)) bytes))"
      "flag = take 512 (drop (unat (tp_offset st)) bytes) ! 156" "\<not> extension_flag flag"
      "tar_member bytes part limits (take 512 (drop (unat (tp_offset st)) bytes)) flag header_size data_start st
         (u, tot\<lparr>at_header_bytes := v\<rparr>) = (Inr st', (t, tot'))"
proof -
  let ?header = "take 512 (drop (unat (tp_offset st)) bytes)"
  from assms(1) obtain v u where v: "v \<le> max_header_bytes limits" and room: "unat (tp_offset st) + 512 \<le> length bytes"
    and rest: "(if list_all (\<lambda>byte. byte = 0) ?header then
       and_then (tar_end bytes limits (of_nat (length bytes)) (tp_offset st)) (\<lambda>_. ok (st\<lparr>tp_saw_end := True\<rparr>))
     else
       and_then (internal (verify_header_checksum ?header)) (\<lambda>_.
       and_then (internal (validate_magic ?header)) (\<lambda>_.
       and_then (internal (tar_u64 ?header 124 12 ''tar size is invalid'')) (\<lambda>header_size.
       and_then (ok_or (deb_error ''tar type flag is truncated'') (item_get ?header 156)) (\<lambda>type_flag.
       and_then (ok_or (deb_error ''tar data offset overflows'') (checked_add (tp_offset st) BLOCK_BYTES))
         (\<lambda>data_start.
       if extension_flag type_flag then
         tar_extension bytes limits type_flag header_size data_start st
       else tar_member bytes part limits ?header type_flag header_size data_start st))))))
      (u, tot\<lparr>at_header_bytes := v\<rparr>) = (Inr st', (t, tot'))"
    unfolding tar_step_def
    by (clarsimp simp: success BLOCK_BYTES_def simp del: if_success dest!: add_header_bytes_success)
  show thesis
  proof (cases "list_all (\<lambda>byte. byte = 0) ?header")
    case True
    with rest obtain w x where "tar_end bytes limits (of_nat (length bytes)) (tp_offset st)
        (u, tot\<lparr>at_header_bytes := v\<rparr>) = (Inr w, (t, tot'))" and "st' = st\<lparr>tp_saw_end := True\<rparr>"
      by (auto simp: success)
    with tar_end_success [OF this(1) assms(2) True] finished show thesis by auto
  next
    case False
    with rest obtain a b header_size type_flag data_start w where
      sums: "verify_header_checksum ?header a = (Inr (), b)" and magic: "validate_magic ?header b = (Inr (), w)"
      and flag: "type_flag = ?header ! 156"
      and ds: "unat data_start = unat (tp_offset st) + 512"
      and run: "(if extension_flag type_flag then tar_extension bytes limits type_flag header_size data_start st
         else tar_member bytes part limits ?header type_flag header_size data_start st)
         (w, tot\<lparr>at_header_bytes := v\<rparr>) = (Inr st', (t, tot'))"
      by (auto simp: success checked_add_eq_Some BLOCK_BYTES_def item_get_eq_Some simp del: if_success
          dest!: tar_u64_number)
    show thesis
    proof (cases "extension_flag type_flag")
      case True
      with run tar_extension_cases ds extension show thesis by fastforce
    next
      case False
      with run member [OF room ds _ _ validate_magic_success [OF magic] flag False]
        verify_header_checksum_success [OF sums] show thesis by auto
    qed
  qed
qed

section \<open>The layout\<close>

lemma tar_counted_snoc:
  assumes "tar_counted limits tot es tot1" and "at_next_entry_index tot2 = at_next_entry_index tot1"
    and "at_files tot2 = at_files tot1" and "at_name_bytes tot2 = at_name_bytes tot1"
    and "unat (at_next_entry_index tot3) = Suc (unat (at_next_entry_index tot2))"
    and "unat (at_files tot3) = Suc (unat (at_files tot2))" and "at_files tot3 \<le> max_files limits"
    and "unat (at_name_bytes tot3) = unat (at_name_bytes tot2) + length (de_raw_name m)"
    and "at_name_bytes tot3 \<le> max_total_name_bytes limits"
  shows "tar_counted limits tot (es @ [m]) tot3"
  using assms by (simp add: tar_counted_def)

lemma tar_member_step_sound:
  assumes "tar_member bytes part limits (take 512 (drop (unat offset) bytes)) flag header_size data_start st
      (u, tot1) = (Inr st', (t, tot'))"
    and "unat offset + 512 \<le> length bytes" and "unat data_start = unat offset + 512" and "unat offset mod 512 = 0"
    and "tar_number (take 8 (drop 148 (take 512 (drop (unat offset) bytes)))) (int c)"
    and "checksum_holds (take 512 (drop (unat offset) bytes)) c"
    and "tar_magic (take 512 (drop (unat offset) bytes))"
    and "flag = take 512 (drop (unat offset) bytes) ! 156" and "\<not> extension_flag flag"
  obtains m where "tp_entries st' = tp_entries st @ [m]" "tp_saw_end st' = tp_saw_end st"
    "tar_member_sound bytes part limits (unat (at_next_entry_index tot1)) m"
    "tar_extent m = (unat offset, unat (de_data_end m))" "unat offset \<le> unat (de_data_end m)"
    "unat (tp_offset st') mod 512 = 0" "unat (de_data_end m) \<le> unat (tp_offset st')"
    "unat (at_next_entry_index tot') = Suc (unat (at_next_entry_index tot1))"
    "unat (at_files tot') = Suc (unat (at_files tot1))" "at_files tot' \<le> max_files limits"
    "unat (at_name_bytes tot') = unat (at_name_bytes tot1) + length (de_raw_name m)"
    "at_name_bytes tot' \<le> max_total_name_bytes limits"
  using assms(1)
proof (cases rule: tar_member_cases)
  case (1 m)
  have "int c = int (unat (de_header_checksum m))"
    using tar_number_unique [OF assms(5) 1(9)] by simp
  then have c: "unat (de_header_checksum m) = c" by (simp only: of_nat_eq_iff)
  have header: "tar_header bytes m = take 512 (drop (unat offset) bytes)"
    using 1(10) assms(3) by (simp add: tar_header_def member_bytes_def)
  have "tar_member_sound bytes part limits (unat (at_next_entry_index tot1)) m"
    using 1 assms(2-) c
    by (simp add: tar_member_sound_def tar_header_sound_def header)
  with that [of m] 1 assms(3) show thesis by (simp add: tar_extent_def)
qed

lemma tar_inv_step:
  assumes inv: "tar_inv bytes part limits tot0 st tot" and "length bytes < 2 ^ 64" and "\<not> tp_saw_end st"
    and "tar_step bytes part limits (of_nat (length bytes)) st (s, tot) = (Inr st', (t, tot'))"
  shows "tar_inv bytes part limits tot0 st' tot'"
  using assms(4,2)
proof (cases rule: tar_step_cases)
  case (finished v)
  with inv show ?thesis by (simp add: tar_inv_def tar_counted_def)
next
  case (extension v w)
  with inv assms(3) show ?thesis
    by (auto simp: tar_inv_def tar_counted_def intro: in_order_mono)
next
  case (member c flag data_start header_size v u)
  have "unat (tp_offset st) mod 512 = 0" using inv by (simp add: tar_inv_def)
  from tar_member_step_sound [OF member(8,1,2) this member(3-7)] obtain m where
    m: "tp_entries st' = tp_entries st @ [m]" "tp_saw_end st' = tp_saw_end st"
      "tar_member_sound bytes part limits (unat (at_next_entry_index tot)) m"
      "tar_extent m = (unat (tp_offset st), unat (de_data_end m))" "unat (tp_offset st) \<le> unat (de_data_end m)"
      "unat (tp_offset st') mod 512 = 0" "unat (de_data_end m) \<le> unat (tp_offset st')"
    and tot: "unat (at_next_entry_index tot') = Suc (unat (at_next_entry_index tot))"
      "unat (at_files tot') = Suc (unat (at_files tot))" "at_files tot' \<le> max_files limits"
      "unat (at_name_bytes tot') = unat (at_name_bytes tot) + length (de_raw_name m)"
      "at_name_bytes tot' \<le> max_total_name_bytes limits"
    by auto
  from inv have counted: "tar_counted limits tot0 (tp_entries st) tot"
    and order: "in_order tar_extent 0 (tp_entries st) (unat (tp_offset st))"
    and sound: "\<And>i. i < length (tp_entries st) \<Longrightarrow>
      tar_member_sound bytes part limits (unat (at_next_entry_index tot0) + i) (tp_entries st ! i)"
    by (simp_all add: tar_inv_def)
  have "tar_counted limits tot0 (tp_entries st @ [m]) tot'"
    by (rule tar_counted_snoc [OF counted refl refl refl tot])
  moreover have "in_order tar_extent 0 (tp_entries st @ [m]) (unat (tp_offset st'))"
    by (rule in_order_snoc [OF order]) (use m in auto)
  moreover have "tar_member_sound bytes part limits (unat (at_next_entry_index tot0) + i) ((tp_entries st @ [m]) ! i)"
    if "i < Suc (length (tp_entries st))" for i
  proof (cases "i = length (tp_entries st)")
    case True
    with m(3) counted show ?thesis by (simp add: tar_counted_def)
  next
    case False
    with that sound show ?thesis by (simp add: nth_append)
  qed
  ultimately show ?thesis using m assms(3) by (simp add: tar_inv_def)
qed

definition tar_sound ::
    "byte_slice \<Rightarrow> deb_section \<Rightarrow> limits \<Rightarrow> archive_totals \<Rightarrow> deb_entry list \<Rightarrow> archive_totals \<Rightarrow> bool" where
  "tar_sound bytes part limits tot es tot' \<longleftrightarrow>
     (\<exists>e. in_order tar_extent 0 es e \<and> e mod 512 = 0 \<and> e + 1024 \<le> length bytes \<and>
        list_all (\<lambda>b. b = 0) (drop e bytes)) \<and>
     (\<forall>i < length es. tar_member_sound bytes part limits (unat (at_next_entry_index tot) + i) (es ! i)) \<and>
     tar_counted limits tot es tot' \<and> at_header_bytes tot' \<le> max_header_bytes limits"

end
