(* ===== verification/Deb_Tar_Properties.thy ===== *)
theory Deb_Tar_Properties
  imports Deb_Tar_Laws
begin

text \<open>
  What the tar parser of Debian packages returns, and an archive of one member to evaluate it on.
  The header sum is evaluated by a law of its own: 512 checkpoints are too many to unfold.
\<close>

section \<open>Properties\<close>



section \<open>An archive to evaluate\<close>

text \<open>One empty member called \<open>a\<close>, whose header sums up to 353, and the end marker.\<close>

definition tar_sample :: byte_slice where
  "tar_sample = 0x61 # replicate 147 0 @ 0x35 # 0x34 # 0x31 # replicate 1385 0"

definition tar_sample_header :: byte_slice where
  "tar_sample_header = 0x61 # replicate 147 0 @ 0x35 # 0x34 # 0x31 # replicate 361 0"

definition no_totals :: archive_totals where
  "no_totals = \<lparr>at_files = 0, at_name_bytes = 0, at_header_bytes = 0, at_next_entry_index = 0, at_properties = 0\<rparr>"

text \<open>The state after \<open>n\<close> checkpoints of one unit each, where nothing stops the work.\<close>

definition worked :: "nat \<Rightarrow> session \<Rightarrow> session" where
  "worked n s = s\<lparr>control := (control s)\<lparr>loads := loads (control s) + n,
     budget := (budget (control s))\<lparr>consumed := consumed (budget (control s)) + of_nat n\<rparr>\<rparr>\<rparr>"

definition unhindered :: "nat \<Rightarrow> session \<Rightarrow> bool" where
  "unhindered n s \<longleftrightarrow> (\<forall>i. \<not> cancelled (token (control s) i)) \<and> remaining (budget (control s)) = None \<and>
     unat (consumed (budget (control s))) + n < 2 ^ 64"

lemma checkpoint_unhindered: "unhindered (Suc n) s \<Longrightarrow>
    checkpoint 1 s = (Inr (), worked 1 s) \<and> unhindered n (worked 1 s)"
  by (auto simp: checkpoint_def and_then_def load_token_def spend_def token_check_def is_cancelled_def
      charge_eq affordable_def charged_def unhindered_def worked_def Let_def unat_word_ariths)

lemma checksum_run:
  assumes "unhindered (length ps) s" and "unat a + 255 * length ps < 2 ^ 64"
    and "- (2 ^ 62) \<le> b - 128 * int (length ps)" and "b + 128 * int (length ps) < 2 ^ 62"
  shows "for_fold ps (a, b) checksum_byte s =
    (Inr (a + of_nat (\<Sum>p\<leftarrow>ps. unat (seen p)), b + (\<Sum>p\<leftarrow>ps. sint (seen p))), worked (length ps) s)"
  using assms
proof (induction ps arbitrary: a b s)
  case (Cons p ps)
  let ?b = "seen p"
  have bytes: "unat ?b \<le> 255" "- 128 \<le> sint ?b" "sint ?b < 128"
    using unat_less_8 [of ?b] sint_ge [of ?b] sint_lt [of ?b] by (linarith, simp_all)
  have first: "checksum_byte (a, b) p s = (Inr (a + ucast ?b, b + sint ?b), worked 1 s)"
    using Cons.prems bytes checkpoint_unhindered [of "length ps" s]
    by (auto simp: checksum_byte_def run seen_def Let_def checked_add_def split: if_splits)
  have "unat (a + ucast ?b) = unat a + unat ?b"
    using Cons.prems(2) bytes by (simp add: unat_word_ariths)
  with Cons.IH [of "worked 1 s" "a + ucast ?b" "b + sint ?b"] Cons.prems bytes
    checkpoint_unhindered [of "length ps" s] first
  show ?case by (simp add: run worked_def algebra_simps)
qed (simp add: run worked_def)

lemma sample_header: "take 512 tar_sample = tar_sample_header"
  by (simp add: tar_sample_def tar_sample_header_def)

lemma sample_lengths: "length tar_sample = 1536" "length tar_sample_header = 512"
  by (simp_all add: tar_sample_def tar_sample_header_def)

lemma sample_zeros:
  "0 < i \<Longrightarrow> i + n \<le> 148 \<Longrightarrow> take n (drop i tar_sample_header) = replicate n 0"
  "151 \<le> i \<Longrightarrow> i + n \<le> 512 \<Longrightarrow> take n (drop i tar_sample_header) = replicate n 0"
  by (auto simp: tar_sample_header_def drop_Cons drop_append take_append min_def split: nat.splits)

lemma range_run:
  "unat start + unat len \<le> length bytes \<Longrightarrow> length bytes < 2 ^ 64 \<Longrightarrow> length bytes \<le> usize_max (machine s) \<Longrightarrow>
     checked_range bytes start len d e s = (Inr (take (unat len) (drop (unat start) bytes)), s)"
  by (simp add: checked_range_success)

lemma for_fold_append:
  "for_fold (xs @ ys) a f = and_then (for_fold xs a f) (\<lambda>a. for_fold ys a f)"
  by (induction xs arbitrary: a) (auto simp: and_then_def ok_def fun_eq_iff split: prod.splits sum.splits)

lemma octal_blanks:
  "for_fold (replicate n 0) (v, saw, trailing) (tar_octal_step d) s = (Inr (v, saw, trailing \<or> saw \<and> 0 < n), s)"
  by (induction n arbitrary: trailing) (auto simp: run tar_octal_step_def)


lemmas header_run = run range_run tar_sample_header_def item_get_def octal_blanks tar_octal_step_def
  octal_digit_def i128_push_def checked_i128_def checked_sub_def nth_Cons' nth_append

lemma sample_number: "usize_max (machine s) = 18446744073709551615 \<Longrightarrow>
    tar_i128 tar_sample_header 148 8 d s = (Inr 353, s)"
  by (simp add: tar_i128_def header_run)

lemma sample_checksum:
  assumes "unhindered 512 s" and "usize_max (machine s) = 18446744073709551615"
  shows "verify_header_checksum tar_sample_header s = (Inr (), worked 512 s)"
proof -
  have "summed tar_sample_header = 0x61 # replicate 147 0 @ replicate 8 0x20 @ replicate 356 0"
    by (simp add: summed_def tar_sample_header_def)
  then have "map seen (List.enumerate 0 tar_sample_header) = 0x61 # replicate 147 0 @ replicate 8 0x20 @ replicate 356 0"
    by (simp add: seen_enumerate sample_lengths)
  then have "sum_list (map unat (map seen (List.enumerate 0 tar_sample_header))) = 353"
    "sum_list (map sint (map seen (List.enumerate 0 tar_sample_header))) = 353"
    by (simp_all only:, simp_all add: sum_list_replicate)
  then have "(\<Sum>p\<leftarrow>List.enumerate 0 tar_sample_header. unat (seen p)) = 353"
    "(\<Sum>p\<leftarrow>List.enumerate 0 tar_sample_header. sint (seen p)) = 353"
    by (simp_all only: map_map comp_def)
  then have "for_fold (List.enumerate 0 tar_sample_header) (0, 0) checksum_byte s = (Inr (353, 353), worked 512 s)"
    using checksum_run [of "List.enumerate 0 tar_sample_header" s 0 0] assms
    by (simp add: sample_lengths)
  with sample_number [OF assms(2)] show ?thesis by (simp add: verify_header_checksum_def tar_u64_def run)
qed

lemma position_replicate [simp]: "position_where P (replicate n x) = (if 0 < n \<and> P x then Some 0 else None)"
  by (induction n) auto

lemma sample_path: "usize_max (machine s) = 18446744073709551615 \<Longrightarrow>
    header_path tar_sample_header limits s = copy_bytes [0x61] s"
  by (simp add: header_path_def tar_string_def header_run unwrap_or_def slice_get_def Let_def list_ex_iff)

lemma sample_blank_string:
  "usize_max (machine s) = 18446744073709551615 \<Longrightarrow> 151 \<le> unat i \<Longrightarrow> unat i + unat n \<le> 512 \<Longrightarrow>
     tar_string tar_sample_header i n d s = (Inr [], s)"
  by (simp add: tar_string_def run range_run sample_lengths sample_zeros unwrap_or_def slice_get_def list_ex_iff Let_def)

lemma sample_blank_number:
  "usize_max (machine s) = 18446744073709551615 \<Longrightarrow> 0 < unat n \<Longrightarrow>
     0 < unat i \<and> unat i + unat n \<le> 148 \<or> 151 \<le> unat i \<and> unat i + unat n \<le> 512 \<Longrightarrow>
     tar_i128 tar_sample_header i n d s = (Inr 0, s)"
  by (auto simp: tar_i128_def run range_run sample_lengths sample_zeros item_get_def octal_blanks)

lemma sample_shape:
  "\<not> list_all (\<lambda>b. b = 0) tar_sample_header" "tar_sample_header ! 156 = 0"
  "take 512 (drop 512 tar_sample) = replicate 512 0" "take 512 (drop 1024 tar_sample) = replicate 512 0"
  "validate_magic tar_sample_header s = (Inr (), s)"
  by (simp_all add: tar_sample_header_def tar_sample_def nth_Cons' nth_append validate_magic_def run slice_get_def list_all_iff)

lemmas tar_evaluate =
  tar_parse_def tar_loop.simps tar_reading_def tar_step_def tar_end_def add_header_bytes_def add_total_def
  tar_u64_def tar_i64_def extension_flag_def tar_member_def
  validate_name_def tar_link_def tar_owner_def tar_device_def
  copy_optional_def next_record_offset_def tar_align_up_def unwrap_or_def or_else_def nonempty_def
  from_type_flag_def pax_default_def internal_def narrow_def BLOCK_BYTES_def no_totals_def worked_def

lemmas sample_run = sample_number sample_checksum sample_path sample_blank_string sample_blank_number
  sample_shape sample_header sample_lengths range_run unhindered_def

lemma zero_blocks [simp]:
  "list_ex P (replicate n x) \<longleftrightarrow> 0 < n \<and> P x" "list_all P (replicate n x) \<longleftrightarrow> 0 < n \<longrightarrow> P x"
  by (auto simp: list_ex_iff list_all_iff)

lemma tar_sample_parses:
  "\<exists>m t tot. tar_parse tar_sample ControlSection default_limits (sample_session [], no_totals) = (Inr [m], (t, tot))"
  by (simp add: sample_run tar_evaluate evaluate del: checked_range_def)


end
