(* ===== verification/Stream_Cursor.thy ===== *)
theory Stream_Cursor
  imports Callbacks Member_Layout
begin

text \<open>
  \<^verbatim>\<open>stream/cursor.rs\<close> and the parts of \<^verbatim>\<open>stream/mod.rs\<close> that the layout parsers share: the errors of
  standalone streams, the frame limit, the growth of the frame list, and the cursor.  A cursor
  behind \<open>&mut self\<close> is returned beside the value.
\<close>

section \<open>Shared parts\<close>

definition LZ4_MAGIC :: u32 where "LZ4_MAGIC = 0x184d2204"
definition LZ4_LEGACY_MAGIC :: u32 where "LZ4_LEGACY_MAGIC = 0x184c2102"
definition SKIPPABLE_MAGIC_START :: u32 where "SKIPPABLE_MAGIC_START = 0x184d2a50"
definition SKIPPABLE_MAGIC_END :: u32 where "SKIPPABLE_MAGIC_END = 0x184d2a5f"
definition ZSTANDARD_MAGIC :: u32 where "ZSTANDARD_MAGIC = 0xfd2fb528"
definition UNIX_COMPRESS_MAGIC :: byte_slice where "UNIX_COMPRESS_MAGIC = [0x1f, 0x9d]"

abbreviation is_skippable :: "u32 \<Rightarrow> bool" where
  "is_skippable magic \<equiv> SKIPPABLE_MAGIC_START \<le> magic \<and> magic \<le> SKIPPABLE_MAGIC_END"

definition stream_format_error :: "string \<Rightarrow> string \<Rightarrow> error" where
  "stream_format_error format detail = StreamFormat format detail"

definition stream_checksum_error :: "string \<Rightarrow> u64 \<Rightarrow> error" where
  "stream_checksum_error format frame_index = StreamChecksum format frame_index"

definition unsupported_stream_feature :: "string \<Rightarrow> string \<Rightarrow> error" where
  "unsupported_stream_feature format feature = UnsupportedStreamFeature format feature"

definition check_frame_count :: "u64 \<Rightarrow> limits \<Rightarrow> ('s, unit) comp" where
  "check_frame_count count limits = check_limit count (max_stream_frames limits) StreamFrames"

text \<open>
  \<open>values.try_reserve(additional)\<close>: nothing is asked for while the capacity suffices; otherwise the
  allocator is, and may give more.  The capacity is kept beside the vector.
\<close>

definition grow :: "string \<Rightarrow> nat \<Rightarrow> nat \<Rightarrow> nat \<Rightarrow> nat op" where
  "grow message additional len capacity =
     (if capacity - len < additional then
        and_then (reserve_exact additional message) (\<lambda>_.
        and_then (gets (\<lambda>s. surplus (machine s) (requests (machine s)))) (\<lambda>spare.
        ok (len + additional + spare)))
      else ok capacity)"

definition push_layout :: "'a list \<Rightarrow> nat \<Rightarrow> 'a \<Rightarrow> ('a list \<times> nat) op" where
  "push_layout vs capacity v =
     and_then (grow ''compressed stream layout allocation failed'' 1 (length vs) capacity)
       (\<lambda>capacity. ok (vs @ [v], capacity))"

text \<open>\<open>count.checked_add(1).ok_or_else(|| stream_format_error(format, detail))\<close>\<close>

definition count_one :: "string \<Rightarrow> string \<Rightarrow> u64 \<Rightarrow> ('s, u64) comp" where
  "count_one format detail n = ok_or (stream_format_error format detail) (checked_add n 1)"

text \<open>\<open>if flag { count = count.checked_add(1).ok_or_else(..)? }\<close>\<close>

definition count_if :: "bool \<Rightarrow> string \<Rightarrow> string \<Rightarrow> u64 \<Rightarrow> ('s, u64) comp" where
  "count_if flag format detail n = (if flag then count_one format detail n else ok n)"


section \<open>The cursor\<close>

record stream_cursor =
  sc_bytes :: byte_slice
  sc_position :: nat
  sc_format :: string

definition cursor_new :: "byte_slice \<Rightarrow> string \<Rightarrow> stream_cursor" where
  "cursor_new bytes format = \<lparr>sc_bytes = bytes, sc_position = 0, sc_format = format\<rparr>"

abbreviation cursor_error :: "stream_cursor \<Rightarrow> string \<Rightarrow> error" where
  "cursor_error c detail \<equiv> stream_format_error (sc_format c) detail"

definition cursor_remaining :: "stream_cursor \<Rightarrow> byte_slice op" where
  "cursor_remaining c =
     ok_or (cursor_error c ''cursor position is out of range'')
       (slice_get (sc_bytes c) (sc_position c) (length (sc_bytes c)))"

definition cursor_read_bytes ::
    "nat \<Rightarrow> string \<Rightarrow> stream_cursor \<Rightarrow> (byte_slice \<times> stream_cursor) op" where
  "cursor_read_bytes len truncated_detail c =
     and_then (gets (\<lambda>s. usize_max (machine s))) (\<lambda>maximum.
     and_then (err_if (maximum < sc_position c + len) (cursor_error c ''byte range end overflows''))
       (\<lambda>_.
     let finish = sc_position c + len
     in and_then (ok_or (cursor_error c truncated_detail)
          (slice_get (sc_bytes c) (sc_position c) finish)) (\<lambda>bytes.
        ok (bytes, c\<lparr>sc_position := finish\<rparr>))))"

definition cursor_skip_u64 :: "u64 \<Rightarrow> string \<Rightarrow> stream_cursor \<Rightarrow> stream_cursor op" where
  "cursor_skip_u64 len truncated_detail c =
     and_then (gets (\<lambda>s. usize_max (machine s))) (\<lambda>maximum.
     and_then (err_if (maximum < unat len)
       (cursor_error c ''byte range is not representable on this platform'')) (\<lambda>_.
     and_then (cursor_read_bytes (unat len) truncated_detail c) (\<lambda>(_, c). ok c)))"

definition cursor_read_u8 :: "string \<Rightarrow> stream_cursor \<Rightarrow> (u8 \<times> stream_cursor) op" where
  "cursor_read_u8 truncated_detail c =
     and_then (cursor_read_bytes 1 truncated_detail c) (\<lambda>(bytes, c).
     and_then (ok_or (cursor_error c truncated_detail) (item_get bytes 0)) (\<lambda>byte.
     ok (byte, c)))"

definition cursor_read_u24_le :: "string \<Rightarrow> stream_cursor \<Rightarrow> (u32 \<times> stream_cursor) op" where
  "cursor_read_u24_le truncated_detail c =
     and_then (cursor_read_bytes 3 truncated_detail c) (\<lambda>(bytes, c).
     and_then (ok_or (cursor_error c truncated_detail) (item_get bytes 0)) (\<lambda>low.
     and_then (ok_or (cursor_error c truncated_detail) (item_get bytes 1)) (\<lambda>middle.
     and_then (ok_or (cursor_error c truncated_detail) (item_get bytes 2)) (\<lambda>high.
     ok (ucast low OR push_bit 8 (ucast middle) OR push_bit 16 (ucast high), c)))))"

definition cursor_read_u32_le :: "string \<Rightarrow> stream_cursor \<Rightarrow> (u32 \<times> stream_cursor) op" where
  "cursor_read_u32_le truncated_detail c =
     and_then (cursor_read_bytes 4 truncated_detail c) (\<lambda>(bytes, c).
     and_then (ok_or (cursor_error c truncated_detail) (array_of 4 bytes)) (\<lambda>bytes.
     ok (from_le_bytes bytes, c)))"

definition cursor_read_le :: "nat \<Rightarrow> string \<Rightarrow> stream_cursor \<Rightarrow> (u64 \<times> stream_cursor) op" where
  "cursor_read_le len truncated_detail c =
     and_then (cursor_read_bytes len truncated_detail c) (\<lambda>(bytes, c).
     and_then (for_fold (List.enumerate 0 bytes) 0 (\<lambda>value (index, byte).
       and_then (ok_or (cursor_error c ''integer shift overflows'') (byte_shift index)) (\<lambda>shift.
       and_then (ok_or (cursor_error c ''integer value overflows'')
         (checked_shl (ucast byte) (unat shift))) (\<lambda>shifted.
       ok (value OR shifted))))) (\<lambda>value.
     ok (value, c)))"


section \<open>Laws\<close>

text \<open>A cursor only moves forward over its own bytes.\<close>

definition cursor_moved :: "stream_cursor \<Rightarrow> nat \<Rightarrow> stream_cursor \<Rightarrow> bool" where
  "cursor_moved c n d \<longleftrightarrow> d = c\<lparr>sc_position := sc_position c + n\<rparr> \<and>
     sc_position c + n \<le> length (sc_bytes c)"

lemma cursor_moved_trans: "cursor_moved c m d \<Longrightarrow> cursor_moved d n e \<Longrightarrow> cursor_moved c (m + n) e"
  by (auto simp: cursor_moved_def)

lemma cursor_moved_here: "sc_position c \<le> length (sc_bytes c) \<Longrightarrow> cursor_moved c 0 c"
  by (simp add: cursor_moved_def)

definition cursor_after :: "stream_cursor \<Rightarrow> stream_cursor \<Rightarrow> bool" where
  "cursor_after c d \<longleftrightarrow> (\<exists>n. cursor_moved c n d)"

lemma cursor_after_iff:
  "cursor_after c d \<longleftrightarrow> d = c\<lparr>sc_position := sc_position d\<rparr> \<and>
     sc_position c \<le> sc_position d \<and> sc_position d \<le> length (sc_bytes c)"
  unfolding cursor_after_def cursor_moved_def
  by (auto intro!: exI [of _ "sc_position d - sc_position c"])

lemma cursor_after_moved: "cursor_moved c n d \<Longrightarrow> cursor_after c d"
  by (auto simp: cursor_after_def)

lemma cursor_after_in: "cursor_after c d \<Longrightarrow> sc_position d \<le> length (sc_bytes d)"
  by (auto simp: cursor_after_def cursor_moved_def)

lemma cursor_after_here: "sc_position c \<le> length (sc_bytes c) \<Longrightarrow> cursor_after c c"
  by (rule cursor_after_moved [OF cursor_moved_here])

lemma cursor_after_trans: "cursor_after c d \<Longrightarrow> cursor_after d e \<Longrightarrow> cursor_after c e"
  by (auto simp: cursor_after_def dest: cursor_moved_trans)

lemma cursor_after_moved_trans: "cursor_after c d \<Longrightarrow> cursor_moved d n e \<Longrightarrow> cursor_after c e"
  by (rule cursor_after_trans [OF _ cursor_after_moved])

lemma cursor_afterD:
  "cursor_after c d \<Longrightarrow> sc_bytes d = sc_bytes c \<and> sc_position c \<le> sc_position d \<and>
     sc_position d \<le> length (sc_bytes c)"
  by (auto simp: cursor_after_def cursor_moved_def)

lemma cursor_movedD:
  "cursor_moved c n d \<Longrightarrow> sc_bytes d = sc_bytes c \<and> sc_position d = sc_position c + n \<and>
     sc_position d \<le> length (sc_bytes c)"
  by (auto simp: cursor_moved_def)

lemmas cursor_after_rules = cursor_after_here cursor_after_moved cursor_after_moved_trans cursor_after_trans

lemma unat_u32_as_u64 [simp]: "unat (ucast (w :: u32) :: u64) = unat w"
  using less_trans [OF unat_less_32 [of w], of "2 ^ 64"]
  by (simp add: unsigned_ucast_eq take_bit_nat_eq_self)

lemma cursor_remaining_success [success]:
  "cursor_remaining c s = (Inr bs, t) \<longleftrightarrow>
     sc_position c \<le> length (sc_bytes c) \<and> bs = drop (sc_position c) (sc_bytes c) \<and> t = s"
  by (auto simp: cursor_remaining_def success slice_get_eq_Some)

lemma cursor_read_bytes_success [success]:
  "cursor_read_bytes n d c s = (Inr (bs, c'), t) \<longleftrightarrow>
     cursor_moved c n c' \<and> sc_position c + n \<le> usize_max (machine s) \<and>
     bs = take n (drop (sc_position c) (sc_bytes c)) \<and> t = s"
  by (auto simp: cursor_read_bytes_def success slice_get_eq_Some cursor_moved_def Let_def)

lemma cursor_skip_u64_success:
  "cursor_skip_u64 n d c s = (Inr c', t) \<Longrightarrow> cursor_moved c (unat n) c' \<and> t = s"
  by (auto simp: cursor_skip_u64_def success)

lemma cursor_read_u8_success:
  "cursor_read_u8 d c s = (Inr (b, c'), t) \<Longrightarrow>
     cursor_moved c 1 c' \<and> b = sc_bytes c ! sc_position c \<and> t = s"
  by (auto simp: cursor_read_u8_def success item_get_eq_Some)

lemma cursor_read_u24_success:
  "cursor_read_u24_le d c s = (Inr (b, c'), t) \<Longrightarrow> cursor_moved c 3 c' \<and> t = s"
  by (auto simp: cursor_read_u24_le_def success)

lemma cursor_read_u32_success:
  "cursor_read_u32_le d c s = (Inr (w, c'), t) \<Longrightarrow>
     cursor_moved c 4 c' \<and> w = from_le_bytes (take 4 (drop (sc_position c) (sc_bytes c))) \<and> t = s"
  by (auto simp: cursor_read_u32_le_def success array_of_def split: if_splits)

lemma unat_byte_le: "unat (b :: u8) \<le> 255"
  using unat_less_8 [of b] by linarith

lemma unat_or_shifted:
  fixes v :: "'a::len word" and b :: u8
  assumes v: "unat v < 2 ^ (8 * k)" and k: "8 * k + 8 \<le> LENGTH('a)"
  shows "unat (v OR push_bit (8 * k) (ucast b)) = unat v + 2 ^ (8 * k) * unat b"
proof -
  have "v = take_bit (8 * k) v"
    using v by (metis take_bit_nat_eq_self_iff unsigned_take_bit_eq word_unat_eq_iff)
  then have "v AND push_bit (8 * k) (ucast b) = 0"
    by (metis (no_types) bit_eq_iff bit_and_iff bit_take_bit_iff bit_push_bit_iff bit_0_eq bot_apply bot_bool_def not_le)
  then have sum: "v OR push_bit (8 * k) (ucast b) = v + push_bit (8 * k) (ucast b)"
    by (simp add: disjunctive_add_eq_or)
  define m :: nat where "m = 2 ^ (8 * k)"
  have "m * 2 ^ 8 \<le> 2 ^ LENGTH('a)"
    unfolding m_def power_add [symmetric] using k by (rule power_increasing) simp
  then have "m * 256 \<le> 2 ^ LENGTH('a)" by simp
  moreover have b: "m * unat b \<le> m * 255"
    by (intro mult_le_mono2) (rule unat_byte_le)
  moreover have "0 < m" by (simp add: m_def)
  ultimately have fits: "m * unat b < 2 ^ LENGTH('a)" "unat v + m * unat b < 2 ^ LENGTH('a)"
    using v unfolding m_def [symmetric] by (linarith, linarith)
  have "(2 :: nat) ^ 8 \<le> 2 ^ LENGTH('a)" using k by (intro power_increasing) auto
  then have small: "unat b < 2 ^ LENGTH('a)" using unat_byte_le [of b] by simp
  have shifted: "unat (push_bit (8 * k) (ucast b :: 'a word)) = m * unat b"
    using fits(1) small
    by (simp add: unsigned_push_bit_eq unsigned_ucast_eq push_bit_nat_def take_bit_nat_eq_self mult.commute m_def)
  show ?thesis
    unfolding sum using fits(2) shifted by (simp add: unat_word_ariths flip: m_def)
qed

lemma le_nat_drop: "le_nat (drop k bs) = le_nat bs div 256 ^ k"
proof (induction k arbitrary: bs)
  case (Suc k)
  show ?case
  proof (cases bs)
    case (Cons b bs')
    have "(unat b + 256 * le_nat bs') div 256 = le_nat bs'"
      using unat_byte_le [of b] by simp
    then have "(unat b + 256 * le_nat bs') div (256 * 256 ^ k) = le_nat bs' div 256 ^ k"
      by (simp only: div_mult2_eq)
    with Cons Suc.IH show ?thesis by simp
  qed simp
qed simp

lemma le_nat_take: "le_nat (take m bs) = le_nat bs mod 256 ^ m"
proof (induction m arbitrary: bs)
  case (Suc m)
  show ?case
  proof (cases bs)
    case (Cons b bs')
    have "(unat b + 256 * le_nat bs') mod (256 * 256 ^ m) = unat b + 256 * (le_nat bs' mod 256 ^ m)"
      using unat_byte_le [of b] by (simp add: mod_mult2_eq)
    with Cons Suc.IH show ?thesis by simp
  qed simp
qed simp

lemma le_nat_take_drop: "le_nat (take m (drop k bs)) = take_bit (8 * m) (drop_bit (8 * k) (le_nat bs))"
  by (simp add: le_nat_take le_nat_drop take_bit_nat_def drop_bit_nat_def power_mult)

lemma byte_shift_value: "byte_shift k = Some w \<Longrightarrow> unat w = 8 * k"
  by (auto simp: byte_shift_def checked_mul_eq_Some unat_of_nat split: if_splits)

lemma read_le_fold:
  assumes "for_fold (List.enumerate k bs) v (\<lambda>value (index, byte).
       and_then (ok_or e (byte_shift index)) (\<lambda>shift.
       and_then (ok_or e' (checked_shl (ucast byte) (unat shift))) (\<lambda>shifted.
       ok (value OR shifted)))) s = (Inr (w :: u64), t)"
    and "unat v < 2 ^ (8 * k)" "k + length bs \<le> 8"
  shows "unat w = unat v + 2 ^ (8 * k) * le_nat bs \<and> t = s"
  using assms
proof (induction bs arbitrary: k v)
  case (Cons b bs)
  then have k: "k < 8" by simp
  from Cons.prems(1) obtain w' v' where w': "byte_shift k = Some w'" and v': "checked_shl (ucast b) (unat w') = Some v'"
    and fold: "for_fold (List.enumerate (Suc k) bs) (v OR v') (\<lambda>value (index, byte).
       and_then (ok_or e (byte_shift index)) (\<lambda>shift.
       and_then (ok_or e' (checked_shl (ucast byte) (unat shift))) (\<lambda>shifted.
       ok (value OR shifted)))) s = (Inr w, t)"
    by (auto simp: success)
  have "v' = push_bit (8 * k) (ucast b)"
    using v' byte_shift_value [OF w'] by (auto simp: checked_shl_def split: if_splits)
  with unat_or_shifted [OF Cons.prems(2), of b] k
  have v: "unat (v OR v') = unat v + 2 ^ (8 * k) * unat b" by simp
  define m :: nat where "m = 2 ^ (8 * k)"
  have "m * unat b \<le> m * 255"
    by (intro mult_le_mono2) (rule unat_byte_le)
  then have "unat (v OR v') < 256 * m"
    using v Cons.prems(2) unfolding m_def [symmetric] by linarith
  then have "unat (v OR v') < 2 ^ (8 * Suc k)"
    by (simp add: m_def power_add)
  from Cons.IH [OF fold this] Cons.prems(3) v show ?case by (simp add: algebra_simps power_add)
qed (simp add: success)

lemma cursor_read_le_success:
  assumes "cursor_read_le n d c s = (Inr (w, c'), t)"
  shows "cursor_moved c n c' \<and> t = s"
proof -
  have "t' = s'" if "for_fold xs v (\<lambda>value (index, byte).
       and_then (ok_or (cursor_error c ''integer shift overflows'') (byte_shift index)) (\<lambda>shift.
       and_then (ok_or (cursor_error c ''integer value overflows'')
         (checked_shl (ucast byte) (unat shift))) (\<lambda>shifted.
       ok (value OR shifted)))) s' = (Inr w', t')" for c and xs :: "(nat \<times> u8) list" and v w' :: u64 and s' t'
    using that by (induction xs arbitrary: v) (auto simp: success split: prod.splits)
  with assms show ?thesis by (auto simp: cursor_read_le_def success)
qed

lemma cursor_read_le_value:
  "cursor_read_le n d c s = (Inr (w, c'), t) \<Longrightarrow> n \<le> 8 \<Longrightarrow>
     unat w = le_nat (take n (drop (sc_position c) (sc_bytes c)))"
  by (auto simp: cursor_read_le_def success dest!: read_le_fold)

lemma count_one_success [success]:
  "count_one format detail n s = (Inr m, t) \<longleftrightarrow> unat m = unat n + 1 \<and> t = s"
  by (auto simp: count_one_def success checked_add_eq_Some)

lemma count_if_success [success]:
  "count_if flag format detail n s = (Inr m, t) \<longleftrightarrow> unat m = unat n + of_bool flag \<and> t = s"
  by (cases flag) (auto simp: count_if_def success intro: word_unat_eq_iff [THEN iffD2])

lemma push_layout_success:
  "push_layout vs c v s = (Inr (ws, d), t) \<Longrightarrow> ws = vs @ [v]"
  by (auto simp: push_layout_def success)


section \<open>Streams of frames\<close>

text \<open>
  \<open>framed magics bytes n spans p\<close>: the first \<open>p\<close> bytes are \<open>n\<close> frames, one behind the other.  The
  frames with a magic of \<open>magics\<close> occupy \<open>spans\<close>, in this order; the others are skippable frames,
  whose length follows their magic.
\<close>

definition u32_at :: "byte_slice \<Rightarrow> nat \<Rightarrow> u32" where
  "u32_at bytes p = from_le_bytes (take 4 (drop p bytes))"

inductive framed ::
    "(u32 \<Rightarrow> bool) \<Rightarrow> byte_slice \<Rightarrow> nat \<Rightarrow> (nat \<times> nat) list \<Rightarrow> nat \<Rightarrow> bool"
  for magics bytes where
  framed_start: "framed magics bytes 0 [] 0"
| framed_data:
    "framed magics bytes n spans p \<Longrightarrow> magics (u32_at bytes p) \<Longrightarrow> p + 4 \<le> q \<Longrightarrow> q \<le> length bytes \<Longrightarrow>
       framed magics bytes (Suc n) (spans @ [(p, q)]) q"
| framed_skippable:
    "framed magics bytes n spans p \<Longrightarrow> is_skippable (u32_at bytes p) \<Longrightarrow>
       q = p + 8 + unat (u32_at bytes (p + 4)) \<Longrightarrow> q \<le> length bytes \<Longrightarrow>
       framed magics bytes (Suc n) spans q"

lemma framed_le: "framed magics bytes n spans p \<Longrightarrow> p \<le> length bytes"
  by (induction rule: framed.induct) auto

lemma framed_count: "framed magics bytes n spans p \<Longrightarrow> length spans \<le> n"
  by (induction rule: framed.induct) auto

lemma framed_in_order: "framed magics bytes n spans p \<Longrightarrow> in_order (\<lambda>x. x) 0 spans p"
  by (induction rule: framed.induct) (auto intro: in_order_snoc in_order_mono)

lemma framed_magic: "framed magics bytes n spans p \<Longrightarrow> (a, b) \<in> set spans \<Longrightarrow> magics (u32_at bytes a)"
  by (induction rule: framed.induct) auto

definition count_frames :: "('f \<Rightarrow> bool) \<Rightarrow> 'f list \<Rightarrow> nat" where
  "count_frames P fs = length (filter P fs)"

lemma count_frames_snoc [simp]: "count_frames P (fs @ [f]) = count_frames P fs + of_bool (P f)"
  by (simp add: count_frames_def)

lemma count_frames_Nil [simp]: "count_frames P [] = 0"
  by (simp add: count_frames_def)


text \<open>A sum that is known only while every summand is.\<close>

definition add_known :: "string \<Rightarrow> string \<Rightarrow> u64 option \<times> u64 option \<Rightarrow> ('s, u64 option) comp" where
  "add_known format detail pair =
     (case pair of
        (Some aggregate, Some extra) \<Rightarrow>
          and_then (ok_or (stream_format_error format detail) (checked_add aggregate extra))
            (\<lambda>aggregate. ok (Some aggregate))
      | _ \<Rightarrow> ok None)"

definition known_sum :: "u64 option list \<Rightarrow> nat option" where
  "known_sum xs = (if None \<in> set xs then None else Some (\<Sum>x\<leftarrow>xs. unat (the x)))"

lemma known_sum_Nil [simp]: "known_sum [] = Some 0"
  by (simp add: known_sum_def)

lemma add_known_success:
  "add_known format detail (a, x) s = (Inr b, t) \<Longrightarrow> map_option unat a = known_sum xs \<Longrightarrow>
     map_option unat b = known_sum (xs @ [x]) \<and> t = s"
  by (cases a; cases x)
    (auto simp: add_known_def success checked_add_eq_Some known_sum_def split: if_splits)


lemmas stream_evaluate =
  cursor_new_def cursor_remaining_def cursor_read_bytes_def cursor_skip_u64_def cursor_read_u8_def
  cursor_read_u24_le_def cursor_read_u32_le_def cursor_read_le_def count_one_def count_if_def
  add_known_def push_layout_def grow_def check_frame_count_def byte_shift_def checked_shl_def
  array_of_def from_le_bytes_def unat_word_ariths

end
