(* ===== verification/Lz4_Layout.thy ===== *)
theory Lz4_Layout
  imports Stream_Cursor
begin

text \<open>
  \<^verbatim>\<open>stream/lz4.rs\<close>: the layout of LZ4 frames.  \<open>XxHash32\<close> is third-party code: \<open>xxh32\<close> is the value of
  \<open>finish\<close> after seed 0 and one \<open>write\<close>, a parameter of the parsers.
\<close>

definition LEGACY_BLOCK_BYTES :: u64 where "LEGACY_BLOCK_BYTES = 8 * 1024 * 1024"
definition LZ4_HISTORY_BYTES :: u64 where "LZ4_HISTORY_BYTES = 64 * 1024"

record lz4_frame =
  lf_start :: nat
  lf_end :: nat
  lf_content_size :: "u64 option"
  lf_checksum :: bool
  lf_dictionary :: bool
  lf_working_bytes :: u64

record lz4_stream_info =
  li_frame_count :: u64
  li_skippable_frame_count :: u64
  li_legacy_frame_count :: u64
  li_content_checksum_frame_count :: u64
  li_block_checksum_frame_count :: u64
  li_dictionary_frame_count :: u64
  li_maximum_block_bytes :: u64

record lz4_parsed_frame =
  lp_content_size :: "u64 option"
  lp_content_checksum :: bool
  lp_block_checksums :: bool
  lp_dictionary :: bool
  lp_maximum_block_bytes :: u64
  lp_working_bytes :: u64

abbreviation lz4_error :: "string \<Rightarrow> error" where
  "lz4_error detail \<equiv> stream_format_error ''lz4'' detail"


section \<open>Standard frames\<close>

text \<open>\<open>if flag { cursor.read_u32_le(detail)?; }\<close>\<close>

definition lz4_optional_u32 :: "bool \<Rightarrow> string \<Rightarrow> stream_cursor \<Rightarrow> stream_cursor op" where
  "lz4_optional_u32 flag detail c =
     (if flag then and_then (cursor_read_u32_le detail c) (\<lambda>(_, c). ok c) else ok c)"

definition lz4_content_size :: "u8 \<Rightarrow> stream_cursor \<Rightarrow> (u64 option \<times> stream_cursor) op" where
  "lz4_content_size flags c =
     (if flags AND 0x08 \<noteq> 0 then
        and_then (cursor_read_le 8 ''content size is truncated'' c) (\<lambda>(v, c). ok (Some v, c))
      else ok (None, c))"

text \<open>One block; the flag says that the end mark was read.\<close>

definition lz4_block_step ::
    "u64 \<Rightarrow> bool \<Rightarrow> stream_cursor \<times> bool \<Rightarrow> (stream_cursor \<times> bool) op" where
  "lz4_block_step maximum_block_bytes block_checksums st =
     and_then (cursor_read_u32_le ''block header is truncated'' (fst st)) (\<lambda>(header, c).
     if header = 0 then ok (c, True)
     else
       let block_size = ucast (header AND 0x7fffffff) :: u64
       in and_then (err_if (block_size = 0) (lz4_error ''non-end block has a zero payload size''))
            (\<lambda>_.
          and_then (err_if (maximum_block_bytes < block_size)
            (lz4_error ''block exceeds the declared maximum size'')) (\<lambda>_.
          and_then (cursor_skip_u64 block_size ''block payload is truncated'' c) (\<lambda>c.
          and_then (lz4_optional_u32 block_checksums ''block checksum is truncated'' c)
            (\<lambda>c. ok (c, False))))))"

definition cursor_left :: "stream_cursor \<times> bool \<Rightarrow> nat" where
  "cursor_left st =
     (if snd st then 0 else Suc (length (sc_bytes (fst st)) - sc_position (fst st)))"

text \<open>A pass of a block loop reads at least one byte or ends the loop.\<close>

definition cursor_progress :: "stream_cursor \<times> bool \<Rightarrow> stream_cursor \<times> bool \<Rightarrow> bool" where
  "cursor_progress st st' \<longleftrightarrow> cursor_after (fst st) (fst st') \<and>
     (snd st' \<or> sc_position (fst st) < sc_position (fst st'))"

lemma cursor_progress_left: "cursor_progress st st' \<Longrightarrow> \<not> snd st \<Longrightarrow> cursor_left st' < cursor_left st"
  by (auto simp: cursor_progress_def cursor_left_def dest!: cursor_afterD)

lemma lz4_block_step_progress:
  "lz4_block_step m b st s = (Inr st', t) \<Longrightarrow> cursor_progress st st' \<and> t = s"
  by (auto simp: lz4_block_step_def lz4_optional_u32_def success Let_def cursor_progress_def
      cursor_after_iff cursor_moved_def
      dest!: cursor_read_u32_success cursor_skip_u64_success split: if_splits)

function lz4_block_loop ::
    "u64 \<Rightarrow> bool \<Rightarrow> stream_cursor \<times> bool \<Rightarrow> (stream_cursor \<times> bool) op" where
  "lz4_block_loop m b st s =
     (if \<not> snd st then and_then (lz4_block_step m b st) (\<lambda>st s. lz4_block_loop m b st s) s
      else ok st s)"
  by pat_completeness auto
termination
  by (relation "measure (\<lambda>(m, b, st, s). cursor_left st)")
    (auto dest!: lz4_block_step_progress intro!: cursor_progress_left)

declare lz4_block_loop.simps [simp del]

interpretation lz4_blocks: loop "lz4_block_loop m b" "\<lambda>st. \<not> snd st" "lz4_block_step m b"
  "\<lambda>st _. cursor_left st" for m b
  by unfold_locales
    (subst lz4_block_loop.simps, simp,
      blast intro: cursor_progress_left dest: lz4_block_step_progress)

definition lz4_maximum_block :: "u8 \<Rightarrow> u64 op" where
  "lz4_maximum_block block_descriptor =
     (let kind = drop_bit 4 block_descriptor AND 0x07
      in if kind = 4 then ok (64 * 1024)
         else if kind = 5 then ok (256 * 1024)
         else if kind = 6 then ok (1024 * 1024)
         else if kind = 7 then ok (4 * 1024 * 1024)
         else err (lz4_error ''invalid maximum block size''))"

definition parse_standard_frame ::
    "(byte_slice \<Rightarrow> u64) \<Rightarrow> byte_slice \<Rightarrow> nat \<Rightarrow> u64 \<Rightarrow> stream_cursor \<Rightarrow>
     (lz4_parsed_frame \<times> stream_cursor) op" where
  "parse_standard_frame xxh32 input start frame_index c =
     and_then (gets (\<lambda>s. usize_max (machine s))) (\<lambda>maximum.
     and_then (err_if (maximum < start + 4) (lz4_error ''descriptor offset overflows'')) (\<lambda>_.
     let descriptor_start = start + 4 in
     and_then (cursor_read_u8 ''frame flags are truncated'' c) (\<lambda>(flags, c).
     and_then (cursor_read_u8 ''block descriptor is truncated'' c) (\<lambda>(block_descriptor, c).
     and_then (err_if (flags AND 0xc0 \<noteq> 0x40) (lz4_error ''unsupported frame version'')) (\<lambda>_.
     and_then (err_if (flags AND 0x02 \<noteq> 0 \<or> block_descriptor AND 0x8f \<noteq> 0)
       (lz4_error ''reserved descriptor bits are set'')) (\<lambda>_.
     and_then (lz4_maximum_block block_descriptor) (\<lambda>maximum_block_bytes.
     and_then (lz4_content_size flags c) (\<lambda>(content_size, c).
     let dictionary = (flags AND 0x01 \<noteq> 0) in
     and_then (lz4_optional_u32 dictionary ''dictionary ID is truncated'' c) (\<lambda>c.
     let checksum_position = sc_position c in
     and_then (cursor_read_u8 ''header checksum is truncated'' c) (\<lambda>(expected_header_checksum, c).
     and_then (ok_or (lz4_error ''descriptor range is invalid'')
       (slice_get input descriptor_start checksum_position)) (\<lambda>descriptor.
     and_then (ok_or (lz4_error ''header checksum is not representable'')
       (narrow (drop_bit 8 (xxh32 descriptor) AND 0xff))) (\<lambda>calculated.
     and_then (err_if (calculated \<noteq> expected_header_checksum)
       (stream_checksum_error ''lz4'' frame_index)) (\<lambda>_.
     let block_checksums = (flags AND 0x10 \<noteq> 0) in
     and_then (lz4_block_loop maximum_block_bytes block_checksums (c, False)) (\<lambda>(c, _).
     let content_checksum = (flags AND 0x04 \<noteq> 0) in
     and_then (lz4_optional_u32 content_checksum ''content checksum is truncated'' c) (\<lambda>c.
     and_then (ok_or (lz4_error ''working memory size overflows'')
       (Option.bind (checked_mul maximum_block_bytes 3)
         (\<lambda>bytes. checked_add bytes LZ4_HISTORY_BYTES))) (\<lambda>working_bytes.
     ok (\<lparr>lp_content_size = content_size, lp_content_checksum = content_checksum,
          lp_block_checksums = block_checksums, lp_dictionary = dictionary,
          lp_maximum_block_bytes = maximum_block_bytes, lp_working_bytes = working_bytes\<rparr>,
         c)))))))))))))))))"


section \<open>Legacy frames\<close>

text \<open>
  A legacy frame has no end mark of its own: it ends with the input, with a zero size, or before the
  magic of another frame.
\<close>

definition is_frame_magic :: "u32 \<Rightarrow> bool" where
  "is_frame_magic next \<longleftrightarrow> next = LZ4_MAGIC \<or> next = LZ4_LEGACY_MAGIC \<or> is_skippable next"

definition legacy_block_step :: "nat \<Rightarrow> stream_cursor \<times> bool \<Rightarrow> (stream_cursor \<times> bool) op" where
  "legacy_block_step start st =
     (let c = fst st in
     and_then (cursor_remaining c) (\<lambda>remaining.
     if remaining = [] then ok (c, True)
     else
       and_then (ok_or (lz4_error ''legacy block header is truncated'') (slice_get remaining 0 4))
         (\<lambda>next_bytes.
       and_then (ok_or (lz4_error ''legacy block header is truncated'') (array_of 4 next_bytes))
         (\<lambda>next_bytes.
       if sc_position c \<noteq> start \<and> is_frame_magic (from_le_bytes next_bytes) then ok (c, True)
       else
         and_then (cursor_read_u32_le ''legacy block header is truncated'' c) (\<lambda>(block_size, c).
         if block_size = 0 then ok (c, True)
         else
           and_then (err_if (LEGACY_BLOCK_BYTES < ucast block_size)
             (lz4_error ''legacy block exceeds eight MiB'')) (\<lambda>_.
           and_then (cursor_skip_u64 (ucast block_size) ''legacy block payload is truncated'' c)
             (\<lambda>c. ok (c, False))))))))"

lemma legacy_block_step_progress:
  "legacy_block_step start st s = (Inr st', t) \<Longrightarrow> cursor_progress st st' \<and> t = s"
  by (auto simp: legacy_block_step_def success Let_def cursor_progress_def
      cursor_after_iff cursor_moved_def
      dest!: cursor_read_u32_success cursor_skip_u64_success split: if_splits)

function legacy_block_loop :: "nat \<Rightarrow> stream_cursor \<times> bool \<Rightarrow> (stream_cursor \<times> bool) op" where
  "legacy_block_loop start st s =
     (if \<not> snd st then and_then (legacy_block_step start st) (\<lambda>st s. legacy_block_loop start st s) s
      else ok st s)"
  by pat_completeness auto
termination
  by (relation "measure (\<lambda>(start, st, s). cursor_left st)")
    (auto dest!: legacy_block_step_progress intro!: cursor_progress_left)

declare legacy_block_loop.simps [simp del]

interpretation legacy_blocks: loop "legacy_block_loop start" "\<lambda>st. \<not> snd st"
  "legacy_block_step start" "\<lambda>st _. cursor_left st" for start
  by unfold_locales
    (subst legacy_block_loop.simps, simp,
      blast intro: cursor_progress_left dest: legacy_block_step_progress)

definition parse_legacy_frame ::
    "nat \<Rightarrow> stream_cursor \<Rightarrow> (lz4_parsed_frame \<times> stream_cursor) op" where
  "parse_legacy_frame start c =
     and_then (legacy_block_loop start (c, False)) (\<lambda>(c, _).
     and_then (ok_or (lz4_error ''legacy working memory size overflows'')
       (Option.bind (checked_mul LEGACY_BLOCK_BYTES 3)
         (\<lambda>bytes. checked_add bytes LZ4_HISTORY_BYTES))) (\<lambda>working_bytes.
     ok (\<lparr>lp_content_size = None, lp_content_checksum = False, lp_block_checksums = False,
          lp_dictionary = False, lp_maximum_block_bytes = LEGACY_BLOCK_BYTES,
          lp_working_bytes = working_bytes\<rparr>, c)))"


section \<open>The frames of a stream\<close>

record lz4_progress =
  lr_cursor :: stream_cursor
  lr_frames :: "lz4_frame list"
  lr_capacity :: nat
  lr_total_frames :: u64
  lr_data_frames :: u64
  lr_skippable_frames :: u64
  lr_legacy_frames :: u64
  lr_content_checksum_frames :: u64
  lr_block_checksum_frames :: u64
  lr_dictionary_frames :: u64
  lr_maximum_block_bytes :: u64
  lr_aggregate_size :: "u64 option"

definition lz4_parse_data_frame ::
    "(byte_slice \<Rightarrow> u64) \<Rightarrow> byte_slice \<Rightarrow> nat \<Rightarrow> u32 \<Rightarrow> lz4_progress \<Rightarrow>
     (lz4_parsed_frame \<times> lz4_progress) op" where
  "lz4_parse_data_frame xxh32 input start magic st =
     (if magic = LZ4_MAGIC then
        and_then (parse_standard_frame xxh32 input start (lr_data_frames st) (lr_cursor st))
          (\<lambda>(parsed, c). ok (parsed, st\<lparr>lr_cursor := c\<rparr>))
      else if magic = LZ4_LEGACY_MAGIC then
        and_then (count_one ''lz4'' ''legacy frame count overflows'' (lr_legacy_frames st))
          (\<lambda>legacy_frames.
        and_then (parse_legacy_frame start (lr_cursor st)) (\<lambda>(parsed, c).
        ok (parsed, st\<lparr>lr_cursor := c, lr_legacy_frames := legacy_frames\<rparr>)))
      else err (lz4_error ''unexpected frame magic''))"

definition lz4_record_frame ::
    "nat \<Rightarrow> lz4_parsed_frame \<Rightarrow> lz4_progress \<Rightarrow> lz4_progress op" where
  "lz4_record_frame start parsed st =
     and_then (count_one ''lz4'' ''data frame count overflows'' (lr_data_frames st)) (\<lambda>data_frames.
     and_then (count_if (lp_content_checksum parsed) ''lz4''
       ''content-checksum frame count overflows'' (lr_content_checksum_frames st))
       (\<lambda>content_checksum_frames.
     and_then (count_if (lp_block_checksums parsed) ''lz4''
       ''block-checksum frame count overflows'' (lr_block_checksum_frames st))
       (\<lambda>block_checksum_frames.
     and_then (count_if (lp_dictionary parsed) ''lz4''
       ''dictionary frame count overflows'' (lr_dictionary_frames st)) (\<lambda>dictionary_frames.
     and_then (add_known ''lz4'' ''aggregate content size overflows''
       (lr_aggregate_size st, lp_content_size parsed)) (\<lambda>aggregate_size.
     and_then (push_layout (lr_frames st) (lr_capacity st)
       \<lparr>lf_start = start, lf_end = sc_position (lr_cursor st),
        lf_content_size = lp_content_size parsed,
        lf_checksum = lp_content_checksum parsed \<or> lp_block_checksums parsed,
        lf_dictionary = lp_dictionary parsed, lf_working_bytes = lp_working_bytes parsed\<rparr>)
       (\<lambda>(frames, capacity).
     ok (st\<lparr>lr_frames := frames, lr_capacity := capacity, lr_data_frames := data_frames,
            lr_content_checksum_frames := content_checksum_frames,
            lr_block_checksum_frames := block_checksum_frames,
            lr_dictionary_frames := dictionary_frames,
            lr_maximum_block_bytes := max (lr_maximum_block_bytes st) (lp_maximum_block_bytes parsed),
            lr_aggregate_size := aggregate_size\<rparr>)))))))"

definition lz4_frame_step ::
    "(byte_slice \<Rightarrow> u64) \<Rightarrow> byte_slice \<Rightarrow> limits \<Rightarrow> lz4_progress \<times> bool \<Rightarrow>
     (lz4_progress \<times> bool) op" where
  "lz4_frame_step xxh32 input limits p =
     (let st = fst p in
     and_then (cursor_remaining (lr_cursor st)) (\<lambda>remaining.
     if remaining = [] then ok (st, True)
     else
       and_then (count_one ''lz4'' ''frame count overflows'' (lr_total_frames st)) (\<lambda>total_frames.
       and_then (check_frame_count total_frames limits) (\<lambda>_.
       let start = sc_position (lr_cursor st) in
       and_then (cursor_read_u32_le ''frame magic is truncated'' (lr_cursor st)) (\<lambda>(magic, c).
       let st = st\<lparr>lr_cursor := c, lr_total_frames := total_frames\<rparr> in
       if is_skippable magic then
         and_then (cursor_read_u32_le ''skippable frame size is truncated'' c) (\<lambda>(len, c).
         and_then (cursor_skip_u64 (ucast len) ''skippable frame payload is truncated'' c) (\<lambda>c.
         and_then (count_one ''lz4'' ''skippable frame count overflows'' (lr_skippable_frames st))
           (\<lambda>skippable_frames.
         ok (st\<lparr>lr_cursor := c, lr_skippable_frames := skippable_frames\<rparr>, False))))
       else
         and_then (lz4_parse_data_frame xxh32 input start magic st) (\<lambda>(parsed, st).
         and_then (lz4_record_frame start parsed st) (\<lambda>st. ok (st, False))))))))"


definition lz4_frame_loop_start :: "byte_slice \<Rightarrow> lz4_progress" where
  "lz4_frame_loop_start input =
     \<lparr>lr_cursor = cursor_new input ''lz4'', lr_frames = [], lr_capacity = 0, lr_total_frames = 0,
      lr_data_frames = 0, lr_skippable_frames = 0, lr_legacy_frames = 0,
      lr_content_checksum_frames = 0, lr_block_checksum_frames = 0, lr_dictionary_frames = 0,
      lr_maximum_block_bytes = 0, lr_aggregate_size = Some 0\<rparr>"

definition lz4_left :: "lz4_progress \<times> bool \<Rightarrow> nat" where
  "lz4_left p = cursor_left (lr_cursor (fst p), snd p)"

end
