(* ===== verification/Lz4_Laws.thy ===== *)
theory Lz4_Laws
  imports Lz4_Layout
begin

text \<open>
  What a parsed LZ4 stream looks like: its frames follow each other to the end of the input, and
  what the layout says of a frame is what its descriptor says.
\<close>

section \<open>One frame\<close>

text \<open>The descriptor at \<open>q\<close>: a flag byte, a block descriptor, and the content size if flagged.\<close>

definition lz4_descriptor :: "byte_slice \<Rightarrow> nat \<Rightarrow> lz4_parsed_frame \<Rightarrow> bool" where
  "lz4_descriptor bytes q p \<longleftrightarrow>
     lp_content_checksum p = (bytes ! q AND 0x04 \<noteq> 0) \<and>
     lp_block_checksums p = (bytes ! q AND 0x10 \<noteq> 0) \<and>
     lp_dictionary p = (bytes ! q AND 0x01 \<noteq> 0) \<and>
     map_option unat (lp_content_size p) =
       (if bytes ! q AND 0x08 \<noteq> 0 then Some (le_nat (take 8 (drop (q + 2) bytes))) else None)"

lemma lz4_maximum_block_success:
  "lz4_maximum_block b s = (Inr m, t) \<Longrightarrow> t = s \<and> m \<in> {0x10000, 0x40000, 0x100000, 0x400000}"
  by (auto simp: lz4_maximum_block_def success Let_def split: if_splits)

lemma lz4_block_loop_success:
  assumes "lz4_block_loop m b st s = (Inr st', t)" and at: "sc_position (fst st) \<le> length (sc_bytes (fst st))"
  shows "cursor_after (fst st) (fst st') \<and> t = s"
proof -
  have "(cursor_after (fst st) (fst st') \<and> t = s) \<and> \<not> \<not> snd st'"
    using assms(1)
    by (rule lz4_blocks.loop_success [where I = "\<lambda>a t. cursor_after (fst st) (fst a) \<and> t = s"])
      (use at in \<open>auto dest!: lz4_block_step_progress simp: cursor_progress_def intro: cursor_after_rules\<close>)
  then show ?thesis by blast
qed

lemma legacy_block_loop_success:
  assumes "legacy_block_loop start st s = (Inr st', t)" and at: "sc_position (fst st) \<le> length (sc_bytes (fst st))"
  shows "cursor_after (fst st) (fst st') \<and> t = s"
proof -
  have "(cursor_after (fst st) (fst st') \<and> t = s) \<and> \<not> \<not> snd st'"
    using assms(1)
    by (rule legacy_blocks.loop_success [where I = "\<lambda>a t. cursor_after (fst st) (fst a) \<and> t = s"])
      (use at in \<open>auto dest!: legacy_block_step_progress simp: cursor_progress_def intro: cursor_after_rules\<close>)
  then show ?thesis by blast
qed


lemma lz4_optional_u32_success:
  "lz4_optional_u32 b detail c s = (Inr d, t) \<Longrightarrow> sc_position c \<le> length (sc_bytes c) \<Longrightarrow>
     cursor_after c d \<and> t = s"
  by (auto simp: lz4_optional_u32_def success cursor_after_iff cursor_moved_def
      dest!: cursor_read_u32_success split: if_splits)

lemma lz4_content_size_success:
  "lz4_content_size flags c s = (Inr (v, d), t) \<Longrightarrow> sc_position c \<le> length (sc_bytes c) \<Longrightarrow>
     cursor_after c d \<and> t = s \<and> map_option unat v =
       (if flags AND 0x08 \<noteq> 0 then Some (le_nat (take 8 (drop (sc_position c) (sc_bytes c)))) else None)"
  using cursor_read_le_value [of 8 _ c s] cursor_read_le_success [of 8 _ c s]
  by (fastforce simp: lz4_content_size_def success intro: cursor_after_rules split: if_splits)

lemma parse_standard_frame_success:
  assumes "parse_standard_frame xxh32 input start i c s = (Inr (p, d), t)"
  shows "cursor_after c d \<and> t = s \<and> lz4_descriptor (sc_bytes c) (sc_position c) p \<and>
    lp_maximum_block_bytes p \<in> {0x10000, 0x40000, 0x100000, 0x400000} \<and>
    unat (lp_working_bytes p) = 3 * unat (lp_maximum_block_bytes p) + 65536"
proof -
  from assms obtain flags c1 s1 bd c2 s2 m s3 size c3 s4 c4 s5 hc c5 s6 c6 stop s7 c7 s8 work where
    flags: "cursor_read_u8 ''frame flags are truncated'' c s = (Inr (flags, c1), s1)"
    and bd: "cursor_read_u8 ''block descriptor is truncated'' c1 s1 = (Inr (bd, c2), s2)"
    and m: "lz4_maximum_block bd s2 = (Inr m, s3)"
    and size: "lz4_content_size flags c2 s3 = (Inr (size, c3), s4)"
    and dict: "lz4_optional_u32 (flags AND 0x01 \<noteq> 0) ''dictionary ID is truncated'' c3 s4 = (Inr c4, s5)"
    and hc: "cursor_read_u8 ''header checksum is truncated'' c4 s5 = (Inr (hc, c5), s6)"
    and blocks: "lz4_block_loop m (flags AND 0x10 \<noteq> 0) (c5, False) s6 = (Inr (c6, stop), s7)"
    and check: "lz4_optional_u32 (flags AND 0x04 \<noteq> 0) ''content checksum is truncated'' c6 s7 = (Inr d, s8)"
    and work: "unat work = 3 * unat m + 65536" and t: "t = s8"
    and p: "p = \<lparr>lp_content_size = size, lp_content_checksum = (flags AND 0x04 \<noteq> 0),
          lp_block_checksums = (flags AND 0x10 \<noteq> 0), lp_dictionary = (flags AND 0x01 \<noteq> 0),
          lp_maximum_block_bytes = m, lp_working_bytes = work\<rparr>"
    unfolding parse_standard_frame_def
    by (clarsimp simp: success Let_def bind_eq_Some_conv checked_mul_eq_Some checked_add_eq_Some
        LZ4_HISTORY_BYTES_def split: prod.splits)
  from cursor_read_u8_success [OF flags] cursor_read_u8_success [OF bd] lz4_maximum_block_success [OF m]
  have c2: "c2 = c\<lparr>sc_position := sc_position c + 2\<rparr>" "sc_position c2 \<le> length (sc_bytes c)"
    and flag: "flags = sc_bytes c ! sc_position c"
    and m': "m \<in> {0x10000, 0x40000, 0x100000, 0x400000}" and s3: "s3 = s"
    by (auto simp: cursor_moved_def)
  then have at: "sc_position c2 \<le> length (sc_bytes c2)" "cursor_after c c2"
    by (auto simp: cursor_after_iff)
  note size = lz4_content_size_success [OF size at(1)]
  have c3: "cursor_after c c3" using size at(2) by (blast intro: cursor_after_trans)
  note dict = lz4_optional_u32_success [OF dict cursor_after_in [OF c3]]
  have c5: "cursor_after c c5" "s6 = s"
    using c3 dict cursor_read_u8_success [OF hc] size s3 by (auto intro: cursor_after_rules)
  note blocks = lz4_block_loop_success [OF blocks, unfolded fst_conv, OF cursor_after_in [OF c5(1)]]
  have c6: "cursor_after c c6" "s7 = s"
    using c5 blocks by (auto intro: cursor_after_trans)
  have "cursor_after c d" "t = s"
    using c6 lz4_optional_u32_success [OF check cursor_after_in [OF c6(1)]] t
    by (auto intro: cursor_after_trans)
  with size flag m' work p c2(1) show ?thesis
    by (simp add: lz4_descriptor_def)
qed

lemma parse_legacy_frame_success:
  assumes "parse_legacy_frame start c s = (Inr (p, d), t)" and "sc_position c \<le> length (sc_bytes c)"
  shows "cursor_after c d \<and> t = s \<and> \<not> lp_content_checksum p \<and> \<not> lp_block_checksums p \<and>
    \<not> lp_dictionary p \<and> lp_content_size p = None \<and> lp_maximum_block_bytes p = LEGACY_BLOCK_BYTES \<and>
    unat (lp_working_bytes p) = 3 * unat (lp_maximum_block_bytes p) + 65536"
  using assms
  by (auto simp: parse_legacy_frame_def success checked_mul_eq_Some checked_add_eq_Some LZ4_HISTORY_BYTES_def
     bind_eq_Some_conv dest!: legacy_block_loop_success)


section \<open>One pass of the frame loop\<close>

definition lz4_parsed :: "u32 \<Rightarrow> stream_cursor \<Rightarrow> lz4_parsed_frame \<Rightarrow> bool" where
  "lz4_parsed magic c p \<longleftrightarrow>
     (if magic = LZ4_MAGIC then lz4_descriptor (sc_bytes c) (sc_position c) p
      else magic = LZ4_LEGACY_MAGIC \<and> \<not> lp_content_checksum p \<and> \<not> lp_block_checksums p \<and>
        \<not> lp_dictionary p \<and> lp_content_size p = None) \<and>
     lp_maximum_block_bytes p \<in> {0x10000, 0x40000, 0x100000, 0x400000, 0x800000} \<and>
     unat (lp_working_bytes p) = 3 * unat (lp_maximum_block_bytes p) + 65536"

lemma lz4_parse_data_frame_success:
  assumes "lz4_parse_data_frame xxh32 input start magic st s = (Inr (p, st'), t)"
    and "sc_position (lr_cursor st) \<le> length (sc_bytes (lr_cursor st))"
  shows "\<exists>c n. cursor_after (lr_cursor st) c \<and> lz4_parsed magic (lr_cursor st) p \<and>
    st' = st\<lparr>lr_cursor := c, lr_legacy_frames := n\<rparr> \<and>
    unat n = unat (lr_legacy_frames st) + of_bool (magic \<noteq> LZ4_MAGIC) \<and> t = s"
proof (cases "magic = LZ4_MAGIC")
  case True
  with assms show ?thesis
    by (auto simp: lz4_parse_data_frame_def success lz4_parsed_def split: prod.splits
        dest!: parse_standard_frame_success intro!: exI [of _ "lr_legacy_frames st"])
next
  case False
  with assms show ?thesis
    by (auto simp: lz4_parse_data_frame_def success lz4_parsed_def LEGACY_BLOCK_BYTES_def
        split: prod.splits if_splits dest!: parse_legacy_frame_success)
qed

lemma lz4_record_frame_success:
  assumes "lz4_record_frame start p st s = (Inr st', t)"
  shows "\<exists>f. lr_frames st' = lr_frames st @ [f] \<and>
    lf_start f = start \<and> lf_end f = sc_position (lr_cursor st) \<and>
    lf_content_size f = lp_content_size p \<and>
    lf_checksum f = (lp_content_checksum p \<or> lp_block_checksums p) \<and>
    lf_dictionary f = lp_dictionary p \<and> lf_working_bytes f = lp_working_bytes p \<and>
    lr_cursor st' = lr_cursor st \<and> lr_total_frames st' = lr_total_frames st \<and>
    lr_skippable_frames st' = lr_skippable_frames st \<and> lr_legacy_frames st' = lr_legacy_frames st \<and>
    unat (lr_data_frames st') = unat (lr_data_frames st) + 1 \<and>
    unat (lr_content_checksum_frames st') =
      unat (lr_content_checksum_frames st) + of_bool (lp_content_checksum p) \<and>
    unat (lr_block_checksum_frames st') =
      unat (lr_block_checksum_frames st) + of_bool (lp_block_checksums p) \<and>
    unat (lr_dictionary_frames st') = unat (lr_dictionary_frames st) + of_bool (lp_dictionary p) \<and>
    lr_maximum_block_bytes st' = max (lr_maximum_block_bytes st) (lp_maximum_block_bytes p)"
  using assms
  by (auto simp: lz4_record_frame_def success split: prod.splits dest!: push_layout_success)

lemma lz4_record_frame_aggregate:
  assumes "lz4_record_frame start p st s = (Inr st', t)"
    and "map_option unat (lr_aggregate_size st) = known_sum xs"
  shows "map_option unat (lr_aggregate_size st') = known_sum (xs @ [lp_content_size p])"
  using assms
  by (auto simp: lz4_record_frame_def success split: prod.splits dest!: add_known_success)


text \<open>The two kinds of pass that go on, and the one that stops.\<close>

lemma lz4_frame_step_cases:
  assumes "lz4_frame_step xxh32 input limits p s = (Inr p', t)"
  obtains (stop) "sc_position (lr_cursor (fst p)) = length (sc_bytes (lr_cursor (fst p)))" "p' = (fst p, True)"
  | (skip) c n k magic where "\<not> snd p'"
      "unat n = unat (lr_total_frames (fst p)) + 1" "n \<le> max_stream_frames limits"
      "magic = u32_at (sc_bytes (lr_cursor (fst p))) (sc_position (lr_cursor (fst p)))" "is_skippable magic"
      "cursor_moved (lr_cursor (fst p))
        (8 + unat (u32_at (sc_bytes (lr_cursor (fst p))) (sc_position (lr_cursor (fst p)) + 4))) c"
      "unat k = unat (lr_skippable_frames (fst p)) + 1"
      "fst p' = (fst p)\<lparr>lr_cursor := c, lr_total_frames := n, lr_skippable_frames := k\<rparr>"
  | (data) c n magic parsed st u v w where "\<not> snd p'"
      "unat n = unat (lr_total_frames (fst p)) + 1" "n \<le> max_stream_frames limits"
      "magic = u32_at (sc_bytes (lr_cursor (fst p))) (sc_position (lr_cursor (fst p)))" "\<not> is_skippable magic"
      "cursor_moved (lr_cursor (fst p)) 4 c"
      "lz4_parse_data_frame xxh32 input (sc_position (lr_cursor (fst p))) magic
        ((fst p)\<lparr>lr_cursor := c, lr_total_frames := n\<rparr>) u = (Inr (parsed, st), v)"
      "lz4_record_frame (sc_position (lr_cursor (fst p))) parsed st v = (Inr (fst p'), w)"
proof (cases "drop (sc_position (lr_cursor (fst p))) (sc_bytes (lr_cursor (fst p))) = []")
  case True
  with assms stop show thesis
    by (auto simp: lz4_frame_step_def success Let_def)
next
  case False
  define magic where "magic = u32_at (sc_bytes (lr_cursor (fst p))) (sc_position (lr_cursor (fst p)))"
  show thesis
  proof (cases "is_skippable magic")
    case True
    with assms False obtain n c1 c2 d k u v where
      n: "unat n = unat (lr_total_frames (fst p)) + 1" "n \<le> max_stream_frames limits"
      and c1: "cursor_moved (lr_cursor (fst p)) 4 c1" and c2: "cursor_moved c1 4 c2"
      and d: "cursor_moved c2 (unat (u32_at (sc_bytes c1) (sc_position c1))) d"
      and k: "unat k = unat (lr_skippable_frames (fst p)) + 1"
      and p': "p' = ((fst p)\<lparr>lr_cursor := d, lr_total_frames := n, lr_skippable_frames := k\<rparr>, False)"
      unfolding lz4_frame_step_def magic_def u32_at_def
      by (auto simp: success Let_def check_frame_count_def
          dest!: cursor_read_u32_success cursor_skip_u64_success)
    have "sc_bytes c1 = sc_bytes (lr_cursor (fst p))" "sc_position c1 = sc_position (lr_cursor (fst p)) + 4"
      using c1 by (auto simp: cursor_moved_def)
    with cursor_moved_trans [OF cursor_moved_trans [OF c1 c2] d] n k p' True skip show thesis
      by (simp add: magic_def)
  next
    case skipped: False
    with assms False obtain n c st parsed u v w where
      "unat n = unat (lr_total_frames (fst p)) + 1" "n \<le> max_stream_frames limits"
      "cursor_moved (lr_cursor (fst p)) 4 c"
      "lz4_parse_data_frame xxh32 input (sc_position (lr_cursor (fst p))) magic
        ((fst p)\<lparr>lr_cursor := c, lr_total_frames := n\<rparr>) v = (Inr (parsed, st), w)"
      "lz4_record_frame (sc_position (lr_cursor (fst p))) parsed st w = (Inr (fst p'), t)" "\<not> snd p'"
      unfolding lz4_frame_step_def magic_def u32_at_def
      by (auto simp: success Let_def check_frame_count_def
          dest!: cursor_read_u32_success split: if_splits)
    with skipped data magic_def show thesis by blast
  qed
qed


lemma lz4_frame_step_moves:
  assumes "lz4_frame_step xxh32 input limits p s = (Inr p', t)"
  shows "cursor_progress (lr_cursor (fst p), snd p) (lr_cursor (fst p'), snd p')"
  using assms
proof (cases rule: lz4_frame_step_cases)
  case stop
  then show ?thesis by (auto simp: cursor_progress_def intro: cursor_after_here)
next
  case (skip c n k magic)
  then show ?thesis by (auto simp: cursor_progress_def cursor_moved_def intro: cursor_after_moved)
next
  case (data c n magic parsed st u v w)
  from data(6) have "cursor_after (lr_cursor (fst p)) c" "sc_position (lr_cursor (fst p)) < sc_position c"
    by (auto simp: cursor_moved_def intro: cursor_after_moved)
  moreover from lz4_parse_data_frame_success [OF data(7)] data(6)
  have "cursor_after c (lr_cursor st)" by (auto simp: cursor_moved_def)
  moreover from lz4_record_frame_success [OF data(8)] have "lr_cursor (fst p') = lr_cursor st" by blast
  ultimately have "cursor_after (lr_cursor (fst p)) (lr_cursor (fst p'))"
    and "sc_position (lr_cursor (fst p)) < sc_position (lr_cursor (fst p'))"
    by (auto dest: cursor_afterD intro: cursor_after_trans)
  then show ?thesis by (simp add: cursor_progress_def)
qed

text \<open>\<open>while !cursor.remaining()?.is_empty()\<close>\<close>

function lz4_frame_loop ::
    "(byte_slice \<Rightarrow> u64) \<Rightarrow> byte_slice \<Rightarrow> limits \<Rightarrow> lz4_progress \<times> bool \<Rightarrow>
     (lz4_progress \<times> bool) op" where
  "lz4_frame_loop xxh32 input limits p s =
     (if \<not> snd p then
        and_then (lz4_frame_step xxh32 input limits p) (\<lambda>p s. lz4_frame_loop xxh32 input limits p s) s
      else ok p s)"
  by pat_completeness auto
termination
  by (relation "measure (\<lambda>(xxh32, input, limits, p, s). lz4_left p)")
    (auto simp: lz4_left_def dest!: lz4_frame_step_moves cursor_progress_left)

declare lz4_frame_loop.simps [simp del]

interpretation lz4_frames: loop "lz4_frame_loop xxh32 input limits" "\<lambda>p. \<not> snd p"
  "lz4_frame_step xxh32 input limits" "\<lambda>p _. lz4_left p" for xxh32 input limits
  by unfold_locales
    (subst lz4_frame_loop.simps, simp,
      auto simp: lz4_left_def dest!: lz4_frame_step_moves cursor_progress_left)

definition lz4_parse ::
    "(byte_slice \<Rightarrow> u64) \<Rightarrow> byte_slice \<Rightarrow> limits \<Rightarrow>
     (lz4_stream_info \<times> u64 option \<times> lz4_frame list) op" where
  "lz4_parse xxh32 input limits =
     and_then (lz4_frame_loop xxh32 input limits (lz4_frame_loop_start input, False)) (\<lambda>(st, _).
     and_then (err_if (lr_data_frames st = 0) (lz4_error ''stream contains no data frame'')) (\<lambda>_.
     ok (\<lparr>li_frame_count = lr_data_frames st, li_skippable_frame_count = lr_skippable_frames st,
          li_legacy_frame_count = lr_legacy_frames st,
          li_content_checksum_frame_count = lr_content_checksum_frames st,
          li_block_checksum_frame_count = lr_block_checksum_frames st,
          li_dictionary_frame_count = lr_dictionary_frames st,
          li_maximum_block_bytes = lr_maximum_block_bytes st\<rparr>,
         lr_aggregate_size st, lr_frames st)))"


section \<open>The whole layout\<close>

definition lz4_magic :: "u32 \<Rightarrow> bool" where
  "lz4_magic m \<longleftrightarrow> m = LZ4_MAGIC \<or> m = LZ4_LEGACY_MAGIC"

definition lz4_span :: "lz4_frame \<Rightarrow> nat \<times> nat" where
  "lz4_span f = (lf_start f, lf_end f)"

text \<open>A flag of the descriptor behind the magic; legacy frames have none.\<close>

definition lz4_flagged :: "byte_slice \<Rightarrow> u8 \<Rightarrow> lz4_frame \<Rightarrow> bool" where
  "lz4_flagged input bits f \<longleftrightarrow>
     u32_at input (lf_start f) = LZ4_MAGIC \<and> input ! (lf_start f + 4) AND bits \<noteq> 0"

definition lz4_frame_sound :: "byte_slice \<Rightarrow> u64 \<Rightarrow> lz4_frame \<Rightarrow> bool" where
  "lz4_frame_sound input maximum f \<longleftrightarrow>
     lf_checksum f = (lz4_flagged input 0x04 f \<or> lz4_flagged input 0x10 f) \<and>
     lf_dictionary f = lz4_flagged input 0x01 f \<and>
     map_option unat (lf_content_size f) =
       (if lz4_flagged input 0x08 f then Some (le_nat (take 8 (drop (lf_start f + 6) input))) else None) \<and>
     unat (lf_working_bytes f) \<le> 3 * unat maximum + 65536"

definition lz4_inv :: "byte_slice \<Rightarrow> limits \<Rightarrow> lz4_progress \<Rightarrow> bool" where
  "lz4_inv input limits st \<longleftrightarrow>
     sc_bytes (lr_cursor st) = input \<and>
     framed lz4_magic input (unat (lr_total_frames st)) (map lz4_span (lr_frames st))
       (sc_position (lr_cursor st)) \<and>
     lr_total_frames st \<le> max_stream_frames limits \<and>
     unat (lr_data_frames st) = length (lr_frames st) \<and>
     unat (lr_skippable_frames st) + length (lr_frames st) = unat (lr_total_frames st) \<and>
     unat (lr_legacy_frames st) =
       count_frames (\<lambda>f. u32_at input (lf_start f) = LZ4_LEGACY_MAGIC) (lr_frames st) \<and>
     unat (lr_content_checksum_frames st) = count_frames (lz4_flagged input 0x04) (lr_frames st) \<and>
     unat (lr_block_checksum_frames st) = count_frames (lz4_flagged input 0x10) (lr_frames st) \<and>
     unat (lr_dictionary_frames st) = count_frames (lz4_flagged input 0x01) (lr_frames st) \<and>
     map_option unat (lr_aggregate_size st) = known_sum (map lf_content_size (lr_frames st)) \<and>
     lr_maximum_block_bytes st \<le> LEGACY_BLOCK_BYTES \<and>
     (\<forall>f \<in> set (lr_frames st). lz4_frame_sound input (lr_maximum_block_bytes st) f)"

lemma lz4_frame_sound_mono:
  "lz4_frame_sound input m f \<Longrightarrow> m \<le> m' \<Longrightarrow> lz4_frame_sound input m' f"
  by (auto simp: lz4_frame_sound_def word_le_nat_alt)

lemma lz4_magics_differ [simp]:
  "LZ4_MAGIC \<noteq> LZ4_LEGACY_MAGIC" "LZ4_LEGACY_MAGIC \<noteq> LZ4_MAGIC"
  by (simp_all add: LZ4_MAGIC_def LZ4_LEGACY_MAGIC_def)

text \<open>What a parsed frame says is what the bytes at its start say.\<close>

lemma lz4_parsed_flags:
  assumes "lz4_parsed (u32_at input (lf_start f)) c p" and "sc_bytes c = input"
    and "sc_position c = lf_start f + 4"
  shows "lp_content_checksum p = lz4_flagged input 0x04 f"
    and "lp_block_checksums p = lz4_flagged input 0x10 f"
    and "lp_dictionary p = lz4_flagged input 0x01 f"
    and "map_option unat (lp_content_size p) =
       (if lz4_flagged input 0x08 f then Some (le_nat (take 8 (drop (lf_start f + 6) input))) else None)"
  using assms by (auto simp: lz4_parsed_def lz4_descriptor_def lz4_flagged_def add.commute [of 6 "lf_start f"] split: if_splits)

lemma lz4_parsed_maximum:
  "lz4_parsed magic c p \<Longrightarrow> lp_maximum_block_bytes p \<le> LEGACY_BLOCK_BYTES \<and>
     unat (lp_working_bytes p) = 3 * unat (lp_maximum_block_bytes p) + 65536 \<and> lz4_magic magic"
  by (auto simp: lz4_parsed_def LEGACY_BLOCK_BYTES_def lz4_magic_def split: if_splits)

lemma lz4_inv_step:
  assumes inv: "lz4_inv input limits (fst p)"
    and run: "lz4_frame_step xxh32 input limits p s = (Inr p', t)"
  shows "lz4_inv input limits (fst p')"
  using run
proof (cases rule: lz4_frame_step_cases)
  case stop
  with inv show ?thesis by simp
next
  case (skip c n k magic)
  let ?q = "sc_position (lr_cursor (fst p))"
  have input: "sc_bytes (lr_cursor (fst p)) = input" using inv by (simp add: lz4_inv_def)
  have "framed lz4_magic input (Suc (unat (lr_total_frames (fst p)))) (map lz4_span (lr_frames (fst p)))
      (?q + 8 + unat (u32_at input (?q + 4)))"
    using inv skip(4,5,6) by (intro framed_skippable) (auto simp: lz4_inv_def cursor_moved_def)
  then show ?thesis
    using inv skip input by (auto simp: lz4_inv_def cursor_moved_def add.assoc)
next
  case (data c n magic parsed st u v w)
  let ?q = "sc_position (lr_cursor (fst p))"
  have input: "sc_bytes (lr_cursor (fst p)) = input" using inv by (simp add: lz4_inv_def)
  from data(6) have c: "sc_bytes c = input" "sc_position c = ?q + 4" "sc_position c \<le> length input"
    by (auto simp: cursor_moved_def input)
  from lz4_parse_data_frame_success [OF data(7)] c obtain d m where d: "cursor_after c d"
    and parsed: "lz4_parsed magic c parsed"
    and st: "st = (fst p)\<lparr>lr_total_frames := n, lr_cursor := d, lr_legacy_frames := m\<rparr>"
    and m: "unat m = unat (lr_legacy_frames (fst p)) + of_bool (magic \<noteq> LZ4_MAGIC)"
    by auto
  from lz4_record_frame_success [OF data(8)] obtain f where
    frames: "lr_frames (fst p') = lr_frames (fst p) @ [f]"
    and f: "lf_start f = ?q" "lf_end f = sc_position d" "lf_content_size f = lp_content_size parsed"
      "lf_checksum f = (lp_content_checksum parsed \<or> lp_block_checksums parsed)"
      "lf_dictionary f = lp_dictionary parsed" "lf_working_bytes f = lp_working_bytes parsed"
    and cursor: "lr_cursor (fst p') = d"
    and counts: "lr_total_frames (fst p') = n" "lr_skippable_frames (fst p') = lr_skippable_frames (fst p)"
      "lr_legacy_frames (fst p') = m" "unat (lr_data_frames (fst p')) = unat (lr_data_frames (fst p)) + 1"
      "unat (lr_content_checksum_frames (fst p')) =
        unat (lr_content_checksum_frames (fst p)) + of_bool (lp_content_checksum parsed)"
      "unat (lr_block_checksum_frames (fst p')) =
        unat (lr_block_checksum_frames (fst p)) + of_bool (lp_block_checksums parsed)"
      "unat (lr_dictionary_frames (fst p')) =
        unat (lr_dictionary_frames (fst p)) + of_bool (lp_dictionary parsed)"
      "lr_maximum_block_bytes (fst p') = max (lr_maximum_block_bytes (fst p)) (lp_maximum_block_bytes parsed)"
    by (auto simp: st)
  have magic: "magic = u32_at input (lf_start f)" using data(4) input f(1) by simp
  note maximum = lz4_parsed_maximum [OF parsed]
  note flags = lz4_parsed_flags [OF parsed [unfolded magic] c(1) c(2) [folded f(1)]]
  have sound: "lz4_frame_sound input (lr_maximum_block_bytes (fst p')) f"
    using flags f maximum counts(8) by (auto simp: lz4_frame_sound_def word_le_nat_alt max_def)
  have "framed lz4_magic input (Suc (unat (lr_total_frames (fst p))))
      (map lz4_span (lr_frames (fst p)) @ [(?q, sc_position d)]) (sc_position d)"
    using inv c d maximum data(4) input by (intro framed_data) (auto simp: lz4_inv_def dest!: cursor_afterD)
  moreover have "map_option unat (lr_aggregate_size (fst p')) = known_sum (map lf_content_size (lr_frames (fst p')))"
    using lz4_record_frame_aggregate [OF data(8)] inv by (simp add: st lz4_inv_def frames f)
  moreover have "lr_maximum_block_bytes (fst p') \<le> LEGACY_BLOCK_BYTES"
    using inv maximum counts(8) by (simp add: lz4_inv_def)
  moreover have "lz4_frame_sound input (lr_maximum_block_bytes (fst p')) g" if "g \<in> set (lr_frames (fst p'))" for g
    using that inv sound counts(8) by (auto simp: frames lz4_inv_def intro: lz4_frame_sound_mono)
  moreover have "sc_bytes d = input" using d c by (auto dest: cursor_afterD)
  moreover have "magic = LZ4_LEGACY_MAGIC \<longleftrightarrow> magic \<noteq> LZ4_MAGIC"
    using maximum by (auto simp: lz4_magic_def)
  ultimately show ?thesis
    using inv unfolding lz4_inv_def frames cursor counts(1-7) f(1) flags(1-3) m data(2) map_append
    by (simp add: data(3) lz4_span_def f magic [unfolded f, symmetric])
qed


definition lz4_layout_sound ::
    "byte_slice \<Rightarrow> limits \<Rightarrow> lz4_stream_info \<Rightarrow> u64 option \<Rightarrow> lz4_frame list \<Rightarrow> bool" where
  "lz4_layout_sound input limits info declared frames \<longleftrightarrow>
     frames \<noteq> [] \<and>
     framed lz4_magic input (length frames + unat (li_skippable_frame_count info))
       (map lz4_span frames) (length input) \<and>
     length frames + unat (li_skippable_frame_count info) \<le> unat (max_stream_frames limits) \<and>
     unat (li_frame_count info) = length frames \<and>
     unat (li_legacy_frame_count info) =
       count_frames (\<lambda>f. u32_at input (lf_start f) = LZ4_LEGACY_MAGIC) frames \<and>
     unat (li_content_checksum_frame_count info) = count_frames (lz4_flagged input 0x04) frames \<and>
     unat (li_block_checksum_frame_count info) = count_frames (lz4_flagged input 0x10) frames \<and>
     unat (li_dictionary_frame_count info) = count_frames (lz4_flagged input 0x01) frames \<and>
     map_option unat declared = known_sum (map lf_content_size frames) \<and>
     li_maximum_block_bytes info \<le> LEGACY_BLOCK_BYTES \<and>
     list_all (lz4_frame_sound input (li_maximum_block_bytes info)) frames"

text \<open>C21: An LZ4 stream that opens is a sequence of frames up to its last byte, no more than the
  frame limit, each behind its magic.  The layout lists the data frames in order; checksums,
  dictionary and content size of a frame are those of its descriptor, and the reported counts are
  the numbers of such frames.  The declared size is the sum of the content sizes when all frames
  declare one.  The working memory of each frame is bounded by the reported largest block.\<close>

theorem lz4_layout_parsed:
  assumes "lz4_parse xxh32 input limits s = (Inr (info, declared, frames), t)"
  shows "lz4_layout_sound input limits info declared frames"
proof -
  from assms obtain st stop u where
    run: "lz4_frame_loop xxh32 input limits (lz4_frame_loop_start input, False) s = (Inr (st, stop), u)"
    and some: "lr_data_frames st \<noteq> 0"
    and info: "info = \<lparr>li_frame_count = lr_data_frames st, li_skippable_frame_count = lr_skippable_frames st,
          li_legacy_frame_count = lr_legacy_frames st,
          li_content_checksum_frame_count = lr_content_checksum_frames st,
          li_block_checksum_frame_count = lr_block_checksum_frames st,
          li_dictionary_frame_count = lr_dictionary_frames st,
          li_maximum_block_bytes = lr_maximum_block_bytes st\<rparr>"
    and rest: "declared = lr_aggregate_size st" "frames = lr_frames st"
    by (auto simp: lz4_parse_def success)
  let ?I = "\<lambda>p (_ :: session). lz4_inv input limits (fst p) \<and>
    (snd p \<longrightarrow> sc_position (lr_cursor (fst p)) = length input)"
  have "?I (st, stop) u \<and> \<not> \<not> snd (st, stop)"
    using run
  proof (rule lz4_frames.loop_success [where I = ?I])
    show "?I (lz4_frame_loop_start input, False) s"
      by (simp add: lz4_inv_def lz4_frame_loop_start_def cursor_new_def framed_start)
  next
    fix p s p' t
    assume "?I p s" and step: "lz4_frame_step xxh32 input limits p s = (Inr p', t)"
    then have "lz4_inv input limits (fst p')" by (blast intro: lz4_inv_step)
    moreover from step have "snd p' \<longrightarrow> sc_position (lr_cursor (fst p')) = length (sc_bytes (lr_cursor (fst p')))"
      by (cases rule: lz4_frame_step_cases) auto
    ultimately show "?I p' t" by (auto simp: lz4_inv_def)
  qed
  then have "lz4_inv input limits st" and "sc_position (lr_cursor st) = length input" by simp_all
  with some show ?thesis
    unfolding lz4_layout_sound_def lz4_inv_def info rest
    by (auto simp: list_all_iff word_le_nat_alt add.commute unat_eq_zero)
qed

lemmas lz4_evaluate =
  lz4_parse_def lz4_frame_loop.simps lz4_frame_step_def lz4_parse_data_frame_def
  lz4_record_frame_def parse_standard_frame_def lz4_block_loop.simps lz4_block_step_def
  lz4_optional_u32_def lz4_content_size_def lz4_maximum_block_def lz4_frame_loop_start_def
  LZ4_MAGIC_def LZ4_LEGACY_MAGIC_def SKIPPABLE_MAGIC_START_def SKIPPABLE_MAGIC_END_def
  LZ4_HISTORY_BYTES_def narrow_def

text \<open>One skippable frame and one data frame with a stored block.\<close>

definition lz4_sample :: byte_slice where
  "lz4_sample = [0x50, 0x2a, 0x4d, 0x18, 1, 0, 0, 0, 9,
     0x04, 0x22, 0x4d, 0x18, 0x40, 0x40, 0, 2, 0, 0, 0x80, 7, 8, 0, 0, 0, 0]"

lemma lz4_layout_parsed_witness:
  "\<exists>info f. lz4_layout_sound lz4_sample default_limits info None [f]"
proof -
  have "\<exists>info f t. lz4_parse (\<lambda>_. 0) lz4_sample default_limits (sample_session []) = (Inr (info, None, [f]), t)"
    by (simp add: evaluate lz4_evaluate stream_evaluate lz4_sample_def)
  then show ?thesis using lz4_layout_parsed by blast
qed

end
