(* ===== verification/Zstd_Layout.thy ===== *)
theory Zstd_Layout
  imports Lz4_Layout
begin

text \<open>
  \<^verbatim>\<open>stream/zstandard.rs\<close>: the layout of Zstandard frames.  The skippable frames, the cursor and the
  frame accounting are those of \<open>Stream_Cursor\<close>; \<open>cursor_progress\<close> is the progress of the block
  loops of \<open>Lz4_Layout\<close>.
\<close>

definition MAXIMUM_BLOCK_BYTES :: u64 where "MAXIMUM_BLOCK_BYTES = 128 * 1024"

record zstandard_frame =
  zf_start :: nat
  zf_end :: nat
  zf_content_size :: "u64 option"
  zf_window_bytes :: u64
  zf_checksum :: bool
  zf_dictionary :: bool

record zstandard_stream_info =
  zi_frame_count :: u64
  zi_skippable_frame_count :: u64
  zi_content_checksum_frame_count :: u64
  zi_dictionary_frame_count :: u64
  zi_maximum_window_bytes :: u64

record zstandard_parsed_frame =
  zp_content_size :: "u64 option"
  zp_window_bytes :: u64
  zp_checksum :: bool
  zp_dictionary :: bool

abbreviation zstd_error :: "string \<Rightarrow> error" where
  "zstd_error detail \<equiv> stream_format_error ''zstandard'' detail"


section \<open>One frame\<close>

definition zstd_window_descriptor :: "bool \<Rightarrow> stream_cursor \<Rightarrow> (u8 option \<times> stream_cursor) op" where
  "zstd_window_descriptor single_segment c =
     (if single_segment then ok (None, c)
      else and_then (cursor_read_u8 ''window descriptor is truncated'' c) (\<lambda>(b, c). ok (Some b, c)))"

definition zstd_dictionary_length :: "u8 \<Rightarrow> nat op" where
  "zstd_dictionary_length descriptor =
     (let kind = descriptor AND 0x03
      in if kind = 0 then ok 0 else if kind = 1 then ok 1 else if kind = 2 then ok 2
         else if kind = 3 then ok 4 else err (zstd_error ''invalid dictionary flag''))"

definition zstd_content_length :: "u8 \<Rightarrow> bool \<Rightarrow> nat op" where
  "zstd_content_length descriptor single_segment =
     (let kind = drop_bit 6 descriptor
      in if kind = 0 \<and> \<not> single_segment then ok 0 else if kind = 0 \<and> single_segment then ok 1
         else if kind = 1 then ok 2 else if kind = 2 then ok 4 else if kind = 3 then ok 8
         else err (zstd_error ''invalid content-size flag''))"

definition zstd_content_size :: "nat \<Rightarrow> stream_cursor \<Rightarrow> (u64 option \<times> stream_cursor) op" where
  "zstd_content_size content_length c =
     (if content_length = 0 then ok (None, c)
      else
        and_then (cursor_read_le content_length ''frame content size is truncated'' c) (\<lambda>(v, c).
        and_then (if content_length = 2 then
            ok_or (zstd_error ''frame content size overflows'') (checked_add v 256)
          else ok v) (\<lambda>v.
        ok (Some v, c))))"

definition zstd_window_bytes :: "bool \<Rightarrow> u64 option \<Rightarrow> u8 option \<Rightarrow> u64 op" where
  "zstd_window_bytes single_segment content_size window_descriptor =
     (case (single_segment, content_size, window_descriptor) of
        (True, Some sz, None) \<Rightarrow> ok sz
      | (False, _, Some window) \<Rightarrow>
          and_then (ok_or (zstd_error ''window exponent overflows'')
            (checked_add (ucast (drop_bit 3 window) :: u32) 10)) (\<lambda>exponent.
          and_then (ok_or (zstd_error ''window size overflows'')
            (checked_shl (1 :: u64) (unat exponent))) (\<lambda>base.
          and_then (ok_or (zstd_error ''window mantissa overflows'')
            (checked_mul (base div 8) (ucast (window AND 0x07)))) (\<lambda>mantissa.
          ok_or (zstd_error ''window size overflows'') (checked_add base mantissa))))
      | _ \<Rightarrow> err (zstd_error ''frame header is internally inconsistent''))"

text \<open>One block; the flag says that it was the last.\<close>

definition zstd_block_step :: "u64 \<Rightarrow> stream_cursor \<times> bool \<Rightarrow> (stream_cursor \<times> bool) op" where
  "zstd_block_step maximum_block_bytes st =
     and_then (cursor_read_u24_le ''block header is truncated'' (fst st)) (\<lambda>(block_header, c).
     let last_block = (block_header AND 1 \<noteq> 0);
         block_type = drop_bit 1 block_header AND 0x03;
         block_size = ucast (drop_bit 3 block_header) :: u64
     in and_then (err_if (maximum_block_bytes < block_size)
          (zstd_error ''block exceeds the frame maximum size'')) (\<lambda>_.
        and_then (if block_type = 0 \<or> block_type = 2 then ok block_size
            else if block_type = 1 then ok 1
            else if block_type = 3 then err (zstd_error ''reserved block type is used'')
            else err (zstd_error ''invalid block type'')) (\<lambda>payload_size.
        and_then (cursor_skip_u64 payload_size ''block payload is truncated'' c) (\<lambda>c.
        ok (c, last_block)))))"

lemma zstd_block_step_progress:
  "zstd_block_step m st s = (Inr st', t) \<Longrightarrow> cursor_progress st st' \<and> t = s"
  by (auto simp: zstd_block_step_def success Let_def cursor_progress_def cursor_after_iff
      cursor_moved_def dest!: cursor_read_u24_success cursor_skip_u64_success split: if_splits)

function zstd_block_loop :: "u64 \<Rightarrow> stream_cursor \<times> bool \<Rightarrow> (stream_cursor \<times> bool) op" where
  "zstd_block_loop m st s =
     (if \<not> snd st then and_then (zstd_block_step m st) (\<lambda>st s. zstd_block_loop m st s) s
      else ok st s)"
  by pat_completeness auto
termination
  by (relation "measure (\<lambda>(m, st, s). cursor_left st)")
    (auto dest!: zstd_block_step_progress intro!: cursor_progress_left)

declare zstd_block_loop.simps [simp del]

interpretation zstd_blocks: loop "zstd_block_loop m" "\<lambda>st. \<not> snd st" "zstd_block_step m"
  "\<lambda>st _. cursor_left st" for m
  by unfold_locales
    (subst zstd_block_loop.simps, simp,
      blast intro: cursor_progress_left dest: zstd_block_step_progress)

definition zstd_checksum_field :: "bool \<Rightarrow> stream_cursor \<Rightarrow> stream_cursor op" where
  "zstd_checksum_field checksum c =
     (if checksum then
        and_then (cursor_read_u32_le ''content checksum is truncated'' c) (\<lambda>(_, c). ok c)
      else ok c)"

definition zstd_parse_frame :: "stream_cursor \<Rightarrow> (zstandard_parsed_frame \<times> stream_cursor) op" where
  "zstd_parse_frame c =
     and_then (cursor_read_u8 ''frame descriptor is truncated'' c) (\<lambda>(descriptor, c).
     and_then (err_if (descriptor AND 0x08 \<noteq> 0)
       (zstd_error ''reserved frame descriptor bit is set'')) (\<lambda>_.
     let single_segment = (descriptor AND 0x20 \<noteq> 0) in
     and_then (zstd_window_descriptor single_segment c) (\<lambda>(window_descriptor, c).
     and_then (zstd_dictionary_length descriptor) (\<lambda>dictionary_length.
     and_then (cursor_read_le dictionary_length ''dictionary ID is truncated'' c)
       (\<lambda>(dictionary_id, c).
     and_then (zstd_content_length descriptor single_segment) (\<lambda>content_length.
     and_then (zstd_content_size content_length c) (\<lambda>(content_size, c).
     and_then (zstd_window_bytes single_segment content_size window_descriptor) (\<lambda>window_bytes.
     let maximum_block_bytes = min window_bytes MAXIMUM_BLOCK_BYTES in
     and_then (zstd_block_loop maximum_block_bytes (c, False)) (\<lambda>(c, _).
     let checksum = (descriptor AND 0x04 \<noteq> 0) in
     and_then (zstd_checksum_field checksum c) (\<lambda>c.
     ok (\<lparr>zp_content_size = content_size, zp_window_bytes = window_bytes, zp_checksum = checksum,
          zp_dictionary = (dictionary_id \<noteq> 0)\<rparr>, c)))))))))))"


section \<open>The frames of a stream\<close>

record zstandard_progress =
  zr_cursor :: stream_cursor
  zr_frames :: "zstandard_frame list"
  zr_capacity :: nat
  zr_total_frames :: u64
  zr_data_frames :: u64
  zr_skippable_frames :: u64
  zr_checksum_frames :: u64
  zr_dictionary_frames :: u64
  zr_maximum_window_bytes :: u64
  zr_aggregate_size :: "u64 option"

definition zstd_record_frame ::
    "nat \<Rightarrow> zstandard_parsed_frame \<Rightarrow> zstandard_progress \<Rightarrow> zstandard_progress op" where
  "zstd_record_frame start parsed st =
     and_then (count_one ''zstandard'' ''data frame count overflows'' (zr_data_frames st))
       (\<lambda>data_frames.
     and_then (count_if (zp_checksum parsed) ''zstandard'' ''checksum frame count overflows''
       (zr_checksum_frames st)) (\<lambda>checksum_frames.
     and_then (count_if (zp_dictionary parsed) ''zstandard'' ''dictionary frame count overflows''
       (zr_dictionary_frames st)) (\<lambda>dictionary_frames.
     and_then (add_known ''zstandard'' ''aggregate content size overflows''
       (zr_aggregate_size st, zp_content_size parsed)) (\<lambda>aggregate_size.
     and_then (push_layout (zr_frames st) (zr_capacity st)
       \<lparr>zf_start = start, zf_end = sc_position (zr_cursor st),
        zf_content_size = zp_content_size parsed, zf_window_bytes = zp_window_bytes parsed,
        zf_checksum = zp_checksum parsed, zf_dictionary = zp_dictionary parsed\<rparr>)
       (\<lambda>(frames, capacity).
     ok (st\<lparr>zr_frames := frames, zr_capacity := capacity, zr_data_frames := data_frames,
            zr_checksum_frames := checksum_frames, zr_dictionary_frames := dictionary_frames,
            zr_maximum_window_bytes := max (zr_maximum_window_bytes st) (zp_window_bytes parsed),
            zr_aggregate_size := aggregate_size\<rparr>))))))"

definition zstd_frame_step ::
    "limits \<Rightarrow> zstandard_progress \<times> bool \<Rightarrow> (zstandard_progress \<times> bool) op" where
  "zstd_frame_step limits p =
     (let st = fst p in
     and_then (cursor_remaining (zr_cursor st)) (\<lambda>remaining.
     if remaining = [] then ok (st, True)
     else
       and_then (count_one ''zstandard'' ''frame count overflows'' (zr_total_frames st))
         (\<lambda>total_frames.
       and_then (check_frame_count total_frames limits) (\<lambda>_.
       let start = sc_position (zr_cursor st) in
       and_then (cursor_read_u32_le ''frame magic is truncated'' (zr_cursor st)) (\<lambda>(magic, c).
       let st = st\<lparr>zr_cursor := c, zr_total_frames := total_frames\<rparr> in
       if is_skippable magic then
         and_then (cursor_read_u32_le ''skippable frame size is truncated'' c) (\<lambda>(len, c).
         and_then (cursor_skip_u64 (ucast len) ''skippable frame payload is truncated'' c) (\<lambda>c.
         and_then (count_one ''zstandard'' ''skippable frame count overflows'' (zr_skippable_frames st))
           (\<lambda>skippable_frames.
         ok (st\<lparr>zr_cursor := c, zr_skippable_frames := skippable_frames\<rparr>, False))))
       else
         and_then (err_if (magic \<noteq> ZSTANDARD_MAGIC) (zstd_error ''unexpected frame magic'')) (\<lambda>_.
         and_then (zstd_parse_frame c) (\<lambda>(parsed, c).
         and_then (check_limit (zp_window_bytes parsed) (max_dictionary_bytes limits) DictionaryBytes)
           (\<lambda>_.
         and_then (zstd_record_frame start parsed (st\<lparr>zr_cursor := c\<rparr>)) (\<lambda>st.
         ok (st, False))))))))))"

definition zstd_frame_loop_start :: "byte_slice \<Rightarrow> zstandard_progress" where
  "zstd_frame_loop_start input =
     \<lparr>zr_cursor = cursor_new input ''zstandard'', zr_frames = [], zr_capacity = 0,
      zr_total_frames = 0, zr_data_frames = 0, zr_skippable_frames = 0, zr_checksum_frames = 0,
      zr_dictionary_frames = 0, zr_maximum_window_bytes = 0, zr_aggregate_size = Some 0\<rparr>"

end
