(* ===== verification/Zstd_Laws.thy ===== *)
theory Zstd_Laws
  imports Zstd_Layout
begin

text \<open>
  What a parsed Zstandard stream looks like.  The frame header is specified over the bytes, in
  numbers without width; the frame loop and its invariant follow the pattern of the LZ4 layout.
\<close>

section \<open>Frame headers\<close>

definition zstd_single :: "u8 \<Rightarrow> bool" where
  "zstd_single d \<longleftrightarrow> d AND 0x20 \<noteq> 0"

definition zstd_dictionary_bytes :: "u8 \<Rightarrow> nat" where
  "zstd_dictionary_bytes d = [0, 1, 2, 4] ! unat (d AND 0x03)"

definition zstd_size_bytes :: "u8 \<Rightarrow> nat" where
  "zstd_size_bytes d = [of_bool (zstd_single d), 2, 4, 8] ! unat (drop_bit 6 d)"

text \<open>Where the dictionary identifier and the content size of a header at \<open>q\<close> begin.\<close>

definition zstd_dictionary_at :: "u8 \<Rightarrow> nat \<Rightarrow> nat" where
  "zstd_dictionary_at d q = q + 1 + of_bool (\<not> zstd_single d)"

definition zstd_size_at :: "u8 \<Rightarrow> nat \<Rightarrow> nat" where
  "zstd_size_at d q = zstd_dictionary_at d q + zstd_dictionary_bytes d"

definition number_at :: "byte_slice \<Rightarrow> nat \<Rightarrow> nat \<Rightarrow> nat" where
  "number_at bytes n p = le_nat (take n (drop p bytes))"

definition zstd_size_field :: "byte_slice \<Rightarrow> nat \<Rightarrow> nat option" where
  "zstd_size_field bytes q =
     (let d = bytes ! q; n = zstd_size_bytes d
      in if n = 0 then None
         else Some (number_at bytes n (zstd_size_at d q) + (if n = 2 then 256 else 0)))"

definition zstd_window_field :: "byte_slice \<Rightarrow> nat \<Rightarrow> nat" where
  "zstd_window_field bytes q =
     (if zstd_single (bytes ! q) then the (zstd_size_field bytes q)
      else 2 ^ (7 + unat (bytes ! (q + 1)) div 8) * (8 + unat (bytes ! (q + 1)) mod 8))"

definition zstd_header :: "byte_slice \<Rightarrow> nat \<Rightarrow> zstandard_parsed_frame \<Rightarrow> bool" where
  "zstd_header bytes q p \<longleftrightarrow>
     zp_checksum p = (bytes ! q AND 0x04 \<noteq> 0) \<and>
     zp_dictionary p =
       (number_at bytes (zstd_dictionary_bytes (bytes ! q)) (zstd_dictionary_at (bytes ! q) q) \<noteq> 0) \<and>
     map_option unat (zp_content_size p) = zstd_size_field bytes q \<and>
     unat (zp_window_bytes p) = zstd_window_field bytes q"

lemma zstd_dictionary_length_success:
  "zstd_dictionary_length d s = (Inr n, t) \<Longrightarrow> n = zstd_dictionary_bytes d \<and> t = s"
  by (auto simp: zstd_dictionary_length_def zstd_dictionary_bytes_def success Let_def split: if_splits)

lemma zstd_content_length_success:
  "zstd_content_length d (zstd_single d) s = (Inr n, t) \<Longrightarrow> n = zstd_size_bytes d \<and> t = s"
  by (auto simp: zstd_content_length_def zstd_size_bytes_def success Let_def split: if_splits)

lemma zstd_window_descriptor_success:
  "zstd_window_descriptor single c s = (Inr (w, d), t) \<Longrightarrow> sc_position c \<le> length (sc_bytes c) \<Longrightarrow>
     cursor_moved c (of_bool (\<not> single)) d \<and> t = s \<and>
     w = (if single then None else Some (sc_bytes c ! sc_position c))"
  by (auto simp: zstd_window_descriptor_def success dest: cursor_read_u8_success
      intro: cursor_moved_here split: if_splits)

lemma zstd_content_size_success:
  assumes "zstd_content_size n c s = (Inr (v, d), t)" and "n \<le> 8"
    and "sc_position c \<le> length (sc_bytes c)"
  shows "cursor_moved c n d \<and> t = s \<and> map_option unat v =
    (if n = 0 then None else Some (number_at (sc_bytes c) n (sc_position c) + (if n = 2 then 256 else 0)))"
  using assms cursor_read_le_value [of n _ c] cursor_read_le_success [of n _ c]
  by (auto simp: zstd_content_size_def success number_at_def checked_add_eq_Some
      intro: cursor_moved_here split: if_splits)

lemma unat_low_three: "unat ((b :: u8) AND 7) = unat b mod 8"
proof -
  have "b AND 7 = take_bit 3 b" by (simp add: take_bit_eq_mask mask_eq_exp_minus_1)
  then show ?thesis by (simp add: unsigned_take_bit_eq take_bit_nat_def)
qed

lemma unat_high_five: "unat (drop_bit 3 (b :: u8)) = unat b div 8"
  by (simp add: unsigned_drop_bit_eq drop_bit_nat_def take_bit_nat_eq_self)

lemma unat_u8_as_u32 [simp]: "unat (ucast (b :: u8) :: u32) = unat b"
  using less_trans [OF unat_less_8 [of b], of "2 ^ 32"]
  by (simp add: unsigned_ucast_eq take_bit_nat_eq_self)

lemma unat_u8_as_u64 [simp]: "unat (ucast (b :: u8) :: u64) = unat b"
  using less_trans [OF unat_less_8 [of b], of "2 ^ 64"]
  by (simp add: unsigned_ucast_eq take_bit_nat_eq_self)

lemma unat_power_two: "n < 64 \<Longrightarrow> unat ((2 :: u64) ^ n) = 2 ^ n"
  using unat_of_nat [of "2 ^ n", where 'a = 64] power_strict_increasing [of n 64 "2 :: nat"] by simp

lemma zstd_window_bytes_success:
  assumes "zstd_window_bytes single sz w s = (Inr v, t)"
  shows "t = s \<and> (if single then sz = Some v
    else \<exists>b. w = Some b \<and> unat v = 2 ^ (7 + unat b div 8) * (8 + unat b mod 8))"
proof (cases single)
  case True
  with assms show ?thesis
    by (auto simp: zstd_window_bytes_def success split: option.splits)
next
  case False
  with assms obtain b exponent base mantissa where b: "w = Some b"
    and e: "checked_add (ucast (drop_bit 3 b) :: u32) 10 = Some exponent"
    and base: "checked_shl (1 :: u64) (unat exponent) = Some base"
    and m: "checked_mul (base div 8) (ucast (b AND 7)) = Some mantissa"
    and v: "checked_add base mantissa = Some v" and t: "t = s"
    by (auto simp: zstd_window_bytes_def success split: option.splits)
  let ?k = "unat b div 8"
  have e': "unat exponent = ?k + 10"
    using e by (simp add: checked_add_eq_Some unat_high_five)
  then have base': "unat base = 2 ^ (?k + 10)"
    using base by (auto simp: checked_shl_def unat_power_two split: if_splits)
  then have "unat (base div 8) = 2 ^ (7 + ?k)"
    by (simp add: unat_div power_add)
  then have "unat mantissa = 2 ^ (7 + ?k) * (unat b mod 8)"
    using m by (simp add: checked_mul_eq_Some unat_low_three)
  then have "unat v = 2 ^ (7 + ?k) * (8 + unat b mod 8)"
    using v base' by (simp add: checked_add_eq_Some power_add algebra_simps)
  with False b t show ?thesis by auto
qed


lemma zstd_block_loop_success:
  assumes "zstd_block_loop m st s = (Inr st', t)" and at: "sc_position (fst st) \<le> length (sc_bytes (fst st))"
  shows "cursor_after (fst st) (fst st') \<and> t = s"
proof -
  have "(cursor_after (fst st) (fst st') \<and> t = s) \<and> \<not> \<not> snd st'"
    using assms(1)
    by (rule zstd_blocks.loop_success [where I = "\<lambda>a t. cursor_after (fst st) (fst a) \<and> t = s"])
      (use at in \<open>auto dest!: zstd_block_step_progress simp: cursor_progress_def intro: cursor_after_rules\<close>)
  then show ?thesis by blast
qed

lemma zstd_checksum_field_success:
  "zstd_checksum_field b c s = (Inr d, t) \<Longrightarrow> sc_position c \<le> length (sc_bytes c) \<Longrightarrow>
     cursor_after c d \<and> t = s"
  by (auto simp: zstd_checksum_field_def success dest!: cursor_read_u32_success
      intro: cursor_after_rules split: if_splits)

lemma zstd_lengths [simp]: "zstd_dictionary_bytes d \<le> 8" "zstd_size_bytes d \<le> 8"
proof -
  have "unat (d AND 3) \<le> unat (3 :: u8)"
    unfolding word_le_nat_alt [symmetric] by (rule word_and_le1)
  then have "unat (d AND 3) < 4" by simp
  then consider "unat (d AND 3) = 0" | "unat (d AND 3) = 1" | "unat (d AND 3) = 2" | "unat (d AND 3) = 3"
    by linarith
  then show "zstd_dictionary_bytes d \<le> 8" by cases (simp_all add: zstd_dictionary_bytes_def)
  have "unat (drop_bit 6 d) < 4"
    using less_mult_imp_div_less [of "unat d" 4 64] by (simp add: unsigned_drop_bit_eq drop_bit_nat_def take_bit_nat_eq_self)
  then consider "unat (drop_bit 6 d) = 0" | "unat (drop_bit 6 d) = 1" | "unat (drop_bit 6 d) = 2" | "unat (drop_bit 6 d) = 3"
    by linarith
  then show "zstd_size_bytes d \<le> 8" by cases (simp_all add: zstd_size_bytes_def)
qed

lemma zstd_parse_frame_success:
  assumes "zstd_parse_frame c s = (Inr (p, d), t)"
  shows "cursor_after c d \<and> t = s \<and> zstd_header (sc_bytes c) (sc_position c) p"
proof -
  let ?d = "sc_bytes c ! sc_position c"
  from assms obtain desc c1 s1 window c2 s2 dn s3 dict c3 s4 n s5 sz c4 s6 bytes s7 stop c5 s8 s9 where
    desc: "cursor_read_u8 ''frame descriptor is truncated'' c s = (Inr (desc, c1), s1)"
    and window: "zstd_window_descriptor (zstd_single desc) c1 s1 = (Inr (window, c2), s2)"
    and dn: "zstd_dictionary_length desc s2 = (Inr dn, s3)"
    and dict: "cursor_read_le dn ''dictionary ID is truncated'' c2 s3 = (Inr (dict, c3), s4)"
    and n: "zstd_content_length desc (zstd_single desc) s4 = (Inr n, s5)"
    and size: "zstd_content_size n c3 s5 = (Inr (sz, c4), s6)"
    and bytes: "zstd_window_bytes (zstd_single desc) sz window s6 = (Inr bytes, s7)"
    and blocks: "zstd_block_loop (min bytes MAXIMUM_BLOCK_BYTES) (c4, False) s7 = (Inr (c5, stop), s8)"
    and check: "zstd_checksum_field (desc AND 0x04 \<noteq> 0) c5 s8 = (Inr d, s9)" and t: "t = s9"
    and p: "p = \<lparr>zp_content_size = sz, zp_window_bytes = bytes, zp_checksum = (desc AND 0x04 \<noteq> 0),
          zp_dictionary = (dict \<noteq> 0)\<rparr>"
    unfolding zstd_parse_frame_def by (clarsimp simp: success Let_def zstd_single_def split: prod.splits)
  from cursor_read_u8_success [OF desc] have c1: "cursor_moved c 1 c1" and d: "desc = ?d" and s1: "s1 = s" by auto
  note at1 = cursor_after_in [OF cursor_after_moved [OF c1]]
  note window = zstd_window_descriptor_success [OF window at1]
  note dn = zstd_dictionary_length_success [OF dn]
  note n = zstd_content_length_success [OF n]
  have c2: "cursor_moved c (zstd_dictionary_at desc (sc_position c) - sc_position c) c2"
    using cursor_moved_trans [OF c1] window by (auto simp: zstd_dictionary_at_def)
  note dict_at = cursor_read_le_success [OF dict]
  have dict': "unat dict = number_at (sc_bytes c) (zstd_dictionary_bytes desc) (zstd_dictionary_at desc (sc_position c))"
    using cursor_read_le_value [OF dict] dn zstd_lengths c2 by (auto simp: number_at_def cursor_moved_def zstd_dictionary_at_def)
  have c3: "cursor_moved c (zstd_size_at desc (sc_position c) - sc_position c) c3"
    using cursor_moved_trans [OF c2, of dn c3] dict_at dn by (auto simp: zstd_size_at_def zstd_dictionary_at_def)
  note at3 = cursor_after_in [OF cursor_after_moved [OF c3]]
  note size = zstd_content_size_success [OF size _ at3, simplified n zstd_lengths simp_thms]
  have size': "map_option unat sz = zstd_size_field (sc_bytes c) (sc_position c)"
    using size c3 n zstd_lengths by (auto simp: zstd_size_field_def Let_def d [symmetric] cursor_moved_def zstd_size_at_def zstd_dictionary_at_def)
  have c4: "cursor_after c c4"
    using cursor_moved_trans [OF c3] size n by (auto intro: cursor_after_moved)
  note bytes = zstd_window_bytes_success [OF bytes]
  have bytes': "unat bytes = zstd_window_field (sc_bytes c) (sc_position c)"
    using bytes size' window c1
    by (auto simp: zstd_window_field_def d cursor_moved_def simp flip: size' split: if_splits)
  note blocks = zstd_block_loop_success [OF blocks, unfolded fst_conv, OF cursor_after_in [OF c4]]
  have c5: "cursor_after c c5" using c4 blocks by (blast intro: cursor_after_trans)
  note check = zstd_checksum_field_success [OF check cursor_after_in [OF c5]]
  have "cursor_after c d" using c5 check by (blast intro: cursor_after_trans)
  moreover have "t = s"
    using t s1 window dn n dict_at size bytes blocks check by auto
  moreover have "dict \<noteq> 0 \<longleftrightarrow>
      number_at (sc_bytes c) (zstd_dictionary_bytes desc) (zstd_dictionary_at desc (sc_position c)) \<noteq> 0"
    unfolding dict' [symmetric] by (simp add: unat_eq_zero)
  ultimately show ?thesis
    using p size' bytes' by (simp add: zstd_header_def d)
qed



section \<open>One pass of the frame loop\<close>

lemma zstd_record_frame_success:
  assumes "zstd_record_frame start p st s = (Inr st', t)"
  shows "\<exists>f. zr_frames st' = zr_frames st @ [f] \<and>
    zf_start f = start \<and> zf_end f = sc_position (zr_cursor st) \<and>
    zf_content_size f = zp_content_size p \<and> zf_window_bytes f = zp_window_bytes p \<and>
    zf_checksum f = zp_checksum p \<and> zf_dictionary f = zp_dictionary p \<and>
    zr_cursor st' = zr_cursor st \<and> zr_total_frames st' = zr_total_frames st \<and>
    zr_skippable_frames st' = zr_skippable_frames st \<and>
    unat (zr_data_frames st') = unat (zr_data_frames st) + 1 \<and>
    unat (zr_checksum_frames st') = unat (zr_checksum_frames st) + of_bool (zp_checksum p) \<and>
    unat (zr_dictionary_frames st') = unat (zr_dictionary_frames st) + of_bool (zp_dictionary p) \<and>
    zr_maximum_window_bytes st' = max (zr_maximum_window_bytes st) (zp_window_bytes p)"
  using assms
  by (auto simp: zstd_record_frame_def success split: prod.splits dest!: push_layout_success)

lemma zstd_record_frame_aggregate:
  assumes "zstd_record_frame start p st s = (Inr st', t)"
    and "map_option unat (zr_aggregate_size st) = known_sum xs"
  shows "map_option unat (zr_aggregate_size st') = known_sum (xs @ [zp_content_size p])"
  using assms
  by (auto simp: zstd_record_frame_def success split: prod.splits dest!: add_known_success)

lemma zstd_frame_step_cases:
  assumes "zstd_frame_step limits p s = (Inr p', t)"
  obtains (stop) "sc_position (zr_cursor (fst p)) = length (sc_bytes (zr_cursor (fst p)))" "p' = (fst p, True)"
  | (skip) c n k magic where "\<not> snd p'"
      "unat n = unat (zr_total_frames (fst p)) + 1" "n \<le> max_stream_frames limits"
      "magic = u32_at (sc_bytes (zr_cursor (fst p))) (sc_position (zr_cursor (fst p)))" "is_skippable magic"
      "cursor_moved (zr_cursor (fst p))
        (8 + unat (u32_at (sc_bytes (zr_cursor (fst p))) (sc_position (zr_cursor (fst p)) + 4))) c"
      "unat k = unat (zr_skippable_frames (fst p)) + 1"
      "fst p' = (fst p)\<lparr>zr_cursor := c, zr_total_frames := n, zr_skippable_frames := k\<rparr>"
  | (data) c d n parsed u v w where "\<not> snd p'"
      "unat n = unat (zr_total_frames (fst p)) + 1" "n \<le> max_stream_frames limits"
      "u32_at (sc_bytes (zr_cursor (fst p))) (sc_position (zr_cursor (fst p))) = ZSTANDARD_MAGIC"
      "cursor_moved (zr_cursor (fst p)) 4 c"
      "zstd_parse_frame c u = (Inr (parsed, d), v)"
      "zp_window_bytes parsed \<le> max_dictionary_bytes limits"
      "zstd_record_frame (sc_position (zr_cursor (fst p))) parsed
        ((fst p)\<lparr>zr_total_frames := n, zr_cursor := d\<rparr>) v = (Inr (fst p'), w)"
proof (cases "drop (sc_position (zr_cursor (fst p))) (sc_bytes (zr_cursor (fst p))) = []")
  case True
  with assms stop show thesis
    by (auto simp: zstd_frame_step_def success Let_def)
next
  case False
  define magic where "magic = u32_at (sc_bytes (zr_cursor (fst p))) (sc_position (zr_cursor (fst p)))"
  show thesis
  proof (cases "is_skippable magic")
    case True
    with assms False obtain n c1 c2 d k u v where
      n: "unat n = unat (zr_total_frames (fst p)) + 1" "n \<le> max_stream_frames limits"
      and c1: "cursor_moved (zr_cursor (fst p)) 4 c1" and c2: "cursor_moved c1 4 c2"
      and d: "cursor_moved c2 (unat (u32_at (sc_bytes c1) (sc_position c1))) d"
      and k: "unat k = unat (zr_skippable_frames (fst p)) + 1"
      and p': "p' = ((fst p)\<lparr>zr_cursor := d, zr_total_frames := n, zr_skippable_frames := k\<rparr>, False)"
      unfolding zstd_frame_step_def magic_def u32_at_def
      by (auto simp: success Let_def check_frame_count_def
          dest!: cursor_read_u32_success cursor_skip_u64_success)
    have "sc_bytes c1 = sc_bytes (zr_cursor (fst p))" "sc_position c1 = sc_position (zr_cursor (fst p)) + 4"
      using c1 by (auto simp: cursor_moved_def)
    with cursor_moved_trans [OF cursor_moved_trans [OF c1 c2] d] n k p' True skip show thesis
      by (simp add: magic_def)
  next
    case skipped: False
    with assms False obtain n c d parsed u v w where
      "unat n = unat (zr_total_frames (fst p)) + 1" "n \<le> max_stream_frames limits"
      "cursor_moved (zr_cursor (fst p)) 4 c" "magic = ZSTANDARD_MAGIC"
      "zstd_parse_frame c u = (Inr (parsed, d), v)"
      "zp_window_bytes parsed \<le> max_dictionary_bytes limits"
      "zstd_record_frame (sc_position (zr_cursor (fst p))) parsed
        ((fst p)\<lparr>zr_total_frames := n, zr_cursor := d\<rparr>) v = (Inr (fst p'), w)" "\<not> snd p'"
      unfolding zstd_frame_step_def magic_def u32_at_def
      by (auto simp: success Let_def check_frame_count_def
          dest!: cursor_read_u32_success split: if_splits)
    with skipped data magic_def show thesis by blast
  qed
qed

lemma zstd_frame_step_moves:
  assumes "zstd_frame_step limits p s = (Inr p', t)"
  shows "cursor_progress (zr_cursor (fst p), snd p) (zr_cursor (fst p'), snd p')"
  using assms
proof (cases rule: zstd_frame_step_cases)
  case stop
  then show ?thesis by (auto simp: cursor_progress_def intro: cursor_after_here)
next
  case (skip c n k magic)
  then show ?thesis by (auto simp: cursor_progress_def cursor_moved_def intro: cursor_after_moved)
next
  case (data c d n parsed u v w)
  from data(5) have "cursor_after (zr_cursor (fst p)) c" "sc_position (zr_cursor (fst p)) < sc_position c"
    by (auto simp: cursor_moved_def intro: cursor_after_moved)
  moreover from zstd_parse_frame_success [OF data(6)] have "cursor_after c d" by blast
  moreover from zstd_record_frame_success [OF data(8)] have "zr_cursor (fst p') = d" by auto
  ultimately have "cursor_after (zr_cursor (fst p)) (zr_cursor (fst p'))"
    and "sc_position (zr_cursor (fst p)) < sc_position (zr_cursor (fst p'))"
    by (auto dest: cursor_afterD intro: cursor_after_trans)
  then show ?thesis by (simp add: cursor_progress_def)
qed

definition zstd_left :: "zstandard_progress \<times> bool \<Rightarrow> nat" where
  "zstd_left p = cursor_left (zr_cursor (fst p), snd p)"

text \<open>\<open>while !cursor.remaining()?.is_empty()\<close>\<close>

function zstd_frame_loop ::
    "limits \<Rightarrow> zstandard_progress \<times> bool \<Rightarrow> (zstandard_progress \<times> bool) op" where
  "zstd_frame_loop limits p s =
     (if \<not> snd p then and_then (zstd_frame_step limits p) (\<lambda>p s. zstd_frame_loop limits p s) s
      else ok p s)"
  by pat_completeness auto
termination
  by (relation "measure (\<lambda>(limits, p, s). zstd_left p)")
    (auto simp: zstd_left_def dest!: zstd_frame_step_moves cursor_progress_left)

declare zstd_frame_loop.simps [simp del]

interpretation zstd_frames: loop "zstd_frame_loop limits" "\<lambda>p. \<not> snd p" "zstd_frame_step limits"
  "\<lambda>p _. zstd_left p" for limits
  by unfold_locales
    (subst zstd_frame_loop.simps, simp,
      auto simp: zstd_left_def dest!: zstd_frame_step_moves cursor_progress_left)

definition zstd_parse ::
    "byte_slice \<Rightarrow> limits \<Rightarrow> (zstandard_stream_info \<times> u64 option \<times> zstandard_frame list) op" where
  "zstd_parse input limits =
     and_then (zstd_frame_loop limits (zstd_frame_loop_start input, False)) (\<lambda>(st, _).
     and_then (err_if (zr_data_frames st = 0) (zstd_error ''stream contains no data frame'')) (\<lambda>_.
     ok (\<lparr>zi_frame_count = zr_data_frames st, zi_skippable_frame_count = zr_skippable_frames st,
          zi_content_checksum_frame_count = zr_checksum_frames st,
          zi_dictionary_frame_count = zr_dictionary_frames st,
          zi_maximum_window_bytes = zr_maximum_window_bytes st\<rparr>,
         zr_aggregate_size st, zr_frames st)))"



section \<open>The whole layout\<close>

definition zstd_span :: "zstandard_frame \<Rightarrow> nat \<times> nat" where
  "zstd_span f = (zf_start f, zf_end f)"

definition zstd_frame_sound :: "byte_slice \<Rightarrow> limits \<Rightarrow> zstandard_frame \<Rightarrow> bool" where
  "zstd_frame_sound input limits f \<longleftrightarrow>
     zstd_header input (zf_start f + 4)
       \<lparr>zp_content_size = zf_content_size f, zp_window_bytes = zf_window_bytes f,
        zp_checksum = zf_checksum f, zp_dictionary = zf_dictionary f\<rparr> \<and>
     zf_window_bytes f \<le> max_dictionary_bytes limits"

definition zstd_inv :: "byte_slice \<Rightarrow> limits \<Rightarrow> zstandard_progress \<Rightarrow> bool" where
  "zstd_inv input limits st \<longleftrightarrow>
     sc_bytes (zr_cursor st) = input \<and>
     framed (\<lambda>m. m = ZSTANDARD_MAGIC) input (unat (zr_total_frames st))
       (map zstd_span (zr_frames st)) (sc_position (zr_cursor st)) \<and>
     zr_total_frames st \<le> max_stream_frames limits \<and>
     unat (zr_data_frames st) = length (zr_frames st) \<and>
     unat (zr_skippable_frames st) + length (zr_frames st) = unat (zr_total_frames st) \<and>
     unat (zr_checksum_frames st) = count_frames zf_checksum (zr_frames st) \<and>
     unat (zr_dictionary_frames st) = count_frames zf_dictionary (zr_frames st) \<and>
     map_option unat (zr_aggregate_size st) = known_sum (map zf_content_size (zr_frames st)) \<and>
     zr_maximum_window_bytes st = fold max (map zf_window_bytes (zr_frames st)) 0 \<and>
     (\<forall>f \<in> set (zr_frames st). zstd_frame_sound input limits f)"

lemma zstd_inv_step:
  assumes inv: "zstd_inv input limits (fst p)"
    and run: "zstd_frame_step limits p s = (Inr p', t)"
  shows "zstd_inv input limits (fst p')"
  using run
proof (cases rule: zstd_frame_step_cases)
  case stop
  with inv show ?thesis by simp
next
  case (skip c n k magic)
  let ?q = "sc_position (zr_cursor (fst p))"
  have input: "sc_bytes (zr_cursor (fst p)) = input" using inv by (simp add: zstd_inv_def)
  have "framed (\<lambda>m. m = ZSTANDARD_MAGIC) input (Suc (unat (zr_total_frames (fst p))))
      (map zstd_span (zr_frames (fst p))) (?q + 8 + unat (u32_at input (?q + 4)))"
    using inv skip(4,5,6) by (intro framed_skippable) (auto simp: zstd_inv_def cursor_moved_def)
  then show ?thesis
    using inv skip input by (auto simp: zstd_inv_def cursor_moved_def add.assoc)
next
  case (data c d n parsed u v w)
  let ?q = "sc_position (zr_cursor (fst p))"
  have input: "sc_bytes (zr_cursor (fst p)) = input" using inv by (simp add: zstd_inv_def)
  from data(5) have c: "sc_bytes c = input" "sc_position c = ?q + 4" "sc_position c \<le> length input"
    by (auto simp: cursor_moved_def input)
  from zstd_parse_frame_success [OF data(6)] c have d: "cursor_after c d"
    and parsed: "zstd_header input (?q + 4) parsed"
    by auto
  from zstd_record_frame_success [OF data(8)] obtain f where
    frames: "zr_frames (fst p') = zr_frames (fst p) @ [f]"
    and f: "zf_start f = ?q" "zf_end f = sc_position d" "zf_content_size f = zp_content_size parsed"
      "zf_window_bytes f = zp_window_bytes parsed" "zf_checksum f = zp_checksum parsed"
      "zf_dictionary f = zp_dictionary parsed"
    and cursor: "zr_cursor (fst p') = d"
    and counts: "zr_total_frames (fst p') = n" "zr_skippable_frames (fst p') = zr_skippable_frames (fst p)"
      "unat (zr_data_frames (fst p')) = unat (zr_data_frames (fst p)) + 1"
      "unat (zr_checksum_frames (fst p')) = unat (zr_checksum_frames (fst p)) + of_bool (zf_checksum f)"
      "unat (zr_dictionary_frames (fst p')) = unat (zr_dictionary_frames (fst p)) + of_bool (zf_dictionary f)"
      "zr_maximum_window_bytes (fst p') = max (zr_maximum_window_bytes (fst p)) (zf_window_bytes f)"
    by auto
  have sound: "zstd_frame_sound input limits f"
    using parsed data(7) f by (simp add: zstd_frame_sound_def zstd_header_def)
  have "framed (\<lambda>m. m = ZSTANDARD_MAGIC) input (Suc (unat (zr_total_frames (fst p))))
      (map zstd_span (zr_frames (fst p)) @ [(?q, sc_position d)]) (sc_position d)"
    using inv c d data(4) input by (intro framed_data) (auto simp: zstd_inv_def dest!: cursor_afterD)
  moreover have "map_option unat (zr_aggregate_size (fst p')) = known_sum (map zf_content_size (zr_frames (fst p')))"
    using zstd_record_frame_aggregate [OF data(8)] inv by (simp add: zstd_inv_def frames f)
  moreover have "sc_bytes d = input" using d c by (auto dest: cursor_afterD)
  ultimately show ?thesis
    using inv sound unfolding zstd_inv_def frames cursor counts f(1) data(2) map_append
    by (simp add: data(3) zstd_span_def f max.commute)
qed

definition zstd_layout_sound ::
    "byte_slice \<Rightarrow> limits \<Rightarrow> zstandard_stream_info \<Rightarrow> u64 option \<Rightarrow> zstandard_frame list \<Rightarrow> bool" where
  "zstd_layout_sound input limits info declared frames \<longleftrightarrow>
     frames \<noteq> [] \<and>
     framed (\<lambda>m. m = ZSTANDARD_MAGIC) input (length frames + unat (zi_skippable_frame_count info))
       (map zstd_span frames) (length input) \<and>
     length frames + unat (zi_skippable_frame_count info) \<le> unat (max_stream_frames limits) \<and>
     unat (zi_frame_count info) = length frames \<and>
     unat (zi_content_checksum_frame_count info) = count_frames zf_checksum frames \<and>
     unat (zi_dictionary_frame_count info) = count_frames zf_dictionary frames \<and>
     map_option unat declared = known_sum (map zf_content_size frames) \<and>
     zi_maximum_window_bytes info = fold max (map zf_window_bytes frames) 0 \<and>
     list_all (zstd_frame_sound input limits) frames"

text \<open>C22: A Zstandard stream that opens is a sequence of frames up to its last byte, no more than
  the frame limit, the data frames behind the Zstandard magic.  Window, content size, checksum and
  dictionary of each frame are those its header encodes, computed without overflow, and no window
  exceeds the dictionary limit.  The reported counts, the largest window and the declared size are
  those of the listed frames.\<close>

theorem zstd_layout_parsed:
  assumes "zstd_parse input limits s = (Inr (info, declared, frames), t)"
  shows "zstd_layout_sound input limits info declared frames"
proof -
  from assms obtain st stop u where
    run: "zstd_frame_loop limits (zstd_frame_loop_start input, False) s = (Inr (st, stop), u)"
    and some: "zr_data_frames st \<noteq> 0"
    and info: "info = \<lparr>zi_frame_count = zr_data_frames st, zi_skippable_frame_count = zr_skippable_frames st,
          zi_content_checksum_frame_count = zr_checksum_frames st,
          zi_dictionary_frame_count = zr_dictionary_frames st,
          zi_maximum_window_bytes = zr_maximum_window_bytes st\<rparr>"
    and rest: "declared = zr_aggregate_size st" "frames = zr_frames st"
    by (auto simp: zstd_parse_def success)
  let ?I = "\<lambda>p (_ :: session). zstd_inv input limits (fst p) \<and>
    (snd p \<longrightarrow> sc_position (zr_cursor (fst p)) = length input)"
  have "?I (st, stop) u \<and> \<not> \<not> snd (st, stop)"
    using run
  proof (rule zstd_frames.loop_success [where I = ?I])
    show "?I (zstd_frame_loop_start input, False) s"
      by (simp add: zstd_inv_def zstd_frame_loop_start_def cursor_new_def framed_start)
  next
    fix p s p' t
    assume "?I p s" and step: "zstd_frame_step limits p s = (Inr p', t)"
    then have "zstd_inv input limits (fst p')" by (blast intro: zstd_inv_step)
    moreover from step have "snd p' \<longrightarrow> sc_position (zr_cursor (fst p')) = length (sc_bytes (zr_cursor (fst p')))"
      by (cases rule: zstd_frame_step_cases) auto
    ultimately show "?I p' t" by (auto simp: zstd_inv_def)
  qed
  then have "zstd_inv input limits st" and "sc_position (zr_cursor st) = length input" by simp_all
  with some show ?thesis
    unfolding zstd_layout_sound_def zstd_inv_def info rest
    by (auto simp: list_all_iff word_le_nat_alt add.commute unat_eq_zero)
qed

lemmas zstd_evaluate =
  zstd_parse_def zstd_frame_loop.simps zstd_frame_step_def zstd_record_frame_def
  zstd_parse_frame_def zstd_block_loop.simps zstd_block_step_def zstd_checksum_field_def
  zstd_window_descriptor_def zstd_dictionary_length_def zstd_content_length_def
  zstd_content_size_def zstd_window_bytes_def zstd_frame_loop_start_def
  ZSTANDARD_MAGIC_def SKIPPABLE_MAGIC_START_def SKIPPABLE_MAGIC_END_def MAXIMUM_BLOCK_BYTES_def

text \<open>One skippable frame and one frame with a raw block of two bytes and a window of 1 KiB.\<close>

definition zstd_sample :: byte_slice where
  "zstd_sample = [0x5f, 0x2a, 0x4d, 0x18, 1, 0, 0, 0, 9,
     0x28, 0xb5, 0x2f, 0xfd, 0x40, 0, 0, 0, 17, 0, 0, 7, 8]"

lemma zstd_layout_parsed_witness:
  "\<exists>info f. zstd_layout_sound zstd_sample default_limits info (Some 256) [f]"
proof -
  have "\<exists>info f t. zstd_parse zstd_sample default_limits (sample_session []) = (Inr (info, Some 256, [f]), t)"
    by (simp add: evaluate zstd_evaluate stream_evaluate zstd_sample_def)
  then show ?thesis using zstd_layout_parsed by blast
qed

end
