(* ===== verification/Stream_Control.thy ===== *)
theory Stream_Control
  imports Stream_Cursor
begin

text \<open>
  The extraction half of \<^verbatim>\<open>stream/mod.rs\<close>: the control block that counts and writes the output, the
  input that a decoder reads from, and the pump between a decoder and the writer.

  A writer is a \<open>sink\<close>, an operation on the session and on whatever stands for the writer's side.
  The decoders of LZ4 and Zstandard frames are third-party crates: a \<open>decoder\<close> answers one \<open>read\<close>
  with the bytes it put into the buffer, an I/O error or a panic, the position its input has
  reached, and the number of times its input looked at the cancellation token.
\<close>

section \<open>The control block\<close>

record extraction_control =
  ec_limits :: limits
  ec_output_bytes :: u64
  ec_frames_decoded :: u64
  ec_checksums_verified :: u64

record stream_extraction =
  se_output_bytes :: u64
  se_frames_decoded :: u64
  se_checksums_verified :: u64

type_synonym 'w sink = "byte_slice \<Rightarrow> (session \<times> 'w, unit) comp"
type_synonym ('w, 'a) stream_op = "(session \<times> 'w, 'a) comp"

definition extraction_control_new :: "limits \<Rightarrow> extraction_control" where
  "extraction_control_new limits =
     \<lparr>ec_limits = limits, ec_output_bytes = 0, ec_frames_decoded = 0, ec_checksums_verified = 0\<rparr>"

abbreviation compressed_error :: "string \<Rightarrow> error" where
  "compressed_error detail \<equiv> stream_format_error ''compressed'' detail"

definition stream_output_total :: "extraction_control \<Rightarrow> nat \<Rightarrow> u64 op" where
  "stream_output_total ctl additional =
     and_then (usize_to_u64 additional ''stream output chunk length is not representable as u64'')
       (\<lambda>additional.
     and_then (ok_or (compressed_error ''output size overflows'')
       (checked_add (ec_output_bytes ctl) additional)) (\<lambda>next_total.
     and_then (check_limit next_total (max_entry_output_bytes (ec_limits ctl)) EntryOutputBytes) (\<lambda>_.
     and_then (check_limit next_total (max_total_output_bytes (ec_limits ctl)) TotalOutputBytes) (\<lambda>_.
     ok next_total))))"

definition write_output ::
    "'w sink \<Rightarrow> byte_slice \<Rightarrow> extraction_control \<Rightarrow> ('w, extraction_control) stream_op" where
  "write_output sink bytes ctl =
     and_then (internal load_token) (\<lambda>_.
     and_then (internal (stream_output_total ctl (length bytes))) (\<lambda>next_total.
     and_then (sink bytes) (\<lambda>_.
     ok (ctl\<lparr>ec_output_bytes := next_total\<rparr>))))"

definition finish_frame :: "bool \<Rightarrow> extraction_control \<Rightarrow> ('s, extraction_control) comp" where
  "finish_frame checksum_verified ctl =
     and_then (count_one ''compressed'' ''decoded frame count overflows'' (ec_frames_decoded ctl))
       (\<lambda>frames_decoded.
     and_then (count_if checksum_verified ''compressed'' ''verified checksum count overflows''
       (ec_checksums_verified ctl)) (\<lambda>checksums_verified.
     ok (ctl\<lparr>ec_frames_decoded := frames_decoded, ec_checksums_verified := checksums_verified\<rparr>)))"

definition extraction_finish :: "extraction_control \<Rightarrow> stream_extraction" where
  "extraction_finish ctl =
     \<lparr>se_output_bytes = ec_output_bytes ctl, se_frames_decoded = ec_frames_decoded ctl,
      se_checksums_verified = ec_checksums_verified ctl\<rparr>"

lemma stream_output_total_success:
  "stream_output_total ctl n s = (Inr v, t) \<longleftrightarrow> t = s \<and> n < 2 ^ 64 \<and>
     unat v = unat (ec_output_bytes ctl) + n \<and> v \<le> max_entry_output_bytes (ec_limits ctl) \<and>
     v \<le> max_total_output_bytes (ec_limits ctl)"
  by (auto simp: stream_output_total_def success checked_add_eq_Some unat_of_nat)

lemma finish_frame_success:
  "finish_frame b ctl s = (Inr ctl', t) \<Longrightarrow> t = s \<and>
     unat (ec_frames_decoded ctl') = unat (ec_frames_decoded ctl) + 1 \<and>
     unat (ec_checksums_verified ctl') = unat (ec_checksums_verified ctl) + of_bool b \<and>
     ec_output_bytes ctl' = ec_output_bytes ctl \<and> ec_limits ctl' = ec_limits ctl"
  by (auto simp: finish_frame_def success)


section \<open>Writers\<close>

text \<open>A chunk is refused by a resource, the writer among them, or by an output limit.\<close>

definition output_error :: "error \<Rightarrow> bool" where
  "output_error e \<longleftrightarrow> resource_error e \<or>
     (\<exists>v m. e = LimitExceeded EntryOutputBytes v m \<or> e = LimitExceeded TotalOutputBytes v m)"

text \<open>
  What the pump needs of a writer: a call that succeeds has appended the chunk to what the writer
  holds, \<open>content\<close>, and left the session as it was up to the control block and the allocator; a
  call that fails is an I/O error.
\<close>

locale output_sink =
  fixes sink :: "byte_slice \<Rightarrow> (session \<times> 'w, unit) comp" and content :: "'w \<Rightarrow> byte_slice"
  assumes sink_appends: "sink chunk s = (Inr u, t) \<Longrightarrow>
      still (fst s) (fst t) \<and> content (snd t) = content (snd s) @ chunk"
    and sink_refuses: "sink chunk s = (Inl e, t) \<Longrightarrow> \<exists>k m. e = Io k m"
begin

lemma write_output_success:
  assumes "write_output sink bytes ctl s = (Inr ctl', t)"
  shows "content (snd t) = content (snd s) @ bytes \<and> ec_limits ctl' = ec_limits ctl \<and>
    ec_frames_decoded ctl' = ec_frames_decoded ctl \<and>
    ec_checksums_verified ctl' = ec_checksums_verified ctl \<and>
    unat (ec_output_bytes ctl') = unat (ec_output_bytes ctl) + length bytes \<and>
    ec_output_bytes ctl' \<le> max_entry_output_bytes (ec_limits ctl) \<and>
    ec_output_bytes ctl' \<le> max_total_output_bytes (ec_limits ctl)"
  using assms
  by (auto simp: write_output_def success stream_output_total_success dest!: sink_appends)

end

text \<open>A writer of the caller: the log holds the chunks it was given.\<close>

definition caller_sink :: "writer \<Rightarrow> byte_slice list sink" where
  "caller_sink w chunk = call_back (written w) chunk"

interpretation caller: output_sink "caller_sink w" concat for w
  by unfold_locales
    (auto simp: caller_sink_def success call_back_def written_def split: option.splits prod.splits)

text \<open>\<open>io::sink()\<close>: the bytes are accepted; what it was given is kept here only to speak of it.\<close>

definition discard_sink :: "byte_slice sink" where
  "discard_sink chunk = modify (\<lambda>(s, discarded). (s, discarded @ chunk))"

interpretation discard: output_sink discard_sink "\<lambda>w. w"
  by unfold_locales (auto simp: discard_sink_def success modify_def)

text \<open>\<open>FallibleVec\<close>: a vector that grows before every write.\<close>

record fallible_vec =
  fv_bytes :: byte_slice
  fv_capacity :: nat

definition fallible_vec_new :: "u64 option \<Rightarrow> fallible_vec op" where
  "fallible_vec_new expected =
     (let capacity = min (case expected of None \<Rightarrow> 0 | Some n \<Rightarrow> n) (1024 * 1024) in
     and_then (gets (\<lambda>s. usize_max (machine s))) (\<lambda>maximum.
     and_then (err_if (maximum < unat capacity)
       (compressed_error ''output capacity is not representable'')) (\<lambda>_.
     and_then (grow ''stream output allocation failed'' (unat capacity) 0 0) (\<lambda>capacity.
     ok \<lparr>fv_bytes = [], fv_capacity = capacity\<rparr>))))"

definition vec_sink :: "fallible_vec sink" where
  "vec_sink chunk =
     and_then (gets snd) (\<lambda>v.
     and_then (internal (grow ''stream output allocation failed'' (length chunk)
       (length (fv_bytes v)) (fv_capacity v))) (\<lambda>capacity.
     modify (\<lambda>(s, v). (s, v\<lparr>fv_bytes := fv_bytes v @ chunk, fv_capacity := capacity\<rparr>))))"

lemma grow_refused: "grow m n l c s = (Inl e, t) \<Longrightarrow> e = Io OutOfMemory m"
  by (auto simp: grow_def reserve_exact_def run and_then_def Let_def split: if_splits)

lemma grow_still: "grow m n l c s = (Inr d, t) \<Longrightarrow> still s t"
  by (auto simp: grow_def success reserve_exact_def still_def Let_def split: if_splits)

interpretation vec: output_sink vec_sink fv_bytes
  by unfold_locales
    (auto simp: vec_sink_def success internal_def and_then_def run dest!: grow_still dest: grow_refused
      split: prod.splits sum.splits)


section \<open>The input of a decoder\<close>

record controlled_input =
  ci_bytes :: byte_slice
  ci_position :: nat

definition controlled_input_new :: "byte_slice \<Rightarrow> controlled_input" where
  "controlled_input_new bytes = \<lparr>ci_bytes = bytes, ci_position = 0\<rparr>"

text \<open>
  \<open>ControlledInput::read\<close> into a buffer of \<open>room\<close> bytes: at most one control chunk.  The \<open>Cell\<close> with
  the consumed count always holds the position.
\<close>

definition controlled_read ::
    "cancellation_token \<Rightarrow> nat \<Rightarrow> controlled_input \<Rightarrow> error + (byte_slice \<times> controlled_input)" where
  "controlled_read tok room src =
     (if is_cancelled tok then Inl (Io Interrupted ''stream operation cancelled'')
      else if room = 0 then Inr ([], src)
      else case slice_get (ci_bytes src) (ci_position src) (length (ci_bytes src)) of
        None \<Rightarrow> Inl (Io InvalidData ''decoder input position is invalid'')
      | Some rest \<Rightarrow>
          let count = min (min (length rest) room) CONTROL_CHUNK_SIZE
          in Inr (take count rest, src\<lparr>ci_position := ci_position src + count\<rparr>))"


lemma controlled_read_success:
  assumes "controlled_read tok room src = Inr (bs, src')" and "ci_position src \<le> length (ci_bytes src)"
  shows "ci_bytes src' = ci_bytes src \<and> ci_position src' = ci_position src + length bs \<and>
    ci_position src' \<le> length (ci_bytes src) \<and>
    bs = take (length bs) (drop (ci_position src) (ci_bytes src)) \<and> length bs \<le> room \<and>
    length bs \<le> CONTROL_CHUNK_SIZE"
  using assms
  by (auto simp: controlled_read_def Let_def slice_get_eq_Some split: if_splits option.splits)


section \<open>Pumping a decoder\<close>

datatype decoder_read =
  ReadOk nat byte_slice | ReadFailed io_error_kind string | ReadPanicked

type_synonym 'd decoder = "'d \<Rightarrow> (nat \<Rightarrow> cancellation_token) \<Rightarrow> decoder_read \<times> nat \<times> nat \<times> 'd"

text \<open>One \<open>reader.read(&mut buffer)\<close>: the answer, the value of the \<open>Cell\<close>, the decoder after it.\<close>

definition run_decoder :: "'d decoder \<Rightarrow> 'd \<Rightarrow> (decoder_read \<times> nat \<times> 'd) op" where
  "run_decoder dec d = (\<lambda>s. let c = control s in
     (case dec d (\<lambda>i. token c (loads c + i)) of (answer, position, n, d') \<Rightarrow>
        (Inr (answer, position, d'), s\<lparr>control := c\<lparr>loads := loads c + n\<rparr>\<rparr>)))"

text \<open>\<open>cancellation.is_cancelled()\<close>\<close>

definition observe_cancelled :: "bool op" where
  "observe_cancelled = (\<lambda>s. let c = control s in
     (Inr (is_cancelled (token c (loads c))), s\<lparr>control := c\<lparr>loads := Suc (loads c)\<rparr>\<rparr>))"

definition stream_usize_add :: "string \<Rightarrow> string \<Rightarrow> nat \<Rightarrow> nat \<Rightarrow> nat op" where
  "stream_usize_add format detail a b =
     and_then (gets (\<lambda>s. usize_max (machine s))) (\<lambda>maximum.
     and_then (err_if (maximum < a + b) (stream_format_error format detail)) (\<lambda>_.
     ok (a + b)))"

record 'd pump_state =
  pm_decoder :: 'd
  pm_consumed :: nat
  pm_charged :: nat
  pm_control :: extraction_control

definition decoder_failure ::
    "(io_error_kind \<times> string \<Rightarrow> bool) \<Rightarrow> string \<Rightarrow> u64 \<Rightarrow> io_error_kind \<times> string \<Rightarrow> 'a op" where
  "decoder_failure is_checksum format frame_index e =
     and_then observe_cancelled (\<lambda>cancelled.
     if cancelled then err Cancelled
     else if is_checksum e then err (stream_checksum_error format frame_index)
     else err (stream_format_error format ''decoder rejected or truncated frame''))"

definition charge_output :: "string \<Rightarrow> nat \<Rightarrow> byte_slice \<Rightarrow> unit op" where
  "charge_output format input_delta output =
     for_fold (List.enumerate 0 (chunks CONTROL_CHUNK_SIZE output)) () (\<lambda>_ (index, chunk).
     and_then (stream_usize_add format ''decoder work accounting overflows'' (length chunk) 1) (\<lambda>work.
     and_then (if index = 0 then
         stream_usize_add format ''decoder work accounting overflows'' work input_delta
       else ok work) (\<lambda>work.
     and_then (usize_to_u64 work ''decoder work is not representable as u64'') checkpoint)))"

definition check_declared ::
    "string \<Rightarrow> u64 option \<Rightarrow> u64 \<Rightarrow> nat \<Rightarrow> extraction_control \<Rightarrow> unit op" where
  "check_declared format expected start_output len ctl =
     (case expected of None \<Rightarrow> ok ()
      | Some expected \<Rightarrow>
          and_then (stream_output_total ctl len) (\<lambda>next_total.
          and_then (ok_or (stream_format_error format ''frame output accounting underflows'')
            (checked_sub next_total start_output)) (\<lambda>frame_output.
          err_if (expected < frame_output)
            (stream_format_error format ''decoded frame exceeds its declared content size''))))"

text \<open>A read that succeeded: \<open>n\<close> bytes of the buffer, or the end.\<close>

definition pump_accept ::
    "'w sink \<Rightarrow> u64 option \<Rightarrow> string \<Rightarrow> u64 \<Rightarrow> nat \<Rightarrow> byte_slice \<Rightarrow> nat \<Rightarrow> 'd \<Rightarrow>
     'd pump_state \<Rightarrow> ('w, 'd pump_state \<times> bool) stream_op" where
  "pump_accept sink expected format start_output n buffer input_position d st =
     and_then (err_if (input_position < pm_charged st)
       (stream_format_error format ''decoder input accounting underflows'')) (\<lambda>_.
     let input_delta = input_position - pm_charged st;
         st = st\<lparr>pm_decoder := d, pm_consumed := input_position, pm_charged := input_position\<rparr>
     in if n = 0 then
          and_then (internal (stream_usize_add format ''decoder work accounting overflows''
            input_delta 1)) (\<lambda>work.
          and_then (internal (usize_to_u64 work ''decoder work is not representable as u64'')) (\<lambda>work.
          and_then (internal (checkpoint work)) (\<lambda>_. ok (st, True))))
        else
          and_then (ok_or (stream_format_error format ''decoder returned an invalid output length'')
            (slice_get buffer 0 n)) (\<lambda>bs.
          and_then (internal (charge_output format input_delta bs)) (\<lambda>_.
          and_then (internal (check_declared format expected start_output (length bs) (pm_control st)))
            (\<lambda>_.
          and_then (write_output sink bs (pm_control st)) (\<lambda>ctl.
          ok (st\<lparr>pm_control := ctl\<rparr>, False))))))"

definition pump_step ::
    "'w sink \<Rightarrow> 'd decoder \<Rightarrow> (io_error_kind \<times> string \<Rightarrow> bool) \<Rightarrow> u64 option \<Rightarrow> string \<Rightarrow> u64 \<Rightarrow>
     u64 \<Rightarrow> 'd pump_state \<times> bool \<Rightarrow> ('w, 'd pump_state \<times> bool) stream_op" where
  "pump_step sink dec is_checksum expected format frame_index start_output p =
     and_then (internal (checkpoint 0)) (\<lambda>_.
     and_then (internal (run_decoder dec (pm_decoder (fst p)))) (\<lambda>(answer, input_position, d).
     case answer of
       ReadFailed k m \<Rightarrow> internal (decoder_failure is_checksum format frame_index (k, m))
     | ReadPanicked \<Rightarrow> err (stream_format_error format ''decoder panicked on its frame'')
     | ReadOk n buffer \<Rightarrow>
         pump_accept sink expected format start_output n buffer input_position d (fst p)))"

lemma pump_step_cases:
  assumes "pump_step sink dec is_checksum expected format frame_index start_output p s = (Inr p', t)"
  obtains (finished) buffer position d u v where
      "run_decoder dec (pm_decoder (fst p)) u = (Inr (ReadOk 0 buffer, position, d), v)"
      "p' = ((fst p)\<lparr>pm_decoder := d, pm_consumed := position, pm_charged := position\<rparr>, True)"
      "snd t = snd s"
  | (produced) n buffer position d ctl u v w x where
      "run_decoder dec (pm_decoder (fst p)) u = (Inr (ReadOk n buffer, position, d), v)"
      "0 < n" "n \<le> length buffer"
      "write_output sink (take n buffer) (pm_control (fst p)) (x, snd s) = (Inr ctl, t)"
      "check_declared format expected start_output n (pm_control (fst p)) w = (Inr (), x)"
      "p' = ((fst p)\<lparr>pm_decoder := d, pm_consumed := position, pm_charged := position,
        pm_control := ctl\<rparr>, False)"
proof -
  from assms obtain answer position d u v where
    run: "run_decoder dec (pm_decoder (fst p)) u = (Inr (answer, position, d), v)"
    and rest: "(case answer of
       ReadFailed k m \<Rightarrow> internal (decoder_failure is_checksum format frame_index (k, m))
     | ReadPanicked \<Rightarrow> err (stream_format_error format ''decoder panicked on its frame'')
     | ReadOk n buffer \<Rightarrow>
         pump_accept sink expected format start_output n buffer position d (fst p)) (v, snd s) = (Inr p', t)"
    by (auto simp: pump_step_def success)
  show thesis
  proof (cases answer)
    case (ReadOk n buffer)
    show thesis
    proof (cases "n = 0")
      case True
      with rest ReadOk run finished show thesis
        by (auto simp: pump_accept_def success Let_def)
    next
      case False
      with rest ReadOk obtain ctl w x where
        "n \<le> length buffer"
        "write_output sink (take n buffer) (pm_control (fst p)) (x, snd s) = (Inr ctl, t)"
        "check_declared format expected start_output n (pm_control (fst p)) w = (Inr (), x)"
        "p' = ((fst p)\<lparr>pm_decoder := d, pm_consumed := position, pm_charged := position,
          pm_control := ctl\<rparr>, False)"
        by (auto simp: pump_accept_def success Let_def slice_get_eq_Some)
      with False ReadOk run produced show thesis by blast
    qed
  qed (use rest in \<open>auto simp: decoder_failure_def success split: if_splits\<close>)
qed

definition pump_left :: "'d pump_state \<times> bool \<Rightarrow> nat" where
  "pump_left p = (if snd p then 0 else Suc (2 ^ 64 - unat (ec_output_bytes (pm_control (fst p)))))"

lemma pump_step_left:
  assumes "pump_step sink dec is_checksum expected format frame_index start_output p s = (Inr p', t)"
    and "\<not> snd p"
  shows "pump_left p' < pump_left p"
  using assms(1)
proof (cases rule: pump_step_cases)
  case (produced n buffer position d ctl u v w x)
  from produced(4) have "unat (ec_output_bytes ctl) = unat (ec_output_bytes (pm_control (fst p))) + n"
    using produced(3) by (auto simp: write_output_def success stream_output_total_success)
  moreover have "unat (ec_output_bytes ctl) < 2 ^ 64" by simp
  ultimately show ?thesis using assms(2) produced(2,6) by (simp add: pump_left_def)
qed (use assms(2) in \<open>simp add: pump_left_def\<close>)

text \<open>The loop ends because every pass that goes on adds to a 64-bit count of output bytes.\<close>

function pump_loop ::
    "'w sink \<Rightarrow> 'd decoder \<Rightarrow> (io_error_kind \<times> string \<Rightarrow> bool) \<Rightarrow> u64 option \<Rightarrow> string \<Rightarrow> u64 \<Rightarrow>
     u64 \<Rightarrow> 'd pump_state \<times> bool \<Rightarrow> ('w, 'd pump_state \<times> bool) stream_op" where
  "pump_loop sink dec is_checksum expected format frame_index start_output p s =
     (if \<not> snd p then
        and_then (pump_step sink dec is_checksum expected format frame_index start_output p)
          (\<lambda>p s. pump_loop sink dec is_checksum expected format frame_index start_output p s) s
      else ok p s)"
  by pat_completeness auto
termination
  by (relation "measure (\<lambda>(sink, dec, is_checksum, expected, format, frame_index, start_output, p, s).
      pump_left p)")
    (auto dest: pump_step_left)

declare pump_loop.simps [simp del]

interpretation pumps: loop
  "pump_loop sink dec is_checksum expected format frame_index start_output" "\<lambda>p. \<not> snd p"
  "pump_step sink dec is_checksum expected format frame_index start_output" "\<lambda>p _. pump_left p"
  for sink :: "'w sink" and dec :: "'d decoder" and is_checksum expected format frame_index start_output
  by unfold_locales (subst pump_loop.simps, simp, blast dest: pump_step_left)

definition pump_reader ::
    "'w sink \<Rightarrow> 'd decoder \<Rightarrow> 'd \<Rightarrow> nat \<Rightarrow> (io_error_kind \<times> string \<Rightarrow> bool) \<Rightarrow> u64 option \<Rightarrow> string \<Rightarrow>
     u64 \<Rightarrow> extraction_control \<Rightarrow> ('w, 'd pump_state) stream_op" where
  "pump_reader sink dec d position is_checksum expected format frame_index ctl =
     (let start_output = ec_output_bytes ctl in
     and_then (pump_loop sink dec is_checksum expected format frame_index start_output
       (\<lparr>pm_decoder = d, pm_consumed = position, pm_charged = 0, pm_control = ctl\<rparr>, False))
       (\<lambda>(st, _).
     and_then (ok_or (stream_format_error format ''frame output accounting underflows'')
       (checked_sub (ec_output_bytes (pm_control st)) start_output)) (\<lambda>actual.
     and_then (err_if (case expected of None \<Rightarrow> False | Some n \<Rightarrow> n \<noteq> actual)
       (stream_format_error format ''decoded frame size does not match its declaration'')) (\<lambda>_.
     and_then (err_if (pm_consumed st \<noteq> pm_charged st)
       (stream_format_error format ''decoder input accounting is incomplete'')) (\<lambda>_.
     ok st)))))"



section \<open>What a pump delivers\<close>

text \<open>
  \<open>decoder_reads dec d bs n d'\<close>: from \<open>d\<close> on, the decoder's reads yield \<open>bs\<close> and then the end; its input
  has then reached \<open>n\<close>.
\<close>

inductive decoder_reads :: "'d decoder \<Rightarrow> 'd \<Rightarrow> byte_slice \<Rightarrow> nat \<Rightarrow> 'd \<Rightarrow> bool" for dec where
  reads_end: "dec d tok = (ReadOk 0 buffer, n, k, d') \<Longrightarrow> decoder_reads dec d [] n d'"
| reads_more:
    "dec d tok = (ReadOk m buffer, n, k, d') \<Longrightarrow> 0 < m \<Longrightarrow> m \<le> length buffer \<Longrightarrow>
       decoder_reads dec d' bs n' d'' \<Longrightarrow> decoder_reads dec d (take m buffer @ bs) n' d''"

lemma run_decoder_success:
  "run_decoder dec d s = (Inr (answer, n, d'), t) \<Longrightarrow> \<exists>tok k. dec d tok = (answer, n, k, d')"
  by (auto simp: run_decoder_def Let_def split: prod.splits)

text \<open>The output count stays within both limits, and the two other counts are untouched.\<close>

definition written_by :: "extraction_control \<Rightarrow> nat \<Rightarrow> extraction_control \<Rightarrow> bool" where
  "written_by ctl n ctl' \<longleftrightarrow> (\<exists>b.
     ctl' = ctl\<lparr>ec_output_bytes := b\<rparr> \<and> unat b = unat (ec_output_bytes ctl) + n \<and>
     (0 < n \<longrightarrow> b \<le> max_entry_output_bytes (ec_limits ctl) \<and>
       b \<le> max_total_output_bytes (ec_limits ctl)))"

lemma written_by_refl [simp]: "written_by ctl 0 ctl"
  by (auto simp: written_by_def intro: exI [of _ "ec_output_bytes ctl"])

lemma written_byD:
  "written_by ctl n ctl' \<Longrightarrow> ec_limits ctl' = ec_limits ctl \<and>
     ec_frames_decoded ctl' = ec_frames_decoded ctl \<and>
     ec_checksums_verified ctl' = ec_checksums_verified ctl \<and>
     unat (ec_output_bytes ctl') = unat (ec_output_bytes ctl) + n"
  by (auto simp: written_by_def)

lemma written_by_zero: "written_by ctl 0 ctl' \<Longrightarrow> ctl' = ctl"
  by (auto simp: written_by_def simp flip: word_unat_eq_iff)

lemma written_by_trans:
  "written_by ctl m ctl' \<Longrightarrow> written_by ctl' n ctl'' \<Longrightarrow> written_by ctl (m + n) ctl''"
proof (cases "n = 0")
  case True
  then show "written_by ctl m ctl' \<Longrightarrow> written_by ctl' n ctl'' \<Longrightarrow> ?thesis"
    using written_by_zero [of ctl' ctl''] by simp
qed (auto simp: written_by_def)

context output_sink
begin

lemma write_output_written:
  "write_output sink bytes ctl s = (Inr ctl', t) \<Longrightarrow>
     content (snd t) = content (snd s) @ bytes \<and> written_by ctl (length bytes) ctl'"
  by (auto simp: write_output_def success stream_output_total_success written_by_def
      dest!: sink_appends)

lemma pump_loop_delivers:
  assumes "pump_loop sink dec is_checksum expected format frame_index start_output p s = (Inr p', t)"
    and "\<not> snd p"
  shows "\<exists>bs. decoder_reads dec (pm_decoder (fst p)) bs (pm_consumed (fst p')) (pm_decoder (fst p')) \<and>
    content (snd t) = content (snd s) @ bs \<and>
    written_by (pm_control (fst p)) (length bs) (pm_control (fst p')) \<and>
    pm_charged (fst p') = pm_consumed (fst p')"
  using assms
proof (induction p s rule: pumps.loop_induct
    [of sink dec is_checksum expected format frame_index start_output])
  case (step p s)
  from step.prems obtain q u where
    first: "pump_step sink dec is_checksum expected format frame_index start_output p s = (Inr q, u)"
    and rest: "pump_loop sink dec is_checksum expected format frame_index start_output q u = (Inr p', t)"
    by (auto simp: pumps.loop_body success)
  from first show ?case
  proof (cases rule: pump_step_cases)
    case (finished buffer position d v w)
    from run_decoder_success [OF finished(1)] have "decoder_reads dec (pm_decoder (fst p)) [] position d"
      by (auto intro: reads_end)
    moreover have "p' = q" "t = u" using rest finished(2) by (simp_all add: pumps.loop_exit)
    ultimately show ?thesis using finished by (intro exI [of _ "[]"]) simp
  next
    case (produced n buffer position d ctl v w w' x)
    have "\<not> snd q" using produced(6) by simp
    from step.IH [OF _ first rest this] step.prems(2) produced(6) obtain bs where
      bs: "decoder_reads dec d bs (pm_consumed (fst p')) (pm_decoder (fst p'))"
        "content (snd t) = content (snd u) @ bs" "written_by ctl (length bs) (pm_control (fst p'))"
        "pm_charged (fst p') = pm_consumed (fst p')"
      by auto
    from run_decoder_success [OF produced(1)] produced(2,3) bs(1)
    have "decoder_reads dec (pm_decoder (fst p)) (take n buffer @ bs) (pm_consumed (fst p')) (pm_decoder (fst p'))"
      by (auto intro: reads_more)
    moreover from write_output_written [OF produced(4)] bs(2)
    have "content (snd t) = content (snd s) @ take n buffer @ bs" by simp
    moreover from written_by_trans [OF conjunct2 [OF write_output_written [OF produced(4)]] bs(3)]
    have "written_by (pm_control (fst p)) (length (take n buffer @ bs)) (pm_control (fst p'))" by simp
    ultimately show ?thesis using bs(4) by blast
  qed
qed

lemma pump_reader_delivers:
  assumes "pump_reader sink dec d n is_checksum expected format frame_index ctl s = (Inr st, t)"
  shows "\<exists>bs. decoder_reads dec d bs (pm_consumed st) (pm_decoder st) \<and>
    content (snd t) = content (snd s) @ bs \<and> written_by ctl (length bs) (pm_control st) \<and>
    (case expected of None \<Rightarrow> True | Some len \<Rightarrow> unat len = length bs)"
proof -
  from assms obtain stop u actual where
    loop: "pump_loop sink dec is_checksum expected format frame_index (ec_output_bytes ctl)
      (\<lparr>pm_decoder = d, pm_consumed = n, pm_charged = 0, pm_control = ctl\<rparr>, False) s = (Inr (st, stop), u)"
    and t: "t = u"
    and actual: "checked_sub (ec_output_bytes (pm_control st)) (ec_output_bytes ctl) = Some actual"
    and size: "\<not> (case expected of None \<Rightarrow> False | Some n \<Rightarrow> n \<noteq> actual)"
    unfolding pump_reader_def Let_def by (clarsimp simp: success)
  from actual have "unat actual = unat (ec_output_bytes (pm_control st)) - unat (ec_output_bytes ctl)"
    by (simp add: checked_sub_eq_Some)
  with pump_loop_delivers [OF loop] t size show ?thesis
    by (auto dest: written_byD split: option.splits)
qed

end

end
