(* ===== verification/Unix_Compress.thy ===== *)
theory Unix_Compress
  imports Stream_Control
begin

text \<open>
  \<^verbatim>\<open>stream/unix_compress.rs\<close>: the header of a \<open>.Z\<close> file, the reader of variable-width codes, the
  output buffer and the LZW decoder with its tables of prefixes and suffixes.
\<close>

definition HEADER_BYTES :: nat where "HEADER_BYTES = 3"
definition INITIAL_CODE_BITS :: u8 where "INITIAL_CODE_BITS = 9"
definition CLEAR_CODE :: u16 where "CLEAR_CODE = 256"
definition FIRST_BLOCK_CODE :: u32 where "FIRST_BLOCK_CODE = 257"
definition FIRST_PLAIN_CODE :: u32 where "FIRST_PLAIN_CODE = 256"
definition MINIMUM_CODE_BITS :: u8 where "MINIMUM_CODE_BITS = 9"
definition MAXIMUM_CODE_BITS :: u8 where "MAXIMUM_CODE_BITS = 16"
definition BLOCK_MODE_FLAG :: u8 where "BLOCK_MODE_FLAG = 0x80"
definition RESERVED_FLAGS :: u8 where "RESERVED_FLAGS = 0x60"
definition CODE_BITS_MASK :: u8 where "CODE_BITS_MASK = 0x1f"

record unix_compress_stream_info =
  ui_maximum_code_bits :: u8
  ui_block_mode :: bool
  ui_dictionary_bytes :: u64

record unix_compress_layout =
  ul_maximum_code_bits :: u8
  ul_block_mode :: bool
  ul_dictionary_entries :: nat
  ul_dictionary_bytes :: u64

abbreviation uc_error :: "string \<Rightarrow> error" where
  "uc_error detail \<equiv> stream_format_error ''unix-compress'' detail"

text \<open>Checked \<open>usize\<close> arithmetic with the error its caller gives.\<close>

definition uc_add :: "string \<Rightarrow> nat \<Rightarrow> nat \<Rightarrow> nat op" where
  "uc_add detail a b = stream_usize_add ''unix-compress'' detail a b"

definition uc_mul :: "string \<Rightarrow> nat \<Rightarrow> nat \<Rightarrow> nat op" where
  "uc_mul detail a b =
     and_then (gets (\<lambda>s. usize_max (machine s))) (\<lambda>maximum.
     and_then (err_if (maximum < a * b) (uc_error detail)) (\<lambda>_. ok (a * b)))"

definition uc_sub :: "string \<Rightarrow> nat \<Rightarrow> nat \<Rightarrow> ('s, nat) comp" where
  "uc_sub detail a b = (if b \<le> a then ok (a - b) else err (uc_error detail))"


section \<open>Header\<close>

text \<open>\<open>1_usize.checked_shl(bits)\<close>: the bit has to fit the width of \<open>usize\<close>.\<close>

definition dictionary_size :: "u8 \<Rightarrow> nat op" where
  "dictionary_size bits =
     and_then (gets (\<lambda>s. usize_max (machine s))) (\<lambda>maximum.
     and_then (err_if (maximum < 2 ^ unat bits) (uc_error ''dictionary size overflows'')) (\<lambda>_.
     ok (2 ^ unat bits)))"

definition unix_compress_parse ::
    "byte_slice \<Rightarrow> limits \<Rightarrow> (unix_compress_stream_info \<times> unix_compress_layout) op" where
  "unix_compress_parse input limits =
     and_then (ok_or (uc_error ''header is truncated'') (slice_get input 0 HEADER_BYTES)) (\<lambda>header.
     and_then (err_if (slice_get header 0 (length UNIX_COMPRESS_MAGIC) \<noteq> Some UNIX_COMPRESS_MAGIC)
       (uc_error ''magic does not match'')) (\<lambda>_.
     and_then (check_frame_count 1 limits) (\<lambda>_.
     and_then (ok_or (uc_error ''flags byte is truncated'') (item_get header 2)) (\<lambda>flags.
     and_then (err_if (flags AND RESERVED_FLAGS \<noteq> 0)
       (uc_error ''reserved header flags are set'')) (\<lambda>_.
     let maximum_code_bits = flags AND CODE_BITS_MASK in
     and_then (err_if (\<not> (MINIMUM_CODE_BITS \<le> maximum_code_bits \<and> maximum_code_bits \<le> MAXIMUM_CODE_BITS))
       (uc_error ''maximum code width is outside 9 through 16 bits'')) (\<lambda>_.
     and_then (dictionary_size maximum_code_bits) (\<lambda>dictionary_entries.
     and_then (uc_add ''dictionary entry size overflows'' 2 1) (\<lambda>bytes.
     and_then (uc_add ''dictionary entry size overflows'' bytes 1) (\<lambda>bytes_per_entry.
     and_then (uc_mul ''dictionary byte size overflows'' dictionary_entries bytes_per_entry)
       (\<lambda>dictionary_bytes.
     and_then (err_if (2 ^ 64 \<le> dictionary_bytes)
       (uc_error ''dictionary byte size is not representable as u64'')) (\<lambda>_.
     let dictionary_bytes = of_nat dictionary_bytes :: u64 in
     and_then (check_limit dictionary_bytes (max_dictionary_bytes limits) DictionaryBytes) (\<lambda>_.
     let block_mode = (flags AND BLOCK_MODE_FLAG \<noteq> 0) in
     ok (\<lparr>ui_maximum_code_bits = maximum_code_bits, ui_block_mode = block_mode,
          ui_dictionary_bytes = dictionary_bytes\<rparr>,
         \<lparr>ul_maximum_code_bits = maximum_code_bits, ul_block_mode = block_mode,
          ul_dictionary_entries = dictionary_entries, ul_dictionary_bytes = dictionary_bytes\<rparr>)))))))))))))"


section \<open>The code reader\<close>

record code_reader =
  cr_input :: byte_slice
  cr_position :: nat
  cr_group_start :: nat
  cr_group_length :: nat
  cr_bit_offset :: nat
  cr_valid_bits :: nat

definition code_reader_new :: "byte_slice \<Rightarrow> code_reader" where
  "code_reader_new input =
     \<lparr>cr_input = input, cr_position = 0, cr_group_start = 0, cr_group_length = 0,
      cr_bit_offset = 0, cr_valid_bits = 0\<rparr>"

text \<open>A new group of as many bytes as a code has bits; \<open>False\<close> when no complete code is left.\<close>

definition refill :: "nat \<Rightarrow> code_reader \<Rightarrow> (bool \<times> code_reader) op" where
  "refill width r =
     and_then (ok_or (uc_error ''code-reader position is out of range'')
       (slice_get (cr_input r) (cr_position r) (length (cr_input r)))) (\<lambda>rest.
     if rest = [] then ok (False, r)
     else
       let group_length = min (length rest) width in
       and_then (uc_add ''code-reader position overflows'' (cr_position r) group_length) (\<lambda>position.
       and_then (uc_mul ''code group bit count overflows'' group_length 8) (\<lambda>group_bits.
       and_then (err_if (width = 0) (uc_error ''code width is zero'')) (\<lambda>_.
       let complete_codes = group_bits div width in
       and_then (uc_mul ''valid code bit count overflows'' complete_codes width) (\<lambda>valid_bits.
       ok (complete_codes \<noteq> 0,
           r\<lparr>cr_group_start := cr_position r, cr_group_length := group_length,
             cr_position := position, cr_valid_bits := valid_bits, cr_bit_offset := 0\<rparr>))))))"

definition window_step :: "u32 \<Rightarrow> nat \<times> u8 \<Rightarrow> u32 op" where
  "window_step window p =
     and_then (ok_or (uc_error ''encoded byte shift overflows'')
       (if 8 * fst p < 2 ^ 32 then Some (8 * fst p) else None)) (\<lambda>shift.
     and_then (ok_or (uc_error ''encoded code window overflows'')
       (checked_shl (ucast (snd p) :: u32) shift)) (\<lambda>shifted.
     ok (window OR shifted)))"

definition code_window :: "byte_slice \<Rightarrow> u32 op" where
  "code_window encoded = for_fold (List.enumerate 0 encoded) 0 window_step"

text \<open>The code at the current bit of the group.\<close>

definition extract_code :: "nat \<Rightarrow> code_reader \<Rightarrow> (u16 option \<times> code_reader) op" where
  "extract_code width r =
     and_then (uc_add ''code group range overflows'' (cr_group_start r) (cr_group_length r))
       (\<lambda>group_end.
     and_then (ok_or (uc_error ''code group is unavailable'')
       (slice_get (cr_input r) (cr_group_start r) group_end)) (\<lambda>group.
     and_then (uc_add ''code bit range overflows'' (cr_bit_offset r) width) (\<lambda>end_bit.
     and_then (uc_sub ''code bit range overflows'' end_bit 1) (\<lambda>final_bit.
     let first_byte = cr_bit_offset r div 8;
         final_byte = final_bit div 8
     in and_then (uc_add ''encoded byte range overflows'' final_byte 1) (\<lambda>encoded_end.
        and_then (ok_or (uc_error ''encoded code is truncated'')
          (slice_get group first_byte encoded_end)) (\<lambda>encoded.
        and_then (code_window encoded) (\<lambda>window.
        let bit_in_byte = cr_bit_offset r mod 8 in
        and_then (ok_or (uc_error ''code mask overflows'')
          (Option.bind (checked_shl (1 :: u32) width) (\<lambda>v. checked_sub v 1))) (\<lambda>code_mask.
        let value = drop_bit bit_in_byte window AND code_mask in
        and_then (uc_add ''code bit offset overflows'' (cr_bit_offset r) width) (\<lambda>bit_offset.
        and_then (ok_or (uc_error ''decoded code is not representable'') (narrow value)) (\<lambda>value.
        ok (Some value, r\<lparr>cr_bit_offset := bit_offset\<rparr>)))))))))))"

definition next_code :: "u8 \<Rightarrow> bool \<Rightarrow> code_reader \<Rightarrow> (u16 option \<times> code_reader) op" where
  "next_code width force_refill r =
     (let width = unat width
      in if force_refill \<or> cr_valid_bits r \<le> cr_bit_offset r then
           and_then (refill width r) (\<lambda>(complete, r).
           if complete then extract_code width r else ok (None, r))
         else extract_code width r)"


section \<open>The output buffer\<close>

text \<open>
  The array, how many of its bytes wait to be written, and the control.  The array is of type
  \<open>[u8; IO_CHUNK_SIZE]\<close>, so that \<open>output.len()\<close> is a constant.
\<close>

record uc_output =
  uo_array :: byte_slice
  uo_length :: nat
  uo_control :: extraction_control

definition flush_output :: "'w sink \<Rightarrow> uc_output \<Rightarrow> ('w, uc_output) stream_op" where
  "flush_output sink out =
     (if uo_length out = 0 then ok out
      else
        and_then (ok_or (uc_error ''output buffer range is invalid'')
          (slice_get (uo_array out) 0 (uo_length out))) (\<lambda>bytes.
        and_then (write_output sink bytes (uo_control out)) (\<lambda>ctl.
        ok (out\<lparr>uo_control := ctl, uo_length := 0\<rparr>))))"

text \<open>\<open>count\<close> bytes from \<open>position\<close> on go into the array, which is written when it is full.\<close>

definition buffer_copy ::
    "'w sink \<Rightarrow> byte_slice \<Rightarrow> nat \<Rightarrow> nat \<Rightarrow> uc_output \<Rightarrow> ('w, nat \<times> uc_output) stream_op" where
  "buffer_copy sink bytes count position out =
     and_then (internal (uc_add ''output source range overflows'' position count)) (\<lambda>source_end.
     and_then (internal (uc_add ''output destination range overflows'' (uo_length out) count))
       (\<lambda>destination_end.
     and_then (internal (stream_output_total (uo_control out) destination_end)) (\<lambda>_.
     and_then (ok_or (uc_error ''output source range is invalid'')
       (slice_get bytes position source_end)) (\<lambda>source.
     and_then (err_if (IO_CHUNK_SIZE < destination_end)
       (uc_error ''output destination range is invalid'')) (\<lambda>_.
     let out = out\<lparr>uo_array := overwrite (uo_array out) (uo_length out) source\<rparr> in
     and_then (internal (usize_to_u64 count
       ''Unix compress output chunk is not representable as u64'')) (\<lambda>work.
     and_then (internal (checkpoint work)) (\<lambda>_.
     let out = out\<lparr>uo_length := destination_end\<rparr>
     in if destination_end = IO_CHUNK_SIZE
        then and_then (flush_output sink out) (\<lambda>out. ok (source_end, out))
        else ok (source_end, out))))))))"

definition buffer_step ::
    "'w sink \<Rightarrow> byte_slice \<Rightarrow> nat \<times> uc_output \<Rightarrow> ('w, nat \<times> uc_output) stream_op" where
  "buffer_step sink bytes p =
     (let position = fst p; out = snd p in
     and_then (uc_sub ''output buffer length is invalid'' IO_CHUNK_SIZE (uo_length out))
       (\<lambda>available.
     and_then (uc_sub ''output position exceeds its source'' (length bytes) position) (\<lambda>rest.
     let count = min (min rest available) CONTROL_CHUNK_SIZE in
     if count = 0 then and_then (flush_output sink out) (\<lambda>out. ok (position, out))
     else buffer_copy sink bytes count position out)))"

definition buffer_left :: "byte_slice \<Rightarrow> nat \<times> uc_output \<Rightarrow> nat" where
  "buffer_left bytes p = 2 * (length bytes - fst p) + (if uo_length (snd p) = 0 then 0 else 1)"

lemma flush_output_success:
  "flush_output sink out s = (Inr out', t) \<Longrightarrow> uo_length out' = 0 \<and> uo_array out' = uo_array out"
  by (auto simp: flush_output_def success split: if_splits)

lemma uc_add_success [success]:
  "uc_add d a b s = (Inr c, t) \<longleftrightarrow> c = a + b \<and> a + b \<le> usize_max (machine s) \<and> t = s"
  by (auto simp: uc_add_def stream_usize_add_def success)

lemma uc_mul_success [success]:
  "uc_mul d a b s = (Inr c, t) \<longleftrightarrow> c = a * b \<and> a * b \<le> usize_max (machine s) \<and> t = s"
  by (auto simp: uc_mul_def success)

lemma uc_sub_success [success]: "uc_sub d a b s = (Inr c, t) \<longleftrightarrow> b \<le> a \<and> c = a - b \<and> t = s"
  by (auto simp: uc_sub_def success)

lemma buffer_copy_moves:
  "buffer_copy sink bytes count position out s = (Inr p', t) \<Longrightarrow>
     fst p' = position + count \<and> fst p' \<le> length bytes"
  by (auto simp: buffer_copy_def success Let_def slice_get_eq_Some split: if_splits)

text \<open>A pass moves on in the source or empties a full buffer.\<close>

lemma buffer_step_left:
  assumes "buffer_step sink bytes p s = (Inr p', t)" and "fst p < length bytes"
  shows "buffer_left bytes p' < buffer_left bytes p"
proof (cases "uo_length (snd p) = IO_CHUNK_SIZE")
  case True
  with assms(1) have "fst p' = fst p" "uo_length (snd p') = 0"
    by (auto simp: buffer_step_def success Let_def dest!: flush_output_success)
  with True show ?thesis by (simp add: buffer_left_def IO_CHUNK_SIZE_def)
next
  case False
  define count where
    "count = min (min (length bytes - fst p) (IO_CHUNK_SIZE - uo_length (snd p))) CONTROL_CHUNK_SIZE"
  from assms(1) have "uo_length (snd p) \<le> IO_CHUNK_SIZE"
    by (auto simp: buffer_step_def success Let_def)
  with False assms(2) have "0 < count" by (simp add: count_def CONTROL_CHUNK_SIZE_def)
  with assms(1) have "buffer_copy sink bytes count (fst p) (snd p) s = (Inr p', t)"
    by (auto simp: buffer_step_def success Let_def count_def [symmetric])
  from buffer_copy_moves [OF this] \<open>0 < count\<close> show ?thesis by (auto simp: buffer_left_def)
qed

function buffer_loop ::
    "'w sink \<Rightarrow> byte_slice \<Rightarrow> nat \<times> uc_output \<Rightarrow> ('w, nat \<times> uc_output) stream_op" where
  "buffer_loop sink bytes p s =
     (if fst p < length bytes then
        and_then (buffer_step sink bytes p) (\<lambda>p s. buffer_loop sink bytes p s) s
      else ok p s)"
  by pat_completeness auto
termination
  by (relation "measure (\<lambda>(sink, bytes, p, s). buffer_left bytes p)") (auto dest: buffer_step_left)

declare buffer_loop.simps [simp del]

interpretation buffering: loop "buffer_loop sink bytes" "\<lambda>p. fst p < length bytes"
  "buffer_step sink bytes" "\<lambda>p _. buffer_left bytes p" for sink :: "'w sink" and bytes
  by unfold_locales (subst buffer_loop.simps, simp, blast dest: buffer_step_left)

definition buffer_output :: "'w sink \<Rightarrow> byte_slice \<Rightarrow> uc_output \<Rightarrow> ('w, uc_output) stream_op" where
  "buffer_output sink bytes out =
     and_then (buffer_loop sink bytes (0, out)) (\<lambda>(_, out). ok out)"

text \<open>\<open>write_reversed\<close>: the expansion is emptied afterwards.\<close>

definition write_reversed ::
    "'w sink \<Rightarrow> byte_slice \<Rightarrow> uc_output \<Rightarrow> ('w, byte_slice \<times> uc_output) stream_op" where
  "write_reversed sink expansion out =
     and_then (buffer_output sink (rev expansion) out) (\<lambda>out. ok ([], out))"


section \<open>The decoder\<close>

definition maximum_code_for_width :: "u8 \<Rightarrow> u8 \<Rightarrow> ('s, u32) comp" where
  "maximum_code_for_width width maximum_width =
     and_then (ok_or (uc_error ''code-width shift overflows'')
       (checked_shl (1 :: u32) (unat width))) (\<lambda>codes.
     if width = maximum_width then ok codes
     else ok_or (uc_error ''maximum code underflows'') (checked_sub codes 1))"

definition fallible_filled_vec :: "nat \<Rightarrow> 'a \<Rightarrow> 'a list op" where
  "fallible_filled_vec len value =
     and_then (grow ''Unix compress dictionary allocation failed'' len 0 0) (\<lambda>_.
     ok (replicate len value))"

text \<open>\<open>values.get_mut(i)\<close> and the assignment through it.\<close>

definition item_set :: "'a list \<Rightarrow> nat \<Rightarrow> 'a \<Rightarrow> 'a list option" where
  "item_set xs i v = (if i < length xs then Some (xs[i := v]) else None)"

lemma item_set_eq_Some: "item_set xs i v = Some ys \<longleftrightarrow> i < length xs \<and> ys = xs[i := v]"
  by (auto simp: item_set_def)

definition fill_literals :: "u8 list \<Rightarrow> u8 list op" where
  "fill_literals suffixes =
     for_fold [0..<256] suffixes (\<lambda>suffixes literal.
     and_then (err_if (\<not> literal < length suffixes)
       (uc_error ''literal table index is unavailable'')) (\<lambda>_.
     and_then (ok_or (uc_error ''literal value is not representable'')
       (narrow (of_nat literal :: u16))) (\<lambda>byte.
     ok (suffixes[literal := byte]))))"

record lzw_state =
  lz_prefixes :: "u16 list"
  lz_suffixes :: "u8 list"
  lz_code_bits :: u8
  lz_maximum_current_code :: u32
  lz_next_code :: u32
  lz_previous_code :: "u16 option"
  lz_first_character :: u8
  lz_reader :: code_reader
  lz_force_refill :: bool
  lz_output :: uc_output

text \<open>
  One link of the prefix chain: the code, the expansion so far and the number of links followed.
\<close>

definition expand_step ::
    "nat \<Rightarrow> u32 \<Rightarrow> u16 list \<Rightarrow> u8 list \<Rightarrow> u16 \<times> byte_slice \<times> nat \<Rightarrow>
     (u16 \<times> byte_slice \<times> nat) op" where
  "expand_step dictionary_entries next prefixes suffixes p =
     (case p of (code, expansion, traversed) \<Rightarrow>
     and_then (checkpoint 1) (\<lambda>_.
     and_then (uc_add ''dictionary traversal count overflows'' traversed 1) (\<lambda>traversed.
     and_then (err_if (dictionary_entries < traversed)
       (uc_error ''dictionary prefix chain contains a cycle'')) (\<lambda>_.
     let index = unat code in
     and_then (err_if (next \<le> ucast code)
       (uc_error ''dictionary prefix references an unavailable code'')) (\<lambda>_.
     and_then (ok_or (uc_error ''dictionary suffix is unavailable'') (item_get suffixes index))
       (\<lambda>suffix.
     and_then (ok_or (uc_error ''dictionary prefix is unavailable'') (item_get prefixes index))
       (\<lambda>code.
     ok (code, expansion @ [suffix], traversed))))))))"

definition expands :: "u16 \<times> byte_slice \<times> nat \<Rightarrow> bool" where
  "expands p \<longleftrightarrow> 0xFF < (ucast (fst p) :: u32)"

lemma expand_step_left:
  "expand_step n next prefixes suffixes p s = (Inr p', t) \<Longrightarrow>
     Suc n - snd (snd p') < Suc n - snd (snd p)"
  by (auto simp: expand_step_def success Let_def split: prod.splits)

function expand_loop ::
    "nat \<Rightarrow> u32 \<Rightarrow> u16 list \<Rightarrow> u8 list \<Rightarrow> u16 \<times> byte_slice \<times> nat \<Rightarrow>
     (u16 \<times> byte_slice \<times> nat) op" where
  "expand_loop n next prefixes suffixes p s =
     (if expands p then
        and_then (expand_step n next prefixes suffixes p)
          (\<lambda>p s. expand_loop n next prefixes suffixes p s) s
      else ok p s)"
  by pat_completeness auto
termination
  by (relation "measure (\<lambda>(n, next, prefixes, suffixes, p, s). Suc n - snd (snd p))")
    (auto dest: expand_step_left)

declare expand_loop.simps [simp del]

interpretation expansions: loop "expand_loop n next prefixes suffixes" expands
  "expand_step n next prefixes suffixes" "\<lambda>p _. Suc n - snd (snd p)"
  for n "next" prefixes suffixes
  by unfold_locales (subst expand_loop.simps, simp, blast dest: expand_step_left)


text \<open>Growing the code width when the codes of the current one are used up.\<close>

definition widen :: "u8 \<Rightarrow> lzw_state \<Rightarrow> lzw_state op" where
  "widen maximum_code_bits st =
     (if lz_maximum_current_code st < lz_next_code st \<and> lz_code_bits st < maximum_code_bits then
        and_then (ok_or (uc_error ''code width overflows'') (checked_add (lz_code_bits st) 1))
          (\<lambda>code_bits.
        and_then (maximum_code_for_width code_bits maximum_code_bits) (\<lambda>maximum_current_code.
        ok (st\<lparr>lz_code_bits := code_bits, lz_maximum_current_code := maximum_current_code,
               lz_force_refill := True\<rparr>)))
      else ok st)"

definition reset_dictionary :: "u8 \<Rightarrow> lzw_state \<Rightarrow> lzw_state op" where
  "reset_dictionary maximum_code_bits st =
     and_then (maximum_code_for_width INITIAL_CODE_BITS maximum_code_bits) (\<lambda>maximum_current_code.
     ok (st\<lparr>lz_code_bits := INITIAL_CODE_BITS, lz_maximum_current_code := maximum_current_code,
            lz_next_code := FIRST_BLOCK_CODE, lz_previous_code := None, lz_force_refill := True\<rparr>))"

definition first_code :: "'w sink \<Rightarrow> u16 \<Rightarrow> lzw_state \<Rightarrow> ('w, lzw_state) stream_op" where
  "first_code sink encoded_code st =
     and_then (err_if (0xFF < (ucast encoded_code :: u32))
       (uc_error ''first code after reset is not a literal'')) (\<lambda>_.
     and_then (ok_or (uc_error ''literal code is not representable'') (narrow encoded_code)) (\<lambda>literal.
     and_then (buffer_output sink [literal] (lz_output st)) (\<lambda>out.
     ok (st\<lparr>lz_output := out, lz_first_character := literal, lz_previous_code := Some encoded_code\<rparr>))))"

text \<open>The new entry: the previous string and the first character of this one.\<close>

definition add_entry :: "u32 \<Rightarrow> u16 \<Rightarrow> lzw_state \<Rightarrow> lzw_state op" where
  "add_entry maximum_codes previous st =
     (if lz_next_code st < maximum_codes then
        let index = unat (lz_next_code st) in
        and_then (gets (\<lambda>s. usize_max (machine s))) (\<lambda>maximum.
        and_then (err_if (maximum < index) (uc_error ''next code is not representable'')) (\<lambda>_.
        and_then (ok_or (uc_error ''next dictionary prefix is unavailable'')
          (item_set (lz_prefixes st) index previous)) (\<lambda>prefixes.
        and_then (ok_or (uc_error ''next dictionary suffix is unavailable'')
          (item_set (lz_suffixes st) index (lz_first_character st))) (\<lambda>suffixes.
        and_then (ok_or (uc_error ''next dictionary code overflows'')
          (checked_add (lz_next_code st) 1)) (\<lambda>next_code.
        ok (st\<lparr>lz_prefixes := prefixes, lz_suffixes := suffixes, lz_next_code := next_code\<rparr>))))))
      else ok st)"

text \<open>
  Where the expansion of a code starts: a code that is about to be added is the previous string and
  its first character once more.
\<close>

definition start_code :: "u16 \<Rightarrow> u16 \<Rightarrow> lzw_state \<Rightarrow> ('s, u16 \<times> byte_slice) comp" where
  "start_code encoded_code previous st =
     (if ucast encoded_code = lz_next_code st then ok (previous, [lz_first_character st])
      else and_then (err_if (lz_next_code st < ucast encoded_code)
        (uc_error ''code references an uninitialized dictionary entry'')) (\<lambda>_.
        ok (encoded_code, [])))"

definition finish_code ::
    "'w sink \<Rightarrow> u32 \<Rightarrow> u16 \<Rightarrow> u16 \<Rightarrow> lzw_state \<Rightarrow> u16 \<Rightarrow> byte_slice \<Rightarrow> ('w, lzw_state) stream_op" where
  "finish_code sink maximum_codes encoded_code previous st code expansion =
     and_then (ok_or (uc_error ''expanded literal is not representable'') (narrow code))
       (\<lambda>first_character.
     let expansion = expansion @ [first_character] in
     and_then (write_reversed sink expansion (lz_output st)) (\<lambda>(_, out).
     and_then (internal (add_entry maximum_codes previous
       (st\<lparr>lz_first_character := first_character, lz_output := out\<rparr>))) (\<lambda>st.
     ok (st\<lparr>lz_previous_code := Some encoded_code\<rparr>))))"

definition later_code ::
    "'w sink \<Rightarrow> nat \<Rightarrow> u32 \<Rightarrow> u16 \<Rightarrow> u16 \<Rightarrow> lzw_state \<Rightarrow> ('w, lzw_state) stream_op" where
  "later_code sink dictionary_entries maximum_codes encoded_code previous st =
     and_then (start_code encoded_code previous st) (\<lambda>(code, expansion).
     and_then (internal (expand_loop dictionary_entries (lz_next_code st) (lz_prefixes st)
       (lz_suffixes st) (code, expansion, 0))) (\<lambda>(code, expansion, _).
     finish_code sink maximum_codes encoded_code previous st code expansion))"

definition handle_code ::
    "'w sink \<Rightarrow> u8 \<Rightarrow> bool \<Rightarrow> nat \<Rightarrow> u32 \<Rightarrow> u16 \<Rightarrow> lzw_state \<Rightarrow> ('w, lzw_state) stream_op" where
  "handle_code sink maximum_code_bits block_mode dictionary_entries maximum_codes encoded_code st =
     (if block_mode \<and> encoded_code = CLEAR_CODE then internal (reset_dictionary maximum_code_bits st)
      else case lz_previous_code st of
          None \<Rightarrow> first_code sink encoded_code st
        | Some previous \<Rightarrow> later_code sink dictionary_entries maximum_codes encoded_code previous st)"

definition lzw_step ::
    "'w sink \<Rightarrow> u8 \<Rightarrow> bool \<Rightarrow> nat \<Rightarrow> u32 \<Rightarrow> lzw_state \<times> bool \<Rightarrow> ('w, lzw_state \<times> bool) stream_op" where
  "lzw_step sink maximum_code_bits block_mode dictionary_entries maximum_codes p =
     and_then (internal (checkpoint 1)) (\<lambda>_.
     and_then (internal (widen maximum_code_bits (fst p))) (\<lambda>st.
     and_then (internal (next_code (lz_code_bits st) (lz_force_refill st) (lz_reader st)))
       (\<lambda>(encoded, r).
     case encoded of
       None \<Rightarrow> ok (st\<lparr>lz_reader := r\<rparr>, True)
     | Some encoded_code \<Rightarrow>
         and_then (handle_code sink maximum_code_bits block_mode dictionary_entries maximum_codes
           encoded_code (st\<lparr>lz_reader := r, lz_force_refill := False\<rparr>)) (\<lambda>st.
         ok (st, False)))))"


section \<open>The loop over the codes\<close>

text \<open>Every code takes its bits from the input.\<close>

definition bits_left :: "code_reader \<Rightarrow> nat" where
  "bits_left r =
     8 * (length (cr_input r) - cr_position r) + (cr_valid_bits r - cr_bit_offset r)"

lemma extract_code_moves:
  "extract_code width r s = (Inr (v, r'), t) \<Longrightarrow>
     r' = r\<lparr>cr_bit_offset := cr_bit_offset r + width\<rparr> \<and> (\<exists>c. v = Some c)"
  by (auto simp: extract_code_def success Let_def)

lemma refill_moves:
  assumes "refill width r s = (Inr (True, r'), t)"
  shows "0 < width \<and> width \<le> cr_valid_bits r' \<and> cr_bit_offset r' = 0 \<and> bits_left r' \<le> bits_left r"
proof -
  define g where "g = min (length (cr_input r) - cr_position r) width"
  define valid where "valid = g * 8 div width * width"
  from assms have r': "r' = r\<lparr>cr_group_start := cr_position r, cr_group_length := g,
      cr_position := cr_position r + g, cr_valid_bits := valid, cr_bit_offset := 0\<rparr>"
    and w: "0 < width" and some: "g * 8 div width \<noteq> 0"
    by (auto simp: refill_def success Let_def slice_get_eq_Some g_def valid_def)
  have "g \<le> length (cr_input r) - cr_position r" by (simp add: g_def)
  moreover have "valid \<le> g * 8" unfolding valid_def by (rule div_times_less_eq_dividend)
  moreover have "width \<le> valid"
    using mult_le_mono1 [of 1 "g * 8 div width" width] some by (simp add: valid_def)
  ultimately show ?thesis
    using w by (simp add: r' bits_left_def)
qed

lemma next_code_moves:
  assumes "next_code width force_refill r s = (Inr (Some c, r'), t)" and "width \<noteq> 0"
  shows "bits_left r' < bits_left r"
proof -
  let ?w = "unat width"
  have w: "0 < ?w" using assms(2) by (simp add: unat_gt_0)
  show ?thesis
  proof (cases "force_refill \<or> cr_valid_bits r \<le> cr_bit_offset r")
    case True
    with assms(1) obtain q u where q: "refill ?w r s = (Inr (True, q), u)"
      and ex: "extract_code ?w q u = (Inr (Some c, r'), t)"
      by (auto simp: next_code_def success Let_def split: if_splits)
    from refill_moves [OF q] extract_code_moves [OF ex] w show ?thesis
      by (auto simp: bits_left_def)
  next
    case False
    with assms(1) have "extract_code ?w r s = (Inr (Some c, r'), t)"
      by (simp add: next_code_def Let_def)
    from extract_code_moves [OF this] False w show ?thesis by (auto simp: bits_left_def)
  qed
qed

lemma widen_success:
  "widen m st s = (Inr st', t) \<Longrightarrow> t = s \<and> lz_reader st' = lz_reader st \<and>
     (lz_code_bits st \<noteq> 0 \<longrightarrow> lz_code_bits st' \<noteq> 0)"
  by (auto simp: widen_def maximum_code_for_width_def success checked_add_eq_Some unat_eq_zero split: if_splits)

definition lzw_left :: "lzw_state \<times> bool \<Rightarrow> nat" where
  "lzw_left p = (if snd p then 0 else Suc (bits_left (lz_reader (fst p))))"

text \<open>A code has at least one bit: the width starts at nine and only grows or returns to nine.\<close>

definition lzw_running :: "lzw_state \<times> bool \<Rightarrow> bool" where
  "lzw_running p \<longleftrightarrow> \<not> snd p \<and> lz_code_bits (fst p) \<noteq> 0"


lemma lzw_step_next:
  assumes "lzw_step sink maxbits block n maximum_codes p s = (Inr p', t)" and "\<not> snd p'"
  shows "\<exists>st c r u v w. widen maxbits (fst p) u = (Inr st, v) \<and>
    next_code (lz_code_bits st) (lz_force_refill st) (lz_reader st) v = (Inr (Some c, r), w) \<and>
    lz_reader (fst p') = r"
proof -
  from assms(1) obtain st e r u v w x where
    widen: "widen maxbits (fst p) u = (Inr st, v)"
    and code: "next_code (lz_code_bits st) (lz_force_refill st) (lz_reader st) v = (Inr (e, r), w)"
    and rest: "(case e of None \<Rightarrow> ok (st\<lparr>lz_reader := r\<rparr>, True)
     | Some c \<Rightarrow> and_then (handle_code sink maxbits block n maximum_codes c
         (st\<lparr>lz_reader := r, lz_force_refill := False\<rparr>)) (\<lambda>st. ok (st, False))) x = (Inr p', t)"
    by (auto simp: lzw_step_def success)
  have "\<exists>c. e = Some c \<and> lz_reader (fst p') = r"
    using rest assms(2)
    by (auto simp: success handle_code_def Let_def reset_dictionary_def first_code_def later_code_def
        finish_code_def add_entry_def split: option.splits if_splits prod.splits)
  with widen code show ?thesis by blast
qed

lemma lzw_step_left:
  assumes "lzw_step sink maxbits block n maximum_codes p s = (Inr p', t)" and "lzw_running p"
  shows "lzw_left p' < lzw_left p"
proof (cases "snd p'")
  case False
  from lzw_step_next [OF assms(1) this] obtain st c r u v w where
    widen: "widen maxbits (fst p) u = (Inr st, v)"
    and code: "next_code (lz_code_bits st) (lz_force_refill st) (lz_reader st) v = (Inr (Some c, r), w)"
    and r: "lz_reader (fst p') = r"
    by blast
  from widen_success [OF widen] assms(2) have st: "lz_reader st = lz_reader (fst p)" "lz_code_bits st \<noteq> 0"
    by (auto simp: lzw_running_def)
  from next_code_moves [OF code st(2)] False assms(2) r st(1) show ?thesis
    by (simp add: lzw_left_def lzw_running_def)
qed (use assms(2) in \<open>simp add: lzw_left_def lzw_running_def\<close>)

function lzw_loop ::
    "'w sink \<Rightarrow> u8 \<Rightarrow> bool \<Rightarrow> nat \<Rightarrow> u32 \<Rightarrow> lzw_state \<times> bool \<Rightarrow> ('w, lzw_state \<times> bool) stream_op" where
  "lzw_loop sink maxbits block n maximum_codes p s =
     (if lzw_running p then
        and_then (lzw_step sink maxbits block n maximum_codes p)
          (\<lambda>p s. lzw_loop sink maxbits block n maximum_codes p s) s
      else ok p s)"
  by pat_completeness auto
termination
  by (relation "measure (\<lambda>(sink, maxbits, block, n, maximum_codes, p, s). lzw_left p)")
    (auto dest: lzw_step_left)

declare lzw_loop.simps [simp del]

interpretation codes: loop "lzw_loop sink maxbits block n maximum_codes" lzw_running
  "lzw_step sink maxbits block n maximum_codes" "\<lambda>p _. lzw_left p"
  for sink :: "'w sink" and maxbits block n maximum_codes
  by unfold_locales (subst lzw_loop.simps, simp, blast dest: lzw_step_left)

definition decode_lzw ::
    "'w sink \<Rightarrow> byte_slice \<Rightarrow> u8 \<Rightarrow> bool \<Rightarrow> nat \<Rightarrow> extraction_control \<Rightarrow>
     ('w, extraction_control) stream_op" where
  "decode_lzw sink input maximum_code_bits block_mode dictionary_entries ctl =
     and_then (internal (fallible_filled_vec dictionary_entries 0)) (\<lambda>prefixes.
     and_then (internal (fallible_filled_vec dictionary_entries 0)) (\<lambda>suffixes.
     and_then (internal (fallible_filled_vec dictionary_entries (0 :: u8))) (\<lambda>_.
     and_then (internal (fill_literals suffixes)) (\<lambda>suffixes.
     and_then (ok_or (uc_error ''maximum code count overflows'')
       (checked_shl (1 :: u32) (unat maximum_code_bits))) (\<lambda>maximum_codes.
     and_then (maximum_code_for_width INITIAL_CODE_BITS maximum_code_bits) (\<lambda>maximum_current_code.
     and_then (lzw_loop sink maximum_code_bits block_mode dictionary_entries maximum_codes
       (\<lparr>lz_prefixes = prefixes, lz_suffixes = suffixes, lz_code_bits = INITIAL_CODE_BITS,
         lz_maximum_current_code = maximum_current_code,
         lz_next_code = (if block_mode then FIRST_BLOCK_CODE else FIRST_PLAIN_CODE),
         lz_previous_code = None, lz_first_character = 0, lz_reader = code_reader_new input,
         lz_force_refill = False,
         lz_output = \<lparr>uo_array = replicate IO_CHUNK_SIZE 0, uo_length = 0, uo_control = ctl\<rparr>\<rparr>,
        False)) (\<lambda>(st, _).
     and_then (flush_output sink (lz_output st)) (\<lambda>out.
     ok (uo_control out)))))))))"

definition unix_compress_extract ::
    "'w sink \<Rightarrow> byte_slice \<Rightarrow> unix_compress_layout \<Rightarrow> extraction_control \<Rightarrow>
     ('w, extraction_control) stream_op" where
  "unix_compress_extract sink input layout ctl =
     and_then (check_limit (ul_dictionary_bytes layout) (max_dictionary_bytes (ec_limits ctl))
       DictionaryBytes) (\<lambda>_.
     and_then (internal (checkpoint (ul_dictionary_bytes layout))) (\<lambda>_.
     and_then (ok_or (uc_error ''validated payload range is unavailable'')
       (slice_get input HEADER_BYTES (length input))) (\<lambda>payload.
     and_then (internal (for_fold (chunks CONTROL_CHUNK_SIZE payload) () (\<lambda>_ chunk.
       and_then (usize_to_u64 (length chunk)
         ''Unix compress input chunk is not representable as u64'') checkpoint))) (\<lambda>_.
     and_then (decode_lzw sink payload (ul_maximum_code_bits layout) (ul_block_mode layout)
       (ul_dictionary_entries layout) ctl) (\<lambda>ctl.
     finish_frame False ctl)))))"

end
