(* ===== verification/Lzw_Spec.thy ===== *)
theory Lzw_Spec
  imports Unix_Compress
begin

text \<open>
  LZW decoding over a dictionary of strings: the reference that the tables of prefixes and suffixes,
  the reversed expansion and the output buffer of \<open>Unix_Compress\<close> implement.  Codes are numbers cut
  out of the input read as one little-endian number.
\<close>

section \<open>Codes\<close>

definition code_at :: "byte_slice \<Rightarrow> nat \<Rightarrow> nat \<Rightarrow> nat" where
  "code_at input p w = le_nat input div 2 ^ p mod 2 ^ w"

text \<open>
  Codes of a width are packed into groups of as many bytes as a code has bits; a change of the width
  abandons the rest of the group.  At the end of the input a group may be shorter and its last bits
  too few for a code.
\<close>

definition regroup :: "nat \<Rightarrow> code_reader \<Rightarrow> code_reader" where
  "regroup w r =
     (let g = min (length (cr_input r) - cr_position r) w
      in r\<lparr>cr_group_start := cr_position r, cr_group_length := g,
           cr_position := cr_position r + g, cr_valid_bits := g * 8 div w * w, cr_bit_offset := 0\<rparr>)"

definition take_code :: "nat \<Rightarrow> code_reader \<Rightarrow> nat \<times> code_reader" where
  "take_code w r =
     (code_at (cr_input r) (8 * cr_group_start r + cr_bit_offset r) w,
      r\<lparr>cr_bit_offset := cr_bit_offset r + w\<rparr>)"

definition spec_next :: "nat \<Rightarrow> bool \<Rightarrow> code_reader \<Rightarrow> (nat \<times> code_reader) option" where
  "spec_next w force r =
     (if force \<or> cr_valid_bits r \<le> cr_bit_offset r then
        if length (cr_input r) \<le> cr_position r then None
        else if (length (cr_input r) - cr_position r) * 8 < w then None
        else Some (take_code w (regroup w r))
      else Some (take_code w r))"


section \<open>Decoding\<close>

record lzw_spec_state =
  sp_words :: "byte_slice list"
  sp_width :: nat
  sp_previous :: "byte_slice option"
  sp_force :: bool
  sp_reader :: code_reader
  sp_out :: byte_slice

definition first_word :: "bool \<Rightarrow> nat" where
  "first_word block = (if block then 257 else 256)"

definition word_of :: "bool \<Rightarrow> byte_slice list \<Rightarrow> nat \<Rightarrow> byte_slice" where
  "word_of block words c = (if c < 256 then [of_nat c] else words ! (c - first_word block))"

definition largest_code :: "nat \<Rightarrow> nat \<Rightarrow> nat" where
  "largest_code width maxbits = (if width = maxbits then 2 ^ width else 2 ^ width - 1)"

definition spec_widen :: "nat \<Rightarrow> bool \<Rightarrow> lzw_spec_state \<Rightarrow> lzw_spec_state" where
  "spec_widen maxbits block st =
     (if largest_code (sp_width st) maxbits < first_word block + length (sp_words st) \<and>
         sp_width st < maxbits
      then st\<lparr>sp_width := sp_width st + 1, sp_force := True\<rparr> else st)"

text \<open>The effect of one code, or \<open>None\<close> when no encoder can have written it.\<close>

definition spec_code :: "nat \<Rightarrow> bool \<Rightarrow> nat \<Rightarrow> lzw_spec_state \<Rightarrow> lzw_spec_state option" where
  "spec_code maxbits block c st =
     (let next = first_word block + length (sp_words st) in
     if block \<and> c = 256 then
       Some (st\<lparr>sp_words := [], sp_width := 9, sp_previous := None, sp_force := True\<rparr>)
     else case sp_previous st of
       None \<Rightarrow>
         if 256 \<le> c then None
         else Some (st\<lparr>sp_previous := Some [of_nat c], sp_out := sp_out st @ [of_nat c], sp_force := False\<rparr>)
     | Some w \<Rightarrow>
         if next < c then None
         else
           let s = (if c = next then w @ [hd w] else word_of block (sp_words st) c)
           in Some (st\<lparr>sp_words := (if next < 2 ^ maxbits then sp_words st @ [w @ [hd s]]
                                   else sp_words st),
                       sp_previous := Some s, sp_out := sp_out st @ s, sp_force := False\<rparr>))"

text \<open>\<open>lzw_run maxbits block st r\<close>: from \<open>st\<close> the rest of the input decodes to \<open>r\<close>, or it is invalid.\<close>

inductive lzw_run :: "nat \<Rightarrow> bool \<Rightarrow> lzw_spec_state \<Rightarrow> byte_slice option \<Rightarrow> bool"
  for maxbits block where
  run_end: "st' = spec_widen maxbits block st \<Longrightarrow>
     spec_next (sp_width st') (sp_force st') (sp_reader st') = None \<Longrightarrow>
     lzw_run maxbits block st (Some (sp_out st))"
| run_code: "st' = spec_widen maxbits block st \<Longrightarrow>
     spec_next (sp_width st') (sp_force st') (sp_reader st') = Some (c, r) \<Longrightarrow>
     spec_code maxbits block c (st'\<lparr>sp_reader := r\<rparr>) = Some st'' \<Longrightarrow>
     lzw_run maxbits block st'' out \<Longrightarrow> lzw_run maxbits block st out"
| run_invalid: "st' = spec_widen maxbits block st \<Longrightarrow>
     spec_next (sp_width st') (sp_force st') (sp_reader st') = Some (c, r) \<Longrightarrow>
     spec_code maxbits block c (st'\<lparr>sp_reader := r\<rparr>) = None \<Longrightarrow>
     lzw_run maxbits block st None"

definition lzw_start :: "byte_slice \<Rightarrow> lzw_spec_state" where
  "lzw_start input =
     \<lparr>sp_words = [], sp_width = 9, sp_previous = None, sp_force = False,
      sp_reader = code_reader_new input, sp_out = []\<rparr>"

definition lzw_decodes :: "byte_slice \<Rightarrow> nat \<Rightarrow> bool \<Rightarrow> byte_slice option \<Rightarrow> bool" where
  "lzw_decodes input maxbits block out \<longleftrightarrow> lzw_run maxbits block (lzw_start input) out"

end
