(* ===== verification/Lzw_Tables.thy ===== *)
theory Lzw_Tables
  imports Lzw_Spec
begin

text \<open>
  The parts of the LZW decoder against \<open>Lzw_Spec\<close>: the code reader cuts the codes that the
  reference cuts, and the tables of prefixes and suffixes hold the dictionary of strings.  The errors
  that guard the tables, the ranges and the arithmetic are shown not to occur.
\<close>

section \<open>Codes\<close>

lemma code_at_bits: "code_at input p w = take_bit w (drop_bit p (le_nat input))"
  by (simp add: code_at_def take_bit_nat_def drop_bit_nat_def)

text \<open>A code cut out of the bytes that hold it is the code cut out of the whole input.\<close>

lemma code_at_within:
  assumes "b + w \<le> 8 * n"
  shows "take_bit w (drop_bit b (le_nat (take n (drop k input)))) = code_at input (8 * k + b) w"
  unfolding le_nat_take_drop code_at_bits
  using assms by (auto simp: bit_eq_iff bit_take_bit_iff bit_drop_bit_eq add_ac)

lemma window_step_run:
  "k < 4 \<Longrightarrow> window_step v (k, b) s = (Inr (v OR push_bit (8 * k) (ucast b)), s)"
  by (simp add: window_step_def checked_shl_def run)

lemma code_window_run:
  assumes "length bs \<le> 4"
  shows "\<exists>w. code_window bs s = (Inr w, s) \<and> unat w = le_nat bs"
proof -
  have "\<exists>w. for_fold (List.enumerate k bs) v window_step s = (Inr w, s) \<and>
      unat w = unat v + 2 ^ (8 * k) * le_nat bs"
    if "unat v < 2 ^ (8 * k)" "k + length bs \<le> 4" for v :: u32 and k
    using that
  proof (induction bs arbitrary: v k)
    case (Cons b bs)
    then have k: "8 * k + 8 \<le> LENGTH(32)" "k < 4" by simp_all
    let ?v = "v OR push_bit (8 * k) (ucast b)"
    have v: "unat ?v = unat v + 2 ^ (8 * k) * unat b"
      by (rule unat_or_shifted [OF Cons.prems(1) k(1)])
    define m :: nat where "m = 2 ^ (8 * k)"
    have "m * unat b \<le> m * 255" by (intro mult_le_mono2) (rule unat_byte_le)
    then have "unat ?v < 256 * m"
      using v Cons.prems(1) unfolding m_def [symmetric] by linarith
    then have "unat ?v < 2 ^ (8 * Suc k)" by (simp add: m_def power_add)
    from Cons.IH [OF this] Cons.prems(2) obtain w where
      "for_fold (List.enumerate (Suc k) bs) ?v window_step s = (Inr w, s)"
      "unat w = unat ?v + 2 ^ (8 * Suc k) * le_nat bs"
      by auto
    with k v show ?case by (simp add: window_step_run run algebra_simps power_add)
  qed (simp add: run)
  from this [of 0 0] assms show ?thesis by (simp add: code_window_def)
qed

lemma unat_power_two_u32: "n < 32 \<Longrightarrow> unat ((2 :: u32) ^ n) = 2 ^ n"
  using unat_of_nat [of "2 ^ n", where 'a = 32] power_strict_increasing [of n 32 "2 :: nat"] by simp

lemma code_mask: "w < 32 \<Longrightarrow> Option.bind (checked_shl (1 :: u32) w) (\<lambda>v. checked_sub v 1) = Some (mask w)"
  by (simp add: checked_shl_def checked_sub_def mask_eq_exp_minus_1 word_le_nat_alt unat_power_two_u32)

definition reader_ok :: "code_reader \<Rightarrow> bool" where
  "reader_ok r \<longleftrightarrow> cr_group_start r + cr_group_length r \<le> length (cr_input r) \<and>
     cr_position r \<le> length (cr_input r) \<and> cr_valid_bits r \<le> 8 * cr_group_length r \<and>
     cr_group_length r \<le> 16"

text \<open>The platform's \<open>usize\<close> can hold the length of the input and small counts.\<close>

definition roomy :: "byte_slice \<Rightarrow> session \<Rightarrow> bool" where
  "roomy input s \<longleftrightarrow> length input \<le> usize_max (machine s) \<and> 2 ^ 20 \<le> usize_max (machine s)"

lemma extract_code_run:
  assumes ok: "reader_ok r" and roomy: "roomy (cr_input r) s" and w: "9 \<le> w" "w \<le> 16"
    and fits: "cr_bit_offset r + w \<le> cr_valid_bits r"
  shows "extract_code w r s =
    (Inr (Some (of_nat (fst (take_code w r))), snd (take_code w r)), s)"
proof -
  let ?o = "cr_bit_offset r" and ?gs = "cr_group_start r" and ?gl = "cr_group_length r"
  define first n where "first = ?o div 8" and "n = Suc ((?o + w - 1) div 8) - first"
  have g: "?gs + ?gl \<le> length (cr_input r)" "?gl \<le> 16" "?o + w \<le> 8 * ?gl"
    using ok fits by (auto simp: reader_ok_def)
  have last: "(?o + w - 1) div 8 < ?gl" using g w by (simp add: less_mult_imp_div_less)
  have "?o + w - 1 = 8 * first + (?o mod 8 + w - 1)" using w by (simp add: first_def)
  then have "(?o + w - 1) div 8 = first + (?o mod 8 + w - 1) div 8" by simp
  moreover have "?o mod 8 < 8" by simp
  then have "?o mod 8 + w - 1 \<le> 31" using w by linarith
  then have "(?o mod 8 + w - 1) div 8 \<le> 31 div 8" by (rule div_le_mono)
  moreover have "?o mod 8 + w \<le> 8 * Suc ((?o mod 8 + w - 1) div 8)"
    using dividend_less_times_div [of 8 "?o mod 8 + w - 1"] by simp
  ultimately have n: "n \<le> 4" "first \<le> Suc ((?o + w - 1) div 8)" "?o mod 8 + w \<le> 8 * n"
    using w by (simp_all add: n_def)
  let ?enc = "take n (drop (?gs + first) (cr_input r))"
  have enc: "slice_get (take ?gl (drop ?gs (cr_input r))) first (Suc ((?o + w - 1) div 8)) = Some ?enc"
    using g last n by (auto simp: slice_get_eq_Some n_def take_drop add.commute min_def)
  have "length ?enc \<le> 4" using n(1) by simp
  from code_window_run [OF this, of s] obtain window where
    window: "code_window ?enc s = (Inr window, s)" "unat window = le_nat ?enc" by auto
  let ?v = "drop_bit (?o mod 8) window AND mask w"
  have "unat ?v = take_bit w (drop_bit (?o mod 8) (le_nat ?enc))"
    unfolding take_bit_eq_mask [symmetric] window(2) [symmetric]
    by (simp add: unsigned_take_bit_eq unsigned_drop_bit_eq take_bit_nat_eq_self)
  also have "\<dots> = code_at (cr_input r) (8 * (?gs + first) + ?o mod 8) w"
    by (rule code_at_within [OF n(3)])
  also have "8 * (?gs + first) + ?o mod 8 = 8 * ?gs + ?o"
    by (simp add: first_def)
  finally have v: "unat ?v = code_at (cr_input r) (8 * ?gs + ?o) w" .
  have "(2 :: nat) ^ w \<le> 2 ^ 16" using w by (intro power_increasing) auto
  moreover have "code_at (cr_input r) (8 * ?gs + ?o) w < 2 ^ w" by (simp add: code_at_def)
  ultimately have small: "unat ?v < 2 ^ LENGTH(16)" using v by simp
  have narrow: "narrow ?v = Some (of_nat (code_at (cr_input r) (8 * ?gs + ?o) w) :: u16)"
    using small by (simp add: narrow_def flip: v)
  have room: "?gs + ?gl \<le> usize_max (machine s)" "?o + w \<le> usize_max (machine s)"
    "Suc ((?o + w - 1) div 8) \<le> usize_max (machine s)"
    using roomy g last by (simp_all add: roomy_def)
  show ?thesis
    using room g w enc narrow
    by (simp add: extract_code_def uc_add_def stream_usize_add_def uc_sub_def run Let_def
        slice_get_def [of "cr_input r"] window(1) code_mask first_def [symmetric] take_code_def)
qed


text \<open>Unless a refill is due, the offset and the end of the group are whole codes apart.\<close>

definition aligned :: "nat \<Rightarrow> bool \<Rightarrow> code_reader \<Rightarrow> bool" where
  "aligned w force r \<longleftrightarrow> force \<or> w dvd cr_bit_offset r \<and> w dvd cr_valid_bits r"

lemma refill_run:
  assumes ok: "reader_ok r" and roomy: "roomy (cr_input r) s" and w: "9 \<le> w" "w \<le> 16"
  shows "refill w r s =
    (if length (cr_input r) \<le> cr_position r then (Inr (False, r), s)
     else (Inr (w \<le> (length (cr_input r) - cr_position r) * 8, regroup w r), s))"
proof (cases "length (cr_input r) \<le> cr_position r")
  case True
  with ok show ?thesis by (simp add: refill_def reader_ok_def slice_get_def run)
next
  case False
  define g where "g = min (length (cr_input r) - cr_position r) w"
  have g: "0 < g" "g \<le> 16" "cr_position r + g \<le> length (cr_input r)" using False w by (auto simp: g_def)
  have valid: "g * 8 div w * w \<le> g * 8" by (rule div_times_less_eq_dividend)
  have "g * 8 div w \<noteq> 0 \<longleftrightarrow> w \<le> g * 8" using w by (simp add: div_eq_0_iff not_less)
  also have "\<dots> \<longleftrightarrow> w \<le> (length (cr_input r) - cr_position r) * 8"
    using False w by (auto simp: g_def min_def)
  finally have complete: "g * 8 div w \<noteq> 0 \<longleftrightarrow> w \<le> (length (cr_input r) - cr_position r) * 8" .
  have room: "cr_position r + g \<le> usize_max (machine s)" "g * 8 \<le> usize_max (machine s)"
    "g * 8 div w * w \<le> usize_max (machine s)"
    using roomy g order_trans [OF valid] by (simp_all add: roomy_def)
  show ?thesis
    using False room w complete
    by (simp add: refill_def slice_get_def uc_add_def uc_mul_def stream_usize_add_def run Let_def
        regroup_def g_def [symmetric])
qed

lemma regroup_ok:
  assumes "reader_ok r" and "0 < w" "w \<le> 16"
  shows "reader_ok (regroup w r)" and "aligned w force (regroup w r)"
    and "w \<le> (length (cr_input r) - cr_position r) * 8 \<Longrightarrow> w \<le> cr_valid_bits (regroup w r)"
proof -
  define g where "g = min (length (cr_input r) - cr_position r) w"
  have valid: "g * 8 div w * w \<le> 8 * g"
    unfolding mult.commute [of 8 g] by (rule div_times_less_eq_dividend)
  have "g \<le> 16" "cr_position r \<le> length (cr_input r) \<Longrightarrow> cr_position r + g \<le> length (cr_input r)"
    using assms(3) by (auto simp: g_def)
  with valid show "reader_ok (regroup w r)"
    using assms by (simp add: reader_ok_def regroup_def Let_def g_def [symmetric])
  show "aligned w force (regroup w r)" by (simp add: aligned_def regroup_def Let_def)
  assume "w \<le> (length (cr_input r) - cr_position r) * 8"
  then have "w \<le> g * 8" using assms(2) by (auto simp: g_def min_def)
  then have "1 \<le> g * 8 div w" using assms(2) by (simp add: div_greater_zero_iff Suc_le_eq)
  then have "1 * w \<le> g * 8 div w * w" by (rule mult_le_mono1)
  then show "w \<le> cr_valid_bits (regroup w r)" by (simp add: regroup_def Let_def g_def [symmetric])
qed

lemma aligned_room: "aligned w False r \<Longrightarrow> cr_bit_offset r < cr_valid_bits r \<Longrightarrow> cr_bit_offset r + w \<le> cr_valid_bits r"
  by (auto simp: aligned_def elim!: dvdE) (metis Suc_leI mult_Suc_right mult_le_mono2 mult_less_cancel1 add.commute)

lemma take_code_ok:
  assumes "reader_ok r" and "cr_bit_offset r + w \<le> cr_valid_bits r" and "aligned w False r"
  shows "reader_ok (snd (take_code w r))" and "aligned w False (snd (take_code w r))"
  using assms by (auto simp: reader_ok_def take_code_def aligned_def)

lemma cr_input_regroup [simp]: "cr_input (regroup w r) = cr_input r"
  by (simp add: regroup_def Let_def)

lemma cr_input_take_code: "cr_input (snd (take_code w r)) = cr_input r"
  by (simp add: take_code_def)

lemma next_code_run:
  assumes ok: "reader_ok r" and roomy: "roomy (cr_input r) s" and w: "9 \<le> unat width" "unat width \<le> 16"
    and aligned: "aligned (unat width) force r"
  shows "case spec_next (unat width) force r of
      None \<Rightarrow> \<exists>r'. next_code width force r s = (Inr (None, r'), s)
    | Some (c, r') \<Rightarrow> next_code width force r s = (Inr (Some (of_nat c), r'), s) \<and>
        reader_ok r' \<and> aligned (unat width) False r' \<and> cr_input r' = cr_input r \<and> c < 2 ^ unat width"
proof -
  let ?w = "unat width"
  have bound: "fst (take_code ?w q) < 2 ^ ?w" for q by (simp add: take_code_def code_at_def)
  show ?thesis
  proof (cases "force \<or> cr_valid_bits r \<le> cr_bit_offset r")
    case True
    consider "length (cr_input r) \<le> cr_position r" | "cr_position r < length (cr_input r)"
        "(length (cr_input r) - cr_position r) * 8 < ?w"
      | "cr_position r < length (cr_input r)" "?w \<le> (length (cr_input r) - cr_position r) * 8"
      by linarith
    then show ?thesis
    proof cases
      case 3
      have w0: "0 < ?w" using w by simp
      let ?q = "regroup ?w r"
      note q = regroup_ok [OF ok w0 w(2)]
      have fits: "cr_bit_offset ?q + ?w \<le> cr_valid_bits ?q"
        using q(3) [OF 3(2)] by (simp add: regroup_def Let_def)
      have "extract_code ?w ?q s = (Inr (Some (of_nat (fst (take_code ?w ?q))), snd (take_code ?w ?q)), s)"
        by (rule extract_code_run [OF q(1) _ w fits]) (simp add: roomy)
      moreover have "refill ?w r s = (Inr (True, ?q), s)"
        using refill_run [OF ok roomy w] 3 by simp
      ultimately have "next_code width force r s = (Inr (Some (of_nat (fst (take_code ?w ?q))), snd (take_code ?w ?q)), s)"
        using True by (simp add: next_code_def run Let_def)
      moreover have "spec_next ?w force r = Some (take_code ?w ?q)"
        using True 3 by (simp add: spec_next_def)
      ultimately show ?thesis
        using take_code_ok [OF q(1) fits q(2)] bound [of ?q] cr_input_take_code [of ?w ?q]
        by (cases "take_code ?w ?q") auto
    qed (use True refill_run [OF ok roomy w] in \<open>auto simp: spec_next_def next_code_def run Let_def\<close>)
  next
    case False
    then have al: "aligned ?w False r" and fits: "cr_bit_offset r + ?w \<le> cr_valid_bits r"
      using aligned aligned_room [of ?w r] by auto
    have "next_code width force r s = (Inr (Some (of_nat (fst (take_code ?w r))), snd (take_code ?w r)), s)"
      using extract_code_run [OF ok roomy w fits] False by (simp add: next_code_def Let_def)
    moreover have "spec_next ?w force r = Some (take_code ?w r)"
      using False by (simp add: spec_next_def)
    ultimately show ?thesis
      using take_code_ok [OF ok fits al] bound [of r] cr_input_take_code [of ?w r]
      by (cases "take_code ?w r") auto
  qed
qed



section \<open>The dictionary\<close>

lemma unat_less_16 [simp]: "unat (w :: u16) < 65536"
  using unsigned_less [of w, where 'a = nat] by simp

lemma unat_u16_as_u32 [simp]: "unat (ucast (w :: u16) :: u32) = unat w"
  using less_trans [OF unat_less_16 [of w], of "2 ^ 32"]
  by (simp add: unsigned_ucast_eq take_bit_nat_eq_self)

text \<open>A prefix of entry \<open>k\<close>: a literal or an earlier entry.\<close>

definition earlier :: "bool \<Rightarrow> nat \<Rightarrow> nat \<Rightarrow> bool" where
  "earlier block c k \<longleftrightarrow> c < k \<and> (c < 256 \<or> first_word block \<le> c)"

text \<open>The tables hold the dictionary: the word of an entry is the word of its prefix and its suffix.\<close>

definition tables :: "nat \<Rightarrow> bool \<Rightarrow> u16 list \<Rightarrow> u8 list \<Rightarrow> byte_slice list \<Rightarrow> bool" where
  "tables n block prefixes suffixes words \<longleftrightarrow>
     length prefixes = n \<and> length suffixes = n \<and> 256 \<le> n \<and> n \<le> 65536 \<and>
     first_word block + length words \<le> n \<and>
     (\<forall>k. first_word block \<le> k \<longrightarrow> k < first_word block + length words \<longrightarrow>
        earlier block (unat (prefixes ! k)) k \<and>
        word_of block words k = word_of block words (unat (prefixes ! k)) @ [suffixes ! k])"

lemma first_word_ge: "256 \<le> first_word block"
  by (simp add: first_word_def)

lemma word_of_nonempty:
  "tables n block prefixes suffixes words \<Longrightarrow> earlier block c (first_word block + length words) \<Longrightarrow>
     word_of block words c \<noteq> []"
  using first_word_ge [of block] by (cases "c < 256") (auto simp: earlier_def tables_def word_of_def)

lemma word_of_snoc:
  "earlier block c (first_word block + length words) \<Longrightarrow> word_of block (words @ [w]) c = word_of block words c"
  using first_word_ge [of block] by (auto simp: earlier_def word_of_def nth_append)

text \<open>
  Following the chain from \<open>c\<close> pushes the word of \<open>c\<close> in reverse, all but its first character, which
  is the code the chain ends in.  The chain has fewer links than the table has entries.
\<close>

lemma expand_step_run:
  assumes t: "tables n block prefixes suffixes words" and e: "earlier block (unat code) (unat next)"
    and nx: "unat next = first_word block + length words" and long: "255 < unat code"
    and room: "traversed < n" "n \<le> usize_max (machine s)"
    and E: "\<And>e. resource_error e \<Longrightarrow> E e"
    and Q: "\<And>t. still s t \<Longrightarrow>
      Q (prefixes ! unat code, expansion @ [suffixes ! unat code], traversed + 1) t"
  shows "outcome E (expand_step n next prefixes suffixes (code, expansion, traversed)) s Q"
proof -
  have code: "unat code < unat next" using e by (simp add: earlier_def)
  then have n: "unat code < n" using t nx by (simp add: tables_def)
  have avail: "\<not> next \<le> ucast code"
    using code by (simp add: word_le_nat_alt)
  have items: "item_get suffixes (unat code) = Some (suffixes ! unat code)"
    "item_get prefixes (unat code) = Some (prefixes ! unat code)"
    using t n by (simp_all add: tables_def item_get_def)
  have add: "uc_add d traversed 1 u = (Inr (traversed + 1), u)" if "still s u" for d u
    using that room by (simp add: uc_add_def stream_usize_add_def run still_def)
  have few: "\<not> n < Suc traversed" using room by simp
  show ?thesis
    unfolding expand_step_def prod.case
  proof (rule outcome_and_then, rule outcome_checkpoint, rule E, assumption)
    fix u assume u: "still s u"
    show "outcome E (and_then (uc_add ''dictionary traversal count overflows'' traversed 1)
      (\<lambda>traversed.
       and_then (err_if (n < traversed) (uc_error ''dictionary prefix chain contains a cycle'')) (\<lambda>_.
       let index = unat code in
       and_then (err_if (next \<le> ucast code)
         (uc_error ''dictionary prefix references an unavailable code'')) (\<lambda>_.
       and_then (ok_or (uc_error ''dictionary suffix is unavailable'') (item_get suffixes index))
         (\<lambda>suffix.
       and_then (ok_or (uc_error ''dictionary prefix is unavailable'') (item_get prefixes index))
         (\<lambda>code.
       ok (code, expansion @ [suffix], traversed))))))) u Q"
      using Q [OF u]
      by (simp add: outcome_def run Let_def add [OF u, unfolded One_nat_def] few avail items)
  qed
qed

lemma expands_iff: "expands (code, rest) \<longleftrightarrow> 256 \<le> unat code"
  by (auto simp: expands_def word_less_nat_alt)

lemma expand_loop_run:
  assumes t: "tables n block prefixes suffixes words" and e: "earlier block (unat code) (unat next)"
    and nx: "unat next = first_word block + length words" and room: "n \<le> usize_max (machine s)"
    and E: "\<And>e. resource_error e \<Longrightarrow> E e"
    and Q: "\<And>code' expansion' k t. still s t \<Longrightarrow> unat code' < 256 \<Longrightarrow>
      expansion' @ [of_nat (unat code')] = expansion @ rev (word_of block words (unat code)) \<Longrightarrow>
      Q (code', expansion', k) t"
  shows "outcome E (expand_loop n next prefixes suffixes (code, expansion, 0)) s Q"
proof -
  let ?I = "\<lambda>(p :: u16 \<times> byte_slice \<times> nat) t. still s t \<and> earlier block (unat (fst p)) (unat next) \<and>
    snd (snd p) + unat (fst p) < n \<and>
    fst (snd p) @ rev (word_of block words (unat (fst p))) = expansion @ rev (word_of block words (unat code))"
  show ?thesis
  proof (rule expansions.loop_outcome [where I = ?I])
    show "?I (code, expansion, 0) s"
      using e t nx by (auto simp: earlier_def tables_def)
  next
    fix p u
    assume I: "?I p u" and go: "expands p"
    obtain c x k where p: "p = (c, x, k)" by (cases p)
    have c: "256 \<le> unat c" using go p by (simp add: expands_iff)
    then have "first_word block \<le> unat c" "unat c < first_word block + length words"
      using I p nx by (auto simp: earlier_def)
    with t have q: "earlier block (unat (prefixes ! unat c)) (unat c)"
      and w: "word_of block words (unat c) = word_of block words (unat (prefixes ! unat c)) @ [suffixes ! unat c]"
      by (auto simp: tables_def)
    have q': "earlier block (unat (prefixes ! unat c)) (unat next)" "unat (prefixes ! unat c) < unat c"
      using q I p by (auto simp: earlier_def)
    show "outcome E (expand_step n next prefixes suffixes p) u ?I"
      unfolding p
    proof (rule expand_step_run [OF t _ nx])
      fix v assume "still u v"
      with I p have "still s v" by (auto intro: still_trans)
      then show "?I (prefixes ! unat c, x @ [suffixes ! unat c], k + 1) v"
        using I p q' w by simp
    qed (use I p c room E in \<open>auto simp: still_def\<close>)
  next
    fix p v
    assume I: "?I p v" and stop: "\<not> expands p"
    obtain c x k where p: "p = (c, x, k)" by (cases p)
    with stop have "unat c < 256" by (simp add: expands_iff)
    then show "Q p v"
      using I Q [of v c x k] unfolding p by (simp add: word_of_def)
  qed
qed

end
