(* ===== verification/Lzw_Buffer.thy ===== *)
theory Lzw_Buffer
  imports Lzw_Tables
begin

text \<open>
  The output buffer of the LZW decoder: what has been decoded is what the writer was given followed
  by what waits in the buffer, and writing fails only on a resource, a limit or in the writer.
\<close>

section \<open>The output buffer\<close>

text \<open>What the loop may fail with besides invalid data: resources, limits, the writer.\<close>

definition lzw_failure :: "error \<Rightarrow> bool" where
  "lzw_failure e \<longleftrightarrow> output_error e \<or> e = compressed_error ''output size overflows''"

lemma lzw_failure_simps [simp, intro]:
  "resource_error e \<Longrightarrow> lzw_failure e"
  "lzw_failure (Io k m)"
  "lzw_failure (LimitExceeded EntryOutputBytes v m')"
  "lzw_failure (LimitExceeded TotalOutputBytes v m')"
  "lzw_failure (compressed_error ''output size overflows'')"
  by (auto simp: lzw_failure_def output_error_def)

definition pending :: "uc_output \<Rightarrow> byte_slice" where
  "pending out = take (uo_length out) (uo_array out)"

text \<open>
  \<open>produced c ctl bs out held\<close>: of the text \<open>bs\<close> all but the pending bytes have been added to what
  the writer held before, \<open>c\<close>, and were counted in the control, which was \<open>ctl\<close>.
\<close>

definition produced ::
    "byte_slice \<Rightarrow> extraction_control \<Rightarrow> byte_slice \<Rightarrow> uc_output \<Rightarrow> byte_slice \<Rightarrow> bool" where
  "produced c ctl bs out held \<longleftrightarrow>
     length (uo_array out) = IO_CHUNK_SIZE \<and> uo_length out < IO_CHUNK_SIZE \<and>
     (\<exists>flushed. held = c @ flushed \<and> bs = flushed @ pending out \<and>
        written_by ctl (length flushed) (uo_control out))"

context output_sink
begin

lemma outcome_sink:
  "(\<And>k m. E (Io k m)) \<Longrightarrow>
   (\<And>t. still (fst s) (fst t) \<Longrightarrow> content (snd t) = content (snd s) @ chunk \<Longrightarrow> Q () t) \<Longrightarrow>
     outcome E (sink chunk) s Q"
  by (auto simp: outcome_def split: prod.splits sum.splits dest!: sink_appends sink_refuses)

lemma outcome_load_token:
  "(\<And>e. resource_error e \<Longrightarrow> E e) \<Longrightarrow> (\<And>t. still s t \<Longrightarrow> Q () t) \<Longrightarrow> outcome E load_token s Q"
  by (auto simp: outcome_def load_token_def token_check_def still_def Let_def split: prod.splits)

lemma outcome_output_total:
  assumes "n < 2 ^ 64"
    and "\<And>v. unat v = unat (ec_output_bytes ctl) + n \<Longrightarrow>
      v \<le> max_entry_output_bytes (ec_limits ctl) \<Longrightarrow> v \<le> max_total_output_bytes (ec_limits ctl) \<Longrightarrow> Q v s"
  shows "outcome lzw_failure (stream_output_total ctl n) s Q"
  unfolding stream_output_total_def
  using assms
  by (intro outcome_rules control_outcomes)
    (auto simp: checked_add_eq_Some unat_of_nat)

lemma outcome_write_output:
  assumes "length bytes < 2 ^ 64"
    and "\<And>ctl' t. still (fst s) (fst t) \<Longrightarrow> content (snd t) = content (snd s) @ bytes \<Longrightarrow>
      written_by ctl (length bytes) ctl' \<Longrightarrow> Q ctl' t"
  shows "outcome lzw_failure (write_output sink bytes ctl) s Q"
  unfolding write_output_def
  by (intro outcome_rules outcome_internal outcome_load_token outcome_output_total outcome_sink assms)
    (auto simp: written_by_def intro: still_trans)

lemma outcome_flush_output:
  assumes len: "length (uo_array out) = IO_CHUNK_SIZE" "uo_length out \<le> IO_CHUNK_SIZE"
    and held: "content (snd s) = c @ flushed" and ctl: "written_by ctl (length flushed) (uo_control out)"
    and Q: "\<And>out' t. still (fst s) (fst t) \<Longrightarrow> uo_length out' = 0 \<Longrightarrow>
      produced c ctl (flushed @ pending out) out' (content (snd t)) \<Longrightarrow> Q out' t"
  shows "outcome lzw_failure (flush_output sink out) s Q"
proof (cases "uo_length out = 0")
  case True
  then show ?thesis
    using Q [of s out] len held ctl
    by (auto simp: flush_output_def outcome_def run produced_def pending_def IO_CHUNK_SIZE_def)
next
  case False
  have "slice_get (uo_array out) 0 (uo_length out) = Some (pending out)"
    using len by (simp add: slice_get_def pending_def)
  with False show ?thesis
    using len held
    unfolding flush_output_def
    by (auto intro!: outcome_rules outcome_write_output Q simp: produced_def pending_def
        IO_CHUNK_SIZE_def intro: written_by_trans [OF ctl])
qed

lemma outcome_uc_add:
  "a + b \<le> usize_max (machine s) \<Longrightarrow> Q (a + b) s \<Longrightarrow> outcome E (uc_add d a b) s Q"
  by (simp add: outcome_def uc_add_def stream_usize_add_def run)

lemma outcome_buffer_copy:
  assumes made: "produced c ctl (bs @ take position bytes) out (content (snd s))"
    and count: "0 < count" "position + count \<le> length bytes" "uo_length out + count \<le> IO_CHUNK_SIZE"
    and room: "length bytes \<le> usize_max (machine (fst s))" "2 ^ 20 \<le> usize_max (machine (fst s))"
    and Q: "\<And>out' t. still (fst s) (fst t) \<Longrightarrow>
      produced c ctl (bs @ take (position + count) bytes) out' (content (snd t)) \<Longrightarrow>
      Q (position + count, out') t"
  shows "outcome lzw_failure (buffer_copy sink bytes count position out) s Q"
proof -
  let ?new = "take count (drop position bytes)"
  let ?out = "out\<lparr>uo_array := overwrite (uo_array out) (uo_length out) ?new, uo_length := uo_length out + count\<rparr>"
  from made obtain flushed where arr: "length (uo_array out) = IO_CHUNK_SIZE"
    and flushed: "content (snd s) = c @ flushed" "bs @ take position bytes = flushed @ pending out"
      "written_by ctl (length flushed) (uo_control out)"
    by (auto simp: produced_def)
  have new: "length ?new = count" using count by simp
  have pend: "pending ?out = pending out @ ?new"
    using arr count new by (simp add: pending_def overwrite_def)
  have whole: "flushed @ pending ?out = bs @ take (position + count) bytes"
    using flushed(2) by (simp add: pend take_add)
  have get: "slice_get bytes position (position + count) = Some ?new"
    using count by (simp add: slice_get_def)
  have small: "uo_length out + count < 2 ^ 64" "count < 2 ^ 64"
    using count by (simp_all add: IO_CHUNK_SIZE_def)
  have len: "length (uo_array ?out) = IO_CHUNK_SIZE" using arr count new by (simp add: length_overwrite)
  have part: "Q (position + count, ?out) (u, snd s)"
    if "still (fst s) u" "uo_length out + count \<noteq> IO_CHUNK_SIZE" for u
  proof (rule Q)
    show "produced c ctl (bs @ take (position + count) bytes) ?out (content (snd (u, snd s)))"
      using that count flushed(1,3) len whole by (auto simp: produced_def)
  qed (use that in simp)
  have full: "outcome lzw_failure (flush_output sink ?out) (u, snd s)
      (\<lambda>out' t. outcome lzw_failure (ok (position + count, out')) t Q)" if "still (fst s) u" for u
  proof (rule outcome_flush_output)
    fix out' t
    assume "still (fst (u, snd s)) (fst t)"
      and "produced c ctl (flushed @ pending ?out) out' (content (snd t))"
    then show "outcome lzw_failure (ok (position + count, out')) t Q"
      using that whole by (auto intro!: outcome_ok Q intro: still_trans)
  qed (use len count flushed in simp_all)
  show ?thesis
    unfolding buffer_copy_def
  proof (intro outcome_rules outcome_internal outcome_uc_add outcome_output_total small)
    show "position + count \<le> usize_max (machine (fst s))"
      "uo_length out + count \<le> usize_max (machine (fst (fst s, snd s)))"
      using room count by (simp_all add: IO_CHUNK_SIZE_def)
  qed (use count get small full part in \<open>auto simp: Let_def intro!: outcome_rules outcome_internal control_outcomes\<close>)
qed

lemma outcome_buffer_output:
  assumes made: "produced c ctl bs out (content (snd s))"
    and room: "length bytes \<le> usize_max (machine (fst s))" "2 ^ 20 \<le> usize_max (machine (fst s))"
    and Q: "\<And>out' t. still (fst s) (fst t) \<Longrightarrow>
      produced c ctl (bs @ bytes) out' (content (snd t)) \<Longrightarrow> Q out' t"
  shows "outcome lzw_failure (buffer_output sink bytes out) s Q"
proof -
  let ?I = "\<lambda>(p :: nat \<times> uc_output) t. still (fst s) (fst t) \<and> fst p \<le> length bytes \<and>
    produced c ctl (bs @ take (fst p) bytes) (snd p) (content (snd t))"
  have "outcome lzw_failure (buffer_loop sink bytes (0, out)) s (\<lambda>p t. ?I p t \<and> fst p = length bytes)"
  proof (rule buffering.loop_outcome [where I = ?I])
    fix p t
    assume I: "?I p t" and go: "fst p < length bytes"
    define count where
      "count = min (min (length bytes - fst p) (IO_CHUNK_SIZE - uo_length (snd p))) CONTROL_CHUNK_SIZE"
    have len: "uo_length (snd p) < IO_CHUNK_SIZE" using I by (simp add: produced_def)
    with go have count: "0 < count" "fst p + count \<le> length bytes" "uo_length (snd p) + count \<le> IO_CHUNK_SIZE"
      by (auto simp: count_def CONTROL_CHUNK_SIZE_def)
    have "outcome lzw_failure (buffer_copy sink bytes count (fst p) (snd p)) t ?I"
      using I count room
      by (intro outcome_buffer_copy [of c ctl bs]) (auto simp: still_def)
    with go len count(1) show "outcome lzw_failure (buffer_step sink bytes p) t ?I"
      by (simp add: buffer_step_def uc_sub_def outcome_def run Let_def count_def [symmetric])
  qed (use made in auto)
  then show ?thesis
    unfolding buffer_output_def
    by (rule outcome_bind) (use Q in \<open>auto intro!: outcome_ok split: prod.splits\<close>)
qed

end


end
