(* ===== verification/Lzw_Codes.thy ===== *)
theory Lzw_Codes
  imports Lzw_Buffer
begin

text \<open>
  One code of the LZW decoder against the reference: growing the width, clearing the dictionary, the
  first code after a reset, and the later codes with their expansion and the new entry.
\<close>

section \<open>The state of the decoder\<close>

definition dictionary_held :: "nat \<Rightarrow> bool \<Rightarrow> lzw_state \<Rightarrow> lzw_spec_state \<Rightarrow> bool" where
  "dictionary_held n block st sp \<longleftrightarrow>
     tables n block (lz_prefixes st) (lz_suffixes st) (sp_words sp) \<and>
     unat (lz_next_code st) = first_word block + length (sp_words sp) \<and>
     (case sp_previous sp of
        None \<Rightarrow> lz_previous_code st = None
      | Some w \<Rightarrow> w \<noteq> [] \<and> lz_first_character st = hd w \<and>
          (\<exists>p. lz_previous_code st = Some p \<and> earlier block (unat p) (unat (lz_next_code st)) \<and>
             word_of block (sp_words sp) (unat p) = w))"

definition width_held :: "u8 \<Rightarrow> lzw_state \<Rightarrow> lzw_spec_state \<Rightarrow> bool" where
  "width_held maxbits st sp \<longleftrightarrow>
     unat (lz_code_bits st) = sp_width sp \<and> 9 \<le> sp_width sp \<and> sp_width sp \<le> unat maxbits \<and>
     unat (lz_maximum_current_code st) = largest_code (sp_width sp) (unat maxbits)"

definition reader_held :: "byte_slice \<Rightarrow> lzw_state \<Rightarrow> lzw_spec_state \<Rightarrow> bool" where
  "reader_held input st sp \<longleftrightarrow>
     lz_reader st = sp_reader sp \<and> lz_force_refill st = sp_force sp \<and> reader_ok (sp_reader sp) \<and>
     cr_input (sp_reader sp) = input \<and> aligned (sp_width sp) (sp_force sp) (sp_reader sp)"

text \<open>What the handlers of a code leave alone.\<close>

definition same_codes :: "lzw_state \<Rightarrow> lzw_state \<Rightarrow> bool" where
  "same_codes st st' \<longleftrightarrow>
     lz_reader st' = lz_reader st \<and> lz_force_refill st' = lz_force_refill st \<and>
     lz_code_bits st' = lz_code_bits st \<and> lz_maximum_current_code st' = lz_maximum_current_code st"

lemma maximum_code_ok:
  assumes "9 \<le> unat w" "unat w \<le> 16"
  shows "\<exists>c. (maximum_code_for_width w m :: ('s, u32) comp) = ok c \<and> unat c = largest_code (unat w) (unat m)"
proof (intro exI conjI)
  let ?c = "if w = m then 2 ^ unat w else 2 ^ unat w - 1 :: u32"
  have "(1 :: nat) \<le> 2 ^ unat w" by simp
  then show "(maximum_code_for_width w m :: ('s, u32) comp) = ok ?c"
    and "unat ?c = largest_code (unat w) (unat m)"
    using assms
    by (simp_all add: maximum_code_for_width_def checked_shl_def checked_sub_def largest_code_def
        unat_power_two_u32 word_le_nat_alt unat_sub word_unat_eq_iff [of w m])
qed

lemma maximum_code_run:
  "9 \<le> unat w \<Longrightarrow> unat w \<le> 16 \<Longrightarrow>
     \<exists>c. maximum_code_for_width w m s = (Inr c, s) \<and> unat c = largest_code (unat w) (unat m)"
  for s :: 's
  using maximum_code_ok [of w m, where 's = 's] by (auto simp: run)

lemma widen_run:
  assumes w: "width_held maxbits st sp" and d: "dictionary_held n block st sp"
    and r: "reader_held input st sp" and maxbits: "unat maxbits \<le> 16"
  shows "\<exists>st'. widen maxbits st s = (Inr st', s) \<and> lz_output st' = lz_output st \<and>
    width_held maxbits st' (spec_widen (unat maxbits) block sp) \<and>
    dictionary_held n block st' (spec_widen (unat maxbits) block sp) \<and>
    reader_held input st' (spec_widen (unat maxbits) block sp)"
proof (cases "lz_maximum_current_code st < lz_next_code st \<and> lz_code_bits st < maxbits")
  case True
  then have small: "unat (lz_code_bits st) < unat maxbits" by (simp add: word_less_nat_alt)
  have w1: "unat (lz_code_bits st + 1) = unat (lz_code_bits st) + 1"
    using small maxbits by (simp add: unat_word_ariths)
  have "checked_add (lz_code_bits st) 1 = Some (lz_code_bits st + 1)"
    unfolding checked_add_eq_Some using w1 by simp
  moreover from maximum_code_run [of "lz_code_bits st + 1" maxbits s] w w1 small maxbits obtain c where
    "maximum_code_for_width (lz_code_bits st + 1) maxbits s = (Inr c, s)"
    "unat c = largest_code (unat (lz_code_bits st) + 1) (unat maxbits)"
    by (auto simp: width_held_def)
  moreover have "largest_code (sp_width sp) (unat maxbits) < first_word block + length (sp_words sp) \<and>
      sp_width sp < unat maxbits"
    using True w d by (simp add: width_held_def dictionary_held_def word_less_nat_alt)
  ultimately show ?thesis
    using True w d r w1
    by (auto simp: widen_def run spec_widen_def width_held_def dictionary_held_def reader_held_def
        aligned_def split: option.splits)
next
  case False
  then have "\<not> (largest_code (sp_width sp) (unat maxbits) < first_word block + length (sp_words sp) \<and>
      sp_width sp < unat maxbits)"
    using w d by (simp add: width_held_def dictionary_held_def word_less_nat_alt)
  then have "spec_widen (unat maxbits) block sp = sp" unfolding spec_widen_def by (simp only: if_False)
  with False show ?thesis using w d r by (simp only: widen_def if_False ok_run) simp
qed


section \<open>One code\<close>

lemma tables_snoc:
  assumes t: "tables n block prefixes suffixes words" and room: "first_word block + length words < n"
    and p: "earlier block (unat p) (first_word block + length words)"
  shows "tables n block (prefixes[first_word block + length words := p])
    (suffixes[first_word block + length words := ch])
    (words @ [word_of block words (unat p) @ [ch]])"
proof -
  let ?k = "first_word block + length words" and ?words = "words @ [word_of block words (unat p) @ [ch]]"
  have "earlier block (unat (prefixes[?k := p] ! k)) k \<and>
      word_of block ?words k = word_of block ?words (unat (prefixes[?k := p] ! k)) @ [suffixes[?k := ch] ! k]"
    if k: "first_word block \<le> k" "k < ?k + 1" for k
  proof (cases "k = ?k")
    case True
    with t room p show ?thesis
      using first_word_ge [of block] word_of_snoc [OF p]
      by (simp add: tables_def) (simp add: word_of_def)
  next
    case False
    with k have less: "k < ?k" by simp
    with t k have e: "earlier block (unat (prefixes ! k)) k"
      and w: "word_of block words k = word_of block words (unat (prefixes ! k)) @ [suffixes ! k]"
      by (auto simp: tables_def)
    have "earlier block k ?k" "earlier block (unat (prefixes ! k)) ?k"
      using e k less by (auto simp: earlier_def)
    with e w False show ?thesis by (simp add: word_of_snoc)
  qed
  with t room show ?thesis by (simp add: tables_def)
qed

lemma add_entry_run:
  assumes t: "tables n block (lz_prefixes st) (lz_suffixes st) words"
    and nx: "unat (lz_next_code st) = first_word block + length words"
    and p: "earlier block (unat p) (unat (lz_next_code st))"
    and n: "unat maximum_codes = n" and room: "n \<le> usize_max (machine s)"
    and words': "words' = (if unat (lz_next_code st) < n
      then words @ [word_of block words (unat p) @ [lz_first_character st]] else words)"
  shows "\<exists>st'. add_entry maximum_codes p st s = (Inr st', s) \<and> same_codes st st' \<and>
    lz_output st' = lz_output st \<and> lz_first_character st' = lz_first_character st \<and>
    tables n block (lz_prefixes st') (lz_suffixes st') words' \<and>
    unat (lz_next_code st') = first_word block + length words' \<and>
    unat (lz_next_code st) \<le> unat (lz_next_code st')"
proof (cases "unat (lz_next_code st) < n")
  case True
  have "n \<le> 65536" using t by (simp add: tables_def)
  with True have add: "checked_add (lz_next_code st) 1 = Some (lz_next_code st + 1)"
    "unat (lz_next_code st + 1) = unat (lz_next_code st) + 1"
    by (simp_all add: checked_add_def unat_word_ariths)
  have k: "first_word block + length words < n" using True nx by simp
  have lens: "length (lz_prefixes st) = n" "length (lz_suffixes st) = n" using t by (simp_all add: tables_def)
  show ?thesis
    using True n room add lens tables_snoc [OF t k] p nx words'
    by (simp add: add_entry_def run Let_def item_set_def word_less_nat_alt same_codes_def)
next
  case False
  with assms show ?thesis
    by (simp add: add_entry_def run word_less_nat_alt same_codes_def)
qed


text \<open>The two errors that invalid data cause.\<close>

definition data_error :: "error \<Rightarrow> bool" where
  "data_error e \<longleftrightarrow> e = uc_error ''first code after reset is not a literal'' \<or>
     e = uc_error ''code references an uninitialized dictionary entry''"

definition handled ::
    "nat \<Rightarrow> bool \<Rightarrow> byte_slice \<Rightarrow> extraction_control \<Rightarrow> lzw_state \<Rightarrow> lzw_spec_state \<Rightarrow>
     lzw_state \<Rightarrow> lzw_spec_state \<Rightarrow> byte_slice \<Rightarrow> bool" where
  "handled n block c ctl st sp st' sp' held \<longleftrightarrow>
     sp_width sp' = sp_width sp \<and> sp_reader sp' = sp_reader sp \<and> \<not> sp_force sp' \<and>
     same_codes st st' \<and> dictionary_held n block st' sp' \<and>
     produced c ctl (sp_out sp') (lz_output st') held"

abbreviation code_failure :: "nat \<Rightarrow> bool \<Rightarrow> nat \<Rightarrow> lzw_spec_state \<Rightarrow> error \<Rightarrow> bool" where
  "code_failure maxbits block code sp \<equiv>
     \<lambda>e. lzw_failure e \<or> spec_code maxbits block code sp = None \<and> data_error e"

lemma narrow_literal: "unat (code :: u16) < 256 \<Longrightarrow> narrow code = Some (of_nat (unat code) :: u8)"
  by (simp add: narrow_def)

lemma word_of_length:
  "tables n block prefixes suffixes words \<Longrightarrow> earlier block c (first_word block + length words) \<Longrightarrow>
     length (word_of block words c) \<le> c + 1"
proof (induction c rule: less_induct)
  case (less c)
  show ?case
  proof (cases "c < 256")
    case False
    with less.prems have k: "first_word block \<le> c" "c < first_word block + length words"
      by (auto simp: earlier_def)
    with less.prems(1) have e: "earlier block (unat (prefixes ! c)) c"
      and w: "word_of block words c = word_of block words (unat (prefixes ! c)) @ [suffixes ! c]"
      by (auto simp: tables_def)
    have "length (word_of block words (unat (prefixes ! c))) \<le> unat (prefixes ! c) + 1"
      using e k less.prems by (intro less.IH) (auto simp: earlier_def)
    with e w show ?thesis by (simp add: earlier_def)
  qed (simp add: word_of_def)
qed

context output_sink
begin

lemma outcome_first_code:
  assumes d: "dictionary_held n block st sp" and prev: "sp_previous sp = None"
    and made: "produced c ctl (sp_out sp) (lz_output st) (content (snd s))"
    and code: "\<not> (block \<and> unat code = 256)"
    and room: "2 ^ 20 \<le> usize_max (machine (fst s))"
  shows "outcome (code_failure maxbits block (unat code) sp) (first_code sink code st) s (\<lambda>st' t.
    \<exists>sp'. spec_code maxbits block (unat code) sp = Some sp' \<and>
      handled n block c ctl st sp st' sp' (content (snd t)) \<and> still (fst s) (fst t))"
proof (cases "unat code < 256")
  case False
  then have "0xFF < (ucast code :: u32)" by (simp add: word_less_nat_alt)
  with False prev code show ?thesis
    by (auto simp: first_code_def outcome_def run spec_code_def Let_def data_error_def)
next
  case True
  let ?b = "of_nat (unat code) :: u8"
  let ?sp = "sp\<lparr>sp_previous := Some [?b], sp_out := sp_out sp @ [?b], sp_force := False\<rparr>"
  have low: "\<not> 0xFF < (ucast code :: u32)" using True by (simp add: word_less_nat_alt)
  have spec: "spec_code maxbits block (unat code) sp = Some ?sp"
    using True prev code by (simp add: spec_code_def)
  have nx: "unat (lz_next_code st) = first_word block + length (sp_words sp)"
    using d by (simp add: dictionary_held_def)
  have e: "earlier block (unat code) (unat (lz_next_code st))"
    using True nx first_word_ge [of block] by (simp add: earlier_def)
  have "outcome lzw_failure (first_code sink code st) s (\<lambda>st' t.
      handled n block c ctl st sp st' ?sp (content (snd t)) \<and> still (fst s) (fst t))"
    unfolding first_code_def narrow_literal [OF True] ok_or_simps and_then_ok
  proof (intro outcome_rules outcome_buffer_output [OF made])
    fix out t
    assume "still (fst s) (fst t)"
      and "produced c ctl (sp_out sp @ [?b]) out (content (snd t))"
    then show "handled n block c ctl st sp
        (st\<lparr>lz_output := out, lz_first_character := ?b, lz_previous_code := Some code\<rparr>) ?sp (content (snd t)) \<and>
      still (fst s) (fst t)"
      using d e True by (simp add: handled_def same_codes_def dictionary_held_def word_of_def)
  qed (use room low in simp_all)
  then show ?thesis by (rule outcome_mono) (use spec in auto)
qed


lemma internal_run: "m (fst s) = (Inr x, fst s) \<Longrightarrow> internal m s = (Inr x, s)"
  by (cases s) (simp add: internal_def)

text \<open>Expanding a code yields its string, whose first character is what the chain ends in.\<close>

lemma outcome_expansion:
  assumes t: "tables n block prefixes suffixes words" and nx: "unat next = first_word block + length words"
    and e: "earlier block (unat code) (unat next)" and room: "n \<le> usize_max (machine (fst s))"
    and Q: "\<And>x ch k t. still (fst s) (fst t) \<Longrightarrow> snd t = snd s \<Longrightarrow> unat ch < 256 \<Longrightarrow>
      rev (x @ [of_nat (unat ch)]) = word_of block words (unat code) @ rev expansion \<Longrightarrow> Q (ch, x, k) t"
  shows "outcome lzw_failure (internal (expand_loop n next prefixes suffixes (code, expansion, 0))) s Q"
proof (rule outcome_internal, rule expand_loop_run [OF t e nx room])
  fix code' :: u16 and x :: byte_slice and k u
  assume "still (fst s) u" "unat code' < 256"
    and eq: "x @ [of_nat (unat code')] = expansion @ rev (word_of block words (unat code))"
  then show "Q (code', x, k) (u, snd s)"
    by (intro Q) (auto simp: arg_cong [OF eq, of rev, simplified])
qed simp

lemma outcome_write_reversed:
  assumes made: "produced c ctl bs out (content (snd s))"
    and room: "length bytes \<le> usize_max (machine (fst s))" "2 ^ 20 \<le> usize_max (machine (fst s))"
    and Q: "\<And>out' t. still (fst s) (fst t) \<Longrightarrow>
      produced c ctl (bs @ rev bytes) out' (content (snd t)) \<Longrightarrow> Q ([], out') t"
  shows "outcome lzw_failure (write_reversed sink bytes out) s Q"
  unfolding write_reversed_def
  by (rule outcome_and_then, rule outcome_buffer_output [OF made])
    (use room Q in \<open>auto intro!: outcome_ok\<close>)

end

lemma code_eq_iff: "(ucast (code :: u16) :: u32) = v \<longleftrightarrow> unat code = unat v"
  by (simp add: word_unat_eq_iff)

text \<open>A previous string is held: what the tables say of it.\<close>

definition at_word :: "nat \<Rightarrow> bool \<Rightarrow> lzw_state \<Rightarrow> lzw_spec_state \<Rightarrow> byte_slice \<Rightarrow> u16 \<Rightarrow> bool" where
  "at_word n block st sp w p \<longleftrightarrow>
     tables n block (lz_prefixes st) (lz_suffixes st) (sp_words sp) \<and>
     unat (lz_next_code st) = first_word block + length (sp_words sp) \<and>
     w \<noteq> [] \<and> lz_first_character st = hd w \<and> word_of block (sp_words sp) (unat p) = w \<and>
     earlier block (unat p) (unat (lz_next_code st))"

definition code_word :: "bool \<Rightarrow> lzw_spec_state \<Rightarrow> byte_slice \<Rightarrow> nat \<Rightarrow> byte_slice" where
  "code_word block sp w code =
     (if code = first_word block + length (sp_words sp) then w @ [hd w] else word_of block (sp_words sp) code)"

definition words_after :: "nat \<Rightarrow> bool \<Rightarrow> lzw_spec_state \<Rightarrow> byte_slice \<Rightarrow> nat \<Rightarrow> byte_slice list" where
  "words_after n block sp w code =
     (if first_word block + length (sp_words sp) < n then sp_words sp @ [w @ [hd (code_word block sp w code)]]
      else sp_words sp)"

definition spec_after :: "nat \<Rightarrow> bool \<Rightarrow> lzw_spec_state \<Rightarrow> byte_slice \<Rightarrow> nat \<Rightarrow> lzw_spec_state" where
  "spec_after n block sp w code =
     sp\<lparr>sp_words := words_after n block sp w code, sp_previous := Some (code_word block sp w code),
        sp_out := sp_out sp @ code_word block sp w code, sp_force := False\<rparr>"

lemma spec_code_later:
  assumes "sp_previous sp = Some w" and "\<not> (block \<and> code = 256)"
  shows "spec_code maxbits block code sp =
    (if first_word block + length (sp_words sp) < code then None
     else Some (spec_after (2 ^ maxbits) block sp w code))"
  using assms
  by (auto simp: spec_code_def Let_def spec_after_def words_after_def code_word_def)

lemma start_code_run:
  assumes at: "at_word n block st sp w p" and code: "\<not> (block \<and> unat code = 256)"
    and le: "unat code \<le> first_word block + length (sp_words sp)"
  shows "\<exists>from expansion. (start_code code p st :: ('s, _) comp) = ok (from, expansion) \<and> length expansion \<le> 1 \<and>
    earlier block (unat from) (unat (lz_next_code st)) \<and>
    word_of block (sp_words sp) (unat from) @ rev expansion = code_word block sp w (unat code)"
proof (cases "unat code = unat (lz_next_code st)")
  case True
  with at show ?thesis
    by (intro exI [of _ p] exI [of _ "[hd w]"]) (auto simp: start_code_def at_word_def code_word_def code_eq_iff)
next
  case False
  moreover have "\<not> lz_next_code st < ucast code" using le at by (simp add: word_less_nat_alt at_word_def)
  moreover have "earlier block (unat code) (unat (lz_next_code st))"
    using False le at code by (cases block) (auto simp: at_word_def earlier_def first_word_def)
  ultimately show ?thesis
    using at by (intro exI [of _ code] exI [of _ "[]"])
      (simp add: start_code_def at_word_def code_word_def code_eq_iff)
qed

lemma code_word_nonempty:
  assumes "at_word n block st sp w p" and "\<not> (block \<and> unat (code :: u16) = 256)"
    and "unat code \<le> first_word block + length (sp_words sp)"
  shows "code_word block sp w (unat code) \<noteq> []"
proof -
  from start_code_run [OF assms, where 's = unit] obtain from_code :: u16 and expansion where
    e: "earlier block (unat from_code) (unat (lz_next_code st))"
    and eq: "word_of block (sp_words sp) (unat from_code) @ rev expansion = code_word block sp w (unat code)"
    by blast
  have "word_of block (sp_words sp) (unat from_code) \<noteq> []"
    using assms(1) e by (intro word_of_nonempty) (auto simp: at_word_def)
  then show ?thesis by (simp flip: eq)
qed

text \<open>The handler's end: the new entry is the one of the reference.\<close>

lemma handled_later:
  assumes at: "at_word n block st sp w p" and code: "\<not> (block \<and> unat code = 256)"
      "unat code \<le> first_word block + length (sp_words sp)" "unat code < n"
    and n: "unat maximum_codes = n" and room: "n \<le> usize_max (machine u)"
    and ch: "ch = hd (code_word block sp w (unat code))"
    and made: "produced c ctl (sp_out sp @ code_word block sp w (unat code)) out held"
  shows "\<exists>st''. add_entry maximum_codes p (st\<lparr>lz_first_character := ch, lz_output := out\<rparr>) u = (Inr st'', u) \<and>
    handled n block c ctl st sp (st''\<lparr>lz_previous_code := Some code\<rparr>) (spec_after n block sp w (unat code)) held"
proof -
  let ?st = "st\<lparr>lz_first_character := ch, lz_output := out\<rparr>" and ?words = "words_after n block sp w (unat code)"
  have words: "?words = (if unat (lz_next_code ?st) < n
      then sp_words sp @ [word_of block (sp_words sp) (unat p) @ [lz_first_character ?st]] else sp_words sp)"
    using at ch by (simp add: words_after_def at_word_def)
  have held: "tables n block (lz_prefixes ?st) (lz_suffixes ?st) (sp_words sp)"
    "unat (lz_next_code ?st) = first_word block + length (sp_words sp)"
    "earlier block (unat p) (unat (lz_next_code ?st))"
    using at by (auto simp: at_word_def)
  from add_entry_run [OF held n room words] obtain st'' where
    added: "add_entry maximum_codes p ?st u = (Inr st'', u)"
    and same: "same_codes ?st st''" "lz_output st'' = out" "lz_first_character st'' = ch"
    and t: "tables n block (lz_prefixes st'') (lz_suffixes st'') ?words"
    and nx: "unat (lz_next_code st'') = first_word block + length ?words"
    by auto
  have "earlier block (unat code) (unat (lz_next_code st'')) \<and>
      word_of block ?words (unat code) = code_word block sp w (unat code)"
  proof (cases "unat code = first_word block + length (sp_words sp)")
    case True
    with at code(3) nx first_word_ge [of block] show ?thesis
      by (simp add: words_after_def earlier_def code_word_def word_of_def nth_append at_word_def)
  next
    case False
    then have "earlier block (unat code) (first_word block + length (sp_words sp))"
      using code(1,2) by (cases block) (auto simp: earlier_def first_word_def)
    with False nx show ?thesis
      by (auto simp: words_after_def code_word_def word_of_snoc earlier_def)
  qed
  then show ?thesis
    using added same t nx ch made code_word_nonempty [OF at code(1,2)]
    by (simp add: handled_def same_codes_def dictionary_held_def spec_after_def)
qed

context output_sink
begin

lemma outcome_finish_code:
  assumes at: "at_word n block st sp w p" and code: "\<not> (block \<and> unat code = 256)"
      "unat code \<le> first_word block + length (sp_words sp)" "unat code < n"
    and n: "unat maximum_codes = n"
    and room: "2 ^ 20 \<le> usize_max (machine (fst s))" "n \<le> 65536" "length (code_word block sp w (unat code)) \<le> 2 ^ 20"
    and made: "produced c ctl (sp_out sp) (lz_output st) (content (snd s))"
    and ch: "unat ch < 256" "rev (x @ [of_nat (unat ch)]) = code_word block sp w (unat code)"
  shows "outcome lzw_failure (finish_code sink maximum_codes code p st ch x) s (\<lambda>st' t.
    handled n block c ctl st sp st' (spec_after n block sp w (unat code)) (content (snd t)) \<and> still (fst s) (fst t))"
  unfolding finish_code_def narrow_literal [OF ch(1)] ok_or_simps and_then_ok Let_def
proof (rule outcome_and_then, rule outcome_write_reversed [OF made])
  have "length (x @ [of_nat (unat ch) :: u8]) \<le> 2 ^ 20"
    using room(3) unfolding ch(2) [symmetric] by simp
  then show "length (x @ [of_nat (unat ch) :: u8]) \<le> usize_max (machine (fst s))"
    using room(1) by linarith
next
  fix out v
  assume v: "still (fst s) (fst v)"
    and made: "produced c ctl (sp_out sp @ rev (x @ [of_nat (unat ch)])) out (content (snd v))"
  have first: "of_nat (unat ch) = hd (code_word block sp w (unat code))"
    unfolding ch(2) [symmetric] by simp
  have "n \<le> usize_max (machine (fst v))" using room(1,2) v by (simp add: still_def)
  from handled_later [OF at code n this first made [unfolded ch(2)]] obtain st'' where
    "add_entry maximum_codes p (st\<lparr>lz_first_character := of_nat (unat ch), lz_output := out\<rparr>) (fst v) = (Inr st'', fst v)"
    "handled n block c ctl st sp (st''\<lparr>lz_previous_code := Some code\<rparr>) (spec_after n block sp w (unat code)) (content (snd v))"
    by blast
  with v show "outcome lzw_failure (case ([], out) of (_, out) \<Rightarrow>
      and_then (internal (add_entry maximum_codes p
        (st\<lparr>lz_first_character := of_nat (unat ch), lz_output := out\<rparr>))) (\<lambda>st.
      ok (st\<lparr>lz_previous_code := Some code\<rparr>))) v (\<lambda>st' t.
    handled n block c ctl st sp st' (spec_after n block sp w (unat code)) (content (snd t)) \<and> still (fst s) (fst t))"
    by (simp add: outcome_def run internal_run)
qed (fact room(1))

lemma outcome_later_code:
  assumes d: "dictionary_held n block st sp" and prev: "sp_previous sp = Some w"
    and previous: "lz_previous_code st = Some p"
    and made: "produced c ctl (sp_out sp) (lz_output st) (content (snd s))"
    and code: "\<not> (block \<and> unat code = 256)" "unat code < n"
    and n: "n = 2 ^ maxbits" "unat maximum_codes = n"
    and room: "2 ^ 20 \<le> usize_max (machine (fst s))"
  shows "outcome (code_failure maxbits block (unat code) sp) (later_code sink n maximum_codes code p st) s
    (\<lambda>st' t. \<exists>sp'. spec_code maxbits block (unat code) sp = Some sp' \<and>
      handled n block c ctl st sp st' sp' (content (snd t)) \<and> still (fst s) (fst t))"
proof -
  from d prev previous have at: "at_word n block st sp w p" by (auto simp: dictionary_held_def at_word_def)
  then have t: "tables n block (lz_prefixes st) (lz_suffixes st) (sp_words sp)"
    and nx: "unat (lz_next_code st) = first_word block + length (sp_words sp)"
    and n16: "n \<le> 65536"
    by (auto simp: at_word_def tables_def)
  show ?thesis
  proof (cases "first_word block + length (sp_words sp) < unat code")
    case True
    then have "lz_next_code st < ucast code" "ucast code \<noteq> lz_next_code st"
      using nx by (auto simp: word_less_nat_alt code_eq_iff)
    with True spec_code_later [OF prev code(1)] show ?thesis
      by (simp add: later_code_def start_code_def outcome_def run data_error_def)
  next
    case False
    then have le: "unat code \<le> first_word block + length (sp_words sp)" by simp
    from start_code_run [OF at code(1) le, where 's = "session \<times> 'w"] obtain from_code :: u16 and expansion where
      start: "(start_code code p st :: (session \<times> 'w, _) comp) = ok (from_code, expansion)"
      and e: "earlier block (unat from_code) (unat (lz_next_code st))"
      and word: "word_of block (sp_words sp) (unat from_code) @ rev expansion = code_word block sp w (unat code)"
      and few: "length expansion \<le> 1"
      by blast
    have "length (word_of block (sp_words sp) (unat from_code)) \<le> unat from_code + 1"
      using word_of_length [OF t] e nx by simp
    moreover have "unat from_code \<le> 65536" by (rule less_imp_le_nat [OF unat_less_16])
    ultimately have short: "length (code_word block sp w (unat code)) \<le> 2 ^ 20"
      using few unfolding word [symmetric] by simp
    have "n \<le> usize_max (machine (fst s))" using n16 room by simp
    then have "outcome lzw_failure (later_code sink n maximum_codes code p st) s (\<lambda>st' t.
        handled n block c ctl st sp st' (spec_after n block sp w (unat code)) (content (snd t)) \<and> still (fst s) (fst t))"
      unfolding later_code_def start and_then_ok prod.case
    proof (intro outcome_and_then outcome_expansion [OF t nx e])
      fix x and ch :: u16 and k and u :: "session \<times> 'w"
      assume u: "still (fst s) (fst u)" "snd u = snd s" and ch: "unat ch < 256"
        and x: "rev (x @ [of_nat (unat ch)]) = word_of block (sp_words sp) (unat from_code) @ rev expansion"
      show "outcome lzw_failure (case (ch, x, k) of (ch, x, _) \<Rightarrow> finish_code sink maximum_codes code p st ch x) u
          (\<lambda>st' t. handled n block c ctl st sp st' (spec_after n block sp w (unat code)) (content (snd t)) \<and>
             still (fst s) (fst t))"
        unfolding prod.case
        by (rule outcome_weaken [OF outcome_finish_code [OF at code(1) le code(2) n(2) _ n16 short _ ch x [unfolded word]]])
          (use u room made in \<open>auto simp: still_def intro: still_trans\<close>)
    qed
    then show ?thesis
      by (rule outcome_mono) (use spec_code_later [OF prev code(1)] False n(1) in auto)
  qed
qed

end


end
