(* ===== verification/Lzw_Decoding.thy ===== *)
theory Lzw_Decoding
  imports Lzw_Codes
begin

text \<open>
  The loop over the codes and the whole \<^verbatim>\<open>.Z\<close> stream: the decoder implements \<open>Lzw_Spec\<close>.
\<close>

section \<open>The loop\<close>

definition decoding ::
    "byte_slice \<Rightarrow> u8 \<Rightarrow> nat \<Rightarrow> bool \<Rightarrow> byte_slice \<Rightarrow> extraction_control \<Rightarrow>
     lzw_state \<Rightarrow> lzw_spec_state \<Rightarrow> byte_slice \<Rightarrow> bool" where
  "decoding input maxbits n block c ctl st sp held \<longleftrightarrow>
     dictionary_held n block st sp \<and> width_held maxbits st sp \<and> reader_held input st sp \<and>
     produced c ctl (sp_out sp) (lz_output st) held"

text \<open>One round of the reference.\<close>

definition next_input :: "nat \<Rightarrow> bool \<Rightarrow> lzw_spec_state \<Rightarrow> (nat \<times> lzw_spec_state) option" where
  "next_input maxbits block sp =
     (let sp = spec_widen maxbits block sp in
      map_option (\<lambda>(code, r). (code, sp\<lparr>sp_reader := r\<rparr>)) (spec_next (sp_width sp) (sp_force sp) (sp_reader sp)))"

definition round_after :: "nat \<Rightarrow> bool \<Rightarrow> lzw_spec_state \<Rightarrow> lzw_spec_state \<Rightarrow> bool" where
  "round_after maxbits block sp sp'' \<longleftrightarrow> (\<exists>code sp'. next_input maxbits block sp = Some (code, sp') \<and>
     spec_code maxbits block code sp' = Some sp'')"

definition round_invalid :: "nat \<Rightarrow> bool \<Rightarrow> lzw_spec_state \<Rightarrow> bool" where
  "round_invalid maxbits block sp \<longleftrightarrow> (\<exists>code sp'. next_input maxbits block sp = Some (code, sp') \<and>
     spec_code maxbits block code sp' = None)"

lemma next_input_iff:
  "next_input maxbits block sp = Some (code, sp') \<longleftrightarrow>
     (\<exists>st' r. st' = spec_widen maxbits block sp \<and>
        spec_next (sp_width st') (sp_force st') (sp_reader st') = Some (code, r) \<and> sp' = st'\<lparr>sp_reader := r\<rparr>)"
  by (auto simp: next_input_def Let_def)

lemma lzw_run_after:
  "round_after maxbits block sp sp' \<Longrightarrow> lzw_run maxbits block sp' out \<Longrightarrow> lzw_run maxbits block sp out"
  by (auto simp: round_after_def next_input_iff intro: run_code)

lemma lzw_run_invalid: "round_invalid maxbits block sp \<Longrightarrow> lzw_run maxbits block sp None"
  by (auto simp: round_invalid_def next_input_iff intro: run_invalid)

lemma lzw_run_end: "next_input maxbits block sp = None \<Longrightarrow> lzw_run maxbits block sp (Some (sp_out sp))"
  by (auto simp: next_input_def Let_def intro: run_end)

lemma reset_dictionary_run:
  assumes d: "dictionary_held n block st sp" and w: "width_held maxbits st sp" and block: block
    and maxbits: "9 \<le> unat maxbits"
    and r: "reader_ok (sp_reader sp)" "cr_input (sp_reader sp) = input" "lz_reader st = sp_reader sp"
    and made: "produced c ctl (sp_out sp) (lz_output st) held"
  shows "\<exists>st' sp'. reset_dictionary maxbits st s = (Inr st', s) \<and>
    spec_code (unat maxbits) block 256 sp = Some sp' \<and> decoding input maxbits n block c ctl st' sp' held"
proof -
  obtain m where m: "maximum_code_for_width INITIAL_CODE_BITS maxbits s = (Inr m, s)"
    "unat m = largest_code 9 (unat maxbits)"
    using maximum_code_run [of INITIAL_CODE_BITS maxbits s] by (auto simp: INITIAL_CODE_BITS_def)
  have "tables n block (lz_prefixes st) (lz_suffixes st) []"
    using d by (auto simp: dictionary_held_def tables_def)
  then show ?thesis
    using m assms
    by (simp add: reset_dictionary_def run spec_code_def decoding_def dictionary_held_def width_held_def
        reader_held_def aligned_def INITIAL_CODE_BITS_def FIRST_BLOCK_CODE_def first_word_def)
qed

context output_sink
begin

lemma outcome_handle_code:
  assumes d: "dictionary_held n block st sp" and w: "width_held maxbits st sp"
    and r: "lz_reader st = sp_reader sp" "\<not> lz_force_refill st" "reader_ok (sp_reader sp)"
      "cr_input (sp_reader sp) = input" "aligned (sp_width sp) False (sp_reader sp)"
    and made: "produced c ctl (sp_out sp) (lz_output st) (content (snd s))"
    and code: "unat code < 2 ^ sp_width sp" and maxbits: "9 \<le> unat maxbits"
    and n: "n = 2 ^ unat maxbits" "unat maximum_codes = n"
    and room: "2 ^ 20 \<le> usize_max (machine (fst s))"
  shows "outcome (code_failure (unat maxbits) block (unat code) sp)
    (handle_code sink maxbits block n maximum_codes code st) s
    (\<lambda>st' t. still (fst s) (fst t) \<and> (\<exists>sp'. spec_code (unat maxbits) block (unat code) sp = Some sp' \<and>
       decoding input maxbits n block c ctl st' sp' (content (snd t))))"
    (is "outcome ?E _ s ?Q")
proof (cases "block \<and> code = CLEAR_CODE")
  case True
  then have c: "unat code = 256" by (simp add: CLEAR_CODE_def)
  from reset_dictionary_run [OF d w _ maxbits r(3,4,1) made, of "fst s"] True obtain st' sp' where
    "reset_dictionary maxbits st (fst s) = (Inr st', fst s)"
    "spec_code (unat maxbits) block 256 sp = Some sp'"
    "decoding input maxbits n block c ctl st' sp' (content (snd s))"
    by auto
  with True c show ?thesis by (simp add: handle_code_def outcome_def run internal_run)
next
  case False
  then have clear: "\<not> (block \<and> unat code = 256)" by (auto simp: CLEAR_CODE_def word_unat_eq_iff)
  have "(2 :: nat) ^ sp_width sp \<le> n"
    using w n(1) by (auto simp: width_held_def intro!: power_increasing)
  with code have "unat code < n" by simp
  have next_state: "?Q st' t"
    if "spec_code (unat maxbits) block (unat code) sp = Some sp'"
      "handled n block c ctl st sp st' sp' (content (snd t))" "still (fst s) (fst t)" for st' sp' t
    using that w r
    by (auto simp: handled_def decoding_def width_held_def reader_held_def same_codes_def)
  show ?thesis
  proof (cases "sp_previous sp")
    case None
    with d have "lz_previous_code st = None" by (simp add: dictionary_held_def)
    moreover have "outcome ?E (first_code sink code st) s ?Q"
      by (rule outcome_weaken [OF outcome_first_code [OF d None made clear room]])
        (use next_state in blast)
    ultimately show ?thesis using False by (simp only: handle_code_def if_False option.case)
  next
    case (Some w)
    with d obtain p where p: "lz_previous_code st = Some p" by (auto simp: dictionary_held_def)
    moreover have "outcome ?E (later_code sink n maximum_codes code p st) s ?Q"
      by (rule outcome_weaken [OF outcome_later_code [OF d Some p made clear \<open>unat code < n\<close> n room]])
        (use next_state in blast)
    ultimately show ?thesis using False by (simp only: handle_code_def if_False option.case)
  qed
qed

lemma outcome_lzw_step:
  assumes dec: "decoding input maxbits n block c ctl st sp (content (snd s))"
    and maxbits: "9 \<le> unat maxbits" "unat maxbits \<le> 16"
    and n: "n = 2 ^ unat maxbits" "unat maximum_codes = n"
    and room: "roomy input (fst s)"
  shows "outcome (\<lambda>e. lzw_failure e \<or> round_invalid (unat maxbits) block sp \<and> data_error e)
    (lzw_step sink maxbits block n maximum_codes (st, False)) s (\<lambda>p t. still (fst s) (fst t) \<and>
      (if snd p then next_input (unat maxbits) block sp = None \<and>
         produced c ctl (sp_out sp) (lz_output (fst p)) (content (snd t))
       else \<exists>sp'. round_after (unat maxbits) block sp sp' \<and>
         decoding input maxbits n block c ctl (fst p) sp' (content (snd t))))"
    (is "outcome ?E _ s ?Q")
  unfolding lzw_step_def fst_conv
proof (rule outcome_and_then, rule outcome_internal, rule outcome_checkpoint)
  fix u assume u: "still (fst s) u"
  let ?sp = "spec_widen (unat maxbits) block sp"
  from widen_run [of maxbits st sp n block input u] dec maxbits obtain st' where
    widen: "internal (widen maxbits st) (u, snd s) = (Inr st', (u, snd s))" and "lz_output st' = lz_output st"
    and st': "width_held maxbits st' ?sp" "dictionary_held n block st' ?sp" "reader_held input st' ?sp"
    by (auto simp: decoding_def internal_def)
  have out: "sp_out ?sp = sp_out sp" by (simp add: spec_widen_def)
  have made: "produced c ctl (sp_out ?sp) (lz_output st') (content (snd s))"
    using dec \<open>lz_output st' = _\<close> by (simp add: decoding_def out)
  have roomy: "roomy input u" using room u by (simp add: roomy_def still_def)
  have code: "case spec_next (sp_width ?sp) (sp_force ?sp) (sp_reader ?sp) of
      None \<Rightarrow> \<exists>r'. next_code (lz_code_bits st') (lz_force_refill st') (lz_reader st') u = (Inr (None, r'), u)
    | Some (c, r') \<Rightarrow> next_code (lz_code_bits st') (lz_force_refill st') (lz_reader st') u = (Inr (Some (of_nat c), r'), u) \<and>
        reader_ok r' \<and> aligned (sp_width ?sp) False r' \<and> cr_input r' = input \<and> c < 2 ^ sp_width ?sp"
    using next_code_run [of "lz_reader st'" u "lz_code_bits st'" "lz_force_refill st'"] st' roomy maxbits
    by (auto simp: reader_held_def width_held_def split: option.splits)
  show "outcome ?E (and_then (internal (widen maxbits st)) (\<lambda>st.
     and_then (internal (next_code (lz_code_bits st) (lz_force_refill st) (lz_reader st)))
       (\<lambda>(encoded, r).
     case encoded of
       None \<Rightarrow> ok (st\<lparr>lz_reader := r\<rparr>, True)
     | Some encoded_code \<Rightarrow>
         and_then (handle_code sink maxbits block n maximum_codes
           encoded_code (st\<lparr>lz_reader := r, lz_force_refill := False\<rparr>)) (\<lambda>st.
         ok (st, False))))) (u, snd s) ?Q"
  proof (cases "spec_next (sp_width ?sp) (sp_force ?sp) (sp_reader ?sp)")
    case None
    with code obtain r' where
      "next_code (lz_code_bits st') (lz_force_refill st') (lz_reader st') u = (Inr (None, r'), u)"
      by auto
    with None u made show ?thesis
      using widen by (simp add: outcome_def run internal_run next_input_def out Let_def)
  next
    case (Some p)
    obtain v r' where p: "p = (v, r')" by (cases p)
    with Some code have
      fetched: "next_code (lz_code_bits st') (lz_force_refill st') (lz_reader st') u = (Inr (Some (of_nat v), r'), u)"
      and r': "reader_ok r'" "aligned (sp_width ?sp) False r'" "cr_input r' = input" and v: "v < 2 ^ sp_width ?sp"
      by auto
    have "(2 :: nat) ^ sp_width ?sp \<le> 2 ^ 16"
      using st'(1) maxbits by (intro power_increasing) (auto simp: width_held_def)
    with v have uv: "unat (of_nat v :: u16) = v" by (simp add: unat_of_nat)
    let ?st = "st'\<lparr>lz_reader := r', lz_force_refill := False\<rparr>" and ?sp1 = "?sp\<lparr>sp_reader := r'\<rparr>"
    have next_sp: "next_input (unat maxbits) block sp = Some (v, ?sp1)"
      using Some p by (simp add: next_input_def Let_def)
    have held: "dictionary_held n block ?st ?sp1" "width_held maxbits ?st ?sp1"
      using st' by (auto simp: dictionary_held_def width_held_def split: option.splits)
    have "outcome (code_failure (unat maxbits) block v ?sp1)
      (handle_code sink maxbits block n maximum_codes (of_nat v) ?st) (u, snd s)
      (\<lambda>st t. still u (fst t) \<and> (\<exists>sp'. spec_code (unat maxbits) block v ?sp1 = Some sp' \<and>
         decoding input maxbits n block c ctl st sp' (content (snd t))))"
      using outcome_handle_code [OF held, of input c ctl "(u, snd s)" "of_nat v" maximum_codes]
        r' made v uv maxbits(1) n roomy by (simp add: roomy_def)
    then have "outcome ?E (handle_code sink maxbits block n maximum_codes (of_nat v) ?st) (u, snd s)
      (\<lambda>st t. ?Q (st, False) t)"
      by (rule outcome_mono)
        (use u next_sp in \<open>auto simp: round_invalid_def round_after_def intro: still_trans\<close>)
    then have "outcome ?E (and_then (handle_code sink maxbits block n maximum_codes (of_nat v) ?st)
      (\<lambda>st. ok (st, False))) (u, snd s) ?Q"
      by (rule outcome_bind) (simp add: outcome_ok)
    then show ?thesis
      using widen fetched by (simp add: outcome_def run internal_run)
  qed
qed simp

lemma outcome_lzw_loop:
  assumes dec: "decoding input maxbits n block c ctl st sp (content (snd s))"
    and start: "\<And>out. lzw_run (unat maxbits) block sp out \<Longrightarrow> lzw_decodes input (unat maxbits) block out"
    and maxbits: "9 \<le> unat maxbits" "unat maxbits \<le> 16"
    and n: "n = 2 ^ unat maxbits" "unat maximum_codes = n"
    and room: "roomy input (fst s)"
  shows "outcome (\<lambda>e. lzw_failure e \<or> lzw_decodes input (unat maxbits) block None \<and> data_error e)
    (lzw_loop sink maxbits block n maximum_codes (st, False)) s (\<lambda>p t. still (fst s) (fst t) \<and>
      (\<exists>out. lzw_decodes input (unat maxbits) block (Some out) \<and>
         produced c ctl out (lz_output (fst p)) (content (snd t))))"
proof -
  let ?I = "\<lambda>p t. still (fst s) (fst t) \<and>
    (if snd p then \<exists>out. lzw_decodes input (unat maxbits) block (Some out) \<and>
         produced c ctl out (lz_output (fst p)) (content (snd t))
     else \<exists>sp. decoding input maxbits n block c ctl (fst p) sp (content (snd t)) \<and>
       (\<forall>out. lzw_run (unat maxbits) block sp out \<longrightarrow> lzw_decodes input (unat maxbits) block out))"
  show ?thesis
  proof (rule codes.loop_outcome [where I = ?I])
    show "?I (st, False) s" using dec start by auto
  next
    fix p t
    assume I: "?I p t" and go: "lzw_running p"
    obtain st where p: "p = (st, False)" using go by (cases p) (auto simp: lzw_running_def)
    with I obtain sp where sp: "decoding input maxbits n block c ctl st sp (content (snd t))"
      and run: "\<And>out. lzw_run (unat maxbits) block sp out \<Longrightarrow> lzw_decodes input (unat maxbits) block out"
      by auto
    have roomy: "roomy input (fst t)" using I room by (simp add: roomy_def still_def)
    show "outcome (\<lambda>e. lzw_failure e \<or> lzw_decodes input (unat maxbits) block None \<and> data_error e)
      (lzw_step sink maxbits block n maximum_codes p) t ?I"
      unfolding p
    proof (rule outcome_mono [OF outcome_lzw_step [OF sp maxbits n roomy]])
      fix e assume "lzw_failure e \<or> round_invalid (unat maxbits) block sp \<and> data_error e"
      then show "lzw_failure e \<or> lzw_decodes input (unat maxbits) block None \<and> data_error e"
        using run lzw_run_invalid by blast
    next
      fix q u
      assume q: "still (fst t) (fst u) \<and> (if snd q then next_input (unat maxbits) block sp = None \<and>
           produced c ctl (sp_out sp) (lz_output (fst q)) (content (snd u))
         else \<exists>sp'. round_after (unat maxbits) block sp sp' \<and>
           decoding input maxbits n block c ctl (fst q) sp' (content (snd u)))"
      have "still (fst s) (fst u)" using I q by (blast intro: still_trans)
      with q run show "?I q u"
        by (cases "snd q") (auto intro: lzw_run_end lzw_run_after)
    qed
  next
    fix p t
    assume I: "?I p t" and "\<not> lzw_running p"
    then have "snd p" by (auto simp: lzw_running_def decoding_def width_held_def split: if_splits)
    with I show "still (fst s) (fst t) \<and> (\<exists>out. lzw_decodes input (unat maxbits) block (Some out) \<and>
         produced c ctl out (lz_output (fst p)) (content (snd t)))"
      by simp
  qed
qed

end

lemma outcome_filled_vec:
  "(\<And>e. resource_error e \<Longrightarrow> E e) \<Longrightarrow> (\<And>t. still s t \<Longrightarrow> Q (replicate len v) t) \<Longrightarrow>
     outcome E (fallible_filled_vec len v) s Q"
  unfolding fallible_filled_vec_def grow_def
  by (intro outcome_rules outcome_reserve_exact) auto

lemma outcome_fill_literals:
  assumes "256 \<le> length suffixes" and "\<And>xs. length xs = length suffixes \<Longrightarrow> Q xs s"
  shows "outcome E (fill_literals suffixes) s Q"
  unfolding fill_literals_def
proof (rule outcome_for_fold [where I = "\<lambda>_ xs t. length xs = length suffixes \<and> t = s"])
  fix past b rest xs t
  assume "[0..<256] = past @ b # rest" and I: "length (xs :: u8 list) = length suffixes \<and> t = s"
  then have "b \<in> set [0..<256]" by simp
  then have "b < 256" by simp
  with I assms(1) show "outcome E (and_then (err_if (\<not> b < length xs)
        (uc_error ''literal table index is unavailable'')) (\<lambda>_.
      and_then (ok_or (uc_error ''literal value is not representable'') (narrow (of_nat b :: u16)))
        (\<lambda>byte. ok (xs[b := byte])))) t (\<lambda>xs t. length xs = length suffixes \<and> t = s)"
    by (simp add: outcome_def run narrow_def unat_of_nat)
qed (use assms in auto)

context output_sink
begin

lemma outcome_decode_lzw:
  assumes maxbits: "9 \<le> unat maxbits" "unat maxbits \<le> 16" and n: "n = 2 ^ unat maxbits"
    and room: "roomy input (fst s)"
  shows "outcome (\<lambda>e. lzw_failure e \<or> lzw_decodes input (unat maxbits) block None \<and> data_error e)
    (decode_lzw sink input maxbits block n ctl) s (\<lambda>ctl' t. still (fst s) (fst t) \<and>
      (\<exists>out. lzw_decodes input (unat maxbits) block (Some out) \<and>
         content (snd t) = content (snd s) @ out \<and> written_by ctl (length out) ctl'))"
proof -
  have n256: "512 \<le> n" "n \<le> 65536"
    using power_increasing [of 9 "unat maxbits" "2 :: nat"] power_increasing [of "unat maxbits" 16 "2 :: nat"]
      maxbits n by simp_all
  have codes: "checked_shl (1 :: u32) (unat maxbits) = Some (2 ^ unat maxbits)"
    "unat ((2 :: u32) ^ unat maxbits) = n"
    using maxbits n by (simp_all add: checked_shl_def unat_power_two_u32)
  obtain m where m: "(maximum_code_for_width INITIAL_CODE_BITS maxbits :: (session \<times> 'w, u32) comp) = ok m"
    "unat m = largest_code 9 (unat maxbits)"
    using maximum_code_ok [of INITIAL_CODE_BITS maxbits] by (auto simp: INITIAL_CODE_BITS_def)
  let ?E = "\<lambda>e. lzw_failure e \<or> lzw_decodes input (unat maxbits) block None \<and> data_error e"
  let ?Q = "\<lambda>ctl' t. still (fst s) (fst t) \<and>
      (\<exists>out. lzw_decodes input (unat maxbits) block (Some out) \<and>
         content (snd t) = content (snd s) @ out \<and> written_by ctl (length out) ctl')"
  let ?st = "\<lambda>prefixes suffixes. \<lparr>lz_prefixes = prefixes, lz_suffixes = suffixes, lz_code_bits = INITIAL_CODE_BITS,
         lz_maximum_current_code = m,
         lz_next_code = (if block then FIRST_BLOCK_CODE else FIRST_PLAIN_CODE),
         lz_previous_code = None, lz_first_character = 0, lz_reader = code_reader_new input,
         lz_force_refill = False,
         lz_output = \<lparr>uo_array = replicate IO_CHUNK_SIZE 0, uo_length = 0, uo_control = ctl\<rparr>\<rparr>"
  have run: "outcome ?E (and_then (lzw_loop sink maxbits block n (2 ^ unat maxbits) (?st prefixes suffixes, False))
      (\<lambda>(st, _). and_then (flush_output sink (lz_output st)) (\<lambda>out. ok (uo_control out)))) t ?Q"
    if len: "length prefixes = n" "length suffixes = n" and t: "still (fst s) (fst t)" "snd t = snd s"
    for prefixes suffixes t
  proof (rule outcome_bind, rule outcome_lzw_loop [OF _ _ maxbits n codes(2)])
    show "decoding input maxbits n block (content (snd s)) ctl (?st prefixes suffixes) (lzw_start input) (content (snd t))"
      using len n256 maxbits m(2) t(2)
      by (simp add: decoding_def dictionary_held_def tables_def first_word_def width_held_def lzw_start_def
          INITIAL_CODE_BITS_def FIRST_BLOCK_CODE_def FIRST_PLAIN_CODE_def reader_held_def reader_ok_def
          code_reader_new_def aligned_def produced_def pending_def IO_CHUNK_SIZE_def)
    show "lzw_decodes input (unat maxbits) block out" if "lzw_run (unat maxbits) block (lzw_start input) out" for out
      using that by (simp add: lzw_decodes_def)
    show "roomy input (fst t)" using room t by (simp add: roomy_def still_def)
  next
    fix p u
    assume p: "still (fst t) (fst u) \<and> (\<exists>out. lzw_decodes input (unat maxbits) block (Some out) \<and>
         produced (content (snd s)) ctl out (lz_output (fst p)) (content (snd u)))"
    then obtain out where out: "lzw_decodes input (unat maxbits) block (Some out)"
      and made: "produced (content (snd s)) ctl out (lz_output (fst p)) (content (snd u))" by blast
    from made obtain flushed where arr: "length (uo_array (lz_output (fst p))) = IO_CHUNK_SIZE"
      "uo_length (lz_output (fst p)) \<le> IO_CHUNK_SIZE"
      and flushed: "content (snd u) = content (snd s) @ flushed" "written_by ctl (length flushed) (uo_control (lz_output (fst p)))"
        "out = flushed @ pending (lz_output (fst p))"
      by (auto simp: produced_def)
    have su: "still (fst s) (fst u)" using t p by (blast intro: still_trans)
    have "outcome lzw_failure (flush_output sink (lz_output (fst p))) u (\<lambda>out' v. ?Q (uo_control out') v)"
    proof (rule outcome_flush_output [OF arr flushed(1,2)])
      fix out' v
      assume "still (fst u) (fst v)" "uo_length out' = 0"
        "produced (content (snd s)) ctl (flushed @ pending (lz_output (fst p))) out' (content (snd v))"
      with su out flushed(3) show "?Q (uo_control out') v"
        by (auto simp: produced_def pending_def intro: still_trans)
    qed
    then show "outcome ?E (case p of (st, _) \<Rightarrow> and_then (flush_output sink (lz_output st)) (\<lambda>out. ok (uo_control out))) u ?Q"
      by (cases p) (auto intro!: outcome_and_then outcome_ok elim!: outcome_mono)
  qed
  show ?thesis
    unfolding decode_lzw_def m(1) and_then_ok codes(1) ok_or_simps
    by (intro outcome_rules outcome_internal outcome_filled_vec outcome_fill_literals run)
      (use n256 in \<open>auto intro: still_trans\<close>)
qed

end


section \<open>The whole stream\<close>

lemma code_bits_range: "MINIMUM_CODE_BITS \<le> b \<Longrightarrow> b \<le> MAXIMUM_CODE_BITS \<Longrightarrow> 9 \<le> unat b \<and> unat b \<le> 16"
  by (simp add: MINIMUM_CODE_BITS_def MAXIMUM_CODE_BITS_def word_le_nat_alt)

lemma unix_compress_parse_success:
  assumes "unix_compress_parse input limits s = (Inr (info, layout), t)"
  shows "t = s \<and> take 2 input = UNIX_COMPRESS_MAGIC \<and> 3 \<le> length input \<and>
    ul_maximum_code_bits layout = input ! 2 AND CODE_BITS_MASK \<and>
    ul_block_mode layout = (input ! 2 AND BLOCK_MODE_FLAG \<noteq> 0) \<and>
    9 \<le> unat (ul_maximum_code_bits layout) \<and> unat (ul_maximum_code_bits layout) \<le> 16 \<and>
    ul_dictionary_entries layout = 2 ^ unat (ul_maximum_code_bits layout) \<and>
    ul_dictionary_bytes layout \<le> max_dictionary_bytes limits"
  using assms code_bits_range [of "input ! 2 AND CODE_BITS_MASK"]
  by (auto simp: unix_compress_parse_def success Let_def dictionary_size_def slice_get_eq_Some
      item_get_eq_Some check_frame_count_def HEADER_BYTES_def UNIX_COMPRESS_MAGIC_def numeral_2_eq_2)

lemma lzw_run_unique: "lzw_run maxbits block st out \<Longrightarrow> lzw_run maxbits block st out' \<Longrightarrow> out' = out"
proof (induction arbitrary: out' rule: lzw_run.induct)
  case (run_end st' st)
  from run_end.prems show ?case by cases (use run_end.hyps in simp_all)
next
  case (run_code st' st c r st'' out)
  from run_code.prems show ?case
  proof cases
    case other: (run_code st1 c1 r1 st2)
    with run_code.hyps have "st2 = st''" by simp
    with other run_code.IH show ?thesis by simp
  qed (use run_code.hyps in simp_all)
next
  case (run_invalid st' st c r)
  from run_invalid.prems show ?case by cases (use run_invalid.hyps in simp_all)
qed

context output_sink
begin

lemma outcome_unix_compress_extract:
  assumes parse: "unix_compress_parse input limits s0 = (Inr (info, layout), t)"
    and room: "roomy input (fst s)"
  shows "outcome (\<lambda>e. lzw_failure e \<or> lzw_decodes (drop 3 input) (unat (ul_maximum_code_bits layout))
      (ul_block_mode layout) None \<and> data_error e)
    (unix_compress_extract sink input layout (extraction_control_new limits)) s (\<lambda>ctl t.
      \<exists>out. lzw_decodes (drop 3 input) (unat (ul_maximum_code_bits layout)) (ul_block_mode layout) (Some out) \<and>
        content (snd t) = content (snd s) @ out \<and> unat (ec_output_bytes ctl) = length out \<and>
        (out = [] \<or> ec_output_bytes ctl \<le> max_entry_output_bytes limits \<and>
           ec_output_bytes ctl \<le> max_total_output_bytes limits) \<and>
        ec_frames_decoded ctl = 1 \<and> ec_checksums_verified ctl = 0 \<and> ec_limits ctl = limits)"
    (is "outcome ?E _ s ?Q")
proof -
  note p = unix_compress_parse_success [OF parse]
  have get: "slice_get input HEADER_BYTES (length input) = Some (drop 3 input)"
    using p by (simp add: slice_get_def HEADER_BYTES_def)
  have payload: "roomy (drop 3 input) (fst t)" if "still (fst s) (fst t)" for t :: "session \<times> 'w"
    using room that by (auto simp: roomy_def still_def)
  have chunks: "length c < 2 ^ 64" if "c \<in> set (chunks CONTROL_CHUNK_SIZE (drop 3 input))" for c :: byte_slice
    using chunks_bound [OF that] by (simp add: CONTROL_CHUNK_SIZE_def)
  have read: "outcome ?E (internal (for_fold (chunks CONTROL_CHUNK_SIZE (drop 3 input)) () (\<lambda>_ chunk.
      and_then (usize_to_u64 (length chunk) ''Unix compress input chunk is not representable as u64'')
        checkpoint))) u R"
    if "\<And>v. still (fst u) v \<Longrightarrow> R () (v, snd u)" for u :: "session \<times> 'w" and R
    by (rule outcome_internal, rule outcome_for_fold [where I = "\<lambda>_ _. still (fst u)"])
      (auto intro!: outcome_and_then outcome_usize_to_u64 outcome_checkpoint that intro: still_trans
        dest!: chunks [OF in_set_conv_decomp [THEN iffD2, OF exI, OF exI]])
  have decoded: "outcome ?E (and_then (decode_lzw sink (drop 3 input) (ul_maximum_code_bits layout) (ul_block_mode layout)
      (ul_dictionary_entries layout) (extraction_control_new limits)) (finish_frame False)) u ?Q"
    if u: "still (fst s) (fst u)" "snd u = snd s" for u
  proof (rule outcome_bind, rule outcome_decode_lzw)
    show "roomy (drop 3 input) (fst u)" by (rule payload [OF u(1)])
  next
    fix ctl v
    assume "still (fst u) (fst v) \<and> (\<exists>out. lzw_decodes (drop 3 input) (unat (ul_maximum_code_bits layout))
        (ul_block_mode layout) (Some out) \<and> content (snd v) = content (snd u) @ out \<and>
        written_by (extraction_control_new limits) (length out) ctl)"
    then show "outcome ?E (finish_frame False ctl) v ?Q"
      using u(2)
      by (auto simp: finish_frame_def count_one_def count_if_def checked_add_def written_by_def
          extraction_control_new_def outcome_def run)
  qed (use p in auto)
  show ?thesis
    unfolding unix_compress_extract_def get ok_or_simps and_then_ok
    by (intro outcome_rules outcome_check_limit outcome_internal outcome_checkpoint read decoded)
      (use p in \<open>auto simp: extraction_control_new_def intro: still_trans\<close>)
qed

end

text \<open>C7: Extracting a Unix compress stream whose header parsed gives the writer exactly the string that the
  LZW reference decodes from the payload, counts it within both output limits, and fails only for
  want of resources, on an output limit or in the writer, or because the reference finds the data
  invalid.  None of the decoder's table, range, conversion and cycle errors can occur.\<close>

theorem unix_compress_decodes:
  assumes "unix_compress_parse input limits s = (Inr (info, layout), t)" and "roomy input s"
    and "unix_compress_extract (caller_sink w) input layout (extraction_control_new limits) (s, log) =
      (r, (u, log'))"
  shows "case r of
      Inl e \<Rightarrow> lzw_failure e \<or> data_error e \<and>
        lzw_decodes (drop 3 input) (unat (ul_maximum_code_bits layout)) (ul_block_mode layout) None
    | Inr ctl \<Rightarrow> \<exists>out. concat log' = concat log @ out \<and>
        lzw_decodes (drop 3 input) (unat (ul_maximum_code_bits layout)) (ul_block_mode layout) (Some out) \<and>
        unat (ec_output_bytes ctl) = length out \<and>
        (out = [] \<or> ec_output_bytes ctl \<le> min (max_entry_output_bytes limits) (max_total_output_bytes limits))"
  using caller.outcome_unix_compress_extract [OF assms(1), of "(s, log)" w] assms(2,3)
  by (auto simp: outcome_def split: sum.splits)

text \<open>Two nine-bit literals and the code of their pair.\<close>

definition lzw_sample :: byte_slice where
  "lzw_sample = [0x1f, 0x9d, 0x89, 0x61, 0xc4, 0x04, 0x04]"

definition lzw_sample_layout :: unix_compress_layout where
  "lzw_sample_layout =
     \<lparr>ul_maximum_code_bits = 9, ul_block_mode = True, ul_dictionary_entries = 512, ul_dictionary_bytes = 2048\<rparr>"

lemma lzw_sample_parses:
  "\<exists>info. unix_compress_parse lzw_sample default_limits (sample_session []) =
     (Inr (info, lzw_sample_layout), sample_session [])"
  by (simp add: evaluate stream_evaluate unix_compress_parse_def lzw_sample_def lzw_sample_layout_def
      HEADER_BYTES_def UNIX_COMPRESS_MAGIC_def RESERVED_FLAGS_def CODE_BITS_MASK_def MINIMUM_CODE_BITS_def
      MAXIMUM_CODE_BITS_def BLOCK_MODE_FLAG_def dictionary_size_def uc_add_def uc_mul_def
      stream_usize_add_def check_frame_count_def)

lemmas lzw_reference =
  spec_widen_def largest_code_def first_word_def spec_next_def code_reader_new_def regroup_def
  take_code_def code_at_def spec_code_def word_of_def Let_def

lemma lzw_sample_decodes: "lzw_decodes (drop 3 lzw_sample) 9 True (Some [0x61, 0x62, 0x61, 0x62])"
  unfolding lzw_decodes_def lzw_start_def lzw_sample_def
proof -
  have last: "spec_next (sp_width st') (sp_force st') (sp_reader st') = None \<Longrightarrow>
      st' = spec_widen 9 True st \<Longrightarrow> sp_out st = out \<Longrightarrow> lzw_run 9 True st (Some out)" for st st' out
    using run_end [of st' 9 True st] by simp
  show "lzw_run 9 True \<lparr>sp_words = [], sp_width = 9, sp_previous = None, sp_force = False,
      sp_reader = code_reader_new (drop 3 [0x1f, 0x9d, 0x89, 0x61, 0xc4, 0x04, 0x04]), sp_out = []\<rparr>
      (Some [0x61, 0x62, 0x61, 0x62])"
    by ((rule run_code [OF refl], simp add: lzw_reference, simp add: lzw_reference)+,
        rule last [OF _ refl], simp_all add: lzw_reference)
qed

lemma unix_compress_decodes_witness:
  "\<exists>r u log. unix_compress_extract (caller_sink (\<lambda>_ _. None)) lzw_sample lzw_sample_layout
      (extraction_control_new default_limits) (sample_session [], []) = (r, (u, log)) \<and>
    (case r of Inl e \<Rightarrow> lzw_failure e | Inr ctl \<Rightarrow> concat log = [0x61, 0x62, 0x61, 0x62])"
proof -
  obtain r u log where run: "unix_compress_extract (caller_sink (\<lambda>_ _. None)) lzw_sample lzw_sample_layout
      (extraction_control_new default_limits) (sample_session [], []) = (r, (u, log))"
    by (metis surj_pair)
  have room: "roomy lzw_sample (sample_session [])"
    by (simp add: roomy_def lzw_sample_def sample_session_def)
  have only: "lzw_decodes (drop 3 lzw_sample) 9 True out \<Longrightarrow> out = Some [0x61, 0x62, 0x61, 0x62]" for out
    using lzw_sample_decodes lzw_run_unique unfolding lzw_decodes_def by blast
  obtain info where parse: "unix_compress_parse lzw_sample default_limits (sample_session []) =
      (Inr (info, lzw_sample_layout), sample_session [])"
    using lzw_sample_parses by blast
  from unix_compress_decodes [OF parse room run] run show ?thesis
    by (auto simp: lzw_sample_layout_def split: sum.splits dest!: only)
qed

end
