(* ===== verification/Stream_Session.thy ===== *)
theory Stream_Session
  imports Lz4_Laws Zstd_Laws Lzw_Decoding
begin

text \<open>
  The sessions of \<^verbatim>\<open>stream/mod.rs\<close>: the format is detected, the layout parsed, and the frames are
  decoded one after the other into a writer of the caller, a vector, or nothing.  The decoders of
  LZ4 and Zstandard frames are crates of their own; what they answer is a parameter of the model.
\<close>

section \<open>Formats\<close>

datatype stream_format = Lz4 | Zstandard | UnixCompress

fun as_str :: "stream_format \<Rightarrow> string" where
  "as_str Lz4 = ''lz4''"
| "as_str Zstandard = ''zstandard''"
| "as_str UnixCompress = ''unix-compress''"

text \<open>
  One magic behind skippable frames: the position to go on at, or the format.
\<close>

definition detect_step ::
    "byte_slice \<Rightarrow> nat \<times> stream_format option \<Rightarrow> (nat \<times> stream_format option) op" where
  "detect_step bytes p =
     and_then (stream_usize_add ''compressed'' ''magic range overflows'' (fst p) 4) (\<lambda>magic_end.
     and_then (ok_or (compressed_error ''input has no supported magic'')
       (slice_get bytes (fst p) magic_end)) (\<lambda>magic_bytes.
     and_then (ok_or (compressed_error ''magic is truncated'') (array_of 4 magic_bytes)) (\<lambda>magic_bytes.
     let magic = from_le_bytes magic_bytes :: u32 in
     if magic = LZ4_MAGIC \<or> magic = LZ4_LEGACY_MAGIC then ok (fst p, Some Lz4)
     else if magic = ZSTANDARD_MAGIC then ok (fst p, Some Zstandard)
     else if is_skippable magic then
       and_then (stream_usize_add ''compressed'' ''skippable frame header overflows'' magic_end 4)
         (\<lambda>size_end.
       and_then (ok_or (compressed_error ''skippable frame header is truncated'')
         (slice_get bytes magic_end size_end)) (\<lambda>size_bytes.
       and_then (ok_or (compressed_error ''skippable frame size is truncated'') (array_of 4 size_bytes))
         (\<lambda>size_bytes.
       let frame_size = from_le_bytes size_bytes :: u32 in
       and_then (gets (\<lambda>s. usize_max (machine s))) (\<lambda>maximum.
       and_then (err_if (maximum < unat frame_size)
         (compressed_error ''skippable frame size is not representable'')) (\<lambda>_.
       and_then (stream_usize_add ''compressed'' ''skippable frame range overflows'' size_end
         (unat frame_size)) (\<lambda>position.
       and_then (err_if (length bytes < position)
         (compressed_error ''skippable frame payload is truncated'')) (\<lambda>_.
       ok (position, None))))))))
     else err (compressed_error ''input has no supported magic''))))"

definition detect_left :: "byte_slice \<Rightarrow> nat \<times> stream_format option \<Rightarrow> nat" where
  "detect_left bytes p = (if snd p = None then Suc (length bytes - fst p) else 0)"

lemma stream_usize_add_success [success]:
  "stream_usize_add f d a b s = (Inr c, t) \<longleftrightarrow> c = a + b \<and> a + b \<le> usize_max (machine s) \<and> t = s"
  by (auto simp: stream_usize_add_def success)

lemma detect_step_moves:
  assumes "detect_step bytes p s = (Inr q, t)"
  shows "(\<exists>f. snd q = Some f) \<or> snd q = None \<and> fst p < fst q \<and> fst q \<le> length bytes"
  using assms by (auto simp: detect_step_def success Let_def split: if_splits)

function detect_loop :: "byte_slice \<Rightarrow> nat \<times> stream_format option \<Rightarrow> (nat \<times> stream_format option) op" where
  "detect_loop bytes p s =
     (if snd p = None then and_then (detect_step bytes p) (\<lambda>p s. detect_loop bytes p s) s else ok p s)"
  by pat_completeness auto
termination
  by (relation "measure (\<lambda>(bytes, p, s). detect_left bytes p)")
    (auto simp: detect_left_def dest!: detect_step_moves)

declare detect_loop.simps [simp del]

interpretation detection: loop "detect_loop bytes" "\<lambda>p. snd p = None" "detect_step bytes"
  "\<lambda>p _. detect_left bytes p" for bytes
  by unfold_locales
    (subst detect_loop.simps, simp, auto simp: detect_left_def dest!: detect_step_moves)

definition detect_format :: "byte_slice \<Rightarrow> stream_format op" where
  "detect_format bytes =
     (if slice_get bytes 0 (length UNIX_COMPRESS_MAGIC) = Some UNIX_COMPRESS_MAGIC then ok UnixCompress
      else and_then (detect_loop bytes (0, None)) (\<lambda>p.
        case snd p of None \<Rightarrow> err (compressed_error ''input has no supported magic'')
        | Some format \<Rightarrow> ok format))"


section \<open>Frames\<close>

text \<open>What other crates do: a decoder is opened on the bytes of its frame and then read from.\<close>

datatype 'd decoder_open = Opened 'd | OpenFailed | OpenPanicked

record ('x, 'z) frame_decoders =
  xxh32 :: "byte_slice \<Rightarrow> u64"
  lz4_new :: "byte_slice \<Rightarrow> 'x"
  lz4_read :: "'x decoder"
  lz4_checksum_error :: "io_error_kind \<times> string \<Rightarrow> bool"
  zstd_open :: "byte_slice \<Rightarrow> (nat \<Rightarrow> cancellation_token) \<Rightarrow> 'z decoder_open \<times> nat \<times> nat"
  zstd_read :: "'z decoder"
  zstd_stored :: "'z \<Rightarrow> u32 option"
  zstd_calculated :: "'z \<Rightarrow> u32 option"

definition frame_index :: "string \<Rightarrow> nat \<Rightarrow> ('s, u64) comp" where
  "frame_index format i =
     (if i < 2 ^ 64 then ok (of_nat i)
      else err (stream_format_error format ''frame index is not representable''))"

definition lz4_extract_frame ::
    "('x, 'z) frame_decoders \<Rightarrow> 'w sink \<Rightarrow> byte_slice \<Rightarrow> extraction_control \<Rightarrow> nat \<times> lz4_frame \<Rightarrow>
     ('w, extraction_control) stream_op" where
  "lz4_extract_frame D sink input ctl p =
     (let frame = snd p in
     and_then (frame_index ''lz4'' (fst p)) (\<lambda>index.
     and_then (internal (checkpoint 0)) (\<lambda>_.
     and_then (check_limit (lf_working_bytes frame) (max_dictionary_bytes (ec_limits ctl)) DictionaryBytes) (\<lambda>_.
     and_then (err_if (lf_dictionary frame) (unsupported_stream_feature ''lz4'' ''external-dictionary'')) (\<lambda>_.
     and_then (ok_or (lz4_error ''validated frame range is unavailable'')
       (slice_get input (lf_start frame) (lf_end frame))) (\<lambda>frame_bytes.
     and_then (pump_reader sink (lz4_read D) (lz4_new D frame_bytes) 0 (lz4_checksum_error D)
       (lf_content_size frame) ''lz4'' index ctl) (\<lambda>st.
     and_then (err_if (pm_consumed st \<noteq> length frame_bytes)
       (lz4_error ''decoder did not consume exactly one frame'')) (\<lambda>_.
     finish_frame (lf_checksum frame) (pm_control st)))))))))"

definition lz4_extract ::
    "('x, 'z) frame_decoders \<Rightarrow> 'w sink \<Rightarrow> byte_slice \<Rightarrow> lz4_frame list \<Rightarrow> extraction_control \<Rightarrow>
     ('w, extraction_control) stream_op" where
  "lz4_extract D sink input frames ctl =
     for_fold (List.enumerate 0 frames) ctl (lz4_extract_frame D sink input)"

text \<open>\<open>StreamingDecoder::new(source)\<close>, which reads the frame header.\<close>

definition run_open ::
    "(byte_slice \<Rightarrow> (nat \<Rightarrow> cancellation_token) \<Rightarrow> 'z decoder_open \<times> nat \<times> nat) \<Rightarrow> byte_slice \<Rightarrow>
     ('z \<times> nat) op" where
  "run_open open_decoder frame_bytes =
     and_then (\<lambda>s. let c = control s in
       (case open_decoder frame_bytes (\<lambda>i. token c (loads c + i)) of (answer, position, n) \<Rightarrow>
          (Inr (answer, position), s\<lparr>control := c\<lparr>loads := loads c + n\<rparr>\<rparr>))) (\<lambda>(answer, position).
     case answer of
       OpenPanicked \<Rightarrow> err (zstd_error ''decoder panicked while opening frame'')
     | OpenFailed \<Rightarrow> err (zstd_error ''decoder rejected frame header'')
     | Opened d \<Rightarrow> ok (d, position))"

definition zstd_verify_checksum :: "('x, 'z) frame_decoders \<Rightarrow> u64 \<Rightarrow> 'z \<Rightarrow> ('s, unit) comp" where
  "zstd_verify_checksum D index d =
     and_then (ok_or (zstd_error ''frame checksum was not finalized'') (zstd_stored D d)) (\<lambda>stored.
     and_then (ok_or (zstd_error ''frame checksum was not calculated'') (zstd_calculated D d)) (\<lambda>calculated.
     err_if (stored \<noteq> calculated) (stream_checksum_error ''zstandard'' index)))"

definition zstd_extract_frame ::
    "('x, 'z) frame_decoders \<Rightarrow> 'w sink \<Rightarrow> byte_slice \<Rightarrow> extraction_control \<Rightarrow> nat \<times> zstandard_frame \<Rightarrow>
     ('w, extraction_control) stream_op" where
  "zstd_extract_frame D sink input ctl p =
     (let frame = snd p in
     and_then (frame_index ''zstandard'' (fst p)) (\<lambda>index.
     and_then (internal (checkpoint 0)) (\<lambda>_.
     and_then (check_limit (zf_window_bytes frame) (max_dictionary_bytes (ec_limits ctl)) DictionaryBytes) (\<lambda>_.
     and_then (err_if (zf_dictionary frame) (unsupported_stream_feature ''zstandard'' ''external-dictionary''))
       (\<lambda>_.
     and_then (ok_or (zstd_error ''validated frame range is unavailable'')
       (slice_get input (zf_start frame) (zf_end frame))) (\<lambda>frame_bytes.
     and_then (internal (run_open (zstd_open D) frame_bytes)) (\<lambda>(d, position).
     and_then (pump_reader sink (zstd_read D) d position (\<lambda>_. False)
       (zf_content_size frame) ''zstandard'' index ctl) (\<lambda>st.
     and_then (err_if (pm_consumed st \<noteq> length frame_bytes)
       (zstd_error ''decoder did not consume exactly one frame'')) (\<lambda>_.
     and_then (if zf_checksum frame then zstd_verify_checksum D index (pm_decoder st) else ok ()) (\<lambda>_.
     finish_frame (zf_checksum frame) (pm_control st)))))))))))"

definition zstd_extract ::
    "('x, 'z) frame_decoders \<Rightarrow> 'w sink \<Rightarrow> byte_slice \<Rightarrow> zstandard_frame list \<Rightarrow> extraction_control \<Rightarrow>
     ('w, extraction_control) stream_op" where
  "zstd_extract D sink input frames ctl =
     for_fold (List.enumerate 0 frames) ctl (zstd_extract_frame D sink input)"


section \<open>Sessions\<close>

datatype stream_info_kind =
  InfoLz4 lz4_stream_info | InfoZstandard zstandard_stream_info | InfoUnixCompress unix_compress_stream_info

record stream_info =
  si_format :: stream_format
  si_compressed_size :: u64
  si_uncompressed_size :: "u64 option"
  si_kind :: stream_info_kind

datatype stream_layout =
  LayoutLz4 "lz4_frame list" | LayoutZstandard "zstandard_frame list" | LayoutUnixCompress unix_compress_layout

record compressed_stream =
  cs_bytes :: byte_slice
  cs_info :: stream_info
  cs_layout :: stream_layout
  cs_limits :: limits

definition parse_layout ::
    "('x, 'z) frame_decoders \<Rightarrow> byte_slice \<Rightarrow> limits \<Rightarrow> stream_format \<Rightarrow>
     (stream_info_kind \<times> u64 option \<times> stream_layout) op" where
  "parse_layout D bytes limits format =
     (case format of
        Lz4 \<Rightarrow> and_then (lz4_parse (xxh32 D) bytes limits) (\<lambda>(info, declared, frames).
          ok (InfoLz4 info, declared, LayoutLz4 frames))
      | Zstandard \<Rightarrow> and_then (zstd_parse bytes limits) (\<lambda>(info, declared, frames).
          ok (InfoZstandard info, declared, LayoutZstandard frames))
      | UnixCompress \<Rightarrow> and_then (unix_compress_parse bytes limits) (\<lambda>(info, layout).
          ok (InfoUnixCompress info, None, LayoutUnixCompress layout)))"

definition stream_open_bytes_inner ::
    "('x, 'z) frame_decoders \<Rightarrow> byte_slice \<Rightarrow> stream_format option \<Rightarrow> limits \<Rightarrow> compressed_stream op" where
  "stream_open_bytes_inner D bytes requested_format limits =
     and_then (usize_to_u64 (length bytes) ''compressed stream length is not representable as u64'')
       (\<lambda>compressed_size.
     and_then (check_limit compressed_size (max_total_input_bytes limits) TotalInputBytes) (\<lambda>_.
     and_then (consume_bytes bytes) (\<lambda>_.
     and_then (case requested_format of Some format \<Rightarrow> ok format | None \<Rightarrow> detect_format bytes) (\<lambda>format.
     and_then (parse_layout D bytes limits format) (\<lambda>(kind, uncompressed_size, layout).
     and_then (case uncompressed_size of None \<Rightarrow> ok ()
       | Some n \<Rightarrow>
           and_then (check_limit n (max_entry_output_bytes limits) EntryOutputBytes) (\<lambda>_.
           check_limit n (max_total_output_bytes limits) TotalOutputBytes)) (\<lambda>_.
     ok \<lparr>cs_bytes = bytes,
         cs_info = \<lparr>si_format = format, si_compressed_size = compressed_size,
           si_uncompressed_size = uncompressed_size, si_kind = kind\<rparr>,
         cs_layout = layout, cs_limits = limits\<rparr>))))))"

definition stream_open_bytes ::
    "('x, 'z) frame_decoders \<Rightarrow> byte_slice \<Rightarrow> limits \<Rightarrow> compressed_stream op" where
  "stream_open_bytes D bytes limits = stream_open_bytes_inner D bytes None limits"

definition stream_open_bytes_as ::
    "('x, 'z) frame_decoders \<Rightarrow> byte_slice \<Rightarrow> stream_format \<Rightarrow> limits \<Rightarrow> compressed_stream op" where
  "stream_open_bytes_as D bytes format limits = stream_open_bytes_inner D bytes (Some format) limits"

definition stream_retained_input_bytes :: "compressed_stream \<Rightarrow> u64" where
  "stream_retained_input_bytes c = si_compressed_size (cs_info c)"

definition extract_to ::
    "('x, 'z) frame_decoders \<Rightarrow> 'w sink \<Rightarrow> compressed_stream \<Rightarrow> ('w, stream_extraction) stream_op" where
  "extract_to D sink c =
     (let ctl = extraction_control_new (cs_limits c) in
     and_then (case cs_layout c of
         LayoutLz4 frames \<Rightarrow> lz4_extract D sink (cs_bytes c) frames ctl
       | LayoutZstandard frames \<Rightarrow> zstd_extract D sink (cs_bytes c) frames ctl
       | LayoutUnixCompress layout \<Rightarrow> unix_compress_extract sink (cs_bytes c) layout ctl) (\<lambda>ctl.
     and_then (err_if (case si_uncompressed_size (cs_info c) of None \<Rightarrow> False
         | Some expected \<Rightarrow> expected \<noteq> ec_output_bytes ctl)
       (stream_format_error (as_str (si_format (cs_info c)))
         ''decoded size does not match the declared aggregate size'')) (\<lambda>_.
     ok (extraction_finish ctl))))"

text \<open>The writer of \<open>decompress\<close> is a local vector.\<close>

definition decompress :: "('x, 'z) frame_decoders \<Rightarrow> compressed_stream \<Rightarrow> byte_slice op" where
  "decompress D c =
     and_then (fallible_vec_new (si_uncompressed_size (cs_info c))) (\<lambda>v.
     (\<lambda>s. case extract_to D vec_sink c (s, v) of
        (Inl e, (t, _)) \<Rightarrow> (Inl e, t) | (Inr _, (t, v)) \<Rightarrow> (Inr (fv_bytes v), t)))"

definition stream_verify :: "('x, 'z) frame_decoders \<Rightarrow> compressed_stream \<Rightarrow> stream_extraction op" where
  "stream_verify D c =
     (\<lambda>s. case extract_to D discard_sink c (s, []) of (r, (t, _)) \<Rightarrow> (r, t))"

end
