(* ===== verification/Stream_Laws.thy ===== *)
theory Stream_Laws
  imports Stream_Session
begin

text \<open>
  What a stream session delivers: the concatenation of what the frame decoders yield, each frame
  consumed to its last byte and of its declared size, counted within the output limits.
\<close>

section \<open>Counting\<close>

text \<open>\<open>n\<close> bytes, \<open>k\<close> frames and \<open>v\<close> verified checksums later.\<close>

definition counted :: "extraction_control \<Rightarrow> nat \<Rightarrow> nat \<Rightarrow> nat \<Rightarrow> extraction_control \<Rightarrow> bool" where
  "counted ctl n k v ctl' \<longleftrightarrow>
     ec_limits ctl' = ec_limits ctl \<and>
     unat (ec_output_bytes ctl') = unat (ec_output_bytes ctl) + n \<and>
     unat (ec_frames_decoded ctl') = unat (ec_frames_decoded ctl) + k \<and>
     unat (ec_checksums_verified ctl') = unat (ec_checksums_verified ctl) + v \<and>
     (0 < n \<longrightarrow> ec_output_bytes ctl' \<le> max_entry_output_bytes (ec_limits ctl) \<and>
       ec_output_bytes ctl' \<le> max_total_output_bytes (ec_limits ctl))"

lemma counted_refl [simp]: "counted ctl 0 0 0 ctl"
  by (simp add: counted_def)

lemma counted_trans:
  assumes "counted ctl n k v ctl'" and "counted ctl' n' k' v' ctl''"
  shows "counted ctl (n + n') (k + k') (v + v') ctl''"
proof (cases "n' = 0")
  case True
  then have "ec_output_bytes ctl'' = ec_output_bytes ctl'"
    using assms(2) by (simp add: counted_def word_unat_eq_iff)
  with True assms show ?thesis by (simp add: counted_def)
qed (use assms in \<open>simp add: counted_def\<close>)

lemma counted_finish:
  assumes "written_by ctl n ctl'" and "finish_frame b ctl' s = (Inr ctl'', t)"
  shows "counted ctl n 1 (of_bool b) ctl''" and "t = s"
  using finish_frame_success [OF assms(2)] assms(1) by (auto simp: counted_def written_by_def)


section \<open>Frames\<close>

definition frame_slice :: "byte_slice \<Rightarrow> nat \<Rightarrow> nat \<Rightarrow> byte_slice" where
  "frame_slice input start finish = take (finish - start) (drop start input)"

definition declared_size :: "u64 option \<Rightarrow> byte_slice \<Rightarrow> bool" where
  "declared_size expected bs \<longleftrightarrow> (case expected of None \<Rightarrow> True | Some n \<Rightarrow> unat n = length bs)"

definition lz4_frame_decodes :: "('x, 'z) frame_decoders \<Rightarrow> byte_slice \<Rightarrow> lz4_frame \<Rightarrow> byte_slice \<Rightarrow> bool" where
  "lz4_frame_decodes D input f bs \<longleftrightarrow> \<not> lf_dictionary f \<and> declared_size (lf_content_size f) bs \<and>
     (let frame = frame_slice input (lf_start f) (lf_end f)
      in \<exists>d. decoder_reads (lz4_read D) (lz4_new D frame) bs (length frame) d)"

text \<open>A Zstandard frame with a checksum has been compared with what its bytes hash to.\<close>

definition zstd_frame_decodes ::
    "('x, 'z) frame_decoders \<Rightarrow> byte_slice \<Rightarrow> zstandard_frame \<Rightarrow> byte_slice \<Rightarrow> bool" where
  "zstd_frame_decodes D input f bs \<longleftrightarrow> \<not> zf_dictionary f \<and> declared_size (zf_content_size f) bs \<and>
     (let frame = frame_slice input (zf_start f) (zf_end f)
      in \<exists>tok d position n d'. zstd_open D frame tok = (Opened d, position, n) \<and>
           decoder_reads (zstd_read D) d bs (length frame) d' \<and>
           (zf_checksum f \<longrightarrow> zstd_stored D d' \<noteq> None \<and> zstd_stored D d' = zstd_calculated D d'))"

lemma frame_index_success [success]:
  "frame_index format i s = (Inr x, t) \<longleftrightarrow> i < 2 ^ 64 \<and> x = of_nat i \<and> t = s"
  by (auto simp: frame_index_def success)

lemma run_open_success:
  "run_open opener bytes s = (Inr (d, position), t) \<Longrightarrow> \<exists>tok n. opener bytes tok = (Opened d, position, n)"
  by (auto simp: run_open_def success Let_def split: prod.splits decoder_open.splits)

lemma zstd_verify_checksum_success:
  "zstd_verify_checksum D index d s = (Inr u, t) \<longleftrightarrow>
     t = s \<and> zstd_stored D d \<noteq> None \<and> zstd_stored D d = zstd_calculated D d"
  by (auto simp: zstd_verify_checksum_def success)

context output_sink
begin

lemma lz4_frame_delivers:
  assumes "lz4_extract_frame D sink input ctl (i, f) s = (Inr ctl', t)"
  shows "\<exists>bs. lz4_frame_decodes D input f bs \<and> content (snd t) = content (snd s) @ bs \<and>
    counted ctl (length bs) 1 (of_bool (lf_checksum f)) ctl'"
proof -
  from assms obtain index u st v where plain: "\<not> lf_dictionary f"
    and range: "slice_get input (lf_start f) (lf_end f) = Some (frame_slice input (lf_start f) (lf_end f))"
    and pump: "pump_reader sink (lz4_read D) (lz4_new D (frame_slice input (lf_start f) (lf_end f))) 0
       (lz4_checksum_error D) (lf_content_size f) ''lz4'' index ctl u = (Inr st, v)"
    and all: "pm_consumed st = length (frame_slice input (lf_start f) (lf_end f))"
    and fin: "finish_frame (lf_checksum f) (pm_control st) v = (Inr ctl', t)"
    and u: "snd u = snd s"
    by (auto simp: lz4_extract_frame_def success Let_def frame_slice_def slice_get_eq_Some)
  from pump_reader_delivers [OF pump] obtain bs where
    "decoder_reads (lz4_read D) (lz4_new D (frame_slice input (lf_start f) (lf_end f))) bs (pm_consumed st) (pm_decoder st)"
    and "content (snd v) = content (snd u) @ bs" "written_by ctl (length bs) (pm_control st)"
    and "declared_size (lf_content_size f) bs"
    by (auto simp: declared_size_def)
  with plain all u counted_finish [OF _ fin] show ?thesis
    by (auto simp: lz4_frame_decodes_def Let_def)
qed

lemma zstd_frame_delivers:
  assumes "zstd_extract_frame D sink input ctl (i, f) s = (Inr ctl', t)"
  shows "\<exists>bs. zstd_frame_decodes D input f bs \<and> content (snd t) = content (snd s) @ bs \<and>
    counted ctl (length bs) 1 (of_bool (zf_checksum f)) ctl'"
proof -
  let ?frame = "frame_slice input (zf_start f) (zf_end f)"
  from assms obtain index u u' w d position st v where plain: "\<not> zf_dictionary f"
    and opened: "run_open (zstd_open D) ?frame u' = (Inr (d, position), fst u)"
    and pump: "pump_reader sink (zstd_read D) d position (\<lambda>_. False) (zf_content_size f) ''zstandard'' index ctl u = (Inr st, v)"
    and all: "pm_consumed st = length ?frame"
    and sum: "(if zf_checksum f then zstd_verify_checksum D index (pm_decoder st) else ok ()) v = (Inr (), w)"
    and fin: "finish_frame (zf_checksum f) (pm_control st) w = (Inr ctl', t)"
    and u: "snd u = snd s"
    by (auto simp: zstd_extract_frame_def success Let_def frame_slice_def slice_get_eq_Some
        simp del: if_success)
  from pump_reader_delivers [OF pump] obtain bs where
    reads: "decoder_reads (zstd_read D) d bs (length ?frame) (pm_decoder st)"
    and bs: "content (snd v) = content (snd u) @ bs" "written_by ctl (length bs) (pm_control st)"
      "declared_size (zf_content_size f) bs"
    by (auto simp: declared_size_def all)
  have same: "w = v" "zf_checksum f \<longrightarrow> zstd_stored D (pm_decoder st) \<noteq> None \<and>
      zstd_stored D (pm_decoder st) = zstd_calculated D (pm_decoder st)"
    using sum by (auto simp: zstd_verify_checksum_success success split: if_splits)
  from run_open_success [OF opened] obtain tok n where "zstd_open D ?frame tok = (Opened d, position, n)"
    by blast
  with plain bs(3) reads same(2) have "zstd_frame_decodes D input f bs"
    unfolding zstd_frame_decodes_def Let_def by blast
  with u bs(1) same(1) counted_finish [OF bs(2) fin] show ?thesis by (intro exI [of _ bs]) simp
qed

text \<open>The frames one after the other.\<close>

lemma frames_deliver:
  assumes "for_fold (List.enumerate i frames) ctl step s = (Inr ctl', t)"
    and "\<And>ctl i f s ctl' t. step ctl (i, f) s = (Inr ctl', t) \<Longrightarrow>
      \<exists>bs. P f bs \<and> content (snd t) = content (snd s) @ bs \<and> counted ctl (length bs) 1 (of_bool (flag f)) ctl'"
  shows "\<exists>outs. list_all2 P frames outs \<and> content (snd t) = content (snd s) @ concat outs \<and>
    counted ctl (length (concat outs)) (length frames) (count_frames flag frames) ctl'"
  using assms(1)
proof (induction frames arbitrary: i ctl s)
  case (Cons f frames)
  from Cons.prems obtain c u where first: "step ctl (i, f) s = (Inr c, u)"
    and rest: "for_fold (List.enumerate (Suc i) frames) c step u = (Inr ctl', t)"
    by (auto simp: success)
  from assms(2) [OF first] obtain bs where bs: "P f bs" "content (snd u) = content (snd s) @ bs"
    "counted ctl (length bs) 1 (of_bool (flag f)) c" by blast
  from Cons.IH [OF rest] obtain outs where outs: "list_all2 P frames outs"
    "content (snd t) = content (snd u) @ concat outs"
    "counted c (length (concat outs)) (length frames) (count_frames flag frames) ctl'" by blast
  from bs outs counted_trans [OF bs(3) outs(3)] show ?case
    by (intro exI [of _ "bs # outs"]) (cases "flag f", simp_all add: count_frames_def)
qed (simp add: success count_frames_def)

end


section \<open>Sessions\<close>

text \<open>What the layout of a session decodes to.\<close>

definition stream_decodes :: "('x, 'z) frame_decoders \<Rightarrow> compressed_stream \<Rightarrow> byte_slice \<Rightarrow> bool" where
  "stream_decodes D c out \<longleftrightarrow> (case cs_layout c of
       LayoutLz4 frames \<Rightarrow>
         \<exists>outs. list_all2 (lz4_frame_decodes D (cs_bytes c)) frames outs \<and> out = concat outs
     | LayoutZstandard frames \<Rightarrow>
         \<exists>outs. list_all2 (zstd_frame_decodes D (cs_bytes c)) frames outs \<and> out = concat outs
     | LayoutUnixCompress l \<Rightarrow>
         lzw_decodes (drop 3 (cs_bytes c)) (unat (ul_maximum_code_bits l)) (ul_block_mode l) (Some out))"

definition frames_of :: "compressed_stream \<Rightarrow> nat" where
  "frames_of c = (case cs_layout c of LayoutLz4 frames \<Rightarrow> length frames
     | LayoutZstandard frames \<Rightarrow> length frames | LayoutUnixCompress l \<Rightarrow> 1)"

definition checksums_of :: "compressed_stream \<Rightarrow> nat" where
  "checksums_of c = (case cs_layout c of LayoutLz4 frames \<Rightarrow> count_frames lf_checksum frames
     | LayoutZstandard frames \<Rightarrow> count_frames zf_checksum frames | LayoutUnixCompress l \<Rightarrow> 0)"

definition extraction_of :: "('x, 'z) frame_decoders \<Rightarrow> compressed_stream \<Rightarrow> byte_slice \<Rightarrow> stream_extraction \<Rightarrow> bool" where
  "extraction_of D c out e \<longleftrightarrow>
     stream_decodes D c out \<and> declared_size (si_uncompressed_size (cs_info c)) out \<and>
     unat (se_output_bytes e) = length out \<and> unat (se_frames_decoded e) = frames_of c \<and>
     unat (se_checksums_verified e) = checksums_of c \<and>
     (out = [] \<or> se_output_bytes e \<le> max_entry_output_bytes (cs_limits c) \<and>
        se_output_bytes e \<le> max_total_output_bytes (cs_limits c))"

lemma parse_layout_unix:
  assumes "parse_layout D bytes limits format s = (Inr (k, declared, LayoutUnixCompress l), t)"
  shows "\<exists>info. unix_compress_parse bytes limits s = (Inr (info, l), t)"
  using assms by (cases format) (auto simp: parse_layout_def success)

lemma opened_stream:
  assumes "stream_open_bytes_inner D bytes format limits s = (Inr c, t)"
  shows "cs_bytes c = bytes \<and> cs_limits c = limits \<and>
    (\<forall>l. cs_layout c = LayoutUnixCompress l \<longrightarrow>
       (\<exists>info u v. unix_compress_parse bytes limits u = (Inr (info, l), v)))"
proof -
  from assms obtain f k declared layout u v where
    layout: "parse_layout D bytes limits f u = (Inr (k, declared, layout), v)"
    and c: "cs_bytes c = bytes" "cs_limits c = limits" "cs_layout c = layout"
    unfolding stream_open_bytes_inner_def by (clarsimp simp: success)
  show ?thesis
  proof (intro conjI allI impI c)
    fix l assume "cs_layout c = LayoutUnixCompress l"
    with c layout parse_layout_unix show "\<exists>info u v. unix_compress_parse bytes limits u = (Inr (info, l), v)"
      by fastforce
  qed
qed

context output_sink
begin

lemma extract_to_delivers:
  assumes opened: "stream_open_bytes_inner D bytes format limits s0 = (Inr c, s1)"
    and room: "roomy bytes (fst s)"
    and run: "extract_to D sink c s = (Inr e, t)"
  shows "\<exists>out. content (snd t) = content (snd s) @ out \<and> extraction_of D c out e"
proof -
  let ?ctl = "extraction_control_new (cs_limits c)"
  from run obtain ctl where decoded: "(case cs_layout c of
         LayoutLz4 frames \<Rightarrow> lz4_extract D sink (cs_bytes c) frames ?ctl
       | LayoutZstandard frames \<Rightarrow> zstd_extract D sink (cs_bytes c) frames ?ctl
       | LayoutUnixCompress layout \<Rightarrow> unix_compress_extract sink (cs_bytes c) layout ?ctl) s = (Inr ctl, t)"
    and size: "\<not> (case si_uncompressed_size (cs_info c) of None \<Rightarrow> False
         | Some expected \<Rightarrow> expected \<noteq> ec_output_bytes ctl)"
    and e: "e = extraction_finish ctl"
    by (auto simp: extract_to_def success Let_def)
  have "\<exists>out. content (snd t) = content (snd s) @ out \<and> stream_decodes D c out \<and>
      counted ?ctl (length out) (frames_of c) (checksums_of c) ctl"
  proof (cases "cs_layout c")
    case (LayoutLz4 frames)
    with decoded have "for_fold (List.enumerate 0 frames) ?ctl (lz4_extract_frame D sink (cs_bytes c)) s = (Inr ctl, t)"
      by (simp add: lz4_extract_def)
    then have "\<exists>outs. list_all2 (lz4_frame_decodes D (cs_bytes c)) frames outs \<and>
        content (snd t) = content (snd s) @ concat outs \<and>
        counted ?ctl (length (concat outs)) (length frames) (count_frames lf_checksum frames) ctl"
      by (rule frames_deliver) (rule lz4_frame_delivers)
    with LayoutLz4 show ?thesis
      by (auto simp: stream_decodes_def frames_of_def checksums_of_def)
  next
    case (LayoutZstandard frames)
    with decoded have "for_fold (List.enumerate 0 frames) ?ctl (zstd_extract_frame D sink (cs_bytes c)) s = (Inr ctl, t)"
      by (simp add: zstd_extract_def)
    then have "\<exists>outs. list_all2 (zstd_frame_decodes D (cs_bytes c)) frames outs \<and>
        content (snd t) = content (snd s) @ concat outs \<and>
        counted ?ctl (length (concat outs)) (length frames) (count_frames zf_checksum frames) ctl"
      by (rule frames_deliver) (rule zstd_frame_delivers)
    with LayoutZstandard show ?thesis
      by (auto simp: stream_decodes_def frames_of_def checksums_of_def)
  next
    case (LayoutUnixCompress l)
    note c = opened_stream [OF opened]
    with LayoutUnixCompress obtain info u v where parse: "unix_compress_parse bytes limits u = (Inr (info, l), v)"
      by blast
    from outcome_value [OF outcome_unix_compress_extract [OF parse room]] decoded LayoutUnixCompress c
    show ?thesis
      by (auto simp: stream_decodes_def frames_of_def checksums_of_def counted_def extraction_control_new_def)
  qed
  then obtain out where out: "content (snd t) = content (snd s) @ out" "stream_decodes D c out"
    and counted: "counted ?ctl (length out) (frames_of c) (checksums_of c) ctl" by blast
  from counted size have "extraction_of D c out e"
    using out(2) by (auto simp: extraction_of_def counted_def extraction_control_new_def e extraction_finish_def
        declared_size_def split: option.splits)
  with out show ?thesis by blast
qed

end


text \<open>C8: A session that opened and extracts successfully hands the caller's writer, in order and with
  nothing else, what the frames decode to: every LZ4 or Zstandard frame as its decoder yields it,
  consumed to its last byte and of its declared size, a Zstandard checksum compared; a Unix
  compress stream as the LZW reference decodes it.  The totals reported are the bytes written, the
  frames and the verified checksums; the bytes are within both output limits and are the declared
  aggregate size when there is one.\<close>

theorem extraction_delivers_frames:
  assumes "stream_open_bytes_inner D bytes format limits s0 = (Inr c, s1)" and "roomy bytes s"
    and "extract_to D (caller_sink w) c (s, log) = (Inr e, (t, log'))"
  shows "\<exists>out. concat log' = concat log @ out \<and> extraction_of D c out e"
  using caller.extract_to_delivers [OF assms(1), of "(s, log)" w e "(t, log')"] assms(2,3) by simp

text \<open>C9: Decompressing into memory returns what the frames of the session decode to, of the declared
  aggregate size when there is one.\<close>

theorem decompress_returns_stream:
  assumes "stream_open_bytes_inner D bytes format limits s0 = (Inr c, s1)" and "roomy bytes s"
    and "decompress D c s = (Inr out, t)"
  shows "stream_decodes D c out \<and> declared_size (si_uncompressed_size (cs_info c)) out"
proof -
  from assms(3) obtain v u where v: "fallible_vec_new (si_uncompressed_size (cs_info c)) s = (Inr v, u)"
    and rest: "(case extract_to D vec_sink c (u, v) of
        (Inl e, (t, _)) \<Rightarrow> (Inl e, t) | (Inr _, (t, v)) \<Rightarrow> (Inr (fv_bytes v), t)) = (Inr out, t)"
    unfolding decompress_def and_then_success by blast
  then obtain e v' where run: "extract_to D vec_sink c (u, v) = (Inr e, (t, v'))" and out: "out = fv_bytes v'"
    by (cases "extract_to D vec_sink c (u, v)") (auto split: sum.split_asm)
  from v have "fv_bytes v = []" and u: "still s u"
    by (auto simp: fallible_vec_new_def success Let_def dest: grow_still)
  with vec.extract_to_delivers [OF assms(1) _ run] assms(2) out show ?thesis
    by (auto simp: extraction_of_def roomy_def still_def)
qed

text \<open>One LZ4 frame of two stored bytes behind a skippable frame, and a decoder that copies them.\<close>

definition sample_decoders :: "(bool \<times> nat, unit) frame_decoders" where
  "sample_decoders =
     \<lparr>xxh32 = (\<lambda>_. 0), lz4_new = (\<lambda>frame. (False, length frame)),
      lz4_read = (\<lambda>(finished, n) _. (if finished then ReadOk 0 [] else ReadOk 2 [7, 8], n, 0, (True, n))),
      lz4_checksum_error = (\<lambda>_. False), zstd_open = (\<lambda>_ _. (OpenFailed, 0, 0)),
      zstd_read = (\<lambda>d _. (ReadPanicked, 0, 0, d)), zstd_stored = (\<lambda>_. None), zstd_calculated = (\<lambda>_. None)\<rparr>"

lemmas session_evaluate =
  stream_open_bytes_inner_def parse_layout_def consume_bytes_def detect_format_def detect_loop.simps
  detect_step_def UNIX_COMPRESS_MAGIC_def ZSTANDARD_MAGIC_def stream_usize_add_def sample_decoders_def
  lz4_evaluate evaluate stream_evaluate lz4_sample_def

lemma sample_opens:
  "\<exists>c t. stream_open_bytes_inner sample_decoders lz4_sample None default_limits (sample_session []) = (Inr c, t) \<and>
     cs_layout c = LayoutLz4 [\<lparr>lf_start = 9, lf_end = 26, lf_content_size = None, lf_checksum = False,
       lf_dictionary = False, lf_working_bytes = 262144\<rparr>] \<and>
     cs_bytes c = lz4_sample \<and> cs_limits c = default_limits \<and> si_uncompressed_size (cs_info c) = None \<and>
     si_format (cs_info c) = Lz4"
  by (simp add: session_evaluate)

lemmas extract_evaluate =
  extract_to_def lz4_extract_def lz4_extract_frame_def frame_index_def pump_reader_def pump_loop.simps
  pump_step_def pump_accept_def run_decoder_def write_output_def stream_output_total_def charge_output_def
  check_declared_def finish_frame_def extraction_control_new_def extraction_finish_def caller_sink_def
  written_def call_back_def vec_sink_def fallible_vec_new_def grow_def internal_def observe_cancelled_def
  count_one_def count_if_def

lemma sample_extracts:
  assumes "cs_layout c = LayoutLz4 [\<lparr>lf_start = 9, lf_end = 26, lf_content_size = None, lf_checksum = False,
       lf_dictionary = False, lf_working_bytes = 262144\<rparr>]"
    and "cs_bytes c = lz4_sample" and "cs_limits c = default_limits"
    and "si_uncompressed_size (cs_info c) = None"
  shows "\<exists>e t. extract_to sample_decoders (caller_sink (\<lambda>_ _. None)) c (sample_session [], []) = (Inr e, (t, [[7, 8]]))"
  by (simp add: assms extract_evaluate session_evaluate)

lemma sample_decompresses:
  assumes "cs_layout c = LayoutLz4 [\<lparr>lf_start = 9, lf_end = 26, lf_content_size = None, lf_checksum = False,
       lf_dictionary = False, lf_working_bytes = 262144\<rparr>]"
    and "cs_bytes c = lz4_sample" and "cs_limits c = default_limits"
    and "si_uncompressed_size (cs_info c) = None"
  shows "\<exists>t. decompress sample_decoders c (sample_session []) = (Inr [7, 8], t)"
  by (simp add: assms decompress_def extract_evaluate session_evaluate)

lemma sample_roomy: "roomy lz4_sample (sample_session [])"
  by (simp add: roomy_def lz4_sample_def sample_session_def)

lemma extraction_delivers_frames_witness: "\<exists>c e. extraction_of sample_decoders c [7, 8] e"
proof -
  obtain c t where open_c: "stream_open_bytes_inner sample_decoders lz4_sample None default_limits
      (sample_session []) = (Inr c, t)"
    and c: "cs_layout c = LayoutLz4 [\<lparr>lf_start = 9, lf_end = 26, lf_content_size = None, lf_checksum = False,
       lf_dictionary = False, lf_working_bytes = 262144\<rparr>]"
      "cs_bytes c = lz4_sample" "cs_limits c = default_limits" "si_uncompressed_size (cs_info c) = None"
    using sample_opens by blast
  from sample_extracts [OF c] obtain e u where
    run: "extract_to sample_decoders (caller_sink (\<lambda>_ _. None)) c (sample_session [], []) = (Inr e, (u, [[7, 8]]))"
    by blast
  from extraction_delivers_frames [OF open_c sample_roomy run] show ?thesis by auto
qed

lemma decompress_returns_stream_witness: "\<exists>c. stream_decodes sample_decoders c [7, 8]"
proof -
  obtain c t where open_c: "stream_open_bytes_inner sample_decoders lz4_sample None default_limits
      (sample_session []) = (Inr c, t)"
    and c: "cs_layout c = LayoutLz4 [\<lparr>lf_start = 9, lf_end = 26, lf_content_size = None, lf_checksum = False,
       lf_dictionary = False, lf_working_bytes = 262144\<rparr>]"
      "cs_bytes c = lz4_sample" "cs_limits c = default_limits" "si_uncompressed_size (cs_info c) = None"
    using sample_opens by blast
  from sample_decompresses [OF c] obtain u where
    run: "decompress sample_decoders c (sample_session []) = (Inr [7, 8], u)" by blast
  from decompress_returns_stream [OF open_c sample_roomy run] show ?thesis by blast
qed

end
