(* ===== verification/Spec2Isabelle.thy ===== *)
theory Spec2Isabelle
  imports Pipeline_Laws Safe_Path Header_Roundtrip Core_Properties Range_Laws Filter_Spec Bcj2_Laws Cpio_Properties Deb_Tar_Properties Stream_Laws
begin

text \<open>
  A verification library of the Rust crate \<^verbatim>\<open>unpackio\<close> (\<^verbatim>\<open>src/crates/unpackio/src\<close>), a reader of
  7z, CPIO, Debian, ZIP, RPM, ARJ and single-stream archives that accepts hostile input: every size
  is checked against a limit, every step can be cancelled and pays from a work budget, arithmetic is
  checked, and nothing panics.  All paths below are relative to \<^verbatim>\<open>src/crates/unpackio/src\<close>.

  \<^bold>\<open>How the program is modelled.\<close>

  \<^item> An operation that returns \<^verbatim>\<open>Result<T>\<close> and borrows state mutably is a function from a state to
    an error or a value together with the state after it (\<open>Computation\<close>: \<open>comp\<close>, \<open>and_then\<close> for
    \<^verbatim>\<open>?\<close>).  The state survives an error, as the borrowed objects do.
  \<^item> The state of one operation is the \<open>session\<close> (\<open>Session\<close>): the work budget, the control block
    and the machine.  Other threads may cancel at any time, so the loads of the shared flag are an
    oracle; the allocator answers each request as an oracle over the requests made so far and may
    reserve more than was asked for; the largest \<^verbatim>\<open>usize\<close> is a parameter of the platform.
  \<^item> A callback (\<^verbatim>\<open>dyn Write\<close>, an entry sink) is code of the caller: the log of the calls made so far
    is kept beside the session and the answer is an oracle over it (\<open>Callbacks\<close>).
  \<^item> Third-party code (decoders, \<^verbatim>\<open>XxHash32\<close>) is an argument of the definitions that use it.
  \<^item> Machine integers are words of their width; \<^verbatim>\<open>usize\<close> is a natural number below the bound of the
    platform.  Checked arithmetic is written out with the error of its failure, also where the
    laws below show that it cannot fail.
  \<^item> A \<^verbatim>\<open>while\<close> or \<^verbatim>\<open>loop\<close> is a recursive function with a termination measure: the bytes that are left,
    the entries of a queue, the bits of a stream.  There is no fuel, so every operation of the
    model returns.  A guard that the recursion needs and the code does not have is named in the
    theory and shown to be true whenever it is evaluated.  Every loop interprets the locale \<open>loop\<close>
    of \<open>Loop_Laws\<close>, whose rules carry invariants over success, failure and both.

  \<^bold>\<open>The theories, in the order of the calls.\<close>

  \<^item> \<open>Prelude\<close>, \<open>Archive_Errors\<close> (\<^verbatim>\<open>error.rs\<close>), \<open>Resource_Limits\<close> (\<^verbatim>\<open>limits.rs\<close>), \<open>Computation\<close>,
    \<open>Session\<close> (\<^verbatim>\<open>cancel.rs\<close>, \<^verbatim>\<open>parse_util.rs\<close>): words and bytes, errors, limits, the calculus, charges
    and checkpoints.  \<open>Session_Laws\<close>: what a charge does on both outcomes, and the relations that
    every operation respects (budget conserved, counters only grow, oracles untouched).
  \<^item> \<open>Checksum_Crc\<close> (\<^verbatim>\<open>checksum.rs\<close>), \<open>Bounded_Reader\<close> (\<^verbatim>\<open>bounded.rs\<close>), \<open>Byte_Access\<close>,
    \<open>Coder_Properties\<close> (\<^verbatim>\<open>coder_properties.rs\<close>), \<open>Safe_Path\<close> (\<^verbatim>\<open>path.rs\<close>), \<open>Archive_Model\<close> (\<^verbatim>\<open>model.rs\<close>).
  \<^item> The 7z metadata: \<open>Raw_Header\<close> (\<^verbatim>\<open>raw.rs\<close>) reads the next header into syntax records, \<open>Graph\<close>
    (\<^verbatim>\<open>graph.rs\<close>) validates the coder graph of a folder and orders it, \<open>Validation\<close> (\<^verbatim>\<open>validate.rs\<close>)
    turns syntax into the archive model, and \<open>Header_Parser\<close> (\<^verbatim>\<open>parser.rs\<close>) finds the signature
    (also behind a self-extractor stub) and drives the others.
  \<^item> The 7z filters: \<open>Word_Filters\<close>, \<open>X86_Filter\<close>, \<open>Bcj2\<close> (\<^verbatim>\<open>decode/filters.rs\<close>) and \<open>Compat_Filters\<close>
    (\<^verbatim>\<open>decode/phase5_filters.rs\<close>).
  \<^item> Containers in memory: \<open>Cpio\<close> (\<^verbatim>\<open>cpio.rs\<close>, \<^verbatim>\<open>rpm/cpio.rs\<close>), \<open>Deb_Ar\<close> (\<^verbatim>\<open>deb/ar.rs\<close>) and \<open>Deb_Tar\<close>
    (\<^verbatim>\<open>deb/tar.rs\<close>), over the shared relation of \<open>Member_Layout\<close>.
  \<^item> Single streams: \<open>Stream_Cursor\<close> (\<^verbatim>\<open>stream/cursor.rs\<close>), \<open>Lz4_Layout\<close> and \<open>Zstd_Layout\<close>
    (\<^verbatim>\<open>stream/lz4.rs\<close>, \<^verbatim>\<open>stream/zstandard.rs\<close>) list the frames of an input; \<open>Stream_Control\<close>
    (\<^verbatim>\<open>stream/mod.rs\<close>) counts and limits the output and pumps a decoder into a writer; the three
    writers of the crate interpret its locale \<open>output_sink\<close>.  \<open>Unix_Compress\<close>
    (\<^verbatim>\<open>stream/unix_compress.rs\<close>) is the LZW decoder.  \<open>Stream_Session\<close> detects the format, opens a
    session and extracts its frames into a writer, a vector, or nothing.

  \<^bold>\<open>What the theorems show.\<close>

  \<^item> \<open>Core_Properties\<close>: charges are exact, the table-driven checksum is the bitwise CRC-32, the
    variable-length numbers are decoded as written, a parsed header was paid for byte by byte and
    its totals are within the limits.
  \<^item> \<open>Header_Encoding\<close>, \<open>Header_Roundtrip\<close>: a writer for the next header; parsing what it wrote
    gives the header back, up to limits and resources.
  \<^item> \<open>Graph_Laws\<close>: the scheduler returns a topological order or the graph has a cycle, and validation
    accepts exactly the well-formed graphs.  \<open>Range_Laws\<close>: the packed streams of a validated archive
    are laid out inside it, and the sorted sweep decides disjointness.  \<open>Pipeline_Laws\<close>: cancellation
    and the budget through the whole parse.
  \<^item> \<open>Filter_Laws\<close>, \<open>Filter_Spec\<close>, \<open>Bcj2_Laws\<close>: the filters undo their encoders, keep the length of
    the buffer, cannot fail in their own checks, and x86 changes operands only; BCJ2 stays within
    its limit.
  \<^item> \<open>Cpio_Laws\<close>, \<open>Cpio_Properties\<close>, \<open>Deb_Ar_Laws\<close>: opened archives list in-bounds, disjoint members
    that match their checksums; extraction hands out verified data in order.
  \<^item> \<open>Deb_Tar_Laws\<close>, \<open>Deb_Tar_Properties\<close>: the numeric fields of tar headers are octal or two's
    complement numbers; the members of an archive that parses lie in order under headers whose
    checksums hold, and the totals of the package are exact.
  \<^item> \<open>Lzw_Spec\<close> is LZW decoding over a dictionary of strings.  \<open>Lzw_Tables\<close>, \<open>Lzw_Buffer\<close>, \<open>Lzw_Codes\<close>
    and \<open>Lzw_Decoding\<close> show that the code reader, the tables of prefixes and suffixes, the output
    buffer and the loop implement it.
  \<^item> \<open>Lz4_Laws\<close>, \<open>Zstd_Laws\<close>: the frames of a stream that opens tile it, and their descriptors say
    what the layout records.  \<open>Stream_Laws\<close>: an extraction delivers what the frames decode to, each
    consumed to its end, with the totals it reports.

  \<^bold>\<open>Not modelled.\<close>  File I/O and volumes (\<^verbatim>\<open>archive.rs\<close>, \<^verbatim>\<open>volume.rs\<close>), the entropy decoders of 7z
  and ZIP (\<^verbatim>\<open>decode/lzma.rs\<close>, \<^verbatim>\<open>decode/ppmd.rs\<close> and others) and the decoders of other crates, the ZIP, RPM
  and ARJ containers and the package level of Debian, the Python bindings, and the source chain of
  errors.  \<^verbatim>\<open>PROJECT.json\<close> lists each part with the reason.
\<close>

end
